(* ===== verification/Prelude.thy ===== *)
theory Prelude
  imports Main "HOL-Library.Word"
begin

text \<open>
  Shared vocabulary of the development: the widths of the C integers, the faults a C
  operation of the kernel can run into, the flat byte memory with its little-endian
  accesses, and the generic lemmas on lists, words and memory that the component
  theories use. Nothing here models one particular source file; the little-endian
  accessors are the \<open>U8\<close>/\<open>U16\<close>/\<open>U32\<close>/\<open>U64\<close> dereferences of \<open>utils/bit.h\<close>.
\<close>

unbundle bit_operations_syntax

section \<open>C types and faults\<close>

type_synonym u8 = "8 word"
type_synonym u16 = "16 word"
type_synonym u32 = "32 word"
type_synonym u64 = "64 word"

text \<open>
  Where the source indexes outside an array, dereferences a null pointer, divides by
  zero, reads an uninitialised object, stops the processor, loops for ever or shifts by the
  width of the operand, the model returns a fault.
\<close>

datatype fault = OutOfBounds | NullDeref | DivByZero | Uninitialised | Halted | Hangs | Undefined

type_synonym 'a outcome = "fault + 'a"

text \<open>
  Sequencing of fallible steps: the second step runs on the result of the first.
\<close>

definition andthen :: "'a outcome \<Rightarrow> ('a \<Rightarrow> 'b outcome) \<Rightarrow> 'b outcome" where
  "andthen x f = (case x of Inl e \<Rightarrow> Inl e | Inr a \<Rightarrow> f a)"

text \<open>The conversion of a mathematical integer to a 32-bit C \<open>int\<close>.\<close>

definition int32 :: "int \<Rightarrow> int" where
  "int32 x = (x + 2 ^ 31) mod 2 ^ 32 - 2 ^ 31"

text \<open>An \<open>unsigned long\<close> passed where the callee takes an \<open>int\<close>: the low 32 bits, signed.\<close>

definition long_to_int :: "u64 \<Rightarrow> int" where
  "long_to_int w = sint (ucast w :: u32)"

text \<open>Array stores that check the index, as the faults require.\<close>

definition array_get :: "'a list \<Rightarrow> nat \<Rightarrow> 'a outcome" where
  "array_get xs i = (if i < length xs then Inr (xs ! i) else Inl OutOfBounds)"

definition array_set :: "'a list \<Rightarrow> nat \<Rightarrow> 'a \<Rightarrow> 'a list outcome" where
  "array_set xs i v = (if i < length xs then Inr (xs[i := v]) else Inl OutOfBounds)"

section \<open>Byte memory\<close>

type_synonym mem = "u64 \<Rightarrow> u8"

fun load_bytes :: "mem \<Rightarrow> u64 \<Rightarrow> nat \<Rightarrow> u8 list" where
  "load_bytes m a 0 = []"
| "load_bytes m a (Suc n) = m a # load_bytes m (a + 1) n"

fun store_bytes :: "mem \<Rightarrow> u64 \<Rightarrow> u8 list \<Rightarrow> mem" where
  "store_bytes m a [] = m"
| "store_bytes m a (b # bs) = store_bytes (m(a := b)) (a + 1) bs"

fun le_nat :: "u8 list \<Rightarrow> nat" where
  "le_nat [] = 0"
| "le_nat (b # bs) = unat b + 256 * le_nat bs"

fun le_bytes :: "nat \<Rightarrow> nat \<Rightarrow> u8 list" where
  "le_bytes 0 v = []"
| "le_bytes (Suc n) v = of_nat (v mod 256) # le_bytes n (v div 256)"

definition U16 :: "mem \<Rightarrow> u64 \<Rightarrow> u16" where
  "U16 m a = of_nat (le_nat (load_bytes m a 2))"

definition U32 :: "mem \<Rightarrow> u64 \<Rightarrow> u32" where
  "U32 m a = of_nat (le_nat (load_bytes m a 4))"

definition U64 :: "mem \<Rightarrow> u64 \<Rightarrow> u64" where
  "U64 m a = of_nat (le_nat (load_bytes m a 8))"

definition set_U32 :: "mem \<Rightarrow> u64 \<Rightarrow> u32 \<Rightarrow> mem" where
  "set_U32 m a v = store_bytes m a (le_bytes 4 (unat v))"

definition set_U64 :: "mem \<Rightarrow> u64 \<Rightarrow> u64 \<Rightarrow> mem" where
  "set_U64 m a v = store_bytes m a (le_bytes 8 (unat v))"

text \<open>The address lies in the block of \<open>n\<close> bytes at \<open>a\<close> (addresses wrap at 64 bits).\<close>

definition in_block :: "u64 \<Rightarrow> nat \<Rightarrow> u64 \<Rightarrow> bool" where
  "in_block a n x \<longleftrightarrow> unat (x - a) < n"

text \<open>Two blocks share no byte and neither wraps around the end of the address space.\<close>

definition disjoint_blocks :: "u64 \<Rightarrow> nat \<Rightarrow> u64 \<Rightarrow> nat \<Rightarrow> bool" where
  "disjoint_blocks a m b n \<longleftrightarrow>
     unat a + m \<le> 2 ^ 64 \<and> unat b + n \<le> 2 ^ 64 \<and>
     (unat a + m \<le> unat b \<or> unat b + n \<le> unat a)"

section \<open>Generic lemmas\<close>

named_theorems kdefs \<open>the definitions of the kernel operations\<close>
named_theorems klens \<open>length laws of the kernel's arrays\<close>

lemma andthen_simps [simp]:
  "andthen (Inl e) f = Inl e"
  "andthen (Inr a) f = f a"
  by (simp_all add: andthen_def)

lemma andthen_assoc: "andthen (andthen x f) g = andthen x (\<lambda>a. andthen (f a) g)"
  by (simp add: andthen_def split: sum.splits)

lemma andthen_Inr_iff: "andthen x f = Inr b \<longleftrightarrow> (\<exists>a. x = Inr a \<and> f a = Inr b)"
  by (cases x) auto

lemma andthen_split:
  "P (andthen x f) \<longleftrightarrow> (\<forall>e. x = Inl e \<longrightarrow> P (Inl e)) \<and> (\<forall>a. x = Inr a \<longrightarrow> P (f a))"
  by (cases x) auto

text \<open>A condition on every result of a computation, with one rule per construct.\<close>

definition every :: "('a \<Rightarrow> bool) \<Rightarrow> 'a outcome \<Rightarrow> bool" where
  "every P x \<longleftrightarrow> (\<forall>r. x = Inr r \<longrightarrow> P r)"

lemma every_andthen: "(\<And>a. x = Inr a \<Longrightarrow> every P (f a)) \<Longrightarrow> every P (andthen x f)"
  by (auto simp: every_def andthen_Inr_iff)

lemma every_andthen_prod:
  "(\<And>a b. x = Inr (a, b) \<Longrightarrow> every P (f a b)) \<Longrightarrow> every P (andthen x (\<lambda>(a, b). f a b))"
  by (auto simp: every_def andthen_Inr_iff)

lemma every_Inr: "P r \<Longrightarrow> every P (Inr r)"
  by (simp add: every_def)

lemma every_Inl: "every P (Inl e)"
  by (simp add: every_def)

lemma every_let_prod: "(\<And>a b. e = (a, b) \<Longrightarrow> every P (f a b)) \<Longrightarrow> every P (let (a, b) = e in f a b)"
  by (simp split: prod.split)

lemma every_let: "(\<And>x. x = e \<Longrightarrow> every P (f x)) \<Longrightarrow> every P (let x = e in f x)"
  by simp

lemma every_prod: "(\<And>a b. e = (a, b) \<Longrightarrow> every P (f a b)) \<Longrightarrow> every P (case e of (a, b) \<Rightarrow> f a b)"
  by (simp split: prod.split)

lemma every_option:
  "(e = None \<Longrightarrow> every P a) \<Longrightarrow> (\<And>x. e = Some x \<Longrightarrow> every P (b x)) \<Longrightarrow>
   every P (case e of None \<Rightarrow> a | Some x \<Rightarrow> b x)"
  by (simp split: option.split)

lemma every_if: "(c \<Longrightarrow> every P a) \<Longrightarrow> (\<not> c \<Longrightarrow> every P b) \<Longrightarrow> every P (if c then a else b)"
  by simp

lemma everyD: "every P x \<Longrightarrow> x = Inr r \<Longrightarrow> P r"
  by (simp add: every_def)

lemmas every_intros = every_andthen_prod every_andthen every_Inr every_Inl every_let_prod every_let every_prod every_option every_if

lemma int32_id [simp]: "- (2 ^ 31) \<le> x \<Longrightarrow> x < 2 ^ 31 \<Longrightarrow> int32 x = x"
  by (simp add: int32_def)

lemma int32_range: "- (2 ^ 31) \<le> int32 x" "int32 x < 2 ^ 31"
  using pos_mod_bound [of "2 ^ 32" "x + 2 ^ 31"] pos_mod_sign [of "2 ^ 32" "x + 2 ^ 31"]
  by (simp_all add: int32_def)

lemma long_to_int_small: "unat w < 2 ^ 31 \<Longrightarrow> long_to_int w = int (unat w)"
proof -
  assume w: "unat w < 2 ^ 31"
  have b: "uint w < 2 ^ 31" using w by (simp add: nat_less_iff flip: nat_uint_eq)
  then have u: "uint (ucast w :: u32) = int (unat w)"
    by (simp add: unsigned_ucast_eq take_bit_int_eq_self)
  have "sint (ucast w :: u32) = signed_take_bit (LENGTH(32) - Suc 0) (uint (ucast w :: u32))"
    by (rule sint_uint)
  also have "\<dots> = int (unat w)"
    unfolding u using b
    by (intro signed_take_bit_int_eq_self) (auto intro: order_trans [of _ 0])
  finally show ?thesis by (simp add: long_to_int_def)
qed

lemma array_set_length: "array_set xs i v = Inr ys \<Longrightarrow> length ys = length xs"
  by (auto simp: array_set_def split: if_splits)

subsection \<open>Words as naturals\<close>

lemma unat_u8_less: "unat (b :: u8) < 256"
  using unsigned_less [of b, where ?'a = nat] by simp

lemma unat_u32_less: "unat (w :: u32) < 4294967296"
  using unsigned_less [of w, where ?'a = nat] by simp

lemma unat_u64_less: "unat (w :: u64) < 18446744073709551616"
  using unsigned_less [of w, where ?'a = nat] by simp

lemma unat_of_nat64 [simp]: "i < 18446744073709551616 \<Longrightarrow> unat (of_nat i :: u64) = i"
  by (simp add: unat_of_nat)

lemma unat_of_nat32 [simp]: "i < 4294967296 \<Longrightarrow> unat (of_nat i :: u32) = i"
  by (simp add: unat_of_nat)

lemma unat_ucast_32: "unat (ucast (w :: u32) :: u64) = unat w"
  by (simp add: unsigned_ucast_eq take_bit_nat_eq_self unsigned_less [where ?'a = nat] order_less_trans
      [OF unsigned_less [of w, where ?'a = nat]])

lemma unat_of_nat8 [simp]: "i < 256 \<Longrightarrow> unat (of_nat i :: u8) = i"
  by (simp add: unat_of_nat)

lemma unat_ucast_up: "LENGTH('a::len) \<le> LENGTH('b::len) \<Longrightarrow> unat (ucast (x :: 'a word) :: 'b word) = unat x"
  by (simp add: unsigned_ucast_eq take_bit_nat_eq_self_iff less_le_trans [OF unsigned_less])

lemma unat_ucast_u64 [simp]:
  "unat (ucast (a :: u8) :: u64) = unat a"
  "unat (ucast (b :: u16) :: u64) = unat b"
  "unat (ucast (c :: u32) :: u64) = unat c"
  by (simp_all add: unat_ucast_up)

lemma ucast_scast_u32: "(ucast (scast (x :: u32) :: u64) :: u32) = x"
  by (rule bit_word_eqI) (simp add: bit_simps)

lemma scast_u32_eq_0: "(scast (x :: u32) :: u64) = 0 \<longleftrightarrow> x = 0"
  using ucast_scast_u32 [of x] by auto

lemma unat_ucast_down: "unat (ucast (w :: 'a::len word) :: 'b::len word) = unat w mod 2 ^ LENGTH('b)"
  by (simp add: unsigned_ucast_eq take_bit_eq_mod)

lemma unat_drop_bit: "unat (drop_bit n (w :: 'a::len word)) = unat w div 2 ^ n"
proof -
  have "unat (drop_bit n w) = drop_bit n (unat w)" by (simp add: unsigned_drop_bit_eq take_bit_nat_eq_self [OF unsigned_less])
  then show ?thesis by (simp add: drop_bit_eq_div)
qed

lemma sint_small_u32: "unat (w :: u32) < 2 ^ 31 \<Longrightarrow> sint w = int (unat w)"
proof -
  assume w: "unat w < 2 ^ 31"
  then have "uint w < 2 ^ 31" by (simp add: nat_less_iff flip: nat_uint_eq)
  then have "signed_take_bit (LENGTH(32) - Suc 0) (uint w) = uint w"
    by (intro signed_take_bit_int_eq_self) (auto intro: order_trans [of _ 0])
  then show ?thesis by (simp add: sint_uint)
qed

lemma sint_small_u64: "unat (w :: u64) < 2 ^ 63 \<Longrightarrow> sint w = int (unat w)"
proof -
  assume w: "unat w < 2 ^ 63"
  then have "uint w < 2 ^ 63" by (simp add: nat_less_iff flip: nat_uint_eq)
  then have "signed_take_bit (LENGTH(64) - Suc 0) (uint w) = uint w"
    by (intro signed_take_bit_int_eq_self) (auto intro: order_trans [of _ 0])
  then show ?thesis by (simp add: sint_uint)
qed

lemma unat_m1_u64: "unat (- 1 :: u64) = 18446744073709551615"
  by (simp add: unsigned_minus_1_eq_mask mask_eq_exp_minus_1)

lemma unat_diff_eq_iff:
  assumes "n < 2 ^ 64"
  shows "unat (x - d) = n \<longleftrightarrow> x = d + (of_nat n :: u64)"
proof
  show "unat (x - d) = n \<Longrightarrow> x = d + of_nat n"
    by (drule arg_cong [where f = "of_nat :: nat \<Rightarrow> u64"]) (simp add: algebra_simps)
  show "x = d + of_nat n \<Longrightarrow> unat (x - d) = n"
    using assms by simp
qed

lemma byte_masks:
  "(0xFFFFFFFF :: 'a::len word) = mask 32" "(0xFFFF :: 'a word) = mask 16" "(0xFF :: 'a word) = mask 8"
  "(0x3F :: 'a word) = mask 6" "(0x1F :: 'a word) = mask 5" "(0x0F :: 'a word) = mask 4" "(0x07 :: 'a word) = mask 3"
  by (simp_all add: mask_eq_exp_minus_1)

lemma sint_eq_iff [simp]: "sint x = sint y \<longleftrightarrow> x = (y :: 'a::len word)"
  by (auto intro: signed_word_eqI)

subsection \<open>Little-endian codec\<close>

lemma length_load_bytes [simp]: "length (load_bytes m a n) = n"
  by (induction n arbitrary: a) auto

lemma length_le_bytes [simp]: "length (le_bytes n v) = n"
  by (induction n arbitrary: v) auto

lemma bytes_numeral:
  "load_bytes m a (numeral k) = m a # load_bytes m (a + 1) (pred_numeral k)"
  "le_bytes (numeral k) v = of_nat (v mod 256) # le_bytes (pred_numeral k) (v div 256)"
  by (simp_all only: numeral_eq_Suc [of k] load_bytes.simps le_bytes.simps)

lemma le_nat_bound: "le_nat bs < 256 ^ length bs"
proof (induction bs)
  case Nil
  then show ?case by simp
next
  case (Cons b bs)
  have "unat b < 256" by (rule unat_u8_less)
  moreover have "256 * Suc (le_nat bs) \<le> 256 * 256 ^ length bs"
    using Cons by (intro mult_le_mono) auto
  ultimately show ?case by simp
qed

lemma le_nat_le_bytes: "le_nat (le_bytes n v) = v mod 256 ^ n"
proof (induction n arbitrary: v)
  case 0
  then show ?case by simp
next
  case (Suc n)
  have "unat (of_nat (v mod 256) :: u8) = v mod 256"
    by (simp add: unat_of_nat)
  with Suc show ?case by (simp add: mod_mult2_eq)
qed

lemma le_bytes_le_nat: "le_bytes (length bs) (le_nat bs) = bs"
proof (induction bs)
  case Nil
  then show ?case by simp
next
  case (Cons b bs)
  have b: "unat b < 256" by (rule unat_u8_less)
  then have "(unat b + 256 * le_nat bs) mod 256 = unat b"
    and "(unat b + 256 * le_nat bs) div 256 = le_nat bs"
    by simp_all
  with Cons show ?case by simp
qed

lemma le_nat_append: "le_nat (xs @ ys) = le_nat xs + 256 ^ length xs * le_nat ys"
  by (induction xs) (simp_all add: algebra_simps)

lemma le_nat_zeros [simp]: "le_nat (replicate n 0) = 0"
  by (induction n) simp_all

subsection \<open>Blocks of memory\<close>

lemma store_bytes_append:
  "store_bytes m a (xs @ ys) = store_bytes (store_bytes m a xs) (a + of_nat (length xs)) ys"
  by (induction xs arbitrary: m a) (simp_all add: add.assoc)

lemma unat_add_of_nat: "unat (a :: u64) + n < 2 ^ 64 \<Longrightarrow> unat (a + of_nat n) = unat a + n"
  by (simp add: unat_word_ariths unat_of_nat)

lemma offset_inj:
  "i < 2 ^ 64 \<Longrightarrow> j < 2 ^ 64 \<Longrightarrow> (a :: u64) + of_nat i = a + of_nat j \<longleftrightarrow> i = j"
  by (simp add: word_of_nat_eq_iff take_bit_nat_eq_self)

lemma load_bytes_conv: "load_bytes m a n = map (\<lambda>i. m (a + of_nat i)) [0..<n]"
proof (induction n arbitrary: a)
  case 0
  then show ?case by simp
next
  case (Suc n)
  have "load_bytes m a (Suc n) = m a # map (\<lambda>i. m (a + 1 + of_nat i)) [0..<n]"
    by (simp add: Suc)
  also have "\<dots> = map (\<lambda>i. m (a + of_nat i)) (0 # map Suc [0..<n])"
    by (simp add: add.assoc o_def)
  also have "0 # map Suc [0..<n] = [0..<Suc n]"
    by (simp add: map_Suc_upt upt_conv_Cons)
  finally show ?case .
qed

lemma load_bytes_nth: "i < n \<Longrightarrow> load_bytes m a n ! i = m (a + of_nat i)"
  by (simp add: load_bytes_conv)

lemma load_bytes_append:
  "load_bytes m a (i + n) = load_bytes m a i @ load_bytes m (a + of_nat i) n"
  by (induction i arbitrary: a) (simp_all add: add.assoc)

lemma load_bytes_cong:
  "(\<And>i. i < n \<Longrightarrow> m (a + of_nat i) = m' (a + of_nat i)) \<Longrightarrow> load_bytes m a n = load_bytes m' a n"
  by (simp add: load_bytes_conv)

lemma store_bytes_apply:
  "length bs \<le> 2 ^ 64 \<Longrightarrow>
   store_bytes m a bs x = (if in_block a (length bs) x then bs ! unat (x - a) else m x)"
proof (induction bs arbitrary: m a)
  case Nil
  then show ?case by (simp add: in_block_def)
next
  case (Cons b bs)
  have ih: "store_bytes (m(a := b)) (a + 1) bs x =
      (if in_block (a + 1) (length bs) x then bs ! unat (x - (a + 1)) else (m(a := b)) x)"
    using Cons by simp
  show ?case
  proof (cases "x = a")
    case True
    have "unat (x - (a + 1)) = 2 ^ 64 - 1"
      by (simp add: True unat_m1_u64)
    then have "\<not> in_block (a + 1) (length bs) x"
      using Cons.prems by (simp add: in_block_def)
    with ih True show ?thesis by (simp add: in_block_def)
  next
    case False
    then have "unat (x - a) \<noteq> 0" by (simp add: unat_eq_0)
    moreover have "unat (x - (a + 1)) = unat (x - a) - 1"
      using unat_minus_one [of "x - a"] False by (simp add: diff_diff_eq)
    ultimately show ?thesis
      using ih False by (auto simp: in_block_def nth_Cons' less_Suc_eq_le)
  qed
qed

lemma load_store_bytes: "length bs \<le> 2 ^ 64 \<Longrightarrow> load_bytes (store_bytes m a bs) a (length bs) = bs"
proof (rule nth_equalityI)
  assume len: "length bs \<le> 2 ^ 64"
  fix i assume "i < length (load_bytes (store_bytes m a bs) a (length bs))"
  then have i: "i < length bs" by simp
  with len have "unat (of_nat i :: u64) = i"
    by (simp add: unat_of_nat)
  with i len show "load_bytes (store_bytes m a bs) a (length bs) ! i = bs ! i"
    by (simp add: load_bytes_nth store_bytes_apply in_block_def)
qed simp

lemma not_in_block_disjoint:
  assumes "disjoint_blocks a m b n" and "i < n"
  shows "\<not> in_block a m (b + of_nat i)"
proof -
  have bi: "unat (b + of_nat i) = unat b + i"
    using assms by (intro unat_add_of_nat) (auto simp: disjoint_blocks_def)
  show ?thesis
  proof (cases "unat a + m \<le> unat b")
    case True
    then have "a \<le> b + of_nat i" using bi by (simp add: word_le_nat_alt)
    then show ?thesis using True bi by (simp add: in_block_def unat_sub)
  next
    case False
    then have lt: "unat b + n \<le> unat a" using assms by (simp add: disjoint_blocks_def)
    then have "unat (b + of_nat i) < unat a" using bi assms(2) by simp
    then have "unat (b + of_nat i - a) = 2 ^ 64 - unat a + (unat b + i)"
      using bi unat_u64_less [of a] by (simp add: unat_sub_if')
    moreover have "unat a + m \<le> 2 ^ 64" using assms(1) by (simp add: disjoint_blocks_def)
    ultimately show ?thesis by (simp add: in_block_def)
  qed
qed

lemma disjoint_blocks_sym: "disjoint_blocks a m b n \<longleftrightarrow> disjoint_blocks b n a m"
  by (auto simp: disjoint_blocks_def)

lemma load_store_disjoint:
  assumes "disjoint_blocks a (length bs) b n"
  shows "load_bytes (store_bytes m a bs) b n = load_bytes m b n"
proof (rule load_bytes_cong)
  fix i assume "i < n"
  moreover have "length bs \<le> 2 ^ 64" using assms by (simp add: disjoint_blocks_def)
  ultimately show "store_bytes m a bs (b + of_nat i) = m (b + of_nat i)"
    using not_in_block_disjoint [OF assms] by (simp add: store_bytes_apply)
qed

lemma U64_set_U64_same [simp]: "U64 (set_U64 m a v) a = v"
proof -
  have "load_bytes (store_bytes m a (le_bytes 8 (unat v))) a (length (le_bytes 8 (unat v))) =
      le_bytes 8 (unat v)"
    by (rule load_store_bytes) simp
  moreover have "unat v < 256 ^ 8" using unat_u64_less [of v] by simp
  ultimately show ?thesis
    by (simp add: U64_def set_U64_def le_nat_le_bytes)
qed

lemma U64_set_U64_other: "disjoint_blocks a 8 b 8 \<Longrightarrow> U64 (set_U64 m a v) b = U64 m b"
  by (simp add: U64_def set_U64_def load_store_disjoint)

lemma load_set_U64_other: "disjoint_blocks a 8 b n \<Longrightarrow> load_bytes (set_U64 m a v) b n = load_bytes m b n"
  by (simp add: set_U64_def load_store_disjoint)

subsection \<open>Fields of structures given by their bytes\<close>

lemma load_bytes_slice:
  "off + n \<le> k \<Longrightarrow> load_bytes m (a + of_nat off) n = take n (drop off (load_bytes m a k))"
  using load_bytes_append [of m a off "k - off"] load_bytes_append [of m "a + of_nat off" n "k - off - n"] by simp

lemma U16_bytes: "load_bytes m a 2 = le_bytes 2 (unat v) \<Longrightarrow> U16 m a = v"
  using unsigned_less [of v, where ?'a = nat] by (simp add: U16_def le_nat_le_bytes)

lemma U32_bytes: "load_bytes m a 4 = le_bytes 4 (unat v) \<Longrightarrow> U32 m a = v"
  using unat_u32_less [of v] by (simp add: U32_def le_nat_le_bytes)

lemma U64_bytes: "load_bytes m a 8 = le_bytes 8 (unat v) \<Longrightarrow> U64 m a = v"
  using unat_u64_less [of v] by (simp add: U64_def le_nat_le_bytes)

subsection \<open>Counting loops\<close>

lemma upt_split: "i \<le> j \<Longrightarrow> j \<le> k \<Longrightarrow> [i..<k] = [i..<j] @ [j..<k]"
  using upt_add_eq_append [of i j "k - j"] by simp

text \<open>
  A loop \<open>FORI(n)\<close> of the source is a fold over \<open>[0..<n]\<close>. Its invariants are proved
  by induction on the number of iterations done.
\<close>

lemma fold_upt_invariant:
  assumes "P 0 s" and "\<And>i s. i < n \<Longrightarrow> P i s \<Longrightarrow> P (Suc i) (f i s)"
  shows "P n (fold f [0..<n] s)"
proof -
  have "k \<le> n \<Longrightarrow> P k (fold f [0..<k] s)" for k
  proof (induction k)
    case 0
    then show ?case using assms(1) by simp
  next
    case (Suc k)
    then have "P (Suc k) (f k (fold f [0..<k] s))" using assms(2) by simp
    then show ?case by simp
  qed
  then show ?thesis by simp
qed

end
