(* ===== verification/CString.thy ===== *)
theory CString
  imports Prelude
begin

text \<open>
  The kernel's string and memory routines, \<open>src/src/stdlib/string.c\<close> (\<open>strdup\<close>, which
  allocates, is with the allocator in \<open>KMalloc\<close>). Pointers are 64-bit addresses into the
  flat memory, the C \<open>char\<close> is signed (\<open>sint\<close> of a byte), sizes of type \<open>int\<close> are HOL
  integers. The unbounded scans are partial functions: \<open>None\<close> is the scan that never
  finds its end.
\<close>

section \<open>Definitions\<close>

definition memcpy :: "mem \<Rightarrow> u64 \<Rightarrow> u64 \<Rightarrow> int \<Rightarrow> mem" where
  "memcpy m dest src sz =
     fold (\<lambda>i m. m(dest + of_nat i := m (src + of_nat i))) [0..<nat sz] m"

definition memset :: "mem \<Rightarrow> u64 \<Rightarrow> u8 \<Rightarrow> int \<Rightarrow> mem" where
  "memset m dest val sz = fold (\<lambda>i m. m(dest + of_nat i := val)) [0..<nat sz] m"

function strncmp_loop :: "mem \<Rightarrow> u64 \<Rightarrow> u64 \<Rightarrow> nat \<Rightarrow> nat \<Rightarrow> int" where
  "strncmp_loop m s1 s2 n i =
     (if i < n then
        (if m (s1 + of_nat i) \<noteq> m (s2 + of_nat i)
         then sint (m (s1 + of_nat i)) - sint (m (s2 + of_nat i))
         else strncmp_loop m s1 s2 n (Suc i))
      else 0)"
  by pat_completeness auto
termination by (relation "measure (\<lambda>(m, s1, s2, n, i). n - i)") auto

definition strncmp :: "mem \<Rightarrow> u64 \<Rightarrow> u64 \<Rightarrow> u64 \<Rightarrow> int" where
  "strncmp m s1 s2 n = strncmp_loop m s1 s2 (unat n) 0"

partial_function (option) strlen_loop :: "mem \<Rightarrow> u64 \<Rightarrow> int \<Rightarrow> int option" where
  "strlen_loop m c count = (if m c = 0 then Some count else strlen_loop m (c + 1) (count + 1))"

definition strlen :: "mem \<Rightarrow> u64 \<Rightarrow> int option" where
  "strlen m c = strlen_loop m c 0"

partial_function (option) strchr :: "mem \<Rightarrow> u64 \<Rightarrow> int \<Rightarrow> u64 option" where
  "strchr m s c =
     (if m s = 0 then Some 0 else if sint (m s) = c then Some s else strchr m (s + 1) c)"

partial_function (option) strchrnul :: "mem \<Rightarrow> u64 \<Rightarrow> int \<Rightarrow> u64 option" where
  "strchrnul m s c =
     (if m s = 0 then Some s else if sint (m s) = c then Some s else strchrnul m (s + 1) c)"

function strntokch_loop :: "mem \<Rightarrow> u64 \<Rightarrow> nat \<Rightarrow> u8 \<Rightarrow> nat \<Rightarrow> mem \<times> u64" where
  "strntokch_loop m str len delim i =
     (if i < len then
        (if m (str + of_nat i) = 0 then (m, 0)
         else if m (str + of_nat i) = delim then
           (m(str + of_nat i := 0), if i = len - 1 then 0 else str + of_nat (Suc i))
         else strntokch_loop m str len delim (Suc i))
      else (m, 0))"
  by pat_completeness auto
termination by (relation "measure (\<lambda>(m, str, len, delim, i). len - i)") auto

definition strntokch :: "mem \<Rightarrow> u64 \<Rightarrow> u32 \<Rightarrow> u8 \<Rightarrow> mem \<times> u64" where
  "strntokch m str len delim = strntokch_loop m str (unat len) delim 0"

definition memcpy32 :: "mem \<Rightarrow> u64 \<Rightarrow> u64 \<Rightarrow> int \<Rightarrow> mem" where
  "memcpy32 m src dest n =
     fold (\<lambda>i m. set_U32 m (dest + of_nat (4 * i)) (U32 m (src + of_nat (4 * i)))) [0..<nat n] m"

definition memset32 :: "mem \<Rightarrow> u64 \<Rightarrow> u32 \<Rightarrow> int \<Rightarrow> mem" where
  "memset32 m dest src n = fold (\<lambda>i m. set_U32 m (dest + of_nat (4 * i)) src) [0..<nat n] m"

text \<open>The bytes \<open>xs\<close> followed by a NUL stand at \<open>a\<close>.\<close>

definition cstring :: "mem \<Rightarrow> u64 \<Rightarrow> u8 list \<Rightarrow> bool" where
  "cstring m a xs \<longleftrightarrow> 0 \<notin> set xs \<and> load_bytes m a (Suc (length xs)) = xs @ [0]"

declare strncmp_loop.simps [simp del] strntokch_loop.simps [simp del]

section \<open>Lemmas\<close>

lemma memcpy_Suc:
  "memcpy m d s (int (Suc n)) =
     (memcpy m d s (int n))(d + of_nat n := memcpy m d s (int n) (s + of_nat n))"
  by (simp add: memcpy_def nat_add_distrib)

lemma memcpy_nonpos [simp]: "sz \<le> 0 \<Longrightarrow> memcpy m d s sz = m"
  by (simp add: memcpy_def)

lemma memset_nonpos [simp]: "sz \<le> 0 \<Longrightarrow> memset m d v sz = m"
  by (simp add: memset_def)

text \<open>
  The ascending copy is right whenever the destination does not start inside the source
  block: disjoint blocks, equal blocks, or a destination below the source.
\<close>

definition copy_safe :: "u64 \<Rightarrow> u64 \<Rightarrow> nat \<Rightarrow> bool" where
  "copy_safe d s n \<longleftrightarrow> d = s \<or> n \<le> unat (d - s)"

lemma copy_safe_src:
  assumes "copy_safe d s (Suc n)" "n < 2 ^ 64"
  shows "\<not> in_block d n (s + of_nat n)"
proof (cases "d = s")
  case True
  with assms show ?thesis by (simp add: in_block_def)
next
  case False
  with assms have k: "Suc n \<le> unat (d - s)" by (simp add: copy_safe_def)
  have "s + of_nat n - d = of_nat n - (d - s)" by (simp add: algebra_simps)
  moreover have "unat (of_nat n - (d - s)) = 2 ^ 64 + n - unat (d - s)"
    using k assms(2) by (simp add: unat_sub_if')
  ultimately have "unat (s + of_nat n - d) = 2 ^ 64 + n - unat (d - s)" by (simp only:)
  then show ?thesis
    using unat_u64_less [of "d - s"] by (simp add: in_block_def)
qed

lemma in_block_Suc:
  "n < 2 ^ 64 \<Longrightarrow> in_block d (Suc n) x \<longleftrightarrow> in_block d n x \<or> x = d + of_nat n"
  using unat_diff_eq_iff [of n x d] by (auto simp: in_block_def less_Suc_eq)

lemma memcpy_nat:
  assumes "copy_safe d s n" "n \<le> 2 ^ 64"
  shows "memcpy m d s (int n) x = (if in_block d n x then m (s + (x - d)) else m x)"
  using assms
proof (induction n arbitrary: x)
  case 0
  then show ?case by (simp add: in_block_def)
next
  case (Suc n)
  have safe: "copy_safe d s n" using Suc.prems by (auto simp: copy_safe_def)
  have src: "memcpy m d s (int n) (s + of_nat n) = m (s + of_nat n)"
    using Suc.IH [OF safe] copy_safe_src [OF Suc.prems(1)] Suc.prems(2) by simp
  show ?case
    using Suc.IH [OF safe] Suc.prems(2) src
    unfolding memcpy_Suc by (simp add: in_block_Suc)
qed

lemma memset_nat:
  assumes "n \<le> 2 ^ 64"
  shows "memset m d v (int n) x = (if in_block d n x then v else m x)"
  using assms
proof (induction n arbitrary: x)
  case 0
  then show ?case by (simp add: in_block_def)
next
  case (Suc n)
  have "memset m d v (int (Suc n)) = (memset m d v (int n))(d + of_nat n := v)"
    by (simp add: memset_def nat_add_distrib)
  with Suc show ?case by (simp add: in_block_Suc)
qed

lemma disjoint_copy_safe: "disjoint_blocks d n s n \<Longrightarrow> copy_safe d s n"
proof -
  assume dj: "disjoint_blocks d n s n"
  have "d = s \<or> n \<le> unat (d - s)"
  proof (cases "unat s + n \<le> unat d")
    case True
    then show ?thesis by (auto simp: unat_sub word_le_nat_alt)
  next
    case False
    with dj have "unat d + n \<le> unat s" "unat s + n \<le> 2 ^ 64"
      by (auto simp: disjoint_blocks_def)
    then show ?thesis by (cases "n = 0") (auto simp: unat_sub_if')
  qed
  then show ?thesis by (simp add: copy_safe_def)
qed

lemma load_memcpy_dest:
  assumes "copy_safe d s n" "n \<le> 2 ^ 64"
  shows "load_bytes (memcpy m d s (int n)) d n = load_bytes m s n"
proof (rule nth_equalityI)
  fix i assume "i < length (load_bytes (memcpy m d s (int n)) d n)"
  then have i: "i < n" by simp
  then have "in_block d n (d + of_nat i)" using assms(2) by (simp add: in_block_def)
  with i show "load_bytes (memcpy m d s (int n)) d n ! i = load_bytes m s n ! i"
    by (simp add: load_bytes_nth memcpy_nat [OF assms])
qed simp

lemma load_memcpy_other:
  assumes "copy_safe d s n" "n \<le> 2 ^ 64" "disjoint_blocks d n b k"
  shows "load_bytes (memcpy m d s (int n)) b k = load_bytes m b k"
proof (rule load_bytes_cong)
  fix i assume "i < k"
  with assms(3) have "\<not> in_block d n (b + of_nat i)" by (rule not_in_block_disjoint)
  then show "memcpy m d s (int n) (b + of_nat i) = m (b + of_nat i)"
    by (simp add: memcpy_nat [OF assms(1,2)])
qed

subsection \<open>Comparison\<close>

lemma strncmp_loop_zero_iff:
  "strncmp_loop m s1 s2 n i = 0 \<longleftrightarrow> (\<forall>j. i \<le> j \<and> j < n \<longrightarrow> m (s1 + of_nat j) = m (s2 + of_nat j))"
proof (induction m s1 s2 n i rule: strncmp_loop.induct)
  case (1 m s1 s2 n i)
  show ?case
  proof (cases "i < n \<and> m (s1 + of_nat i) = m (s2 + of_nat i)")
    case True
    with 1 show ?thesis
      by (simp add: strncmp_loop.simps [of m s1 s2 n i]) (metis Suc_leI le_eq_less_or_eq Suc_le_lessD)
  next
    case False
    then show ?thesis
      by (auto simp: strncmp_loop.simps [of m s1 s2 n i])
  qed
qed

lemma strncmp_zero_iff:
  "strncmp m s1 s2 n = 0 \<longleftrightarrow> load_bytes m s1 (unat n) = load_bytes m s2 (unat n)"
  by (auto simp: strncmp_def strncmp_loop_zero_iff load_bytes_conv)

subsection \<open>NUL-terminated strings\<close>

lemma cstring_Nil [simp]: "cstring m a [] \<longleftrightarrow> m a = 0"
  by (simp add: cstring_def)

lemma cstring_Cons [simp]: "cstring m a (x # xs) \<longleftrightarrow> x \<noteq> 0 \<and> m a = x \<and> cstring m (a + 1) xs"
  by (auto simp: cstring_def)

lemma cstring_nth: "cstring m a xs \<Longrightarrow> i < length xs \<Longrightarrow> m (a + of_nat i) = xs ! i \<and> xs ! i \<noteq> 0"
  by (induction xs arbitrary: a i) (auto simp: nth_Cons simp flip: add.assoc split: nat.splits)

lemma cstring_end: "cstring m a xs \<Longrightarrow> m (a + of_nat (length xs)) = 0"
  by (induction xs arbitrary: a) (auto simp flip: add.assoc)

lemma cstringI:
  assumes "\<And>i. i < length xs \<Longrightarrow> m (a + of_nat i) = xs ! i \<and> xs ! i \<noteq> 0"
    and "m (a + of_nat (length xs)) = 0"
  shows "cstring m a xs"
  using assms
proof (induction xs arbitrary: a)
  case Nil
  then show ?case by simp
next
  case (Cons x xs)
  have "cstring m (a + 1) xs"
  proof (rule Cons.IH)
    fix i assume "i < length xs"
    then show "m (a + 1 + of_nat i) = xs ! i \<and> xs ! i \<noteq> 0"
      using Cons.prems(1) [of "Suc i"] by (simp add: add.assoc)
  next
    show "m (a + 1 + of_nat (length xs)) = 0"
      using Cons.prems(2) by (simp add: add.assoc)
  qed
  then show ?case using Cons.prems(1) [of 0] by simp
qed

lemma cstring_length: "cstring m a xs \<Longrightarrow> length xs < 2 ^ 64"
proof (rule ccontr)
  assume c: "cstring m a xs" and "\<not> length xs < 2 ^ 64"
  then have len: "2 ^ 64 \<le> length xs" by simp
  define j where "j = length xs - 2 ^ 64"
  have "length xs = j + 2 ^ 64" using len by (simp add: j_def)
  then have "(of_nat (length xs) :: u64) = of_nat j" by simp
  moreover have "j < length xs" using len by (simp add: j_def)
  ultimately show False using cstring_end [OF c] cstring_nth [OF c, of j] by simp
qed

lemma cstring_unique: "cstring m a xs \<Longrightarrow> cstring m a ys \<Longrightarrow> xs = ys"
proof (induction xs arbitrary: a ys)
  case Nil
  then show ?case by (cases ys) auto
next
  case (Cons x xs)
  then show ?case by (cases ys) auto
qed

lemma cstring_exists:
  assumes "m x = 0"
  shows "\<exists>xs. cstring m a xs"
proof -
  have "m (a + of_nat (unat (x - a))) = 0" using assms by simp
  then have ex: "\<exists>i. m (a + of_nat i) = 0" by blast
  define n where "n = (LEAST i. m (a + of_nat i) = 0)"
  have z: "m (a + of_nat n) = 0" unfolding n_def using ex by (rule LeastI_ex)
  have nz: "m (a + of_nat i) \<noteq> 0" if "i < n" for i
    using not_less_Least that unfolding n_def by blast
  have "cstring m a (load_bytes m a n)"
    by (rule cstringI) (use z nz in \<open>simp_all add: load_bytes_nth\<close>)
  then show ?thesis by blast
qed

lemma strlen_loop_cstring: "cstring m a xs \<Longrightarrow> strlen_loop m a k = Some (k + int (length xs))"
  by (induction xs arbitrary: a k) (simp_all add: strlen_loop.simps [of m] algebra_simps)

lemma strlen_loop_zero: "strlen_loop m a k = Some n \<Longrightarrow> \<exists>x. m x = 0"
proof -
  assume "strlen_loop m a k = Some n"
  then show ?thesis
    by (rule strlen_loop.raw_induct [where P = "\<lambda>m a k n. \<exists>x. m x = 0", rotated])
      (auto split: if_splits)
qed

lemma strlen_cstring: "cstring m a xs \<Longrightarrow> strlen m a = Some (int (length xs))"
  by (simp add: strlen_def strlen_loop_cstring)

lemma strchr_cstring:
  "cstring m a xs \<Longrightarrow>
   strchr m a (sint d) =
     Some (if d \<in> set xs then a + of_nat (length (takeWhile (\<lambda>x. x \<noteq> d) xs)) else 0)"
  by (induction xs arbitrary: a) (auto simp: strchr.simps [of m] add.assoc)

lemma strchrnul_cstring:
  "cstring m a xs \<Longrightarrow>
   strchrnul m a (sint d) = Some (a + of_nat (length (takeWhile (\<lambda>x. x \<noteq> d) xs)))"
  by (induction xs arbitrary: a) (auto simp: strchrnul.simps [of m] add.assoc)

subsection \<open>Tokenising\<close>

lemma strntokch_loop_miss:
  assumes "cstring m a xs" "d \<notin> set xs" "i \<le> length xs"
  shows "strntokch_loop m a len d i = (m, 0)"
  using assms
proof (induction m a len d i rule: strntokch_loop.induct)
  case (1 m a len d i)
  show ?case
  proof (cases "i < length xs")
    case True
    with 1 have "m (a + of_nat i) \<noteq> 0" "m (a + of_nat i) \<noteq> d"
      using cstring_nth [OF 1(2) True] by (auto dest: nth_mem)
    with 1 True show ?thesis by (simp add: strntokch_loop.simps [of m a len d i])
  next
    case False
    with 1 show ?thesis
      using cstring_end [OF 1(2)] by (subst strntokch_loop.simps) simp
  qed
qed

lemma strntokch_loop_hit:
  assumes "cstring m a xs" "n < length xs" "xs ! n = d" "n < len" "i \<le> n"
    and "\<And>j. j < n \<Longrightarrow> xs ! j \<noteq> d"
  shows "strntokch_loop m a len d i =
    (m(a + of_nat n := 0), if n = len - 1 then 0 else a + of_nat (Suc n))"
  using assms
proof (induction m a len d i rule: strntokch_loop.induct)
  case (1 m a len d i)
  then have nz: "m (a + of_nat i) = xs ! i" "xs ! i \<noteq> 0"
    using cstring_nth [OF 1(2), of i] by auto
  show ?case
  proof (cases "i = n")
    case True
    with 1 nz show ?thesis by (subst strntokch_loop.simps) simp
  next
    case False
    with 1 have "i < n" by simp
    with 1 nz show ?thesis by (simp add: strntokch_loop.simps [of m a len d i])
  qed
qed

lemma cstring_cut:
  assumes c: "cstring m a xs" and n: "n < length xs"
  shows "cstring (m(a + of_nat n := 0)) a (take n xs)"
    and "cstring (m(a + of_nat n := 0)) (a + of_nat (Suc n)) (drop (Suc n) xs)"
proof -
  have ne: "a + of_nat i \<noteq> a + of_nat n" if "i \<noteq> n" "i \<le> length xs" for i
    using offset_inj [of i n a] cstring_length [OF c] n that by simp
  show "cstring (m(a + of_nat n := 0)) a (take n xs)"
    using n ne cstring_nth [OF c] by (intro cstringI) auto
  have "(m(a + of_nat n := 0)) (a + of_nat (Suc n) + of_nat i) = m (a + of_nat (Suc n + i))"
    if "Suc n + i \<le> length xs" for i
    using ne [of "Suc n + i"] that by (simp add: add.assoc)
  then show "cstring (m(a + of_nat n := 0)) (a + of_nat (Suc n)) (drop (Suc n) xs)"
    using n cstring_nth [OF c] cstring_end [OF c]
    by (intro cstringI) (simp_all del: fun_upd_apply of_nat_Suc, simp)
qed

lemma strncmp_loop_find:
  "i \<le> n \<Longrightarrow> strncmp_loop m s1 s2 n i =
     (case find (\<lambda>j. m (s1 + of_nat j) \<noteq> m (s2 + of_nat j)) [i..<n] of
        None \<Rightarrow> 0 | Some j \<Rightarrow> sint (m (s1 + of_nat j)) - sint (m (s2 + of_nat j)))"
proof (induction m s1 s2 n i rule: strncmp_loop.induct)
  case (1 m s1 s2 n i)
  show ?case
  proof (cases "i < n")
    case True
    with 1 show ?thesis
      by (subst strncmp_loop.simps) (simp add: upt_conv_Cons)
  next
    case False
    with 1 show ?thesis by (subst strncmp_loop.simps) simp
  qed
qed

section \<open>Properties\<close>

text \<open>
  \<open>memcpy\<close> copies its block byte for byte and changes nothing else, for every
  32-bit size (a non-positive size copies nothing), as long as the destination does not
  start strictly inside the source block.
\<close>

theorem memcpy_copies:
  assumes "copy_safe d s (nat sz)" and "sz < 2 ^ 31"
  shows "memcpy m d s sz x = (if in_block d (nat sz) x then m (s + (x - d)) else m x)"
proof (cases "sz \<le> 0")
  case True
  then show ?thesis by (simp add: in_block_def)
next
  case False
  with assms show ?thesis using memcpy_nat [of d s "nat sz" m x] by simp
qed

theorem memcpy_copies_witness:
  "copy_safe 100 200 (nat 4) \<and> memcpy (\<lambda>a. ucast a) 100 200 4 102 = 202"
proof -
  have c: "copy_safe 100 200 (nat 4)" by (simp add: copy_safe_def)
  then show ?thesis
    using memcpy_copies [OF c, of "\<lambda>a. ucast a" 102] by (simp add: in_block_def)
qed

text \<open>
  \<open>strncmp\<close> returns the signed difference at the first position below \<open>n\<close> where the
  two blocks differ, and 0 exactly when they agree on all \<open>n\<close> bytes; unlike the C library
  it does not stop at a NUL.
\<close>

theorem strncmp_first_difference:
  "strncmp m s1 s2 n =
     (case find (\<lambda>j. m (s1 + of_nat j) \<noteq> m (s2 + of_nat j)) [0..<unat n] of
        None \<Rightarrow> 0 | Some j \<Rightarrow> sint (m (s1 + of_nat j)) - sint (m (s2 + of_nat j)))
   \<and> (strncmp m s1 s2 n = 0 \<longleftrightarrow> load_bytes m s1 (unat n) = load_bytes m s2 (unat n))"
  using strncmp_loop_find [of 0 "unat n" m s1 s2] strncmp_zero_iff [of m s1 s2 n]
  by (simp add: strncmp_def)

text \<open>
  \<open>strlen\<close> returns exactly when some byte of the address space is NUL, and then it
  returns the length of the NUL-terminated string at its argument.
\<close>

theorem strlen_length:
  "(strlen m a = Some k) = (\<exists>xs. cstring m a xs \<and> k = int (length xs)) \<and>
   ((\<exists>k. strlen m a = Some k) = (\<exists>x. m x = 0))"
proof -
  have val: "strlen m a = Some k \<Longrightarrow> \<exists>xs. cstring m a xs \<and> k = int (length xs)" for k
    using cstring_exists [of m _ a] strlen_loop_zero [of m a 0 k] strlen_cstring [of m a]
    by (fastforce simp: strlen_def)
  moreover have "m x = 0 \<Longrightarrow> \<exists>k. strlen m a = Some k" for x
    using cstring_exists [of m x a] strlen_cstring [of m a] by blast
  ultimately show ?thesis
    using strlen_cstring [of m a] cstring_end [of m a] by blast
qed

text \<open>
  \<open>strntokch\<close> cuts a NUL-terminated string at the first delimiter: the bytes before it
  become the string at the old address and the returned pointer holds the rest; a string
  without the delimiter is left alone and the result is NULL.
\<close>

theorem strntokch_splits:
  assumes c: "cstring m a xs" and len: "length xs < unat len"
  shows "strntokch m a len d =
    (if d \<in> set xs
     then (m(a + of_nat (length (takeWhile (\<lambda>x. x \<noteq> d) xs)) := 0),
           a + of_nat (Suc (length (takeWhile (\<lambda>x. x \<noteq> d) xs))))
     else (m, 0))
   \<and> (d \<in> set xs \<longrightarrow>
        cstring (fst (strntokch m a len d)) a (takeWhile (\<lambda>x. x \<noteq> d) xs) \<and>
        cstring (fst (strntokch m a len d)) (snd (strntokch m a len d))
          (tl (dropWhile (\<lambda>x. x \<noteq> d) xs)))"
proof (cases "d \<in> set xs")
  case False
  then show ?thesis
    using strntokch_loop_miss [OF c, of d 0] by (simp add: strntokch_def)
next
  case True
  then obtain ys zs where xs: "xs = ys @ d # zs" and d: "d \<notin> set ys"
    by (metis split_list_first)
  then have tw: "takeWhile (\<lambda>x. x \<noteq> d) xs = ys" "dropWhile (\<lambda>x. x \<noteq> d) xs = d # zs"
    by (auto simp: takeWhile_append dropWhile_append)
  have n: "length ys < length xs" "xs ! length ys = d" by (simp_all add: xs)
  have "strntokch_loop m a (unat len) d 0 =
      (m(a + of_nat (length ys) := 0), a + of_nat (Suc (length ys)))"
  proof -
    have "\<And>j. j < length ys \<Longrightarrow> xs ! j \<noteq> d" using d by (auto simp: xs nth_append)
    moreover have "length ys \<noteq> unat len - 1" "length ys < unat len" using n len by linarith+
    ultimately show ?thesis using strntokch_loop_hit [OF c n, of "unat len" 0] by simp
  qed
  then show ?thesis
    using cstring_cut [OF c n(1)] True tw by (simp add: strntokch_def xs)
qed

theorem strntokch_splits_witness:
  "cstring (store_bytes (\<lambda>_. 0) 16 [97, 47, 98, 0]) 16 [97, 47, 98] \<and>
   strntokch (store_bytes (\<lambda>_. 0) 16 [97, 47, 98, 0]) 16 1000 47 =
     ((store_bytes (\<lambda>_. 0) 16 [97, 47, 98, 0])(17 := 0), 18)"
proof -
  have c: "cstring (store_bytes (\<lambda>_. 0) 16 [97, 47, 98, 0]) 16 [97, 47, 98]" by simp
  have l: "length [97, 47, 98 :: u8] < unat (1000 :: u32)" by simp
  show ?thesis using c strntokch_splits [OF c l, of 47] by simp
qed

end
