(* ===== verification/KMalloc.thy ===== *)
theory KMalloc
  imports CString
begin

text \<open>
  The kernel heap of \<open>src/src/stdlib/stdlib.c\<close>: a bump allocator over the global
  \<open>malloc_start\<close> (plain, aligned, and aligned with a boundary), the choice of its region
  from the multiboot memory map, and \<open>strdup\<close> of \<open>src/src/stdlib/string.c\<close>, which allocates.
  The state is the record \<open>kheap\<close>: the flat memory and the four globals of the file. It is
  extensible, so the later components add their own globals to it.
\<close>

section \<open>Definitions\<close>

record kheap =
  kmem :: mem
  malloc_start :: u64
  malloc_end :: u64
  ms :: u64
  me :: u64

definition malloc :: "u64 \<Rightarrow> 'a kheap_scheme \<Rightarrow> u64 \<times> 'a kheap_scheme" where
  "malloc sz s = (malloc_start s, s\<lparr>malloc_start := malloc_start s + sz\<rparr>)"

definition realloc :: "u64 \<Rightarrow> u64 \<Rightarrow> 'a kheap_scheme \<Rightarrow> u64 \<times> 'a kheap_scheme" where
  "realloc addr sz s =
     (let (data, s) = malloc sz s
      in (data, s\<lparr>kmem := memcpy (kmem s) data addr (long_to_int sz)\<rparr>))"

definition free :: "u64 \<Rightarrow> 'a kheap_scheme \<Rightarrow> 'a kheap_scheme" where
  "free p s = s"

definition calloc :: "u64 \<Rightarrow> 'a kheap_scheme \<Rightarrow> u64 \<times> 'a kheap_scheme" where
  "calloc sz s =
     (let (start, s) = malloc sz s
      in (start, s\<lparr>kmem := memset (kmem s) start 0 (long_to_int sz)\<rparr>))"

text \<open>\<open>(malloc_start-1)+align-((malloc_start-1)%align)\<close>; the remainder traps when \<open>align\<close> is 0.\<close>

definition align_up :: "u64 \<Rightarrow> u64 \<Rightarrow> u64" where
  "align_up a align = (a - 1) + align - ((a - 1) mod align)"

definition mallocA :: "u64 \<Rightarrow> u64 \<Rightarrow> 'a kheap_scheme \<Rightarrow> (u64 \<times> 'a kheap_scheme) outcome" where
  "mallocA sz align s =
     (if align = 0 then Inl DivByZero
      else let start = align_up (malloc_start s) align
           in Inr (start, s\<lparr>malloc_start := start + sz\<rparr>))"

definition mallocAB ::
    "u64 \<Rightarrow> u64 \<Rightarrow> u64 \<Rightarrow> 'a kheap_scheme \<Rightarrow> (u64 \<times> 'a kheap_scheme) outcome" where
  "mallocAB sz align boundary s =
     (if boundary < align then Inr (0, s)
      else if align = 0 then Inl DivByZero
      else let start = align_up (malloc_start s) align
           in Inr (start,
             if start div boundary \<noteq> (start + sz) div boundary
             then s\<lparr>malloc_start := ((start + sz) div boundary) * boundary\<rparr>
             else s\<lparr>malloc_start := start + sz\<rparr>))"

definition callocAB ::
    "u64 \<Rightarrow> u64 \<Rightarrow> u64 \<Rightarrow> 'a kheap_scheme \<Rightarrow> (u64 \<times> 'a kheap_scheme) outcome" where
  "callocAB sz align boundary s =
     andthen (mallocAB sz align boundary s)
       (\<lambda>(start, s). Inr (start, s\<lparr>kmem := memset (kmem s) start 0 (long_to_int sz)\<rparr>))"

definition MallocSetStart :: "u64 \<Rightarrow> 'a kheap_scheme \<Rightarrow> 'a kheap_scheme" where
  "MallocSetStart p s = s\<lparr>malloc_start := p\<rparr>"

definition updateMallocPtr :: "'a kheap_scheme \<Rightarrow> 'a kheap_scheme" where
  "updateMallocPtr s =
     s\<lparr>malloc_start := malloc_start s + 7 * 0x40000000,
       malloc_end := malloc_end s + 7 * 0x40000000\<rparr>"

definition c_abs :: "int \<Rightarrow> int" where
  "c_abs j = (if j > 0 then j else int32 (- j))"

text \<open>
  The multiboot memory map: \<open>tag->size\<close> at offset 4, \<open>entry_size\<close> at 8, the entries from
  offset 16, each with \<open>addr\<close>, \<open>len\<close> and \<open>type\<close> at 0, 8 and 16.
\<close>

record mmap_entry =
  mm_addr :: u64
  mm_len :: u64
  mm_type :: u32

definition read_mmap_entry :: "mem \<Rightarrow> u64 \<Rightarrow> mmap_entry" where
  "read_mmap_entry m p = \<lparr>mm_addr = U64 m p, mm_len = U64 m (p + 8), mm_type = U32 m (p + 16)\<rparr>"

definition mmap_visit :: "mmap_entry \<Rightarrow> u64 \<times> 'a kheap_scheme \<Rightarrow> u64 \<times> 'a kheap_scheme" where
  "mmap_visit e = (\<lambda>(malloc_len, s).
     if mm_type e = 1 \<and> malloc_len < mm_len e \<and> mm_addr e < 0x10000000
     then (mm_len e,
       s\<lparr>malloc_start := mm_addr e, malloc_end := mm_len e + mm_addr e,
         ms := mm_addr e, me := me s + mm_len e\<rparr>)
     else (malloc_len, s))"

partial_function (option) mmap_walk ::
    "mem \<Rightarrow> u64 \<Rightarrow> u64 \<Rightarrow> u64 \<times> 'a kheap_scheme \<Rightarrow> (u64 \<times> 'a kheap_scheme) option" where
  "mmap_walk m tag mmap acc =
     (if mmap < tag + ucast (U32 m (tag + 4))
      then mmap_walk m tag (mmap + ucast (U32 m (tag + 8))) (mmap_visit (read_mmap_entry m mmap) acc)
      else Some acc)"

definition AssignMallocMemoryMap :: "u64 \<Rightarrow> u64 \<Rightarrow> 'a kheap_scheme \<Rightarrow> 'a kheap_scheme outcome" where
  "AssignMallocMemoryMap tag safe_offset s =
     (case mmap_walk (kmem s) tag (tag + 16) (0, s) of
        None \<Rightarrow> Inl Hangs
      | Some (_, s) \<Rightarrow> Inr (s\<lparr>malloc_start := malloc_start s + safe_offset\<rparr>))"

definition strdup :: "u64 \<Rightarrow> 'a kheap_scheme \<Rightarrow> (u64 \<times> 'a kheap_scheme) outcome" where
  "strdup c s =
     (case strlen (kmem s) c of
        None \<Rightarrow> Inl Hangs
      | Some len \<Rightarrow>
         (let (p, s) = malloc (of_int (len + 1)) s;
              s = s\<lparr>kmem := memcpy (kmem s) p c len\<rparr>
          in Inr (p, s\<lparr>kmem := (kmem s)(p + of_int len := 0)\<rparr>)))"

text \<open>Allocating a list of blocks, one after the other.\<close>

fun alloc_many :: "(u64 \<Rightarrow> 's \<Rightarrow> (u64 \<times> 's) outcome) \<Rightarrow> u64 list \<Rightarrow> 's \<Rightarrow> (u64 list \<times> 's) outcome" where
  "alloc_many alloc [] s = Inr ([], s)"
| "alloc_many alloc (n # ns) s =
     andthen (alloc n s) (\<lambda>(p, s).
       andthen (alloc_many alloc ns s) (\<lambda>(ps, s). Inr (p # ps, s)))"

section \<open>The allocator interface\<close>

text \<open>
  What a client of the heap relies on: as long as the request does not run past the
  64-bit address space, an allocation succeeds, its block starts at or above the frontier
  \<open>brk\<close> (at most \<open>slack\<close> bytes of padding above it) and the new frontier is its end.
\<close>

locale allocator =
  fixes alloc :: "u64 \<Rightarrow> 's \<Rightarrow> (u64 \<times> 's) outcome"
    and brk :: "'s \<Rightarrow> nat"
    and slack :: nat
  assumes alloc_fresh:
    "0 < brk s \<Longrightarrow> brk s + slack + unat n < 2 ^ 64 \<Longrightarrow>
     \<exists>p s'. alloc n s = Inr (p, s') \<and> brk s \<le> unat p \<and> unat p \<le> brk s + slack \<and>
            brk s' = unat p + unat n"
begin

lemma alloc_many_ordered:
  assumes "0 < brk s" and "brk s + sum_list (map (\<lambda>n. slack + unat n) ns) < 2 ^ 64"
  shows "\<exists>ps s'. alloc_many alloc ns s = Inr (ps, s') \<and> length ps = length ns \<and> brk s \<le> brk s' \<and>
    (\<forall>i < length ns. brk s \<le> unat (ps ! i) \<and> unat (ps ! i) + unat (ns ! i) \<le> brk s') \<and>
    (\<forall>i j. i < j \<and> j < length ns \<longrightarrow> unat (ps ! i) + unat (ns ! i) \<le> unat (ps ! j)) \<and>
    brk s' \<le> brk s + sum_list (map (\<lambda>n. slack + unat n) ns)"
  using assms
proof (induction ns arbitrary: s)
  case Nil
  then show ?case by simp
next
  case (Cons n ns)
  have "brk s + slack + unat n < 2 ^ 64" using Cons.prems by simp
  then obtain p s1 where p: "alloc n s = Inr (p, s1)" "brk s \<le> unat p" "unat p \<le> brk s + slack"
      "brk s1 = unat p + unat n"
    using alloc_fresh Cons.prems(1) by blast
  have "0 < brk s1" "brk s1 + sum_list (map (\<lambda>n. slack + unat n) ns) < 2 ^ 64"
    using p Cons.prems by simp_all
  from Cons.IH [OF this] obtain ps s' where ih:
      "alloc_many alloc ns s1 = Inr (ps, s')" "length ps = length ns" "brk s1 \<le> brk s'"
      "\<forall>i < length ns. brk s1 \<le> unat (ps ! i) \<and> unat (ps ! i) + unat (ns ! i) \<le> brk s'"
      "\<forall>i j. i < j \<and> j < length ns \<longrightarrow> unat (ps ! i) + unat (ns ! i) \<le> unat (ps ! j)"
      "brk s' \<le> brk s1 + sum_list (map (\<lambda>n. slack + unat n) ns)"
    by blast
  have "brk s \<le> unat ((p # ps) ! i) \<and> unat ((p # ps) ! i) + unat ((n # ns) ! i) \<le> brk s'"
    if "i < Suc (length ns)" for i
    using that ih(3,4) p by (cases i) force+
  moreover have "unat ((p # ps) ! i) + unat ((n # ns) ! i) \<le> unat ((p # ps) ! j)"
    if "i < j \<and> j < Suc (length ns)" for i j
    using that ih(4,5) p by (cases i; cases j) force+
  ultimately show ?case
    using p ih by (intro exI [of _ "p # ps"] exI [of _ s']) auto
qed

lemma alloc_many_disjoint:
  assumes "0 < brk s" and "brk s + sum_list (map (\<lambda>n. slack + unat n) ns) < 2 ^ 64"
  shows "\<exists>ps s'. alloc_many alloc ns s = Inr (ps, s') \<and> length ps = length ns \<and>
    (\<forall>i j. i < j \<and> j < length ns \<longrightarrow>
       disjoint_blocks (ps ! i) (unat (ns ! i)) (ps ! j) (unat (ns ! j)))"
proof -
  obtain ps s' where *: "alloc_many alloc ns s = Inr (ps, s')" "length ps = length ns"
      "\<forall>i < length ns. brk s \<le> unat (ps ! i) \<and> unat (ps ! i) + unat (ns ! i) \<le> brk s'"
      "\<forall>i j. i < j \<and> j < length ns \<longrightarrow> unat (ps ! i) + unat (ns ! i) \<le> unat (ps ! j)"
      "brk s' \<le> brk s + sum_list (map (\<lambda>n. slack + unat n) ns)"
    using alloc_many_ordered [OF assms] by blast
  have "brk s' \<le> 2 ^ 64" using *(5) assms(2) by simp
  then have "disjoint_blocks (ps ! i) (unat (ns ! i)) (ps ! j) (unat (ns ! j))"
    if "i < j \<and> j < length ns" for i j
    using that *(3) [rule_format, of i] *(3) [rule_format, of j] *(4) [rule_format, of i j]
    by (simp add: disjoint_blocks_def)
  then show ?thesis using *(1,2) by blast
qed

end

section \<open>Lemmas\<close>

lemma nat_round_up:
  fixes k l :: nat
  assumes "0 < l"
  shows "k + l - k mod l = (k div l + 1) * l" "k < (k div l + 1) * l" "(k div l + 1) * l \<le> k + l"
proof -
  define q r where "q = k div l * l" and "r = k mod l"
  have "k = q + r" "r < l" using assms by (simp_all add: q_def r_def)
  moreover have "(k div l + 1) * l = q + l" by (simp add: q_def)
  ultimately show "k + l - k mod l = (k div l + 1) * l" "k < (k div l + 1) * l"
      "(k div l + 1) * l \<le> k + l"
    unfolding r_def [symmetric] by linarith+
qed

lemma unat_align_up:
  assumes a: "0 < unat a" and l: "0 < unat l" and ov: "unat a + unat l \<le> 2 ^ 64"
  shows "unat (align_up a l) = ((unat a - 1) div unat l + 1) * unat l"
proof -
  have a1: "unat (a - 1) = unat a - 1" using a by (intro unat_minus_one) auto
  have "unat ((a - 1) + l) = unat a - 1 + unat l"
    using a ov by (simp add: unat_word_ariths a1)
  moreover have md: "unat ((a - 1) mod l) = (unat a - 1) mod unat l"
    by (simp add: unat_mod a1)
  moreover have "(a - 1) mod l \<le> (a - 1) + l"
    using calculation by (simp add: word_le_nat_alt trans_le_add1)
  ultimately have "unat (align_up a l) = unat a - 1 + unat l - (unat a - 1) mod unat l"
    by (simp add: align_up_def unat_sub)
  also have "\<dots> = ((unat a - 1) div unat l + 1) * unat l"
    by (rule nat_round_up [OF l])
  finally show ?thesis .
qed

lemma align_up_bounds:
  assumes "0 < unat a" "0 < unat l" "unat a + unat l \<le> 2 ^ 64"
  shows "unat a \<le> unat (align_up a l)" "unat (align_up a l) < unat a + unat l"
    "unat (align_up a l) mod unat l = 0"
proof -
  note r = nat_round_up(2,3) [OF assms(2), of "unat a - 1"] and e = unat_align_up [OF assms]
  show "unat a \<le> unat (align_up a l)" using r(1) e assms(1) by linarith
  show "unat (align_up a l) < unat a + unat l" using r(2) e assms(1,2) by linarith
  show "unat (align_up a l) mod unat l = 0" by (simp add: e)
qed

lemma mallocA_success:
  assumes "0 < unat (malloc_start s)" "0 < unat l" "unat (malloc_start s) + unat l + unat n < 2 ^ 64"
  shows "\<exists>p s'. mallocA n l s = Inr (p, s') \<and> unat (malloc_start s) \<le> unat p \<and>
    unat p < unat (malloc_start s) + unat l \<and> unat p mod unat l = 0 \<and>
    unat (malloc_start s') = unat p + unat n \<and> kmem s' = kmem s"
proof -
  define p where "p = align_up (malloc_start s) l"
  have b: "unat (malloc_start s) \<le> unat p" "unat p < unat (malloc_start s) + unat l" "unat p mod unat l = 0"
    using align_up_bounds [of "malloc_start s" l] assms by (simp_all add: p_def)
  then have "unat (p + n) = unat p + unat n"
    using assms(3) by (simp add: unat_word_ariths)
  moreover have "l \<noteq> 0" using assms(2) by auto
  ultimately show ?thesis using b by (simp add: mallocA_def p_def [symmetric] Let_def)
qed

lemma mallocA_frame: "mallocA n l s = Inr (p, s') \<Longrightarrow> s' = s\<lparr>malloc_start := p + n\<rparr>"
  by (auto simp: mallocA_def Let_def split: if_splits)

interpretation malloc_heap: allocator
  "\<lambda>n s. Inr (malloc n (s :: 'a kheap_scheme))" "\<lambda>s. unat (malloc_start s)" 0
  by unfold_locales (simp add: malloc_def unat_word_ariths)

interpretation page_heap: allocator
  "\<lambda>n s. mallocA n 0x1000 (s :: 'a kheap_scheme)" "\<lambda>s. unat (malloc_start s)" "0x1000"
proof unfold_locales
  fix s :: "'a kheap_scheme" and n :: u64
  assume "0 < unat (malloc_start s)" "unat (malloc_start s) + 0x1000 + unat n < 2 ^ 64"
  then show "\<exists>p s'. mallocA n 0x1000 s = Inr (p, s') \<and> unat (malloc_start s) \<le> unat p \<and>
      unat p \<le> unat (malloc_start s) + 0x1000 \<and> unat (malloc_start s') = unat p + unat n"
    using mallocA_success [where s = s and l = "0x1000" and n = n] by fastforce
qed

subsection \<open>The memory map walk\<close>

definition mmap_entries :: "mem \<Rightarrow> u64 \<Rightarrow> u64 \<Rightarrow> nat \<Rightarrow> mmap_entry list" where
  "mmap_entries m p esz n = map (\<lambda>k. read_mmap_entry m (p + of_nat k * esz)) [0..<n]"

definition usable :: "mmap_entry \<Rightarrow> bool" where
  "usable e \<longleftrightarrow> mm_type e = 1 \<and> mm_addr e < 0x10000000 \<and> 0 < mm_len e"

lemma mmap_entries_Suc:
  "mmap_entries m p esz (Suc n) = read_mmap_entry m p # mmap_entries m (p + esz) esz n"
proof -
  have "[0..<Suc n] = 0 # map Suc [0..<n]" by (simp add: map_Suc_upt upt_conv_Cons)
  then show ?thesis by (simp add: mmap_entries_def o_def algebra_simps)
qed

lemma mmap_walk_entries:
  fixes m :: mem and tag :: u64
  defines "esz \<equiv> unat (U32 m (tag + 8))" and "e \<equiv> unat tag + unat (U32 m (tag + 4))"
  assumes esz: "0 < esz" and ov: "e + esz < 2 ^ 64"
  shows "unat p + n * esz < e + esz \<Longrightarrow> e \<le> unat p + n * esz \<Longrightarrow>
    mmap_walk m tag p acc = Some (fold mmap_visit (mmap_entries m p (ucast (U32 m (tag + 8))) n) acc)"
proof (induction n arbitrary: p acc)
  case 0
  have "unat (tag + ucast (U32 m (tag + 4))) = e"
    using ov by (simp add: e_def unat_word_ariths)
  then have "\<not> p < tag + ucast (U32 m (tag + 4))" using 0 by (simp add: word_less_nat_alt)
  then show ?case by (simp add: mmap_walk.simps [of m] mmap_entries_def)
next
  case (Suc n)
  have e: "unat (tag + ucast (U32 m (tag + 4))) = e"
    using ov by (simp add: e_def unat_word_ariths)
  have "unat p < e" using Suc.prems(1) by simp
  then have lt: "p < tag + ucast (U32 m (tag + 4))" using e by (simp add: word_less_nat_alt)
  have pn: "unat (p + ucast (U32 m (tag + 8))) = unat p + esz"
    using \<open>unat p < e\<close> ov by (simp add: esz_def unat_word_ariths)
  have "mmap_walk m tag p acc =
      mmap_walk m tag (p + ucast (U32 m (tag + 8))) (mmap_visit (read_mmap_entry m p) acc)"
    using lt by (subst mmap_walk.simps) simp
  also have "\<dots> = Some (fold mmap_visit (mmap_entries m (p + ucast (U32 m (tag + 8)))
      (ucast (U32 m (tag + 8))) n) (mmap_visit (read_mmap_entry m p) acc))"
    using Suc.prems by (intro Suc.IH) (simp_all add: pn)
  finally show ?case by (simp add: mmap_entries_Suc)
qed

text \<open>After the entries \<open>es\<close>, the heap is the first longest usable one among them.\<close>

definition chosen :: "mmap_entry list \<Rightarrow> 'a kheap_scheme \<Rightarrow> u64 \<Rightarrow> 'a kheap_scheme \<Rightarrow> bool" where
  "chosen es s l s' \<longleftrightarrow>
     (if \<exists>i < length es. usable (es ! i)
      then \<exists>i < length es. usable (es ! i) \<and> l = mm_len (es ! i) \<and>
        (\<forall>j < length es. usable (es ! j) \<longrightarrow> mm_len (es ! j) \<le> l \<and> (j < i \<longrightarrow> mm_len (es ! j) < l)) \<and>
        malloc_start s' = mm_addr (es ! i) \<and> malloc_end s' = mm_len (es ! i) + mm_addr (es ! i) \<and>
        ms s' = mm_addr (es ! i)
      else l = 0 \<and> s' = s)"

lemma chosen_visit:
  assumes "chosen es s l s'"
  shows "case mmap_visit e (l, s') of (l', s'') \<Rightarrow> chosen (es @ [e]) s l' s''"
proof (cases "mm_type e = 1 \<and> l < mm_len e \<and> mm_addr e < 0x10000000")
  case True
  then have u: "usable e" by (auto simp: usable_def intro: le_less_trans [of 0 l])
  have old: "mm_len (es ! j) \<le> l" if "j < length es" "usable (es ! j)" for j
    using assms that by (auto simp: chosen_def split: if_splits)
  have "\<exists>i < length (es @ [e]). usable ((es @ [e]) ! i)" using u by (intro exI [of _ "length es"]) simp
  moreover have "mm_len ((es @ [e]) ! j) \<le> mm_len e \<and> (j < length es \<longrightarrow> mm_len ((es @ [e]) ! j) < mm_len e)"
    if "j < length (es @ [e])" "usable ((es @ [e]) ! j)" for j
    using old [of j] that True by (cases "j < length es") (auto simp: nth_append)
  ultimately show ?thesis using u True
    by (auto simp: chosen_def mmap_visit_def intro!: exI [of _ "length es"])
next
  case False
  then have v: "mmap_visit e (l, s') = (l, s')" by (auto simp: mmap_visit_def)
  show ?thesis
  proof (cases "\<exists>i < length es. usable (es ! i)")
    case True
    then obtain i where i: "i < length es" "usable (es ! i)" "l = mm_len (es ! i)"
      "\<forall>j < length es. usable (es ! j) \<longrightarrow> mm_len (es ! j) \<le> l \<and> (j < i \<longrightarrow> mm_len (es ! j) < l)"
      "malloc_start s' = mm_addr (es ! i)" "malloc_end s' = mm_len (es ! i) + mm_addr (es ! i)"
      "ms s' = mm_addr (es ! i)"
      using assms by (auto simp: chosen_def)
    have "usable e \<Longrightarrow> mm_len e \<le> l" using False by (auto simp: usable_def not_less)
    with i v show ?thesis
      by (auto simp: chosen_def nth_append less_Suc_eq intro!: exI [of _ i])
  next
    case none: False
    then have l: "l = 0" "s' = s" using assms by (auto simp: chosen_def)
    then have "\<not> usable e" using False by (auto simp: usable_def)
    with none l v show ?thesis by (auto simp: chosen_def nth_append less_Suc_eq)
  qed
qed

lemma chosen_fold: "case fold mmap_visit es (0, s) of (l, s') \<Rightarrow> chosen es s l s'"
proof (induction es rule: rev_induct)
  case Nil
  then show ?case by (simp add: chosen_def)
next
  case (snoc e es)
  obtain l s' where f: "fold mmap_visit es (0, s) = (l, s')" by fastforce
  with snoc have "chosen es s l s'" by simp
  from chosen_visit [OF this, of e] f show ?case by simp
qed

section \<open>Properties\<close>

text \<open>
  C33: any sequence of \<open>malloc\<close> calls that fits below the end of the address space returns
  pairwise disjoint blocks, one per request.
\<close>

theorem malloc_blocks_disjoint:
  assumes "0 < unat (malloc_start s)" and "unat (malloc_start s) + sum_list (map unat ns) < 2 ^ 64"
  shows "\<exists>ps s'. alloc_many (\<lambda>n s. Inr (malloc n s)) ns s = Inr (ps, s') \<and> length ps = length ns \<and>
    (\<forall>i j. i < j \<and> j < length ns \<longrightarrow>
       disjoint_blocks (ps ! i) (unat (ns ! i)) (ps ! j) (unat (ns ! j)))"
  using malloc_heap.alloc_many_disjoint [of s ns] assms by simp

theorem malloc_blocks_disjoint_witness:
  "\<exists>ps s'. alloc_many (\<lambda>n s. Inr (malloc n s)) [16, 32, 8]
      \<lparr>kmem = (\<lambda>_. 0), malloc_start = 0x270000, malloc_end = 0, ms = 0, me = 0\<rparr> = Inr (ps, s') \<and>
    length ps = 3 \<and>
    (\<forall>i j. i < j \<and> j < 3 \<longrightarrow>
       disjoint_blocks (ps ! i) (unat ([16, 32, 8 :: u64] ! i)) (ps ! j) (unat ([16, 32, 8 :: u64] ! j)))"
  using malloc_blocks_disjoint [of
      "\<lparr>kmem = (\<lambda>_. 0), malloc_start = 0x270000, malloc_end = 0, ms = 0, me = 0\<rparr>" "[16, 32, 8]"]
  by (simp add: numeral_3_eq_3)

text \<open>
  \<open>mallocA\<close> returns the least multiple of the alignment that is not below the frontier,
  and moves the frontier to the end of the block; it touches no memory.
\<close>

theorem mallocA_least_aligned:
  assumes "0 < unat (malloc_start s)" "0 < unat l" "unat (malloc_start s) + unat l + unat n < 2 ^ 64"
  shows "\<exists>p s'. mallocA n l s = Inr (p, s') \<and> unat p mod unat l = 0 \<and>
    unat (malloc_start s) \<le> unat p \<and>
    (\<forall>q. unat (malloc_start s) \<le> q \<and> q mod unat l = 0 \<longrightarrow> unat p \<le> q) \<and>
    unat (malloc_start s') = unat p + unat n \<and> kmem s' = kmem s"
proof -
  obtain p s' where ps: "mallocA n l s = Inr (p, s')" "unat (malloc_start s) \<le> unat p"
    "unat p < unat (malloc_start s) + unat l" "unat p mod unat l = 0"
    "unat (malloc_start s') = unat p + unat n" "kmem s' = kmem s"
    using mallocA_success [OF assms] by (elim exE conjE) (rule that)
  have "unat p \<le> q" if q: "unat (malloc_start s) \<le> q" "q mod unat l = 0" for q
  proof (rule ccontr)
    assume "\<not> unat p \<le> q"
    then have "0 < unat p - q" "unat p - q < unat l" using q ps by linarith+
    moreover have "unat l dvd unat p - q" using ps(4) q(2) by (auto intro: dvd_diff_nat)
    ultimately show False by (auto dest: dvd_imp_le)
  qed
  with ps show ?thesis by (intro exI [of _ p] exI [of _ s'] conjI allI impI) auto
qed

theorem mallocA_least_aligned_witness:
  "\<exists>p s'. mallocA 0x1000 0x1000 \<lparr>kmem = (\<lambda>_. 0), malloc_start = 0x270001, malloc_end = 0, ms = 0, me = 0\<rparr>
      = Inr (p, s') \<and> unat p mod 0x1000 = 0 \<and> 0x270001 \<le> unat p"
  using mallocA_least_aligned [of
      "\<lparr>kmem = (\<lambda>_. 0), malloc_start = 0x270001, malloc_end = 0, ms = 0, me = 0\<rparr>" "0x1000" "0x1000"]
  by auto

text \<open>
  after \<open>mallocAB\<close> the next \<open>malloc\<close> block starts where the returned block ends, unless
  the block crosses a boundary: then it starts at the last boundary below the end, that is
  \<open>(p + sz) mod boundary\<close> bytes inside the block just handed out.
\<close>

theorem mallocAB_next_block:
  assumes "0 < unat (malloc_start s)" "0 < unat l" "unat l \<le> unat b"
    and "unat (malloc_start s) + unat l + unat sz < 2 ^ 64"
  shows "\<exists>p s'. mallocAB sz l b s = Inr (p, s') \<and> unat p mod unat l = 0 \<and>
    unat (malloc_start s) \<le> unat p \<and>
    unat (fst (malloc n s')) =
      unat p + unat sz -
        (if unat p div unat b = (unat p + unat sz) div unat b then 0 else (unat p + unat sz) mod unat b)"
proof -
  define p where "p = align_up (malloc_start s) l"
  have p: "unat (malloc_start s) \<le> unat p" "unat p < unat (malloc_start s) + unat l" "unat p mod unat l = 0"
    using align_up_bounds [of "malloc_start s" l] assms by (simp_all add: p_def)
  then have e: "unat (p + sz) = unat p + unat sz" using assms(4) by (simp add: unat_word_ariths)
  have lb: "\<not> b < l" "l \<noteq> 0" using assms(2,3) by (auto simp: word_less_nat_alt)
  have dv: "(p div b = (p + sz) div b) = (unat p div unat b = (unat p + unat sz) div unat b)"
    by (simp add: word_unat_eq_iff unat_div e)
  have "(unat p + unat sz) div unat b * unat b \<le> unat p + unat sz" by simp
  then have "(unat p + unat sz) div unat b * unat b < 18446744073709551616"
    using unat_u64_less [of "p + sz"] e by linarith
  then have "unat ((p + sz) div b * b) = (unat p + unat sz) div unat b * unat b"
    using unat_mult_lem [of "(p + sz) div b" b] by (simp add: unat_div e)
  also have "\<dots> = unat p + unat sz - (unat p + unat sz) mod unat b"
    by (rule minus_mod_eq_div_mult [symmetric])
  finally show ?thesis using p e lb dv
    by (simp add: mallocAB_def malloc_def p_def [symmetric] Let_def)
qed

theorem mallocAB_next_block_witness:
  "\<exists>p s'. mallocAB 0x600 0x40 0x1000
       \<lparr>kmem = (\<lambda>_. 0), malloc_start = 0x270c00, malloc_end = 0, ms = 0, me = 0\<rparr> = Inr (p, s') \<and>
     p = 0x270c00 \<and> fst (malloc 8 s') = 0x271000"
proof -
  have "mallocAB 0x600 0x40 0x1000
       \<lparr>kmem = (\<lambda>_. 0), malloc_start = 0x270c00, malloc_end = 0, ms = 0, me = 0\<rparr> =
     Inr (0x270c00, \<lparr>kmem = (\<lambda>_. 0), malloc_start = 0x271000, malloc_end = 0, ms = 0, me = 0\<rparr>)"
    by (simp add: mallocAB_def align_up_def)
  moreover have "\<exists>p s'. mallocAB 0x600 0x40 0x1000
       \<lparr>kmem = (\<lambda>_. 0), malloc_start = 0x270c00, malloc_end = 0, ms = 0, me = 0\<rparr> = Inr (p, s') \<and>
     unat p mod unat (0x40 :: u64) = 0 \<and> unat (0x270c00 :: u64) \<le> unat p \<and>
     unat (fst (malloc 8 s')) = unat p + unat (0x600 :: u64) -
        (if unat p div unat (0x1000 :: u64) = (unat p + unat (0x600 :: u64)) div unat (0x1000 :: u64) then 0
         else (unat p + unat (0x600 :: u64)) mod unat (0x1000 :: u64))"
    using mallocAB_next_block [of
        "\<lparr>kmem = (\<lambda>_. 0), malloc_start = 0x270c00, malloc_end = 0, ms = 0, me = 0\<rparr>" "0x40" "0x1000" "0x600" 8]
    by simp
  ultimately show ?thesis by (auto simp: word_unat_eq_iff)
qed

text \<open>
  given a memory map whose entry size is not 0 and that ends below the address space,
  \<open>AssignMallocMemoryMap\<close> terminates, and the heap it installs starts \<open>safe_offset\<close> bytes
  into the first longest available region below 256 MB (the heap stays where it was when
  there is none).
\<close>

theorem AssignMallocMemoryMap_picks_largest:
  assumes "0 < unat (U32 (kmem s) (tag + 8))"
    and "unat tag + unat (U32 (kmem s) (tag + 4)) + unat (U32 (kmem s) (tag + 8)) + 16 < 2 ^ 64"
    and n: "n = (unat (U32 (kmem s) (tag + 4)) - 16 + unat (U32 (kmem s) (tag + 8)) - 1) div
      unat (U32 (kmem s) (tag + 8))"
  shows "\<exists>l s'. chosen (mmap_entries (kmem s) (tag + 16) (ucast (U32 (kmem s) (tag + 8))) n) s l s' \<and>
    AssignMallocMemoryMap tag off s = Inr (s'\<lparr>malloc_start := malloc_start s' + off\<rparr>)"
proof -
  let ?z = "unat (U32 (kmem s) (tag + 4))" and ?e = "unat (U32 (kmem s) (tag + 8))"
  let ?es = "mmap_entries (kmem s) (tag + 16) (ucast (U32 (kmem s) (tag + 8))) n"
  have t: "unat (tag + 16) = unat tag + 16" using assms(2) by (simp add: unat_word_ariths)
  define r where "r = ?z - 16"
  have bd: "r \<le> n * ?e" "n * ?e \<le> r + ?e - 1"
    using assms(1) div_mult_mod_eq [of "r + ?e - 1" ?e] mod_less_divisor [of ?e "r + ?e - 1"]
    unfolding n r_def [symmetric] by linarith+
  have walk: "mmap_walk (kmem s) tag (tag + 16) (0, s) = Some (fold mmap_visit ?es (0, s))"
  proof (cases "16 \<le> ?z")
    case True
    then show ?thesis using bd assms(1,2) t by (intro mmap_walk_entries) (auto simp: r_def)
  next
    case False
    then have "unat (tag + ucast (U32 (kmem s) (tag + 4))) \<le> unat (tag + 16)"
      using t assms(2) by (simp add: unat_word_ariths)
    then have "\<not> tag + 16 < tag + ucast (U32 (kmem s) (tag + 4))" by (simp add: word_less_nat_alt)
    moreover have "n = 0" using False assms(1) by (simp add: n)
    ultimately show ?thesis by (subst mmap_walk.simps) (simp add: mmap_entries_def)
  qed
  obtain l s' where f: "fold mmap_visit ?es (0, s) = (l, s')" by fastforce
  then have "chosen ?es s l s'" using chosen_fold [of ?es s] by simp
  with f walk show ?thesis by (auto simp: AssignMallocMemoryMap_def)
qed

theorem AssignMallocMemoryMap_picks_largest_witness:
  "\<exists>l s'. chosen (mmap_entries ((\<lambda>_. 0)(4 := 40, 8 := 24, 18 := 16, 25 := 32, 32 := 1)) 16 24 1)
      \<lparr>kmem = ((\<lambda>_. 0)(4 := 40, 8 := 24, 18 := 16, 25 := 32, 32 := 1)), malloc_start = 0x270000, malloc_end = 0, ms = 0, me = 0\<rparr> l s' \<and>
    AssignMallocMemoryMap 0 0x10
      \<lparr>kmem = ((\<lambda>_. 0)(4 := 40, 8 := 24, 18 := 16, 25 := 32, 32 := 1)), malloc_start = 0x270000, malloc_end = 0, ms = 0, me = 0\<rparr> =
      Inr (s'\<lparr>malloc_start := malloc_start s' + 0x10\<rparr>)"
proof -
  let ?m = "((\<lambda>_. 0)(4 := 40, 8 := 24, 18 := 16, 25 := 32, 32 := 1)) :: mem"
  define s0 where "s0 = \<lparr>kmem = ?m, malloc_start = 0x270000, malloc_end = 0, ms = 0, me = 0\<rparr>"
  have k: "kmem s0 = ?m" by (simp add: s0_def)
  have 1: "U32 ?m (0 + 4) = 40" "U32 ?m (0 + 8) = 24" by (simp_all add: U32_def bytes_numeral)
  have "\<exists>l s'. chosen (mmap_entries (kmem s0) (0 + 16) (ucast (U32 (kmem s0) (0 + 8))) 1) s0 l s' \<and>
      AssignMallocMemoryMap 0 0x10 s0 = Inr (s'\<lparr>malloc_start := malloc_start s' + 0x10\<rparr>)"
    unfolding k 1 by (rule AssignMallocMemoryMap_picks_largest [of s0 0, unfolded k 1]) simp_all
  then show ?thesis unfolding k 1 by (simp add: s0_def)
qed

text \<open>
  \<open>strdup\<close> of a NUL-terminated string shorter than 2 GB that the heap does not overlap
  returns a fresh block holding an equal NUL-terminated string, and changes no byte outside
  that block.
\<close>

theorem strdup_copies:
  assumes c: "cstring (kmem s) a xs"
    and len: "length xs < 2 ^ 31 - 1"
    and dj: "disjoint_blocks (malloc_start s) (Suc (length xs)) a (Suc (length xs))"
  shows "\<exists>s'. strdup a s = Inr (malloc_start s, s') \<and> cstring (kmem s') (malloc_start s) xs \<and>
    cstring (kmem s') a xs \<and>
    malloc_start s' = malloc_start s + of_nat (Suc (length xs)) \<and>
    (\<forall>x. \<not> in_block (malloc_start s) (Suc (length xs)) x \<longrightarrow> kmem s' x = kmem s x)"
proof -
  let ?p = "malloc_start s" and ?n = "length xs"
  let ?m = "(memcpy (kmem s) ?p a (int ?n))(?p + of_nat ?n := 0)"
  have n: "Suc ?n \<le> 2 ^ 64" using len by simp
  have dn: "disjoint_blocks ?p ?n a ?n" using dj by (auto simp: disjoint_blocks_def)
  note cp = memcpy_nat [OF disjoint_copy_safe [OF dn] Suc_leD [OF n], of "kmem s"]
  have out: "?m x = kmem s x" if "\<not> in_block ?p (Suc ?n) x" for x
    using that in_block_Suc [of ?n ?p x] n by (simp add: cp)
  have in_p: "?m (?p + of_nat i) = kmem s (a + of_nat i)" if "i < ?n" for i
    using that n offset_inj [of i ?n ?p] by (simp add: cp in_block_def)
  have "cstring ?m ?p xs"
    by (rule cstringI) (simp_all only: in_p cstring_nth [OF c] fun_upd_same simp_thms)
  moreover have "load_bytes ?m a (Suc ?n) = load_bytes (kmem s) a (Suc ?n)"
    by (rule load_bytes_cong, rule out, rule not_in_block_disjoint [OF dj])
  then have "cstring ?m a xs" using c by (simp add: cstring_def del: load_bytes.simps)
  ultimately show ?thesis
    using out by (simp add: strdup_def strlen_cstring [OF c] malloc_def)
qed

theorem strdup_copies_witness:
  "\<exists>s'. strdup 16 \<lparr>kmem = store_bytes (\<lambda>_. 0) 16 [97, 98], malloc_start = 0x270000,
       malloc_end = 0, ms = 0, me = 0\<rparr> = Inr (0x270000, s') \<and> cstring (kmem s') 0x270000 [97, 98]"
  using strdup_copies [of "\<lparr>kmem = store_bytes (\<lambda>_. 0) 16 [97, 98], malloc_start = 0x270000,
       malloc_end = 0, ms = 0, me = 0\<rparr>" 16 "[97, 98]"]
  by (auto simp: disjoint_blocks_def)

end
