(* ===== verification/Paging.thy ===== *)
theory Paging
  imports KMalloc
begin

text \<open>
  Paging and the physical page allocator of \<open>src/src/paging/paging.c\<close>. The page tables
  live in the flat memory: \<open>p3_table\<close> and \<open>p2_table\<close> are the link addresses of the boot
  tables, an entry is a little-endian 64-bit word, and the second-level tables are heap
  pages. \<open>page_allocator\<close> is the global array of 512 32-bit counters. The \<open>invlpg\<close>
  instruction and the log lines have no effect on this state.
\<close>

section \<open>Definitions\<close>

record kpaging = kheap +
  p3_table :: u64
  p2_table :: u64
  page_allocator :: "u32 list"

abbreviation (input) PAGE_WIDTH :: u64 where "PAGE_WIDTH \<equiv> 0x40000000"
abbreviation (input) PAGE_P2_SIZE :: u64 where "PAGE_P2_SIZE \<equiv> 0x200000"

text \<open>The masks \<open>TABLE\<close> and \<open>PAGE\<close>: the complements are sign-extended to 64 bits.\<close>

definition TABLE :: "u64 \<Rightarrow> u64" where
  "TABLE x = x AND NOT 0xff"

definition PAGE :: "u64 \<Rightarrow> u64" where
  "PAGE x = x AND NOT 0x1fffff"

text \<open>Entry \<open>i\<close> of the table of 64-bit words at \<open>t\<close>.\<close>

definition entry :: "u64 \<Rightarrow> u64 \<Rightarrow> u64" where
  "entry t i = t + 8 * i"

definition PageSetup :: "'a kpaging_scheme \<Rightarrow> 'a kpaging_scheme" where
  "PageSetup s = s\<lparr>kmem := set_U64 (kmem s) (p3_table s) (p2_table s OR 7)\<rparr>"

definition fill_table :: "u64 \<Rightarrow> u64 \<Rightarrow> u32 \<Rightarrow> nat \<Rightarrow> mem \<Rightarrow> mem" where
  "fill_table ptr address flags n m =
     fold (\<lambda>i m. set_U64 m (entry ptr (of_nat i))
       ((PAGE_P2_SIZE * of_nat i + address) OR 0x87 OR ucast flags)) [0..<n] m"

definition AllocatePage :: "int \<Rightarrow> u64 \<Rightarrow> u32 \<Rightarrow> 'a kpaging_scheme \<Rightarrow> 'a kpaging_scheme outcome" where
  "AllocatePage p address flags s =
     (if U64 (kmem s) (entry (TABLE (p3_table s)) (of_int p)) AND 3 \<noteq> 0 then Inr s
      else andthen (mallocA 0x1000 0x1000 s) (\<lambda>(ptr, s).
        let s = s\<lparr>kmem := set_U64 (kmem s) (entry (p3_table s) (of_int p)) (ptr OR 7)\<rparr>
        in Inr (s\<lparr>kmem := fill_table ptr address flags 512 (kmem s)\<rparr>)))"

definition PageRemap :: "int \<Rightarrow> u64 \<Rightarrow> u64 \<Rightarrow> int \<Rightarrow> 'a kpaging_scheme \<Rightarrow> 'a kpaging_scheme" where
  "PageRemap p off address flags s =
     (let table = TABLE (U64 (kmem s) (entry (p3_table s) (of_int p)))
      in s\<lparr>kmem := set_U64 (kmem s) (entry table off) (address OR 0x87 OR of_int flags)\<rparr>)"

definition MemoryRemap :: "u64 \<Rightarrow> u64 \<Rightarrow> int \<Rightarrow> 'a kpaging_scheme \<Rightarrow> 'a kpaging_scheme" where
  "MemoryRemap to from flags s =
     (let p = long_to_int (to div PAGE_WIDTH);
          off = long_to_int ((to mod PAGE_WIDTH) div PAGE_P2_SIZE);
          table = TABLE (U64 (kmem s) (entry (p3_table s) (of_int p)))
      in s\<lparr>kmem := set_U64 (kmem s) (entry table (of_int off)) (from OR 0x87 OR of_int flags)\<rparr>)"

definition PageIdentity :: "int \<Rightarrow> int \<Rightarrow> int \<Rightarrow> 'a kpaging_scheme \<Rightarrow> 'a kpaging_scheme" where
  "PageIdentity p1 p2 flags s =
     s\<lparr>kmem := set_U64 (kmem s) (entry (p3_table s) (of_int p1))
       ((of_int p2 * PAGE_WIDTH) OR 7 OR of_int flags)\<rparr>"

definition MemoryPhysical :: "u64 \<Rightarrow> 'a kpaging_scheme \<Rightarrow> u64" where
  "MemoryPhysical addr s =
     (let pe = U64 (kmem s) (entry (p3_table s) (addr div PAGE_WIDTH))
      in if pe AND 1 = 0 then 0
         else let off = addr mod PAGE_WIDTH;
                  pe2 = U64 (kmem s) (entry (TABLE pe) (off div PAGE_P2_SIZE))
              in if pe2 AND 1 = 0 then 0 else PAGE pe2 OR (off mod PAGE_P2_SIZE))"

definition InitAllocator :: "'a kpaging_scheme \<Rightarrow> 'a kpaging_scheme" where
  "InitAllocator s = s\<lparr>page_allocator := replicate 512 0\<rparr>"

text \<open>The physical page behind slot \<open>i\<close>: \<open>PAGE(TABLE(p3_table[1])[i])\<close>.\<close>

definition slot_page :: "'a kpaging_scheme \<Rightarrow> nat \<Rightarrow> u64" where
  "slot_page s i = PAGE (U64 (kmem s) (entry (TABLE (U64 (kmem s) (entry (p3_table s) 1))) (of_nat i)))"

text \<open>
  The inner loop of \<open>PageAllocateN\<close> looks at the slots \<open>i .. i+n-1\<close> but breaks at the end of
  the array; the outer loop takes the first \<open>i\<close> at which it found no counter set.
\<close>

definition run_free :: "u32 list \<Rightarrow> nat \<Rightarrow> nat \<Rightarrow> bool" where
  "run_free pa n i = list_all (\<lambda>j. i + j \<ge> 512 \<or> pa ! (i + j) = 0) [0..<min n 512]"

fun mark_run :: "nat \<Rightarrow> u32 \<Rightarrow> nat \<Rightarrow> u32 list \<Rightarrow> u32 list outcome" where
  "mark_run ix v 0 pa = Inr pa"
| "mark_run ix v (Suc k) pa = andthen (array_set pa ix v) (mark_run (Suc ix) v k)"

definition PageAllocateN :: "u32 \<Rightarrow> 'a kpaging_scheme \<Rightarrow> (u64 \<times> 'a kpaging_scheme) outcome" where
  "PageAllocateN n s =
     (case find (run_free (page_allocator s) (unat n)) [0..<512] of
        None \<Rightarrow> Inr (0, s)
      | Some ix \<Rightarrow>
          andthen (mark_run ix (n) (unat n) (page_allocator s)) (\<lambda>pa.
            let s = s\<lparr>page_allocator := pa\<rparr> in Inr (slot_page s ix, s)))"

definition PageAllocate :: "'a kpaging_scheme \<Rightarrow> u64 \<times> 'a kpaging_scheme" where
  "PageAllocate s =
     (case find (\<lambda>i. page_allocator s ! i = 0) [0..<512] of
        None \<Rightarrow> (0, s)
      | Some ix \<Rightarrow>
          let s = s\<lparr>page_allocator := (page_allocator s)[ix := 1]\<rparr> in (slot_page s ix, s))"

text \<open>
  \<open>FORI(page_allocator[id]) page_allocator[id+i]=0\<close>: the bound is read again in every
  iteration. The \<open>int\<close> bound is sign-extended to \<open>size_t\<close> for the comparison.
\<close>

function dealloc_loop :: "nat \<Rightarrow> nat \<Rightarrow> u32 list \<Rightarrow> u32 list outcome" where
  "dealloc_loop ix i pa =
     (if ix < length pa then
        (if i < unat (scast (pa ! ix) :: u64)
         then (if ix + i < length pa then dealloc_loop ix (Suc i) (pa[ix + i := 0]) else Inl OutOfBounds)
         else Inr pa)
      else Inl OutOfBounds)"
  by pat_completeness auto
termination
  by (relation "measure (\<lambda>(ix, i, pa). length pa - (ix + i))") auto

text \<open>\<open>id%512\<close> on an \<open>int\<close>: the remainder has the sign of the dividend.\<close>

definition PageDealloc :: "u64 \<Rightarrow> 'a kpaging_scheme \<Rightarrow> 'a kpaging_scheme outcome" where
  "PageDealloc page s =
     (let q = long_to_int (page div PAGE_P2_SIZE);
          ix = (if q < 0 then - ((- q) mod 512) else q mod 512)
      in if ix < 0 then Inl OutOfBounds
         else andthen (dealloc_loop (nat ix) 0 (page_allocator s))
                (\<lambda>pa. Inr (s\<lparr>page_allocator := pa\<rparr>)))"

declare dealloc_loop.simps [simp del]

section \<open>Lemmas\<close>

subsection \<open>Entry words\<close>

lemma PAGE_mask: "PAGE x = x AND NOT (mask 21)"
  by (simp add: PAGE_def mask_eq_exp_minus_1)

lemma TABLE_mask: "TABLE x = x AND NOT (mask 8)"
  by (simp add: TABLE_def mask_eq_exp_minus_1)

lemma small_word_bit: "unat (f :: 'a::len word) < 2 ^ k \<Longrightarrow> bit f n \<Longrightarrow> n < k"
proof (rule ccontr)
  assume f: "unat f < 2 ^ k" "bit f n" "\<not> n < k"
  have "bit (unat f) n" using f(2) by (simp add: bit_unsigned_iff)
  then have "2 ^ n \<le> unat f" using bit_nat_def [of "unat f" n]
    by (cases "unat f < 2 ^ n") auto
  moreover have "(2::nat) ^ k \<le> 2 ^ n" using f(3) by (intro power_increasing) auto
  ultimately show False using f(1) by linarith
qed

lemma clear_low_or:
  assumes "unat f < 2 ^ k"
  shows "(x OR f) AND NOT (mask k) = x AND NOT (mask k)"
  by (rule bit_word_eqI) (use small_word_bit [OF assms] in \<open>auto simp: bit_simps\<close>)

lemma clear_low_aligned:
  assumes "x mod 2 ^ k = 0"
  shows "x AND NOT (mask k) = (x :: 'a::len word)"
proof (rule bit_word_eqI)
  fix n
  have "take_bit k x = 0" using assms by (simp add: take_bit_eq_mod)
  then have "bit (take_bit k x) n = False" by simp
  then show "bit (x AND NOT (mask k)) n = bit x n" if "n < LENGTH('a)"
    using that by (auto simp: bit_simps)
qed

lemma or_7_small: "unat (7 :: u64) < 2 ^ 8" by simp

lemma or_flags_small:
  assumes "unat f < 2 ^ 21"
  shows "unat (0x87 OR f :: u64) < 2 ^ 21"
proof -
  have "0x87 OR f = take_bit 21 (0x87 OR f)"
    by (rule bit_word_eqI)
      (use small_word_bit [OF assms] small_word_bit [of "0x87 :: u64" 21] in \<open>auto simp: bit_simps\<close>)
  then show ?thesis by (metis unsigned_take_bit_eq take_bit_nat_less_exp)
qed

lemma PAGE_leaf: "unat f < 2 ^ 21 \<Longrightarrow> PAGE (x OR 0x87 OR f) = PAGE x"
  using clear_low_or [OF or_flags_small, of f x] by (simp add: PAGE_mask or.assoc)

lemma leaf_present: "(x OR 0x87 OR f) AND 1 \<noteq> (0 :: u64)"
proof -
  have "bit ((x OR 0x87 OR f) AND 1) 0" by (simp add: bit_simps)
  then show ?thesis by (metis bit_0_eq bot_apply bot_bool_def)
qed

lemma table_entry_present: "(x OR 7) AND 1 \<noteq> (0 :: u64)"
proof -
  have "bit ((x OR 7) AND 1) 0" by (simp add: bit_simps)
  then show ?thesis by (metis bit_0_eq bot_apply bot_bool_def)
qed

lemma TABLE_entry: "p mod 0x1000 = 0 \<Longrightarrow> TABLE (p OR 7) = p"
proof -
  assume p: "p mod 0x1000 = 0"
  have "take_bit 8 p = take_bit 8 (take_bit 12 p)" by simp
  also have "take_bit 12 p = 0" using p by (simp add: take_bit_eq_mod)
  finally have "p mod 2 ^ 8 = 0" by (simp add: take_bit_eq_mod)
  then have "p AND NOT (mask 8) = p" by (rule clear_low_aligned)
  then show ?thesis by (simp add: TABLE_mask clear_low_or [OF or_7_small])
qed

lemma PAGE_offset: "PAGE x OR (off mod PAGE_P2_SIZE) = PAGE x + off mod PAGE_P2_SIZE"
proof -
  have "off mod PAGE_P2_SIZE = take_bit 21 off" by (simp add: take_bit_eq_mod)
  moreover have "PAGE x AND take_bit 21 off = 0"
    by (rule bit_word_eqI) (auto simp: PAGE_mask bit_simps)
  ultimately show ?thesis by (simp add: disjunctive_add_eq_or)
qed

subsection \<open>Tables in memory\<close>

lemma unat_entry: "unat t + 4096 \<le> 2 ^ 64 \<Longrightarrow> i < 512 \<Longrightarrow> unat (entry t (of_nat i)) = unat t + 8 * i"
proof -
  assume a: "unat t + 4096 \<le> 2 ^ 64" "i < 512"
  have "entry t (of_nat i) = t + of_nat (8 * i)" by (simp add: entry_def)
  then show ?thesis using a unat_add_of_nat [of t "8 * i"] by simp
qed

lemma entry_in_table:
  "unat t + 4096 \<le> 2 ^ 64 \<Longrightarrow> i < 512 \<Longrightarrow> disjoint_blocks t 4096 b n \<Longrightarrow>
   disjoint_blocks (entry t (of_nat i)) 8 b n"
  by (auto simp: disjoint_blocks_def unat_entry)

lemma entries_disjoint:
  "unat t + 4096 \<le> 2 ^ 64 \<Longrightarrow> i < 512 \<Longrightarrow> j < 512 \<Longrightarrow> i \<noteq> j \<Longrightarrow>
   disjoint_blocks (entry t (of_nat i)) 8 (entry t (of_nat j)) 8"
  by (auto simp: disjoint_blocks_def unat_entry)

lemma U64_set_entry:
  assumes "unat t + 4096 \<le> 2 ^ 64" "i < 512" "j < 512"
  shows "U64 (set_U64 m (entry t (of_nat i)) v) (entry t (of_nat j)) =
    (if i = j then v else U64 m (entry t (of_nat j)))"
  using assms by (auto simp: U64_set_U64_other entries_disjoint)

lemma fill_table_Suc:
  "fill_table t a f (Suc n) m = set_U64 (fill_table t a f n m) (entry t (of_nat n))
     ((PAGE_P2_SIZE * of_nat n + a) OR 0x87 OR ucast f)"
  by (simp add: fill_table_def)

lemma fill_table_entry:
  assumes "unat t + 4096 \<le> 2 ^ 64" "i < 512"
  shows "n \<le> 512 \<Longrightarrow> U64 (fill_table t a f n m) (entry t (of_nat i)) =
    (if i < n then (PAGE_P2_SIZE * of_nat i + a) OR 0x87 OR ucast f else U64 m (entry t (of_nat i)))"
proof (induction n)
  case 0
  then show ?case by (simp add: fill_table_def)
next
  case (Suc n)
  then show ?case using U64_set_entry [OF assms(1) _ assms(2), of n]
    by (simp add: fill_table_Suc less_Suc_eq)
qed

lemma fill_table_other:
  assumes "disjoint_blocks t 4096 b k"
  shows "n \<le> 512 \<Longrightarrow> load_bytes (fill_table t a f n m) b k = load_bytes m b k"
proof (induction n)
  case 0
  then show ?case by (simp add: fill_table_def)
next
  case (Suc n)
  have "unat t + 4096 \<le> 2 ^ 64" using assms by (simp add: disjoint_blocks_def)
  then have "disjoint_blocks (entry t (of_nat n)) 8 b k"
    using Suc.prems assms by (intro entry_in_table) auto
  then show ?case using Suc by (simp add: fill_table_Suc load_set_U64_other)
qed

subsection \<open>The shape of the page tables\<close>

definition p3_entry :: "'a kpaging_scheme \<Rightarrow> nat \<Rightarrow> u64" where
  "p3_entry s q = U64 (kmem s) (entry (p3_table s) (of_nat q))"

definition present :: "'a kpaging_scheme \<Rightarrow> nat \<Rightarrow> bool" where
  "present s q \<longleftrightarrow> p3_entry s q AND 1 \<noteq> 0"

text \<open>
  The invariant: the top table is aligned, and the second-level tables of the present entries lie apart from the top
  table and from each other. The boot tables belong to the kernel image, which the linker puts above the first heap, so
  where the heap is free of tables is a condition of its own: \<open>heap_clear n\<close> says that the next \<open>n\<close> bytes of the heap
  hold none.
\<close>

definition paging_inv :: "'a kpaging_scheme \<Rightarrow> bool" where
  "paging_inv s \<longleftrightarrow>
     TABLE (p3_table s) = p3_table s \<and> unat (p3_table s) + 4096 \<le> 2 ^ 64 \<and>
     (\<forall>q < 512. present s q \<longrightarrow> disjoint_blocks (TABLE (p3_entry s q)) 4096 (p3_table s) 4096) \<and>
     (\<forall>q < 512. \<forall>r < 512. q \<noteq> r \<longrightarrow> present s q \<longrightarrow> present s r \<longrightarrow>
        disjoint_blocks (TABLE (p3_entry s q)) 4096 (TABLE (p3_entry s r)) 4096)"

definition heap_clear :: "nat \<Rightarrow> 'a kpaging_scheme \<Rightarrow> bool" where
  "heap_clear n s \<longleftrightarrow>
     0 < unat (malloc_start s) \<and> unat (malloc_start s) + n < 2 ^ 64 \<and>
     disjoint_blocks (malloc_start s) n (p3_table s) 4096 \<and>
     (\<forall>q < 512. present s q \<longrightarrow> disjoint_blocks (malloc_start s) n (TABLE (p3_entry s q)) 4096)"

definition leaf_index :: "u64 \<Rightarrow> nat" where
  "leaf_index va = unat (va mod PAGE_WIDTH) div 0x200000"

definition leaf :: "'a kpaging_scheme \<Rightarrow> nat \<Rightarrow> nat \<Rightarrow> u64" where
  "leaf s q i = U64 (kmem s) (entry (TABLE (p3_entry s q)) (of_nat i))"

lemma leaf_index_bound: "leaf_index va < 512"
proof -
  have "unat (va mod PAGE_WIDTH) = unat va mod 0x40000000" by (simp add: unat_mod)
  also have "\<dots> < 0x40000000" by simp
  finally show ?thesis by (simp add: leaf_index_def)
qed

lemma leaf_index_word: "va mod PAGE_WIDTH div PAGE_P2_SIZE = of_nat (leaf_index va)"
  by (rule word_unat_eq_iff [THEN iffD2]) (use leaf_index_bound [of va] in \<open>simp add: leaf_index_def unat_div\<close>)

lemma p3_index: "unat va < 2 ^ 39 \<Longrightarrow> unat (va div PAGE_WIDTH) < 512"
  by (simp add: unat_div)

lemma MemoryPhysical_leaf:
  "MemoryPhysical va s =
     (let q = unat (va div PAGE_WIDTH)
      in if present s q \<and> leaf s q (leaf_index va) AND 1 \<noteq> 0
         then PAGE (leaf s q (leaf_index va)) + va mod PAGE_WIDTH mod PAGE_P2_SIZE else 0)"
  by (simp add: MemoryPhysical_def Let_def present_def p3_entry_def leaf_def leaf_index_word PAGE_offset)

lemma paging_invD:
  assumes "paging_inv s"
  shows "TABLE (p3_table s) = p3_table s" "unat (p3_table s) + 4096 \<le> 2 ^ 64"
    "q < 512 \<Longrightarrow> present s q \<Longrightarrow> unat (TABLE (p3_entry s q)) + 4096 \<le> 2 ^ 64"
    "q < 512 \<Longrightarrow> present s q \<Longrightarrow> disjoint_blocks (TABLE (p3_entry s q)) 4096 (p3_table s) 4096"
    "q < 512 \<Longrightarrow> r < 512 \<Longrightarrow> q \<noteq> r \<Longrightarrow> present s q \<Longrightarrow> present s r \<Longrightarrow>
     disjoint_blocks (TABLE (p3_entry s q)) 4096 (TABLE (p3_entry s r)) 4096"
  using assms by (auto simp: paging_inv_def disjoint_blocks_def)

lemma disjoint_blocks_within:
  "disjoint_blocks a n b m \<Longrightarrow> unat a \<le> unat a' \<Longrightarrow> unat a' + n' \<le> unat a + n \<Longrightarrow> disjoint_blocks a' n' b m"
  by (auto simp: disjoint_blocks_def)

lemma heap_clearD:
  assumes "heap_clear n s" and "unat (malloc_start s) \<le> unat t" and "unat t + k \<le> unat (malloc_start s) + n"
  shows "disjoint_blocks t k (p3_table s) 4096"
    "q < 512 \<Longrightarrow> present s q \<Longrightarrow> disjoint_blocks t k (TABLE (p3_entry s q)) 4096"
  using assms disjoint_blocks_within [of "malloc_start s" n _ 4096 t k] by (auto simp: heap_clear_def)

lemma U64_cong: "load_bytes m a 8 = load_bytes m' a 8 \<Longrightarrow> U64 m a = U64 m' a"
  by (simp add: U64_def)

lemma AllocatePage_effect:
  assumes inv: "paging_inv s" and p: "0 \<le> p" "p < 512"
    and free: "p3_entry s (nat p) AND 3 = 0" and pos: "0 < unat (malloc_start s)"
    and room: "disjoint_blocks (malloc_start s) 0x2000 (p3_table s) 4096" "unat (malloc_start s) + 0x2000 < 2 ^ 64"
  shows "\<exists>t s'. AllocatePage p address flags s = Inr s' \<and> s' = s\<lparr>malloc_start := t + 0x1000, kmem := kmem s'\<rparr> \<and>
    unat (malloc_start s) \<le> unat t \<and> unat t < unat (malloc_start s) + 0x1000 \<and> t mod 0x1000 = 0 \<and>
    unat (malloc_start s') = unat t + 4096 \<and>
    (\<forall>q < 512. p3_entry s' q = (if q = nat p then t OR 7 else p3_entry s q)) \<and>
    (\<forall>i < 512. U64 (kmem s') (entry t (of_nat i)) = (PAGE_P2_SIZE * of_nat i + address) OR 0x87 OR ucast flags) \<and>
    (\<forall>b k. disjoint_blocks t 4096 b k \<and> disjoint_blocks (p3_table s) 4096 b k \<longrightarrow>
       load_bytes (kmem s') b k = load_bytes (kmem s) b k)"
proof -
  note d = paging_invD [OF inv]
  obtain t s1 where a: "mallocA 0x1000 0x1000 s = Inr (t, s1)" "unat (malloc_start s) \<le> unat t"
      "unat t < unat (malloc_start s) + 0x1000" "unat t mod 0x1000 = 0"
      "unat (malloc_start s1) = unat t + 0x1000"
    using mallocA_success [of s "0x1000" "0x1000"] pos room(2) by auto
  have s1: "s1 = s\<lparr>malloc_start := t + 0x1000\<rparr>" using mallocA_frame [OF a(1)] .
  then have k1: "kmem s1 = kmem s" "p3_table s1 = p3_table s" by simp_all
  have ip: "(of_int p :: u64) = of_nat (nat p)" "nat p < 512" using p by simp_all
  let ?m1 = "set_U64 (kmem s) (entry (p3_table s) (of_nat (nat p))) (t OR 7)"
  define s' where "s' = s1\<lparr>kmem := fill_table t address flags 512 ?m1\<rparr>"
  have "AllocatePage p address flags s = Inr s'"
    using free by (simp add: AllocatePage_def a(1) k1 ip d(1) p3_entry_def s'_def)
  moreover have dt: "disjoint_blocks t 4096 (p3_table s) 4096" using disjoint_blocks_within [OF room(1) a(2), of 4096] a(3) by simp
  then have t: "unat t + 4096 \<le> 2 ^ 64" by (simp add: disjoint_blocks_def)
  have "p3_entry s' q = (if q = nat p then t OR 7 else p3_entry s q)" if "q < 512" for q
  proof -
    have "disjoint_blocks t 4096 (entry (p3_table s) (of_nat q)) 8"
      using dt that d(2) by (auto simp: disjoint_blocks_def unat_entry)
    then have "p3_entry s' q = U64 ?m1 (entry (p3_table s) (of_nat q))"
      by (auto simp: p3_entry_def s'_def k1 intro!: U64_cong fill_table_other)
    then show ?thesis using U64_set_entry [OF d(2) ip(2) that] by (simp add: p3_entry_def)
  qed
  moreover have "load_bytes (kmem s') b k = load_bytes (kmem s) b k"
    if "disjoint_blocks t 4096 b k" "disjoint_blocks (p3_table s) 4096 b k" for b k
    using that entry_in_table [OF d(2) ip(2) that(2)]
    by (simp add: s'_def fill_table_other load_set_U64_other)
  moreover have "t mod 0x1000 = 0" using a(4) by (simp add: word_unat_eq_iff unat_mod)
  ultimately show ?thesis using a s1 fill_table_entry [OF t]
    by (intro exI [of _ t] exI [of _ s']) (auto simp: s'_def)
qed

lemma leaf_word_aligned: "a mod PAGE_P2_SIZE = 0 \<Longrightarrow> (PAGE_P2_SIZE * w + a) mod 2 ^ 21 = (0 :: u64)"
proof -
  assume "a mod PAGE_P2_SIZE = 0"
  then have a: "unat a mod 0x200000 = 0" by (simp add: word_unat_eq_iff unat_mod)
  have "unat (PAGE_P2_SIZE * w + a) mod 0x200000 = (0x200000 * unat w + unat a) mod 2 ^ 64 mod 0x200000"
    by (simp add: unat_word_ariths mod_simps)
  also have "\<dots> = (0x200000 * unat w + unat a) mod 0x200000"
    by (rule mod_mod_cancel) simp
  also have "\<dots> = 0" using a by simp
  finally show ?thesis by (simp add: word_unat_eq_iff unat_mod)
qed

lemma PAGE_leaf_identity:
  assumes "a mod PAGE_P2_SIZE = 0" "unat f < 2 ^ 21"
  shows "PAGE ((PAGE_P2_SIZE * w + a) OR 0x87 OR f) = PAGE_P2_SIZE * w + a"
  unfolding PAGE_leaf [OF assms(2)] unfolding PAGE_mask
  by (rule clear_low_aligned [OF leaf_word_aligned [OF assms(1)]])

lemma leaf_offset:
  "PAGE_P2_SIZE * of_nat (leaf_index va) + va mod PAGE_WIDTH mod PAGE_P2_SIZE = va mod PAGE_WIDTH"
  unfolding leaf_index_word [symmetric] by (rule mult_div_mod_eq)

lemma digits_512_eq: "i < 512 \<Longrightarrow> j < 512 \<Longrightarrow> (a * 512 + i = b * 512 + j) = (a = b \<and> i = (j :: nat))"
proof
  assume b: "i < 512" "j < 512" and e: "a * 512 + i = b * 512 + j"
  have "(a * 512 + i) div 512 = (b * 512 + j) div 512" "(a * 512 + i) mod 512 = (b * 512 + j) mod 512"
    unfolding e by simp_all
  then show "a = b \<and> i = j" using b by simp
qed simp

lemma same_leaf_iff:
  "(va div PAGE_P2_SIZE = vb div PAGE_P2_SIZE) \<longleftrightarrow>
   unat (va div PAGE_WIDTH) = unat (vb div PAGE_WIDTH) \<and> leaf_index va = leaf_index vb"
proof -
  have 1: "unat v div 0x200000 = unat v div 0x40000000 * 512 + leaf_index v" for v :: u64
  proof -
    have "unat v div 0x200000 = (unat v div 0x40000000 * 0x40000000 + unat v mod 0x40000000) div 0x200000"
      by (simp only: div_mult_mod_eq)
    also have "\<dots> = unat v div 0x40000000 * 512 + unat v mod 0x40000000 div 0x200000"
      by (subst div_plus_div_distrib_dvd_left) auto
    finally show ?thesis by (simp add: leaf_index_def unat_mod)
  qed
  have "(va div PAGE_P2_SIZE = vb div PAGE_P2_SIZE) = (unat va div 0x200000 = unat vb div 0x200000)"
    by (simp add: word_unat_eq_iff unat_div)
  also have "\<dots> = (unat va div 0x40000000 = unat vb div 0x40000000 \<and> leaf_index va = leaf_index vb)"
    unfolding 1 by (rule digits_512_eq [OF leaf_index_bound leaf_index_bound])
  finally show ?thesis by (simp add: unat_div)
qed

lemma page_offset: "va mod PAGE_WIDTH mod PAGE_P2_SIZE = va mod (PAGE_P2_SIZE :: u64)"
  by (simp add: word_unat_eq_iff unat_mod mod_mod_cancel)

text \<open>A table with linear entries maps its slot linearly.\<close>

lemma linear_slot:
  assumes "present s q" and "\<forall>i < 512. leaf s q i = (PAGE_P2_SIZE * of_nat i + address) OR 0x87 OR ucast flags"
    and "address mod PAGE_P2_SIZE = 0" and "unat (flags :: u32) < 2 ^ 21" and "unat (va div PAGE_WIDTH) = q"
  shows "MemoryPhysical va s = address + va mod PAGE_WIDTH"
proof -
  let ?i = "leaf_index va"
  have l: "leaf s q ?i = (PAGE_P2_SIZE * of_nat ?i + address) OR 0x87 OR ucast flags"
    using assms(2) leaf_index_bound by blast
  have "PAGE (leaf s q ?i) = PAGE_P2_SIZE * of_nat ?i + address"
    unfolding l using assms(4) by (intro PAGE_leaf_identity [OF assms(3)]) simp
  moreover have "leaf s q ?i AND 1 \<noteq> 0" unfolding l by (rule leaf_present)
  ultimately show ?thesis using assms(1,5) leaf_offset [of va]
    by (simp add: MemoryPhysical_leaf Let_def algebra_simps)
qed

text \<open>What a new table leaves alone, and what the heap still offers after it\<close>

lemma AllocatePage_inv:
  assumes inv: "paging_inv s" and p: "0 \<le> p" "p < 512"
    and free: "p3_entry s (nat p) AND 3 = 0" and room: "heap_clear (0x2000 + n) s"
  shows "\<exists>t s'. AllocatePage p address flags s = Inr s' \<and> s' = s\<lparr>malloc_start := t + 0x1000, kmem := kmem s'\<rparr> \<and>
    paging_inv s' \<and> heap_clear n s' \<and> TABLE (p3_entry s' (nat p)) = t \<and> unat (malloc_start s) \<le> unat t \<and>
    unat t < unat (malloc_start s) + 0x1000 \<and>
    (\<forall>q < 512. p3_entry s' q = (if q = nat p then t OR 7 else p3_entry s q)) \<and>
    (\<forall>i < 512. leaf s' (nat p) i = (PAGE_P2_SIZE * of_nat i + address) OR 0x87 OR ucast flags) \<and>
    (\<forall>b k. disjoint_blocks t 4096 b k \<and> disjoint_blocks (p3_table s) 4096 b k \<longrightarrow>
       load_bytes (kmem s') b k = load_bytes (kmem s) b k)"
proof -
  note d = paging_invD [OF inv]
  have room': "heap_clear 0x2000 s" using room by (auto simp: heap_clear_def disjoint_blocks_def)
  then have clear: "0 < unat (malloc_start s)" "disjoint_blocks (malloc_start s) 0x2000 (p3_table s) 4096"
      "unat (malloc_start s) + 0x2000 < 2 ^ 64" by (simp_all add: heap_clear_def)
  obtain t s' where e: "AllocatePage p address flags s = Inr s'" "s' = s\<lparr>malloc_start := t + 0x1000, kmem := kmem s'\<rparr>"
    "unat (malloc_start s) \<le> unat t" "unat t < unat (malloc_start s) + 0x1000" "t mod 0x1000 = 0"
    "unat (malloc_start s') = unat t + 4096"
    "\<forall>q < 512. p3_entry s' q = (if q = nat p then t OR 7 else p3_entry s q)"
    "\<forall>i < 512. U64 (kmem s') (entry t (of_nat i)) = (PAGE_P2_SIZE * of_nat i + address) OR 0x87 OR ucast flags"
    "\<forall>b k. disjoint_blocks t 4096 b k \<and> disjoint_blocks (p3_table s) 4096 b k \<longrightarrow>
       load_bytes (kmem s') b k = load_bytes (kmem s) b k"
    using AllocatePage_effect [OF inv p free clear, of address flags] by (elim exE conjE) (rule that)
  have p3: "p3_table s' = p3_table s" using e(2) by (cases s; cases s') simp
  have Tt: "TABLE (t OR 7) = t" using e(5) by (rule TABLE_entry)
  have pr: "present s' q \<longleftrightarrow> q = nat p \<or> present s q" if "q < 512" for q
    using e(7) [rule_format, OF that] table_entry_present [of t] by (auto simp: present_def)
  have new: "disjoint_blocks t 4096 (p3_table s) 4096"
    "q < 512 \<Longrightarrow> present s q \<Longrightarrow> disjoint_blocks t 4096 (TABLE (p3_entry s q)) 4096" for q
    using heap_clearD [OF room' e(3), of 4096] e(4) by simp_all
  have tables: "q < 512 \<Longrightarrow> TABLE (p3_entry s' q) = (if q = nat p then t else TABLE (p3_entry s q))" for q
    using e(7) Tt by simp
  have "paging_inv s'"
    unfolding paging_inv_def
  proof (intro conjI allI impI)
    show "TABLE (p3_table s') = p3_table s'" "unat (p3_table s') + 4096 \<le> 2 ^ 64" using d(1,2) p3 by simp_all
  next
    fix q assume q: "q < 512" "present s' q"
    show "disjoint_blocks (TABLE (p3_entry s' q)) 4096 (p3_table s') 4096"
      using q pr [OF q(1)] d(4) new(1) p3 tables by auto
  next
    fix q r assume qr: "q < 512" "r < 512" "q \<noteq> r" "present s' q" "present s' r"
    then show "disjoint_blocks (TABLE (p3_entry s' q)) 4096 (TABLE (p3_entry s' r)) 4096"
      using pr d(5) [of q r] new(2) disjoint_blocks_sym [of t] tables by auto
  qed
  moreover have "heap_clear n s'"
  proof -
    have le: "unat (malloc_start s) \<le> unat (malloc_start s')" "unat (malloc_start s') + n \<le> unat (malloc_start s) + (0x2000 + n)"
      using e(3,4,6) by simp_all
    have "disjoint_blocks (malloc_start s') n t 4096" using le(2) room e(6) by (auto simp: disjoint_blocks_def heap_clear_def)
    then show ?thesis using heap_clearD [OF room le] le room p3 pr tables by (auto simp: heap_clear_def)
  qed
  moreover have "\<forall>i < 512. leaf s' (nat p) i = (PAGE_P2_SIZE * of_nat i + address) OR 0x87 OR ucast flags"
    using e(8) tables [of "nat p"] p by (simp add: leaf_def)
  ultimately show ?thesis using e(1-4,7,9) tables [of "nat p"] p by (intro exI [of _ t] exI [of _ s']) simp
qed

lemma AllocatePage_translation:
  assumes inv: "paging_inv s" and p: "0 \<le> p" "p < 512"
    and free: "p3_entry s (nat p) AND 3 = 0" and room: "heap_clear (0x2000 + n) s"
    and al: "address mod PAGE_P2_SIZE = 0" and fl: "unat flags < 2 ^ 21"
  shows "\<exists>t s'. AllocatePage p address flags s = Inr s' \<and> s' = s\<lparr>malloc_start := t + 0x1000, kmem := kmem s'\<rparr> \<and>
    paging_inv s' \<and> heap_clear n s' \<and> TABLE (p3_entry s' (nat p)) = t \<and> unat (malloc_start s) \<le> unat t \<and>
    unat t < unat (malloc_start s) + 0x1000 \<and>
    (\<forall>q < 512. p3_entry s' q = (if q = nat p then t OR 7 else p3_entry s q)) \<and>
    (\<forall>va. unat va < 2 ^ 39 \<longrightarrow> MemoryPhysical va s' =
       (if unat (va div PAGE_WIDTH) = nat p then address + va mod PAGE_WIDTH else MemoryPhysical va s)) \<and>
    (\<forall>b k. disjoint_blocks t 4096 b k \<and> disjoint_blocks (p3_table s) 4096 b k \<longrightarrow>
       load_bytes (kmem s') b k = load_bytes (kmem s) b k)"
proof -
  note d = paging_invD [OF inv]
  obtain t s' where e: "AllocatePage p address flags s = Inr s'" "s' = s\<lparr>malloc_start := t + 0x1000, kmem := kmem s'\<rparr>"
    "paging_inv s'" "heap_clear n s'" "TABLE (p3_entry s' (nat p)) = t" "unat (malloc_start s) \<le> unat t"
    "unat t < unat (malloc_start s) + 0x1000"
    "\<forall>q < 512. p3_entry s' q = (if q = nat p then t OR 7 else p3_entry s q)"
    "\<forall>i < 512. leaf s' (nat p) i = (PAGE_P2_SIZE * of_nat i + address) OR 0x87 OR ucast flags"
    "\<forall>b k. disjoint_blocks t 4096 b k \<and> disjoint_blocks (p3_table s) 4096 b k \<longrightarrow>
       load_bytes (kmem s') b k = load_bytes (kmem s) b k"
    using AllocatePage_inv [OF inv p free room, of address flags] by (elim exE conjE) (rule that)
  have "MemoryPhysical va s' =
      (if unat (va div PAGE_WIDTH) = nat p then address + va mod PAGE_WIDTH else MemoryPhysical va s)"
    if va: "unat va < 2 ^ 39" for va
  proof -
    let ?q = "unat (va div PAGE_WIDTH)" and ?i = "leaf_index va"
    have q: "?q < 512" using p3_index [OF va] .
    have i: "?i < 512" by (rule leaf_index_bound)
    show ?thesis
    proof (cases "?q = nat p")
      case True
      moreover have "present s' ?q" using e(8) [rule_format, OF q] True table_entry_present by (simp add: present_def)
      ultimately show ?thesis using linear_slot [OF _ e(9) al fl, of va] by simp
    next
      case False
      have pr: "present s' ?q = present s ?q" using e(8) [rule_format, OF q] False by (simp add: present_def)
      have "leaf s' ?q ?i = leaf s ?q ?i" if pq: "present s ?q"
      proof -
        let ?t = "TABLE (p3_entry s ?q)"
        have "disjoint_blocks t 4096 ?t 4096" using heap_clearD(2) [OF room e(6) _ q pq, of 4096] e(7) by simp
        then have "disjoint_blocks t 4096 (entry ?t (of_nat ?i)) 8" "disjoint_blocks (p3_table s) 4096 (entry ?t (of_nat ?i)) 8"
          using d(3,4) [OF q pq] i by (auto simp: disjoint_blocks_def unat_entry)
        then show ?thesis using e(8) [rule_format, OF q] False e(10) by (auto simp: leaf_def intro: U64_cong)
      qed
      with False show ?thesis using pr
        by (cases "present s ?q") (simp_all add: MemoryPhysical_leaf Let_def)
    qed
  qed
  then show ?thesis using e by (intro exI [of _ t] exI [of _ s']) simp
qed

section \<open>Properties\<close>

text \<open>
  C1: on tables that satisfy the invariant, \<open>AllocatePage\<close> of a free gigabyte slot succeeds,
  keeps the invariant, maps the whole slot linearly to \<open>address\<close> as \<open>MemoryPhysical\<close>
  translates it, and leaves every other translation as it was.
\<close>

theorem AllocatePage_maps:
  assumes inv: "paging_inv s" and p: "0 \<le> p" "p < 512"
    and free: "p3_entry s (nat p) AND 3 = 0"
    and room: "heap_clear 0x2000 s"
    and al: "address mod PAGE_P2_SIZE = 0" and fl: "unat flags < 2 ^ 21"
  shows "\<exists>s'. AllocatePage p address flags s = Inr s' \<and> paging_inv s' \<and>
    (\<forall>va. unat va < 2 ^ 39 \<longrightarrow>
       MemoryPhysical va s' =
         (if unat (va div PAGE_WIDTH) = nat p then address + va mod PAGE_WIDTH else MemoryPhysical va s))"
  using AllocatePage_translation [OF inv p free _ al fl, of 0] room by auto

theorem AllocatePage_maps_witness:
  "\<exists>s'. AllocatePage 7 0 7 \<lparr>kmem = (\<lambda>_. 0), malloc_start = 0x270000, malloc_end = 0, ms = 0, me = 0,
       p3_table = 0xA01000, p2_table = 0xA02000, page_allocator = []\<rparr> = Inr s' \<and>
     MemoryPhysical 0x1C0345678 s' = 0x345678"
proof -
  let ?s = "\<lparr>kmem = (\<lambda>_. 0), malloc_start = 0x270000, malloc_end = 0, ms = 0, me = 0,
       p3_table = 0xA01000, p2_table = 0xA02000, page_allocator = []\<rparr> :: kpaging"
  have z: "p3_entry ?s q = 0" for q by (simp add: p3_entry_def U64_def bytes_numeral)
  have "paging_inv ?s" "heap_clear 0x2000 ?s"
    by (simp_all add: paging_inv_def heap_clear_def present_def z TABLE_def disjoint_blocks_def)
  from AllocatePage_maps [OF this(1) _ _ _ this(2), of 7 0 7] obtain s' where s': "AllocatePage 7 0 7 ?s = Inr s'"
      "\<forall>va. unat va < 2 ^ 39 \<longrightarrow> MemoryPhysical va s' =
         (if unat (va div PAGE_WIDTH) = nat 7 then 0 + va mod PAGE_WIDTH else MemoryPhysical va ?s)"
    by (auto simp: z)
  have "MemoryPhysical 0x1C0345678 s' = 0x345678" using s'(2) [rule_format, of "0x1C0345678"] by simp
  with s'(1) show ?thesis by blast
qed

lemma MemoryRemap_effect:
  assumes inv: "paging_inv s" and to: "unat to < 2 ^ 39"
  defines "q \<equiv> unat (to div PAGE_WIDTH)"
  shows "MemoryRemap to from flags s =
    s\<lparr>kmem := set_U64 (kmem s) (entry (TABLE (p3_entry s q)) (of_nat (leaf_index to))) (from OR 0x87 OR of_int flags)\<rparr>"
proof -
  have q: "q < 512" unfolding q_def by (rule p3_index [OF to])
  have 1: "long_to_int (to div PAGE_WIDTH) = int q"
    using q long_to_int_small [of "to div PAGE_WIDTH"] by (simp add: q_def)
  have "unat (of_nat (leaf_index to) :: u64) = leaf_index to" using leaf_index_bound [of to] by simp
  then have 2: "long_to_int ((to mod PAGE_WIDTH) div PAGE_P2_SIZE) = int (leaf_index to)"
    unfolding leaf_index_word using leaf_index_bound [of to] by (subst long_to_int_small) simp_all
  show ?thesis by (simp add: MemoryRemap_def 1 2 p3_entry_def)
qed

lemma MemoryRemap_translation:
  assumes inv: "paging_inv s" and to: "unat to < 2 ^ 39"
    and pres: "present s (unat (to div PAGE_WIDTH))" and fl: "0 \<le> flags" "flags < 2 ^ 21"
  shows "paging_inv (MemoryRemap to from flags s) \<and>
    (\<forall>r < 512. present (MemoryRemap to from flags s) r = present s r) \<and>
    (\<forall>va. unat va < 2 ^ 39 \<longrightarrow>
       MemoryPhysical va (MemoryRemap to from flags s) =
         (if va div PAGE_P2_SIZE = to div PAGE_P2_SIZE then PAGE from + va mod PAGE_P2_SIZE
          else MemoryPhysical va s))"
proof -
  note d = paging_invD [OF inv]
  let ?q = "unat (to div PAGE_WIDTH)" and ?i = "leaf_index to"
  let ?e = "entry (TABLE (p3_entry s ?q)) (of_nat ?i)"
  define s' where "s' = MemoryRemap to from flags s"
  have s': "kmem s' = set_U64 (kmem s) ?e (from OR 0x87 OR of_int flags)"
      "malloc_start s' = malloc_start s" "p3_table s' = p3_table s"
    unfolding s'_def MemoryRemap_effect [OF inv to] by simp_all
  have q: "?q < 512" by (rule p3_index [OF to])
  have i: "?i < 512" by (rule leaf_index_bound)
  have de: "disjoint_blocks (TABLE (p3_entry s ?q)) 4096 b n \<Longrightarrow> disjoint_blocks ?e 8 b n" for b n
    by (rule entry_in_table [OF d(3) [OF q pres] i])
  have p3: "p3_entry s' r = p3_entry s r" if "r < 512" for r
  proof -
    have "disjoint_blocks ?e 8 (entry (p3_table s) (of_nat r)) 8"
      using d(4) [OF q pres] d(2) that by (intro de) (auto simp: disjoint_blocks_def unat_entry)
    then show ?thesis by (simp add: p3_entry_def s' U64_set_U64_other)
  qed
  then have pr: "present s' r = present s r" if "r < 512" for r using that by (simp add: present_def)
  with p3 inv have "paging_inv s'" by (simp add: paging_inv_def s')
  moreover have lf: "leaf s' r j = (if r = ?q \<and> j = ?i then from OR 0x87 OR of_int flags else leaf s r j)"
    if "r < 512" "j < 512" "present s r" for r j
  proof (cases "r = ?q")
    case True
    then show ?thesis using U64_set_entry [OF d(3) [OF q pres] i that(2)] p3 [OF that(1)]
      by (simp add: leaf_def s')
  next
    case False
    have "disjoint_blocks ?e 8 (entry (TABLE (p3_entry s r)) (of_nat j)) 8"
      using d(5) [OF q that(1) _ pres that(3)] d(3) [OF that(1,3)] False that(2)
      by (intro de) (auto simp: disjoint_blocks_def unat_entry)
    then show ?thesis using False p3 [OF that(1)] by (simp add: leaf_def s' U64_set_U64_other)
  qed
  have "nat flags < 2 ^ 21" using fl by simp
  then have "unat (of_nat (nat flags) :: u64) < 2 ^ 21" by (subst unat_of_nat64) simp_all
  then have "unat (of_int flags :: u64) < 2 ^ 21" using fl by simp
  then have pg: "PAGE (from OR 0x87 OR of_int flags) = PAGE from" by (rule PAGE_leaf)
  have "MemoryPhysical va s' =
      (if va div PAGE_P2_SIZE = to div PAGE_P2_SIZE then PAGE from + va mod PAGE_P2_SIZE
       else MemoryPhysical va s)" if va: "unat va < 2 ^ 39" for va
  proof (cases "present s (unat (va div PAGE_WIDTH))")
    case True
    note l = lf [OF p3_index [OF va] leaf_index_bound [of va] True]
    have pr: "present s' (unat (va div PAGE_WIDTH))"
      using True p3 [OF p3_index [OF va]] by (simp add: present_def)
    show ?thesis
    proof (cases "va div PAGE_P2_SIZE = to div PAGE_P2_SIZE")
      case same: True
      then have "leaf s' (unat (va div PAGE_WIDTH)) (leaf_index va) = from OR 0x87 OR of_int flags"
        using l same_leaf_iff [of va to] by simp
      then show ?thesis using same pr leaf_present [of "from" "of_int flags"] pg
        by (simp add: MemoryPhysical_leaf [of va s'] Let_def page_offset)
    next
      case other: False
      then have "leaf s' (unat (va div PAGE_WIDTH)) (leaf_index va) = leaf s (unat (va div PAGE_WIDTH)) (leaf_index va)"
        using l same_leaf_iff [of va to] by auto
      then show ?thesis using other pr True by (simp add: MemoryPhysical_leaf Let_def)
    qed
  next
    case False
    then have "va div PAGE_P2_SIZE \<noteq> to div PAGE_P2_SIZE" using pres same_leaf_iff [of va to] by auto
    then show ?thesis using False p3 [OF p3_index [OF va]]
      by (simp add: MemoryPhysical_leaf Let_def present_def)
  qed
  ultimately show ?thesis using pr by (simp add: s'_def)
qed

text \<open>
  C2: \<open>MemoryRemap\<close> of an address whose gigabyte slot is present keeps the invariant and
  changes the translation of exactly the 2 MB page of \<open>to\<close>, which now lies at the 2 MB
  page of \<open>from\<close>.
\<close>

theorem MemoryRemap_maps:
  assumes inv: "paging_inv s" and to: "unat to < 2 ^ 39"
    and pres: "present s (unat (to div PAGE_WIDTH))" and fl: "0 \<le> flags" "flags < 2 ^ 21"
  shows "paging_inv (MemoryRemap to from flags s) \<and>
    (\<forall>va. unat va < 2 ^ 39 \<longrightarrow>
       MemoryPhysical va (MemoryRemap to from flags s) =
         (if va div PAGE_P2_SIZE = to div PAGE_P2_SIZE then PAGE from + va mod PAGE_P2_SIZE
          else MemoryPhysical va s))"
  using MemoryRemap_translation [OF assms] by blast

theorem MemoryRemap_maps_witness:
  "MemoryPhysical 0x412345 (MemoryRemap 0x400000 0x40600000 7
      \<lparr>kmem = set_U64 (\<lambda>_. 0) (entry 0x1000 0) 0x2007, malloc_start = 0x270000, malloc_end = 0, ms = 0, me = 0,
       p3_table = 0x1000, p2_table = 0x2000, page_allocator = []\<rparr>) = 0x40612345"
proof -
  let ?s = "\<lparr>kmem = set_U64 (\<lambda>_. 0) (entry 0x1000 0) 0x2007, malloc_start = 0x270000, malloc_end = 0,
       ms = 0, me = 0, p3_table = 0x1000, p2_table = 0x2000, page_allocator = []\<rparr> :: kpaging"
  have z: "p3_entry ?s q = (if q = 0 then 0x2007 else 0)" if "q < 512" for q
    using U64_set_entry [of "0x1000" 0 q "\<lambda>_. 0" "0x2007"] that
    by (simp add: p3_entry_def U64_def [of "\<lambda>_. 0"] bytes_numeral)
  have "paging_inv ?s" by (auto simp: paging_inv_def present_def z TABLE_def disjoint_blocks_def)
  moreover have "present ?s (unat ((0x400000 :: u64) div PAGE_WIDTH))" by (simp add: present_def z)
  ultimately show ?thesis
    using MemoryRemap_maps [of ?s "0x400000" 7 "0x40600000"] by (simp add: PAGE_def)
qed

section \<open>The page pool\<close>

text \<open>
  What the users of single pages rely on: taking a page from a pool that has one returns a
  free page and removes exactly that page; an empty pool answers 0 and stays as it is.
\<close>

fun take_many :: "('s \<Rightarrow> u64 \<times> 's) \<Rightarrow> nat \<Rightarrow> 's \<Rightarrow> u64 list \<times> 's" where
  "take_many tk 0 s = ([], s)"
| "take_many tk (Suc n) s = (let (p, s) = tk s; (ps, s) = take_many tk n s in (p # ps, s))"

locale page_pool =
  fixes tk :: "'s \<Rightarrow> u64 \<times> 's"
    and inv :: "'s \<Rightarrow> bool"
    and avail :: "'s \<Rightarrow> u64 set"
  assumes take_some: "inv s \<Longrightarrow> avail s \<noteq> {} \<Longrightarrow> tk s = (p, s') \<Longrightarrow>
      p \<in> avail s \<and> avail s' = avail s - {p} \<and> inv s'"
    and take_none: "inv s \<Longrightarrow> avail s = {} \<Longrightarrow> tk s = (0, s)"
    and avail_finite: "finite (avail s)"
begin

lemma take_many_distinct:
  "inv s \<Longrightarrow> n \<le> card (avail s) \<Longrightarrow> take_many tk n s = (ps, s') \<Longrightarrow>
   length ps = n \<and> distinct ps \<and> set ps \<subseteq> avail s \<and> avail s' = avail s - set ps \<and> inv s'"
proof (induction n arbitrary: s ps)
  case 0
  then show ?case by simp
next
  case (Suc n)
  obtain p s1 where t: "tk s = (p, s1)" by fastforce
  have "avail s \<noteq> {}" using Suc.prems(2) by auto
  from take_some [OF Suc.prems(1) this t]
  have p: "p \<in> avail s" "avail s1 = avail s - {p}" "inv s1" by auto
  obtain ps' s2 where r: "take_many tk n s1 = (ps', s2)" by fastforce
  have "n \<le> card (avail s1)" using p Suc.prems(2) avail_finite by simp
  from Suc.IH [OF p(3) this] r Suc.prems(3) t p show ?case by auto
qed

lemma exhausted: "inv s \<Longrightarrow> avail s = {} \<Longrightarrow> take_many tk n s = (replicate n 0, s)"
  by (induction n) (simp_all add: take_none)

end

definition free_slots :: "'a kpaging_scheme \<Rightarrow> nat set" where
  "free_slots s = {i. i < 512 \<and> page_allocator s ! i = 0}"

definition free_pages :: "'a kpaging_scheme \<Rightarrow> u64 set" where
  "free_pages s = slot_page s ` free_slots s"

definition pool_inv :: "'a kpaging_scheme \<Rightarrow> bool" where
  "pool_inv s \<longleftrightarrow> length (page_allocator s) = 512 \<and> inj_on (slot_page s) {..<512}"

lemma find_upt_None: "find P [0..<n] = None \<longleftrightarrow> (\<forall>i < n. \<not> P i)"
  by (auto simp: find_None_iff)

lemma find_upt_Some: "find P [0..<n] = Some i \<longleftrightarrow> i < n \<and> P i \<and> (\<forall>j < i. \<not> P j)"
  by (auto simp: find_Some_iff nth_upt)

lemma slot_page_update [simp]: "slot_page (s\<lparr>page_allocator := pa\<rparr>) = slot_page s"
  by (simp add: slot_page_def fun_eq_iff)

interpretation pages: page_pool "PageAllocate :: 'a kpaging_scheme \<Rightarrow> _" pool_inv free_pages
proof unfold_locales
  fix s s' :: "'a kpaging_scheme" and p
  assume inv: "pool_inv s" and ne: "free_pages s \<noteq> {}" and tk: "PageAllocate s = (p, s')"
  from ne obtain i where "i < 512" "page_allocator s ! i = 0" by (auto simp: free_pages_def free_slots_def)
  then obtain k where k: "find (\<lambda>i. page_allocator s ! i = 0) [0..<512] = Some k"
    using find_upt_None [of "\<lambda>i. page_allocator s ! i = 0" 512]
    by (cases "find (\<lambda>i. page_allocator s ! i = 0) [0..<512]") auto
  then have k': "k < 512" "page_allocator s ! k = 0" by (simp_all add: find_upt_Some)
  have s': "s' = s\<lparr>page_allocator := (page_allocator s)[k := 1]\<rparr>" and p: "p = slot_page s k"
    using tk k by (auto simp: PageAllocate_def Let_def)
  have fs: "free_slots s' = free_slots s - {k}"
    using k' inv by (auto simp: free_slots_def s' pool_inv_def nth_list_update)
  have sub: "free_slots s \<subseteq> {..<512}" "k \<in> {..<512}" using k' by (auto simp: free_slots_def)
  have inj: "inj_on (slot_page s) {..<512}" using inv by (simp add: pool_inv_def)
  have "slot_page s ` (free_slots s - {k}) = slot_page s ` free_slots s - slot_page s ` {k}"
    by (rule inj_on_image_set_diff [OF inj]) (use sub in auto)
  then have "free_pages s' = free_pages s - {p}" by (simp add: free_pages_def fs [unfolded s'] p s')
  moreover have "p \<in> free_pages s" using k' p by (auto simp: free_pages_def free_slots_def)
  moreover have "pool_inv s'" using inv by (simp add: pool_inv_def s')
  ultimately show "p \<in> free_pages s \<and> free_pages s' = free_pages s - {p} \<and> pool_inv s'" by blast
next
  fix s :: "'a kpaging_scheme"
  show "finite (free_pages s)" by (simp add: free_pages_def free_slots_def)
  assume "free_pages s = {}"
  then have "find (\<lambda>i. page_allocator s ! i = 0) [0..<512] = None"
    by (simp add: find_upt_None free_pages_def free_slots_def)
  then show "PageAllocate s = (0, s)" by (simp add: PageAllocate_def)
qed

section \<open>Properties of the page allocator\<close>

text \<open>
  C34: from a pool with at least \<open>n\<close> free pages, \<open>n\<close> calls of \<open>PageAllocate\<close> return
  \<open>n\<close> different pages, all of them free before and none of them free afterwards.
\<close>

theorem PageAllocate_distinct:
  assumes "pool_inv s" "n \<le> card (free_pages s)"
  shows "\<exists>ps s'. take_many PageAllocate n s = (ps, s') \<and> length ps = n \<and> distinct ps \<and>
    set ps \<subseteq> free_pages s \<and> free_pages s' = free_pages s - set ps"
proof -
  obtain ps s' where r: "take_many PageAllocate n s = (ps, s')" by fastforce
  with pages.take_many_distinct [OF assms r] show ?thesis by blast
qed

lemma run_free_iff:
  "run_free pa n i \<longleftrightarrow> (\<forall>j < n. i + j < 512 \<longrightarrow> pa ! (i + j) = 0)"
  by (auto simp: run_free_def list_all_iff not_less [symmetric])

lemma PageAllocateN_frame: "PageAllocateN n s = Inr (p, s') \<Longrightarrow> \<exists>pa. s' = s\<lparr>page_allocator := pa\<rparr>"
  by (auto simp: PageAllocateN_def andthen_Inr_iff split: option.splits if_splits intro: exI [of _ "page_allocator s"])

lemma mark_run_ok:
  "ix + k \<le> length pa \<Longrightarrow>
   mark_run ix v k pa = Inr (map (\<lambda>j. if ix \<le> j \<and> j < ix + k then v else pa ! j) [0..<length pa])"
proof (induction k arbitrary: ix pa)
  case 0
  have "map (\<lambda>j. if ix \<le> j \<and> j < ix + 0 then v else pa ! j) [0..<length pa] = map ((!) pa) [0..<length pa]"
    by (rule map_cong) auto
  then show ?case by (simp add: map_nth)
next
  case (Suc k)
  then have "mark_run (Suc ix) v k (pa[ix := v]) =
      Inr (map (\<lambda>j. if Suc ix \<le> j \<and> j < Suc ix + k then v else pa[ix := v] ! j) [0..<length pa])"
    by simp
  with Suc.prems show ?case
    by (auto simp: array_set_def nth_list_update intro!: map_cong)
qed

lemma mark_run_overflow: "length pa < ix + k \<Longrightarrow> 0 < k \<Longrightarrow> mark_run ix v k pa = Inl OutOfBounds"
proof (induction k arbitrary: ix pa)
  case 0
  then show ?case by simp
next
  case (Suc k)
  then show ?case by (auto simp: array_set_def)
qed

lemma run_free_least:
  assumes "find (run_free pa n) [0..<512] = Some i" "j + n \<le> 512" "\<forall>k < n. pa ! (j + k) = 0" "0 < n"
  shows "i \<le> j"
proof (rule ccontr)
  assume "\<not> i \<le> j"
  moreover have "run_free pa n j" using assms(3) by (simp add: run_free_iff)
  ultimately show False using assms(1) by (simp add: find_upt_Some)
qed

text \<open>
  C35: \<open>PageAllocateN\<close> of \<open>n > 0\<close> pages. When some run of \<open>n\<close> free slots exists it returns the
  page of the first slot of such a run and marks exactly that run with \<open>n\<close>. When none
  exists it returns 0 only if the last slot is taken; otherwise it accepts a run that ends
  past the array and writes outside \<open>page_allocator\<close>.
\<close>

theorem PageAllocateN_result:
  assumes len: "length (page_allocator s) = 512" and n: "0 < unat n"
  shows "if \<exists>i. i + unat n \<le> 512 \<and> (\<forall>k < unat n. page_allocator s ! (i + k) = 0)
    then \<exists>i. i + unat n \<le> 512 \<and> (\<forall>k < unat n. page_allocator s ! (i + k) = 0) \<and>
      PageAllocateN n s = Inr (slot_page s i, s\<lparr>page_allocator :=
        map (\<lambda>j. if i \<le> j \<and> j < i + unat n then n else page_allocator s ! j) [0..<512]\<rparr>)
    else PageAllocateN n s = (if page_allocator s ! 511 = 0 then Inl OutOfBounds else Inr (0, s))"
    (is "if ?ex then ?found else ?none")
proof (cases ?ex)
  case True
  then obtain j where j: "j + unat n \<le> 512" "\<forall>k < unat n. page_allocator s ! (j + k) = 0" by blast
  then have "run_free (page_allocator s) (unat n) j" "j < 512" using n by (simp_all add: run_free_iff)
  then obtain i where i: "find (run_free (page_allocator s) (unat n)) [0..<512] = Some i"
    using find_upt_None [of "run_free (page_allocator s) (unat n)" 512]
    by (cases "find (run_free (page_allocator s) (unat n)) [0..<512]") auto
  have le: "i + unat n \<le> 512" using run_free_least [OF i j n] j(1) by simp
  then have "\<forall>k < unat n. page_allocator s ! (i + k) = 0"
    using i by (simp add: find_upt_Some run_free_iff)
  moreover have "PageAllocateN n s = Inr (slot_page s i, s\<lparr>page_allocator :=
        map (\<lambda>j. if i \<le> j \<and> j < i + unat n then n else page_allocator s ! j) [0..<512]\<rparr>)"
    using mark_run_ok [of i "unat n" "page_allocator s" "n"] le len i
    by (simp add: PageAllocateN_def Let_def)
  ultimately show ?thesis using True le by auto
next
  case no: False
  have "?none"
  proof (cases "find (run_free (page_allocator s) (unat n)) [0..<512]")
    case None
    then have "\<not> run_free (page_allocator s) (unat n) 511" by (simp add: find_upt_None)
    then have "page_allocator s ! 511 \<noteq> 0" by (auto simp: run_free_iff)
    with None show ?thesis by (simp add: PageAllocateN_def)
  next
    case (Some i)
    then have i: "i < 512" "run_free (page_allocator s) (unat n) i" by (simp_all add: find_upt_Some)
    have big: "512 < i + unat n"
    proof (rule ccontr)
      assume "\<not> 512 < i + unat n"
      then have "i + unat n \<le> 512" "\<forall>k < unat n. page_allocator s ! (i + k) = 0"
        using i by (auto simp: run_free_iff)
      then show False using no by blast
    qed
    have "page_allocator s ! (i + (511 - i)) = 0"
      using i(2) [unfolded run_free_iff, rule_format, of "511 - i"] i(1) big by simp
    then have "page_allocator s ! 511 = 0" using i by simp
    moreover have "mark_run i (n) (unat n) (page_allocator s) = Inl OutOfBounds"
      using big len n by (intro mark_run_overflow) simp_all
    ultimately show ?thesis using Some by (simp add: PageAllocateN_def)
  qed
  then show ?thesis by (simp only: no if_False)
qed

text \<open>
  \<open>PageDealloc\<close> of any page below \<open>2^52\<close> clears exactly one counter, that of the page
  itself, whatever number of pages the counter says the allocation had.
\<close>

theorem PageDealloc_frees_one:
  assumes "length (page_allocator s) = 512" "unat page < 2 ^ 52"
  shows "PageDealloc page s =
    Inr (s\<lparr>page_allocator := (page_allocator s)[unat page div 0x200000 mod 512 := 0]\<rparr>)"
proof -
  let ?id = "unat page div 0x200000 mod 512" and ?pa = "page_allocator s"
  have "unat (page div PAGE_P2_SIZE) = unat page div 0x200000" by (simp add: unat_div)
  moreover have "unat page div 0x200000 < 2 ^ 31" using assms(2) by simp
  ultimately have q: "long_to_int (page div PAGE_P2_SIZE) = int (unat page div 0x200000)"
    by (subst long_to_int_small) simp_all
  have nid: "nat (int (unat page div 0x200000) mod 512) = ?id"
    by (metis nat_int zmod_int of_nat_numeral)
  have stop: "dealloc_loop ?id (Suc i) (?pa[?id := 0]) = Inr (?pa[?id := 0])" for i
    using assms(1) by (subst dealloc_loop.simps) simp
  have "dealloc_loop ?id 0 ?pa = Inr (?pa[?id := 0])"
  proof (cases "0 < unat (scast (?pa ! ?id) :: u64)")
    case True
    then show ?thesis using assms(1) stop [of 0] by (subst dealloc_loop.simps) simp
  next
    case False
    then have "(scast (?pa ! ?id) :: u64) = 0" by (simp add: unat_eq_0)
    then have "?pa ! ?id = 0" by (simp add: scast_u32_eq_0)
    then have "?pa[?id := 0] = ?pa" by (metis list_update_id)
    then show ?thesis using False assms(1) by (subst dealloc_loop.simps) simp
  qed
  then show ?thesis by (simp add: PageDealloc_def q nid Let_def)
qed

text \<open>A state with an empty pool behind the identity mapping of gigabyte 1.\<close>

definition demo_mem :: mem where
  "demo_mem = fill_table 0x3000 0x40000000 7 512 (set_U64 (\<lambda>_. 0) (entry 0x1000 1) 0x3007)"

definition demo_pool :: "u32 list \<Rightarrow> kpaging" where
  "demo_pool pa = \<lparr>kmem = demo_mem, malloc_start = 0x270000, malloc_end = 0, ms = 0, me = 0,
     p3_table = 0x1000, p2_table = 0x2000, page_allocator = pa\<rparr>"

lemma demo_slot_page: "i < 512 \<Longrightarrow> slot_page (demo_pool pa) i = PAGE_P2_SIZE * of_nat i + 0x40000000"
proof -
  assume i: "i < 512"
  have "U64 demo_mem (entry 0x1000 1) = U64 (set_U64 (\<lambda>_. 0) (entry 0x1000 1) 0x3007) (entry 0x1000 1)"
    unfolding demo_mem_def by (intro U64_cong fill_table_other) (simp_all add: disjoint_blocks_def entry_def)
  then have t: "TABLE (U64 demo_mem (entry 0x1000 1)) = 0x3000" by (simp add: TABLE_def)
  have "U64 demo_mem (entry 0x3000 (of_nat i)) = (PAGE_P2_SIZE * of_nat i + 0x40000000) OR 0x87 OR ucast (7 :: u32)"
    unfolding demo_mem_def using i fill_table_entry [of "0x3000" i 512] by simp
  then show ?thesis using PAGE_leaf_identity [of "0x40000000" "ucast (7 :: u32)" "of_nat i"]
    by (simp add: slot_page_def demo_pool_def t)
qed

lemma demo_pool_inv: "length pa = 512 \<Longrightarrow> pool_inv (demo_pool pa)"
proof -
  have "slot_page (demo_pool pa) i = slot_page (demo_pool pa) j \<longrightarrow> i = j" if "i < 512" "j < 512" for i j
    using that offset_inj [of "0x200000 * i" "0x200000 * j" "0x40000000"]
    by (simp add: demo_slot_page add.commute)
  then show "length pa = 512 \<Longrightarrow> pool_inv (demo_pool pa)"
    by (auto simp: pool_inv_def demo_pool_def intro!: inj_onI)
qed

theorem PageAllocate_distinct_witness:
  "\<exists>ps s'. take_many PageAllocate 2 (demo_pool (replicate 512 0)) = (ps, s') \<and> length ps = 2 \<and> distinct ps \<and>
    set ps \<subseteq> free_pages (demo_pool (replicate 512 0))"
proof -
  let ?s = "demo_pool (replicate 512 0)"
  have inv: "pool_inv ?s" by (simp add: demo_pool_inv)
  have "{0, 1} \<subseteq> free_slots ?s" by (simp add: free_slots_def demo_pool_def)
  then have "slot_page ?s ` {0, 1} \<subseteq> free_pages ?s" unfolding free_pages_def by (rule image_mono)
  moreover have "card (slot_page ?s ` {0, 1}) = 2" by (simp add: demo_slot_page)
  ultimately have "2 \<le> card (free_pages ?s)"
    using card_mono [OF pages.avail_finite] by metis
  from PageAllocate_distinct [OF inv this] show ?thesis by blast
qed

theorem PageAllocateN_result_witness:
  "PageAllocateN 2 (demo_pool (replicate 511 1 @ [0])) = Inl OutOfBounds"
proof -
  let ?pa = "replicate 511 1 @ [0 :: u32]"
  have pa: "page_allocator (demo_pool ?pa) = ?pa" by (simp add: demo_pool_def)
  have "\<not> (\<exists>i. i + unat (2 :: u32) \<le> 512 \<and> (\<forall>k < unat (2 :: u32). ?pa ! (i + k) = 0))"
  proof
    assume "\<exists>i. i + unat (2 :: u32) \<le> 512 \<and> (\<forall>k < unat (2 :: u32). ?pa ! (i + k) = 0)"
    then obtain i where "i \<le> 510" "?pa ! (i + 0) = 0" by force
    then show False by (simp add: nth_append)
  qed
  then show ?thesis
    using PageAllocateN_result [of "demo_pool ?pa" 2] unfolding pa by (simp add: nth_append)
qed

theorem PageDealloc_frees_one_witness:
  "PageDealloc 0x40400000 (demo_pool (replicate 512 3)) =
     Inr ((demo_pool (replicate 512 3))\<lparr>page_allocator := (replicate 512 3)[2 := 0]\<rparr>)"
  using PageDealloc_frees_one [of "demo_pool (replicate 512 3)" "0x40400000"]
  by (simp add: demo_pool_def)

end
