(* ===== verification/Ahci.thy ===== *)
theory Ahci
  imports Prelude
begin

text \<open>
  The SATA driver of \<open>src/src/drivers/ahci/ahci.c\<close>: finding a command slot, starting and
  stopping a port, and \<open>AHCI_READ\<close>, which builds a command table (the register FIS and the
  PRDT) and waits for the device. The host adapter is hardware: what successive reads of its
  volatile registers return is an argument (a function of the number of the read), and so is
  the value the uninitialised variable \<open>i\<close> of \<open>AHCI_READ\<close> happens to have.
\<close>

section \<open>Definitions\<close>

abbreviation (input) AHCI_HBA_PxCMD_ST :: u32 where "AHCI_HBA_PxCMD_ST \<equiv> 0x0001"
abbreviation (input) AHCI_HBA_PxCMD_FRE :: u32 where "AHCI_HBA_PxCMD_FRE \<equiv> 0x0010"
abbreviation (input) AHCI_HBA_PxCMD_FR :: u32 where "AHCI_HBA_PxCMD_FR \<equiv> 0x4000"
abbreviation (input) AHCI_HBA_PxCMD_CR :: u32 where "AHCI_HBA_PxCMD_CR \<equiv> 0x8000"
abbreviation (input) AHCI_HBA_PxIS_TFES :: u32 where "AHCI_HBA_PxIS_TFES \<equiv> 30"

record AHCI_PRDT_ENTRY =
  dba :: u32
  dbc :: u32
  prdt_i :: bool

record AHCI_FIS_REG_H2D =
  fis_type :: u8
  fis_c :: bool
  fis_command :: u8
  lba0 :: u8
  lba1 :: u8
  lba2 :: u8
  fis_device :: u8
  lba3 :: u8
  lba4 :: u8
  lba5 :: u8
  countl :: u8
  counth :: u8

record AHCI_CMD =
  cmd_slot :: nat
  cfl :: nat
  cmd_w :: bool
  prdtl :: u16
  prdt_entry :: "nat \<Rightarrow> AHCI_PRDT_ENTRY"
  cfis :: AHCI_FIS_REG_H2D

text \<open>What the registers of the port answer: \<open>sact\<close> and \<open>ci\<close> when the slot is searched, the
  successive reads of \<open>tfd\<close>, and the successive reads of \<open>ci\<close> and \<open>is\<close> while waiting.\<close>

record AHCI_DEVICE =
  dev_sact :: u32
  dev_ci :: u32
  dev_tfd :: "nat \<Rightarrow> u32"
  dev_wait_ci :: "nat \<Rightarrow> u32"
  dev_wait_is :: "nat \<Rightarrow> u32"

text \<open>\<open>AHCI_FIND_CMD_SLOT\<close>: \<open>n\<close> iterations are left, \<open>i\<close> is the loop variable.\<close>

fun find_slot_loop :: "nat \<Rightarrow> nat \<Rightarrow> u32 \<Rightarrow> int" where
  "find_slot_loop 0 i slots = -1"
| "find_slot_loop (Suc n) i slots =
     (if slots AND 1 = 0 then int i else find_slot_loop n (Suc i) (drop_bit 1 slots))"

definition AHCI_FIND_CMD_SLOT :: "u32 \<Rightarrow> u32 \<Rightarrow> int" where
  "AHCI_FIND_CMD_SLOT sact ci = find_slot_loop 32 0 (sact OR ci)"

text \<open>
  \<open>while (port->cmd & CR);\<close> and the loop of \<open>AHCI_STOP_PORT\<close> read a volatile register:
  \<open>reads k\<close> is what the \<open>k\<close>-th read returns.
\<close>

partial_function (option) wait_clear :: "(nat \<Rightarrow> u32) \<Rightarrow> u32 \<Rightarrow> nat \<Rightarrow> nat option" where
  "wait_clear reads msk k = (if reads k AND msk \<noteq> 0 then wait_clear reads msk (Suc k) else Some k)"

definition AHCI_START_PORT :: "(nat \<Rightarrow> u32) \<Rightarrow> u32 \<Rightarrow> u32 outcome" where
  "AHCI_START_PORT reads cmd =
     (case wait_clear reads AHCI_HBA_PxCMD_CR 0 of
        None \<Rightarrow> Inl Hangs
      | Some _ \<Rightarrow> Inr ((cmd OR AHCI_HBA_PxCMD_FRE) OR AHCI_HBA_PxCMD_ST))"

partial_function (option) stop_wait :: "(nat \<Rightarrow> u32) \<Rightarrow> nat \<Rightarrow> nat option" where
  "stop_wait reads k =
     (if reads k AND AHCI_HBA_PxCMD_FR \<noteq> 0 then stop_wait reads (Suc k)
      else if reads (Suc k) AND AHCI_HBA_PxCMD_CR \<noteq> 0 then stop_wait reads (Suc (Suc k))
      else Some k)"

definition AHCI_STOP_PORT :: "(nat \<Rightarrow> u32) \<Rightarrow> u32 \<Rightarrow> u32 outcome" where
  "AHCI_STOP_PORT reads cmd =
     (let cmd = cmd AND NOT AHCI_HBA_PxCMD_ST;
          cmd = cmd AND NOT AHCI_HBA_PxCMD_FRE
      in case stop_wait reads 0 of None \<Rightarrow> Inl Hangs | Some _ \<Rightarrow> Inr cmd)"

text \<open>
  The command table of \<open>AHCI_READ\<close>. The loop fills the entries \<open>0 .. prdtl-2\<close> with 8 KB each
  and takes 16 sectors per entry off \<open>count\<close>; it declares its own \<open>i\<close>, so the index of the
  last entry is the uninitialised outer one, here \<open>i0\<close>. The field \<open>dbc\<close> has 22 bits.
\<close>

definition prdt_full :: "u64 \<Rightarrow> nat \<Rightarrow> AHCI_PRDT_ENTRY" where
  "prdt_full buf k = \<lparr>dba = ucast (buf + of_nat k * 0x2000), dbc = 0x1fff, prdt_i = True\<rparr>"

definition ahci_fis :: "u64 \<Rightarrow> u32 \<Rightarrow> AHCI_FIS_REG_H2D" where
  "ahci_fis start count =
     \<lparr>fis_type = 0x27, fis_c = True, fis_command = 0x25,
      lba0 = ucast start, lba1 = ucast (drop_bit 8 start), lba2 = ucast (drop_bit 16 start),
      fis_device = 0x40,
      lba3 = ucast (drop_bit 24 start), lba4 = ucast (drop_bit 32 start), lba5 = ucast (drop_bit 40 start),
      countl = ucast (count AND 0xff), counth = ucast (drop_bit 8 count AND 0xff)\<rparr>"

definition AHCI_BUILD :: "nat \<Rightarrow> nat \<Rightarrow> u64 \<Rightarrow> u32 \<Rightarrow> u64 \<Rightarrow> AHCI_CMD" where
  "AHCI_BUILD i0 slot start count buf =
     (let l = (ucast (drop_bit 4 (count - 1)) :: u16) + 1;
          n = nat (sint (ucast l - 1 :: u32));
          zero = \<lparr>dba = 0, dbc = 0, prdt_i = False\<rparr>;
          tbl = (\<lambda>k. if k < n then prdt_full buf k else zero);
          buf' = buf + of_nat n * 0x2000;
          count' = count - of_nat n * 16
      in \<lparr>cmd_slot = slot, cfl = 5, cmd_w = False, prdtl = l,
          prdt_entry = tbl(i0 := \<lparr>dba = ucast buf', dbc = (push_bit 9 count' - 1) AND 0x3fffff, prdt_i = True\<rparr>),
          cfis = ahci_fis start count'\<rparr>)"

text \<open>\<open>while ((port->tfd & (BUSY|DRQ)) && spin < 1000000) spin++\<close>: the port is hung when
  the first million reads all show it busy.\<close>

definition port_hung :: "AHCI_DEVICE \<Rightarrow> bool" where
  "port_hung d = list_all (\<lambda>k. dev_tfd d k AND (0x80 OR 0x08) \<noteq> 0) [0..<1000000]"

text \<open>The completion loop: \<open>Some True\<close> when the slot's bit of \<open>ci\<close> is clear, \<open>Some False\<close> on the
  error test, no result when neither ever happens.\<close>

partial_function (option) wait_done :: "AHCI_DEVICE \<Rightarrow> u32 \<Rightarrow> nat \<Rightarrow> (bool \<times> nat) option" where
  "wait_done d bt k =
     (if dev_wait_ci d k AND bt = 0 then Some (True, k)
      else if dev_wait_is d k AND AHCI_HBA_PxIS_TFES \<noteq> 0 then Some (False, k)
      else wait_done d bt (Suc k))"

text \<open>\<open>AHCI_READ\<close>: the command issued to the device, if one is, and the result. The argument
  \<open>phys\<close> is \<open>MemoryPhysical\<close>.\<close>

definition AHCI_READ ::
    "AHCI_DEVICE \<Rightarrow> (u64 \<Rightarrow> u64) \<Rightarrow> nat \<Rightarrow> u64 \<Rightarrow> u32 \<Rightarrow> u64 \<Rightarrow> (bool \<times> AHCI_CMD option) outcome" where
  "AHCI_READ d phys i0 start count buf =
     (let buf = phys buf;
          slot = AHCI_FIND_CMD_SLOT (dev_sact d) (dev_ci d)
      in if slot = -1 then Inr (False, None)
         else let cmd = AHCI_BUILD i0 (nat slot) start count buf
         in if port_hung d then Inr (False, None)
            else case wait_done d (push_bit (nat slot) 1) 0 of
                None \<Rightarrow> Inl Hangs
              | Some (False, _) \<Rightarrow> Inr (False, Some cmd)
              | Some (True, k) \<Rightarrow> Inr (dev_wait_is d k AND AHCI_HBA_PxIS_TFES = 0, Some cmd))"

section \<open>What a command asks for\<close>

text \<open>The sector number and the sector count a device reads from the FIS, and the size of the
  memory the PRDT describes.\<close>

definition fis_lba :: "AHCI_FIS_REG_H2D \<Rightarrow> nat" where
  "fis_lba f = le_nat [lba0 f, lba1 f, lba2 f, lba3 f, lba4 f, lba5 f]"

definition fis_count :: "AHCI_FIS_REG_H2D \<Rightarrow> nat" where
  "fis_count f = le_nat [countl f, counth f]"

definition prdt_bytes :: "AHCI_CMD \<Rightarrow> nat" where
  "prdt_bytes c = sum_list (map (\<lambda>k. unat (dbc (prdt_entry c k)) + 1) [0..<unat (prdtl c)])"

section \<open>Lemmas\<close>

lemma le_digits: "v mod 256 + 256 * (v div 256 mod n) = v mod (256 * n)" for v n :: nat
  by (simp add: mod_mult2_eq)

lemma fis_lba_start: "unat start < 2 ^ 48 \<Longrightarrow> fis_lba (ahci_fis start c) = unat start"
proof -
  assume l: "unat start < 2 ^ 48"
  let ?v = "unat start"
  have "fis_lba (ahci_fis start c) = le_nat (le_bytes 6 ?v)"
    by (simp add: fis_lba_def ahci_fis_def bytes_numeral unat_drop_bit unat_ucast_down div_mult2_eq [symmetric])
  also have "\<dots> = ?v" using l by (simp add: le_nat_le_bytes)
  finally show ?thesis .
qed

lemma fis_count_low: "fis_count (ahci_fis s c) = unat c mod 2 ^ 16"
proof -
  have "c AND 0xff = take_bit 8 c" for c :: u32 by (simp add: take_bit_eq_mask mask_eq_exp_minus_1)
  then have 1: "unat (ucast (c AND 0xff) :: u8) = unat c mod 256" for c :: u32
    by (simp add: unat_ucast_down unat_mod take_bit_eq_mod)
  show ?thesis by (simp add: fis_count_def ahci_fis_def 1 unat_drop_bit le_digits)
qed

lemma find_slot_loop_find:
  "find_slot_loop n i slots =
     (case find (\<lambda>k. \<not> bit slots k) [0..<n] of None \<Rightarrow> -1 | Some k \<Rightarrow> int (i + k))"
proof (induction n arbitrary: i slots)
  case 0
  then show ?case by simp
next
  case (Suc n)
  have b0: "(slots AND 1 = 0) = (\<not> bit slots 0)"
    by (simp add: and_one_eq odd_iff_mod_2_eq_one bit_0 even_iff_mod_2_eq_zero)
  have "find (\<lambda>k. \<not> bit slots k) [0..<Suc n] =
      (if \<not> bit slots 0 then Some 0 else find (\<lambda>k. \<not> bit slots k) (map Suc [0..<n]))"
    by (simp add: map_Suc_upt upt_conv_Cons del: upt_Suc)
  moreover have "find P (map Suc xs) = map_option Suc (find (P \<circ> Suc) xs)" for P xs
    by (induction xs) auto
  ultimately show ?case using Suc b0
    by (auto simp: o_def bit_drop_bit_eq split: option.splits)
qed

lemma build_prdtl:
  assumes "0 < unat count" "unat count \<le> 2 ^ 16"
  shows "unat (prdtl (AHCI_BUILD i0 slot start count buf)) = (unat count - 1) div 16 + 1"
    and "nat (sint (ucast (prdtl (AHCI_BUILD i0 slot start count buf)) - 1 :: u32)) = (unat count - 1) div 16"
proof -
  have c: "unat (count - 1) = unat count - 1" using assms(1) by (intro unat_minus_one) auto
  have d: "unat (ucast (drop_bit 4 (count - 1)) :: u16) = (unat count - 1) div 16"
    using assms by (simp add: unat_ucast_down unat_drop_bit c)
  have e: "(unat count - 1) div 16 < 4096" using assms by simp
  show l: "unat (prdtl (AHCI_BUILD i0 slot start count buf)) = (unat count - 1) div 16 + 1"
    using d e by (simp add: AHCI_BUILD_def Let_def unat_word_ariths)
  let ?l = "ucast (prdtl (AHCI_BUILD i0 slot start count buf)) :: u32"
  have "unat ?l = (unat count - 1) div 16 + 1" using l by (simp add: unat_ucast_up)
  then have "unat (?l - 1) = (unat count - 1) div 16" by (subst unat_minus_one) auto
  then have "sint (?l - 1) = int ((unat count - 1) div 16)"
    using e by (subst sint_small_u32) simp_all
  then show "nat (sint (?l - 1)) = (unat count - 1) div 16" by simp
qed

lemma build_left:
  assumes "0 < unat (count :: u32)"
  shows "unat (count - of_nat ((unat count - 1) div 16) * 16) = (unat count - 1) mod 16 + 1"
proof -
  let ?k = "(unat count - 1) div 16"
  have k: "?k * 16 + (unat count - 1) mod 16 = unat count - 1" by simp
  then have le: "?k * 16 \<le> unat count - 1" by linarith
  then have "?k * 16 < 4294967296" using unat_u32_less [of count] by linarith
  then have m: "unat (of_nat ?k * 16 :: u32) = ?k * 16"
    by (simp add: unat_word_ariths unat_of_nat)
  then have "unat (count - of_nat ?k * 16) = unat count - ?k * 16"
    using le assms by (subst unat_sub) (auto simp: word_le_nat_alt)
  then show ?thesis using k assms by linarith
qed

text \<open>How the entries look when the outer \<open>i\<close> happens to be the index of the last one.\<close>

lemma build_entries:
  assumes "0 < unat count" "unat count \<le> 2 ^ 12" "i0 = (unat count - 1) div 16"
  shows "k < i0 \<Longrightarrow> unat (dbc (prdt_entry (AHCI_BUILD i0 slot start count buf) k)) = 0x1fff"
    and "unat (dbc (prdt_entry (AHCI_BUILD i0 slot start count buf) i0)) = ((unat count - 1) mod 16 + 1) * 512 - 1"
proof -
  have c: "unat count \<le> 2 ^ 16" using assms(2) by simp
  have n: "nat (sint (ucast ((ucast (drop_bit 4 (count - 1)) :: u16) + 1) - 1 :: u32)) = i0"
    using build_prdtl(2) [OF assms(1) c, of i0 slot start buf] assms(3)
    by (simp add: AHCI_BUILD_def Let_def)
  show "unat (dbc (prdt_entry (AHCI_BUILD i0 slot start count buf) k)) = 0x1fff" if "k < i0"
    using that by (simp add: AHCI_BUILD_def Let_def n prdt_full_def)
  define c where "c = count - of_nat i0 * 16"
  let ?c = c and ?m = "(unat count - 1) mod 16 + 1"
  have u: "unat ?c = ?m" using build_left [OF assms(1)] assms(3) by (simp add: c_def)
  have m: "?m \<le> 16" by simp
  have "unat (push_bit 9 ?c) = unat ?c * 512"
    using u m by (simp add: push_bit_eq_mult unat_word_ariths)
  moreover have "0 < unat ?c" using u by simp
  ultimately have "unat (push_bit 9 ?c - 1) = ?m * 512 - 1"
    using u by (subst unat_minus_one) auto
  moreover have "(push_bit 9 ?c - 1) AND 0x3fffff = take_bit 22 (push_bit 9 ?c - 1)"
    by (simp add: take_bit_eq_mask mask_eq_exp_minus_1)
  ultimately have "unat ((push_bit 9 ?c - 1) AND 0x3fffff) = ?m * 512 - 1"
    using m by (simp add: unsigned_take_bit_eq take_bit_nat_eq_self_iff)
  then show "unat (dbc (prdt_entry (AHCI_BUILD i0 slot start count buf) i0)) = ?m * 512 - 1"
    by (simp add: AHCI_BUILD_def Let_def n c_def)
qed

lemma build_cfis:
  assumes "0 < unat count" "unat count \<le> 2 ^ 16"
  shows "cfis (AHCI_BUILD i0 slot start count buf) = ahci_fis start (count - of_nat ((unat count - 1) div 16) * 16)"
  using build_prdtl(2) [OF assms, of i0 slot start buf] by (simp add: AHCI_BUILD_def Let_def)

lemma wait_done_reached:
  assumes "dev_wait_ci d (k + j) AND bt = 0"
  shows "\<exists>r. wait_done d bt k = Some r"
  using assms
proof (induction j arbitrary: k)
  case 0
  then show ?case by (auto simp: wait_done.simps [of d bt k])
next
  case (Suc j)
  then show ?case using Suc.IH [of "Suc k"] by (auto simp: wait_done.simps [of d bt k])
qed

section \<open>The disk behind a port\<close>

text \<open>
  A device with disk content \<open>disk\<close> that executes a command delivers the sectors the FIS
  names, as far as the PRDT has room. \<open>ahci_rd\<close> is what a caller of \<open>AHCI_READ\<close> finds in a
  buffer, with the uninitialised index being 0.
\<close>

definition sectors :: "(u64 \<Rightarrow> u8 list) \<Rightarrow> u64 \<Rightarrow> nat \<Rightarrow> u8 list" where
  "sectors disk lba n = concat (map (\<lambda>k. disk (lba + of_nat k)) [0..<n])"

definition execute :: "(u64 \<Rightarrow> u8 list) \<Rightarrow> AHCI_CMD \<Rightarrow> u8 list" where
  "execute disk c = take (prdt_bytes c) (sectors disk (of_nat (fis_lba (cfis c))) (fis_count (cfis c)))"

definition ahci_rd :: "AHCI_DEVICE \<Rightarrow> (u64 \<Rightarrow> u8 list) \<Rightarrow> u64 \<Rightarrow> u32 \<Rightarrow> u8 list option" where
  "ahci_rd d disk lba n =
     (case AHCI_READ d (\<lambda>a. a) 0 lba n 0x1000 of
        Inr (True, Some c) \<Rightarrow> Some (execute disk c)
      | _ \<Rightarrow> None)"

locale sector_reader =
  fixes rd :: "u64 \<Rightarrow> u32 \<Rightarrow> u8 list option"
    and disk :: "u64 \<Rightarrow> u8 list"
  assumes sector_length: "length (disk l) = 512"
    and rd_small: "0 < unat n \<Longrightarrow> unat n \<le> 16 \<Longrightarrow> unat l < 2 ^ 48 \<Longrightarrow> rd l n = Some (sectors disk l (unat n))"
begin

lemma sectors_length: "length (sectors disk l n) = n * 512"
  by (induction n) (simp_all add: sectors_def sector_length)

lemma sectors_nth: "i < n * 512 \<Longrightarrow> sectors disk l n ! i = disk (l + of_nat (i div 512)) ! (i mod 512)"
proof (induction n)
  case 0
  then show ?case by simp
next
  case (Suc n)
  have s: "sectors disk l (Suc n) = sectors disk l n @ disk (l + of_nat n)" by (simp add: sectors_def)
  show ?case
  proof (cases "i < n * 512")
    case True
    then show ?thesis using Suc.IH by (simp add: s nth_append sectors_length)
  next
    case False
    then obtain j where j: "i = n * 512 + j" by (metis add.commute le_Suc_ex not_less)
    then have "j < 512" using Suc.prems by simp
    then show ?thesis using j by (simp add: s nth_append sectors_length)
  qed
qed

lemma rd_bytes: "0 < unat n \<Longrightarrow> unat n \<le> 16 \<Longrightarrow> unat l < 2 ^ 48 \<Longrightarrow>
  \<exists>bs. rd l n = Some bs \<and> length bs = unat n * 512"
  by (simp add: rd_small sectors_length)

end

definition ready_device :: AHCI_DEVICE where
  "ready_device = \<lparr>dev_sact = 0, dev_ci = 0, dev_tfd = (\<lambda>_. 0x50), dev_wait_ci = (\<lambda>_. 0), dev_wait_is = (\<lambda>_. 0)\<rparr>"

definition image_disk :: "(nat \<Rightarrow> u8) \<Rightarrow> u64 \<Rightarrow> u8 list" where
  "image_disk img l = map (\<lambda>k. img (512 * unat l + k)) [0..<512]"

lemma ready_device_read:
  "AHCI_READ ready_device phys i0 start count buf = Inr (True, Some (AHCI_BUILD i0 0 start count (phys buf)))"
proof -
  have "\<not> port_hung ready_device"
    unfolding port_hung_def list_all_iff
    by (rule notI, drule bspec [of _ _ 0]) (simp_all add: ready_device_def)
  moreover have "AHCI_FIND_CMD_SLOT (dev_sact ready_device) (dev_ci ready_device) = 0"
  proof -
    have "find_slot_loop (Suc 31) 0 0 = 0" unfolding find_slot_loop.simps by simp
    then show ?thesis by (simp add: ready_device_def AHCI_FIND_CMD_SLOT_def del: find_slot_loop.simps)
  qed
  moreover have "wait_done ready_device 1 0 = Some (True, 0)"
    by (simp add: wait_done.simps ready_device_def)
  ultimately show ?thesis by (simp add: AHCI_READ_def Let_def ready_device_def)
qed

lemma build_small:
  assumes "0 < unat count" "unat count \<le> 16" "unat start < 2 ^ 48"
  shows "prdt_bytes (AHCI_BUILD 0 slot start count buf) = unat count * 512"
    and "fis_count (cfis (AHCI_BUILD 0 slot start count buf)) = unat count"
    and "fis_lba (cfis (AHCI_BUILD 0 slot start count buf)) = unat start"
proof -
  have d: "(unat count - 1) div 16 = 0" "(unat count - 1) mod 16 = unat count - 1" using assms by simp_all
  show "fis_count (cfis (AHCI_BUILD 0 slot start count buf)) = unat count"
    "fis_lba (cfis (AHCI_BUILD 0 slot start count buf)) = unat start"
    using assms d by (simp_all add: build_cfis fis_count_low fis_lba_start)
  have "unat (prdtl (AHCI_BUILD 0 slot start count buf)) = 1" using build_prdtl(1) assms d by simp
  moreover have "unat (dbc (prdt_entry (AHCI_BUILD 0 slot start count buf) 0)) = unat count * 512 - 1"
    using build_entries(2) [of count 0] assms d by simp
  ultimately show "prdt_bytes (AHCI_BUILD 0 slot start count buf) = unat count * 512"
    using assms(1) by (simp add: prdt_bytes_def)
qed

interpretation ahci_disk: sector_reader "ahci_rd ready_device (image_disk img)" "image_disk img" for img
proof
  show "length (image_disk img l) = 512" for l by (simp add: image_disk_def)
  then have "length (sectors (image_disk img) l n) = n * 512" for l n
    by (induction n) (simp_all add: sectors_def)
  then show "ahci_rd ready_device (image_disk img) l n = Some (sectors (image_disk img) l (unat n))"
    if "0 < unat n" "unat n \<le> 16" "unat l < 2 ^ 48" for n l
    using that by (simp add: ahci_rd_def ready_device_read execute_def build_small)
qed

section \<open>Properties\<close>

text \<open>
  \<open>AHCI_FIND_CMD_SLOT\<close> returns the lowest slot that is set neither in \<open>sact\<close> nor in
  \<open>ci\<close>, and -1 when all 32 are in use.
\<close>

theorem AHCI_FIND_CMD_SLOT_lowest:
  "AHCI_FIND_CMD_SLOT sact ci =
     (case find (\<lambda>k. \<not> bit sact k \<and> \<not> bit ci k) [0..<32] of None \<Rightarrow> -1 | Some k \<Rightarrow> int k)"
  by (auto simp: AHCI_FIND_CMD_SLOT_def find_slot_loop_find bit_simps split: option.splits)

text \<open>
  C38: the command \<open>AHCI_READ\<close> builds for \<open>count\<close> sectors from \<open>start\<close>: the FIS names the
  right first sector and the PRDT has one entry per 16 sectors, but the sector count in the
  FIS is only \<open>(count - 1) mod 16 + 1\<close>, so a read of more than 16 sectors asks the device for
  fewer. If the uninitialised index is the last entry's, the PRDT has room for all of them.
\<close>

theorem AHCI_BUILD_command:
  assumes "0 < unat count" "unat count \<le> 2 ^ 12" "unat start < 2 ^ 48"
  shows "fis_lba (cfis (AHCI_BUILD i0 slot start count buf)) = unat start \<and>
    fis_count (cfis (AHCI_BUILD i0 slot start count buf)) = (unat count - 1) mod 16 + 1 \<and>
    unat (prdtl (AHCI_BUILD i0 slot start count buf)) = (unat count - 1) div 16 + 1 \<and>
    (i0 = (unat count - 1) div 16 \<longrightarrow> prdt_bytes (AHCI_BUILD i0 slot start count buf) = 512 * unat count)"
proof -
  have c: "unat count \<le> 2 ^ 16" using assms(2) by simp
  note l = build_prdtl(1) [OF assms(1) c, of i0 slot start buf]
  let ?q = "(unat count - 1) div 16" and ?r = "(unat count - 1) mod 16"
  have "(unat count - 1) mod 16 + 1 < 2 ^ 16" by (rule less_trans [of _ 17]) simp_all
  then have "fis_count (cfis (AHCI_BUILD i0 slot start count buf)) = ?r + 1"
    using build_cfis [OF assms(1) c] build_left [OF assms(1)] by (simp add: fis_count_low)
  moreover have "prdt_bytes (AHCI_BUILD i0 slot start count buf) = 512 * unat count" if i0: "i0 = ?q"
  proof -
    let ?f = "\<lambda>k. unat (dbc (prdt_entry (AHCI_BUILD i0 slot start count buf) k)) + 1"
    have "map ?f [0..<i0] = map (\<lambda>k. 8192) [0..<i0]"
      by (rule map_cong) (simp_all add: build_entries(1) [OF assms(1,2) i0])
    then have "sum_list (map ?f ([0..<i0] @ [i0])) = sum_list (map (\<lambda>k. 8192) [0..<i0]) + ?f i0"
      unfolding map_append sum_list_append by (simp only: list.map sum_list.Cons sum_list.Nil add_0_right)
    then have "prdt_bytes (AHCI_BUILD i0 slot start count buf) =
        sum_list (map (\<lambda>k. 8192) [0..<i0]) + ((?r + 1) * 512 - 1 + 1)"
      unfolding prdt_bytes_def l i0 [symmetric] build_entries(2) [OF assms(1,2) i0] by simp
    also have "\<dots> = 8192 * ?q + ?r * 512 + 512" by (simp add: i0 sum_list_triv)
    also have "\<dots> = 512 * unat count"
      using assms(1) div_mult_mod_eq [of "unat count - 1" 16] by linarith
    finally show ?thesis .
  qed
  ultimately show ?thesis
    using l build_cfis [OF assms(1) c] assms(3) by (simp add: fis_lba_start)
qed

theorem AHCI_BUILD_command_witness:
  "fis_count (cfis (AHCI_BUILD 1 0 5 20 0x1000)) = 4 \<and> prdt_bytes (AHCI_BUILD 1 0 5 20 0x1000) = 10240"
  using AHCI_BUILD_command [of 20 5 1 0 "0x1000"] by simp

end
