(* ===== verification/Ext2.thy ===== *)
theory Ext2
  imports Paging Ahci
begin

text \<open>
  The ext2 reader: the buffered sector stream of \<open>src/src/drivers/ext2/buffer.c\<close> and the file
  system of \<open>src/src/drivers/ext2/ext2.c\<close>. The superblock, the block groups and the
  partition entry stand in the heap memory, where the code keeps pointers to them; inodes,
  directory entries and buffers that the code keeps on the stack are values. The block device
  is the argument \<open>rd\<close>: \<open>rd lba n\<close> is the content of the caller's buffer after a successful
  \<open>AHCI_READ\<close> of \<open>n\<close> sectors, and None when the read fails.
\<close>

section \<open>Data\<close>

record EXT2_INODE =
  mode :: u16
  UID :: u16
  inode_size :: u32
  accessTime :: u32
  creationTime :: u32
  modificationTime :: u32
  deletionTime :: u32
  GID :: u16
  linkCount :: u16
  blockCount :: u32
  inode_flags :: u32
  OSD1 :: u32
  blockPointers :: "u32 list"
  blockPointerIndirect :: u32
  blockPointerIndirectDouble :: u32
  blockPointerIndirectTriple :: u32
  generation :: u32
  fileACL :: u32
  dirACL :: u32
  fragmentAddress :: u32
  OSD2 :: "u8 list"

record kext2 = kpaging +
  ext2_part :: u64
  ext2_superblock :: u64
  ext2_blockgroups :: u64
  ext2_root :: EXT2_INODE

type_synonym reader = "u64 \<Rightarrow> u32 \<Rightarrow> u8 list option"

text \<open>A little-endian field of a structure held as a byte list.\<close>

definition field :: "u8 list \<Rightarrow> nat \<Rightarrow> nat \<Rightarrow> nat" where
  "field bs off n = le_nat (take n (drop off bs))"

definition decode_inode :: "u8 list \<Rightarrow> EXT2_INODE" where
  "decode_inode bs =
     \<lparr>mode = of_nat (field bs 0 2), UID = of_nat (field bs 2 2), inode_size = of_nat (field bs 4 4),
      accessTime = of_nat (field bs 8 4), creationTime = of_nat (field bs 12 4),
      modificationTime = of_nat (field bs 16 4), deletionTime = of_nat (field bs 20 4),
      GID = of_nat (field bs 24 2), linkCount = of_nat (field bs 26 2),
      blockCount = of_nat (field bs 28 4), inode_flags = of_nat (field bs 32 4), OSD1 = of_nat (field bs 36 4),
      blockPointers = map (\<lambda>i. of_nat (field bs (40 + 4 * i) 4)) [0..<12],
      blockPointerIndirect = of_nat (field bs 88 4),
      blockPointerIndirectDouble = of_nat (field bs 92 4),
      blockPointerIndirectTriple = of_nat (field bs 96 4),
      generation = of_nat (field bs 100 4), fileACL = of_nat (field bs 104 4),
      dirACL = of_nat (field bs 108 4), fragmentAddress = of_nat (field bs 112 4),
      OSD2 = take 12 (drop 116 bs)\<rparr>"

definition zero_inode :: EXT2_INODE where
  "zero_inode = decode_inode (replicate 128 0)"

text \<open>Fields of the superblock, the block groups and the partition entry in memory.\<close>

definition sb_logBlockSize :: "'a kext2_scheme \<Rightarrow> u32" where
  "sb_logBlockSize s = U32 (kmem s) (ext2_superblock s + 24)"

definition sb_inodesPerGroup :: "'a kext2_scheme \<Rightarrow> u32" where
  "sb_inodesPerGroup s = U32 (kmem s) (ext2_superblock s + 40)"

definition sb_magic :: "'a kext2_scheme \<Rightarrow> u16" where
  "sb_magic s = U16 (kmem s) (ext2_superblock s + 56)"

definition sb_inodeSize :: "'a kext2_scheme \<Rightarrow> u16" where
  "sb_inodeSize s = U16 (kmem s) (ext2_superblock s + 88)"

definition bg_blockTable :: "'a kext2_scheme \<Rightarrow> int \<Rightarrow> u32" where
  "bg_blockTable s g = U32 (kmem s) (ext2_blockgroups s + of_int g * 32 + 8)"

definition part_startLBA :: "'a kext2_scheme \<Rightarrow> u64" where
  "part_startLBA s = U64 (kmem s) (ext2_part s + 32)"

definition blocksize :: "'a kext2_scheme \<Rightarrow> int" where
  "blocksize s = int32 (1024 * 2 ^ unat (sb_logBlockSize s))"

definition blocksizelba :: "'a kext2_scheme \<Rightarrow> int" where
  "blocksizelba s = blocksize s div 512"

text \<open>\<open>pointer * blocksizelba + startLBA\<close>: the product is taken in 32 bits.\<close>

definition block_lba :: "'a kext2_scheme \<Rightarrow> u32 \<Rightarrow> u64" where
  "block_lba s p = ucast (p * of_int (blocksizelba s)) + part_startLBA s"

section \<open>The buffered stream\<close>

record EXT2_BUFFER =
  buf_lba :: u64
  lba_off :: u64
  pointer :: u32
  buffer :: "u8 list"

abbreviation (input) EXT2_BUFF_CAP :: u32 where "EXT2_BUFF_CAP \<equiv> 0x200 * 4"

definition EXT2_LBA :: "EXT2_BUFFER \<Rightarrow> u64" where
  "EXT2_LBA b = buf_lba b + lba_off b"

text \<open>The result of \<open>AHCI_READ\<close> is ignored: when it fails, the buffer keeps its content.\<close>

definition EXT2_REFRESH :: "reader \<Rightarrow> EXT2_BUFFER \<Rightarrow> EXT2_BUFFER" where
  "EXT2_REFRESH rd b =
     (let b = b\<lparr>lba_off := lba_off b + 4\<rparr>
      in case rd (EXT2_LBA b) 4 of None \<Rightarrow> b | Some bs \<Rightarrow> b\<lparr>buffer := bs\<rparr>)"

definition EXT2_BUFFER_SKIP :: "reader \<Rightarrow> int \<Rightarrow> EXT2_BUFFER \<Rightarrow> EXT2_BUFFER" where
  "EXT2_BUFFER_SKIP rd len b =
     (if pointer b + of_int len < EXT2_BUFF_CAP then b\<lparr>pointer := pointer b + of_int len\<rparr>
      else let part = EXT2_BUFF_CAP - pointer b - 1;
               b = EXT2_REFRESH rd b
           in b\<lparr>pointer := 0 + part\<rparr>)"

text \<open>A copy out of the buffer array; past its end it is out of bounds.\<close>

definition EXT_SIMPLE_BUFFERED_READ :: "nat \<Rightarrow> EXT2_BUFFER \<Rightarrow> (u8 list \<times> EXT2_BUFFER) outcome" where
  "EXT_SIMPLE_BUFFERED_READ len b =
     (if unat (pointer b) + len \<le> length (buffer b)
      then Inr (take len (drop (unat (pointer b)) (buffer b)), b\<lparr>pointer := pointer b + of_nat len\<rparr>)
      else Inl OutOfBounds)"

text \<open>
  The loop \<open>FORI(len/EXT2_BUFF_CAP)\<close>: the macro is \<open>0x200*4\<close> without parentheses, so the
  bound is \<open>(len/0x200)*4\<close>, and it is evaluated again in every iteration. An iteration
  with less than 2048 bytes left writes past the destination.
\<close>

function read_loop :: "reader \<Rightarrow> nat \<Rightarrow> nat \<Rightarrow> u8 list \<Rightarrow> EXT2_BUFFER \<Rightarrow> (nat \<times> u8 list \<times> EXT2_BUFFER) outcome" where
  "read_loop rd i len acc b =
     (if i < len div 0x200 * 4 then
        (if len < 2048 then Inl OutOfBounds
         else let b = EXT2_REFRESH rd (b\<lparr>pointer := 0\<rparr>)
              in if length (buffer b) < 2048 then Inl OutOfBounds
                 else read_loop rd (Suc i) (len - 2048) (acc @ take 2048 (buffer b)) b)
      else Inr (len, acc, b))"
  by pat_completeness auto
termination
  by (relation "measure (\<lambda>(rd, i, len, acc, b). len)") auto

definition EXT2_BUFFER_READ :: "reader \<Rightarrow> nat \<Rightarrow> EXT2_BUFFER \<Rightarrow> (u8 list \<times> EXT2_BUFFER) outcome" where
  "EXT2_BUFFER_READ rd len b =
     (if pointer b + of_nat len < EXT2_BUFF_CAP then EXT_SIMPLE_BUFFERED_READ len b
      else let part = EXT2_BUFF_CAP - pointer b
      in andthen (EXT_SIMPLE_BUFFERED_READ (unat part) b) (\<lambda>(d1, b).
         andthen (if len < unat part then Inl OutOfBounds else read_loop rd 0 (len - unat part) [] b) (\<lambda>(rem, d2, b).
         let b = EXT2_REFRESH rd (b\<lparr>pointer := 0\<rparr>)
         in andthen (EXT_SIMPLE_BUFFERED_READ rem b) (\<lambda>(d3, b). Inr (d1 @ d2 @ d3, b)))))"

definition EXT2_BUFFER_INIT :: "reader \<Rightarrow> u64 \<Rightarrow> EXT2_BUFFER outcome" where
  "EXT2_BUFFER_INIT rd lba =
     (case rd (lba + 0) 4 of
        None \<Rightarrow> Inl Uninitialised
      | Some bs \<Rightarrow> Inr \<lparr>buf_lba = lba, lba_off = 0, pointer = 0, buffer = bs\<rparr>)"

declare read_loop.simps [simp del]

section \<open>Files\<close>

text \<open>\<open>FREAD\<close>: None is the return value 0.\<close>

definition FREAD :: "reader \<Rightarrow> u64 \<Rightarrow> int \<Rightarrow> u8 list option" where
  "FREAD rd blk len =
     (case rd blk (of_int ((len + 511) div 512)) of
        None \<Rightarrow> None
      | Some bs \<Rightarrow> Some (take (nat len) bs))"

definition fread_to :: "reader \<Rightarrow> u64 \<Rightarrow> u64 \<Rightarrow> int \<Rightarrow> mem \<Rightarrow> mem" where
  "fread_to rd blk ptr len m = (case FREAD rd blk len of None \<Rightarrow> m | Some bs \<Rightarrow> store_bytes m ptr bs)"

text \<open>One block of \<open>EXT2_READFILE\<close>: \<open>FREAD(block,ptr,MIN(rem,blocksize)); rem-=blocksize; ptr+=blocksize\<close>.\<close>

definition read_block :: "reader \<Rightarrow> 'a kext2_scheme \<Rightarrow> u32 \<Rightarrow> mem \<times> u64 \<times> u64 \<Rightarrow> mem \<times> u64 \<times> u64" where
  "read_block rd s p = (\<lambda>(m, ptr, rem).
     let bsz = of_int (blocksize s) :: u64
     in (fread_to rd (block_lba s p) ptr (long_to_int (if rem < bsz then rem else bsz)) m,
         ptr + bsz, rem - bsz))"

text \<open>The blocks up to the first zero pointer; the flag says that a zero ended the loop.\<close>

fun read_blocks :: "reader \<Rightarrow> 'a kext2_scheme \<Rightarrow> u32 list \<Rightarrow> mem \<times> u64 \<times> u64 \<Rightarrow> bool \<times> mem \<times> u64 \<times> u64" where
  "read_blocks rd s [] st = (False, st)"
| "read_blocks rd s (p # ps) st = (if p = 0 then (True, st) else read_blocks rd s ps (read_block rd s p st))"

text \<open>
  A table of block pointers: \<open>256*blocksizelba\<close> 32-bit words, read with one \<open>FREAD\<close>; when the
  read fails the array is uninitialised.
\<close>

definition read_pointers :: "reader \<Rightarrow> 'a kext2_scheme \<Rightarrow> u32 \<Rightarrow> u32 list outcome" where
  "read_pointers rd s p =
     (let n = nat (256 * blocksizelba s)
      in case FREAD rd (block_lba s p) (int (4 * n)) of
           None \<Rightarrow> Inl Uninitialised
         | Some bs \<Rightarrow> Inr (map (\<lambda>i. of_nat (field bs (4 * i) 4)) [0..<n]))"

fun read_double :: "reader \<Rightarrow> 'a kext2_scheme \<Rightarrow> u32 list \<Rightarrow> mem \<times> u64 \<times> u64 \<Rightarrow> (mem \<times> u64 \<times> u64) outcome" where
  "read_double rd s [] st = Inr st"
| "read_double rd s (p # ps) st =
     (if p = 0 then Inr st
      else andthen (read_pointers rd s p) (\<lambda>qs. read_double rd s ps (snd (read_blocks rd s qs st))))"

definition EXT2_READFILE :: "reader \<Rightarrow> EXT2_INODE \<Rightarrow> u64 \<Rightarrow> u64 \<Rightarrow> 'a kext2_scheme \<Rightarrow> (int \<times> 'a kext2_scheme) outcome" where
  "EXT2_READFILE rd inode data len s =
     (case read_blocks rd s (blockPointers inode) (kmem s, data, len) of
        (True, m, _) \<Rightarrow> Inr (1, s\<lparr>kmem := m\<rparr>)
      | (False, st) \<Rightarrow>
          if blockPointerIndirect inode = 0 then Inr (1, s\<lparr>kmem := fst st\<rparr>)
          else andthen (read_pointers rd s (blockPointerIndirect inode)) (\<lambda>ps.
            let st = snd (read_blocks rd s ps st)
            in andthen (read_pointers rd s (blockPointerIndirectDouble inode)) (\<lambda>qs.
               andthen (read_double rd s qs st) (\<lambda>(m, _).
                 Inr (if blockPointerIndirectTriple inode > 0 then 0 else 1, s\<lparr>kmem := m\<rparr>)))))"

section \<open>Directories and paths\<close>

record EXT2_DIR =
  dir_inode :: u32
  recLen :: u16
  nameLen :: u8
  fileType :: u8

definition decode_dir :: "u8 list \<Rightarrow> EXT2_DIR" where
  "decode_dir bs =
     \<lparr>dir_inode = of_nat (field bs 0 4), recLen = of_nat (field bs 4 2),
      nameLen = of_nat (field bs 6 1), fileType = of_nat (field bs 7 1)\<rparr>"

text \<open>One turn of the loop: the entry, its name, and the buffer after it (None at the end).\<close>

definition dir_next :: "reader \<Rightarrow> EXT2_BUFFER \<Rightarrow> ((EXT2_DIR \<times> u8 list \<times> EXT2_BUFFER) option) outcome" where
  "dir_next rd b =
     andthen (EXT2_BUFFER_READ rd 8 b) (\<lambda>(h, b).
       let dir = decode_dir h
       in if dir_inode dir = 0 then Inr None
          else andthen (EXT2_BUFFER_READ rd (unat (nameLen dir)) b) (\<lambda>(strname, b).
            Inr (Some (dir, strname,
              EXT2_BUFFER_SKIP rd (int (unat (recLen dir)) - int (unat (nameLen dir)) - 8) b))))"

text \<open>\<open>strncmp(strname, name, nameLen+1) == 0\<close> with the NUL the code puts after \<open>strname\<close>.\<close>

definition same_name :: "mem \<Rightarrow> u64 \<Rightarrow> u8 list \<Rightarrow> bool" where
  "same_name m name strname \<longleftrightarrow> load_bytes m name (Suc (length strname)) = strname @ [0]"

partial_function (option) find_loop :: "reader \<Rightarrow> mem \<Rightarrow> u64 \<Rightarrow> EXT2_BUFFER \<Rightarrow> u64 outcome option" where
  "find_loop rd m name b =
     (case dir_next rd b of
        Inl e \<Rightarrow> Some (Inl e)
      | Inr None \<Rightarrow> Some (Inr 0)
      | Inr (Some (dir, strname, b')) \<Rightarrow>
          if same_name m name strname then Some (Inr (ucast (dir_inode dir)))
          else find_loop rd m name b')"

definition EXT2_FIND_IN_DIR :: "reader \<Rightarrow> EXT2_INODE \<Rightarrow> u64 \<Rightarrow> 'a kext2_scheme \<Rightarrow> u64 outcome" where
  "EXT2_FIND_IN_DIR rd parent name s =
     andthen (EXT2_BUFFER_INIT rd (block_lba s (blockPointers parent ! 0))) (\<lambda>b.
       case find_loop rd (kmem s) name b of None \<Rightarrow> Inl Hangs | Some r \<Rightarrow> r)"

text \<open>\<open>EXT2_LS\<close> and \<open>EXT2_DIR_READ_ENT\<close> print the names; here they are returned.\<close>

partial_function (option) ls_loop :: "reader \<Rightarrow> u8 list list \<Rightarrow> EXT2_BUFFER \<Rightarrow> u8 list list outcome option" where
  "ls_loop rd acc b =
     (case dir_next rd b of
        Inl e \<Rightarrow> Some (Inl e)
      | Inr None \<Rightarrow> Some (Inr acc)
      | Inr (Some (dir, strname, b')) \<Rightarrow> ls_loop rd (acc @ [strname]) b')"

definition EXT2_LS :: "reader \<Rightarrow> EXT2_INODE \<Rightarrow> 'a kext2_scheme \<Rightarrow> u8 list list outcome" where
  "EXT2_LS rd parent s =
     andthen (EXT2_BUFFER_INIT rd (block_lba s (blockPointers parent ! 0))) (\<lambda>b.
       case ls_loop rd [] b of None \<Rightarrow> Inl Hangs | Some r \<Rightarrow> r)"

definition EXT2_GET_BUFFER :: "reader \<Rightarrow> EXT2_INODE \<Rightarrow> 'a kext2_scheme \<Rightarrow> EXT2_BUFFER outcome" where
  "EXT2_GET_BUFFER rd node s = EXT2_BUFFER_INIT rd (block_lba s (blockPointers node ! 0))"

definition EXT2_READ_INODE_FROM_LBA :: "reader \<Rightarrow> u64 \<Rightarrow> EXT2_INODE option" where
  "EXT2_READ_INODE_FROM_LBA rd lba = map_option decode_inode (FREAD rd lba 128)"

text \<open>The table sector and the byte offset in it of an inode number, in the \<open>int\<close> arithmetic of the code.\<close>

definition inode_place :: "'a kext2_scheme \<Rightarrow> u64 \<Rightarrow> (int \<times> int) outcome" where
  "inode_place s inode =
     (if sb_inodesPerGroup s = 0 then Inl DivByZero
      else let ipg = ucast (sb_inodesPerGroup s) :: u64;
               group = long_to_int ((inode - 1) div ipg);
               loc = long_to_int ((inode - 1) mod ipg * ucast (sb_inodeSize s));
               val = long_to_int (part_startLBA s + ucast (bg_blockTable s group * of_int (blocksizelba s)));
               val = int32 (val + (if loc < 0 then - ((- loc) div 0x200) else loc div 0x200))
           in Inr (val, loc))"

definition EXT2_LBA_FROM_INODE_ID :: "'a kext2_scheme \<Rightarrow> u64 \<Rightarrow> u64 outcome" where
  "EXT2_LBA_FROM_INODE_ID s inode = andthen (inode_place s inode) (\<lambda>(val, loc). Inr (of_int val))"

text \<open>\<open>memcpy(node,temp+(local%0x200),sizeof(EXT2_INODE))\<close> out of a 512-byte array.\<close>

definition EXT2_INODE_FROM_ID :: "reader \<Rightarrow> 'a kext2_scheme \<Rightarrow> u64 \<Rightarrow> (u64 \<times> EXT2_INODE) outcome" where
  "EXT2_INODE_FROM_ID rd s inode =
     andthen (inode_place s inode) (\<lambda>(val, loc).
       if loc < 0 \<or> loc mod 0x200 + 128 > 512 then Inl OutOfBounds
       else case rd (of_int val) 1 of
              None \<Rightarrow> Inl Uninitialised
            | Some temp \<Rightarrow> Inr (of_int val, decode_inode (take 128 (drop (nat (loc mod 0x200)) temp))))"

text \<open>\<open>EXT2_FIND_INODE_IN_DIR\<close>: the inode number goes through an \<open>int\<close>; on 0 \<open>out\<close> stays.\<close>

definition EXT2_FIND_INODE_IN_DIR ::
    "reader \<Rightarrow> EXT2_INODE \<Rightarrow> EXT2_INODE \<Rightarrow> u64 \<Rightarrow> 'a kext2_scheme \<Rightarrow> (u64 \<times> EXT2_INODE) outcome" where
  "EXT2_FIND_INODE_IN_DIR rd parent out name s =
     andthen (EXT2_FIND_IN_DIR rd parent name s) (\<lambda>f.
       let file = long_to_int f
       in if file = 0 then Inr (0, out) else EXT2_INODE_FROM_ID rd s (of_int file))"

partial_function (option) path_loop ::
    "reader \<Rightarrow> u64 \<Rightarrow> u64 \<Rightarrow> EXT2_INODE \<Rightarrow> EXT2_INODE \<Rightarrow> 'a kext2_scheme \<Rightarrow>
     (u64 \<times> EXT2_INODE \<times> 'a kext2_scheme) outcome option" where
  "path_loop rd path file parent child s =
     (if path = 0 then Some (Inr (file, child, s))
      else let (m, path') = strntokch (kmem s) path 1000 0x2f;
               s = s\<lparr>kmem := m\<rparr>
           in case EXT2_FIND_INODE_IN_DIR rd parent child path s of
                Inl e \<Rightarrow> Some (Inl e)
              | Inr (f, child) \<Rightarrow>
                  if f = 0 then Some (Inr (0, zero_inode, s))
                  else path_loop rd path' f child child s)"

text \<open>\<open>EXT2_GET_INODE_FROM_PATH\<close>: the result is the last value of \<open>file\<close> as an \<open>int\<close>, the inode
  the new content of \<open>*child\<close>.\<close>

definition EXT2_GET_INODE_FROM_PATH ::
    "reader \<Rightarrow> EXT2_INODE \<Rightarrow> u64 \<Rightarrow> 'a kext2_scheme \<Rightarrow> (int \<times> EXT2_INODE \<times> 'a kext2_scheme) outcome" where
  "EXT2_GET_INODE_FROM_PATH rd child path0 s =
     andthen (strdup path0 s) (\<lambda>(path, s).
       if kmem s path \<noteq> 0x2f then Inr (0, zero_inode, s)
       else case path_loop rd (path + 1) 0 (ext2_root s) child s of
              None \<Rightarrow> Inl Hangs
            | Some r \<Rightarrow> andthen r (\<lambda>(f, child, s). Inr (long_to_int f, child, s)))"

section \<open>Mounting\<close>

text \<open>A read into heap memory: the sectors land at the address, or nothing does.\<close>

definition read_heap :: "reader \<Rightarrow> u64 \<Rightarrow> u32 \<Rightarrow> u64 \<Rightarrow> 'a kext2_scheme \<Rightarrow> 'a kext2_scheme" where
  "read_heap rd lba n p s = (case rd lba n of None \<Rightarrow> s | Some bs \<Rightarrow> s\<lparr>kmem := store_bytes (kmem s) p bs\<rparr>)"

definition readInodeTable :: "reader \<Rightarrow> u64 \<Rightarrow> 'a kext2_scheme \<Rightarrow> u64 \<times> 'a kext2_scheme" where
  "readInodeTable rd lba s = (let (table, s) = malloc 1024 s in (table, read_heap rd lba 4 table s))"

definition EXT2_READPART :: "reader \<Rightarrow> u64 \<Rightarrow> 'a kext2_scheme \<Rightarrow> int \<times> 'a kext2_scheme" where
  "EXT2_READPART rd ent s =
     (let lba = U64 (kmem s) (ent + 32);
          s = s\<lparr>ext2_part := ent\<rparr>;
          (sb, s) = malloc (0x200 * 2) s;
          s = s\<lparr>ext2_superblock := sb\<rparr>;
          s = read_heap rd (lba + 2) 2 sb s
      in if sb_magic s \<noteq> 0xEF53 then (-1, s)
         else let bsz = blocksize s; bl = blocksizelba s;
                  (bg, s) = malloc (of_int bsz) s;
                  s = s\<lparr>ext2_blockgroups := bg\<rparr>;
                  s = read_heap rd (lba + of_int bl) (of_int bl) bg s;
                  table = lba + ucast (bg_blockTable s 0 * of_int bl);
                  (inodes, s) = readInodeTable rd table s;
                  root = decode_inode (load_bytes (kmem s) (inodes + ucast (sb_inodeSize s)) 128)
              in (0, s\<lparr>ext2_root := root\<rparr>))"

section \<open>The stream behind a buffer\<close>

text \<open>
  The abstract view of a buffer: a position in the bytes of the disk from \<open>buf_lba\<close> on. The
  invariant says that the array holds the four sectors at the current offset.
\<close>

definition buf_pos :: "EXT2_BUFFER \<Rightarrow> nat" where
  "buf_pos b = 512 * unat (lba_off b) + unat (pointer b)"

definition buf_ok :: "(u64 \<Rightarrow> u8 list) \<Rightarrow> EXT2_BUFFER \<Rightarrow> bool" where
  "buf_ok disk b \<longleftrightarrow> buffer b = sectors disk (EXT2_LBA b) 4 \<and> unat (pointer b) < 2048 \<and>
     unat (buf_lba b) + unat (lba_off b) + 8 < 2 ^ 48"

definition stream :: "(u64 \<Rightarrow> u8 list) \<Rightarrow> u64 \<Rightarrow> nat \<Rightarrow> nat \<Rightarrow> u8 list" where
  "stream disk lba i n = map (\<lambda>k. disk (lba + of_nat ((i + k) div 512)) ! ((i + k) mod 512)) [0..<n]"

lemma stream_append: "stream disk lba i (m + n) = stream disk lba i m @ stream disk lba (i + m) n"
proof -
  have "[0..<m + n] = [0..<m] @ map (\<lambda>k. k + m) [0..<n]"
    by (induction n) simp_all
  then show ?thesis by (simp add: stream_def o_def ac_simps)
qed

lemma length_stream [simp]: "length (stream disk lba i n) = n"
  by (simp add: stream_def)

lemma unat_pointer_add:
  "unat (p :: u32) < 2048 \<Longrightarrow> n < 2048 \<Longrightarrow> unat (p + of_nat n) = unat p + n"
  by (simp add: unat_word_ariths unat_of_nat)

context sector_reader
begin

lemma buffer_slice:
  assumes "buf_ok disk b" "unat (pointer b) + n \<le> 2048"
  shows "take n (drop (unat (pointer b)) (buffer b)) = stream disk (buf_lba b) (buf_pos b) n"
proof (rule nth_equalityI)
  have len: "length (buffer b) = 2048" using assms(1) by (simp add: buf_ok_def sectors_length)
  then show "length (take n (drop (unat (pointer b)) (buffer b))) = length (stream disk (buf_lba b) (buf_pos b) n)"
    using assms(2) by simp
  fix i assume "i < length (take n (drop (unat (pointer b)) (buffer b)))"
  then have i: "i < n" by simp
  let ?j = "unat (pointer b) + i"
  have "take n (drop (unat (pointer b)) (buffer b)) ! i = sectors disk (EXT2_LBA b) 4 ! ?j"
    using i len assms by (simp add: buf_ok_def)
  also have "\<dots> = disk (EXT2_LBA b + of_nat (?j div 512)) ! (?j mod 512)"
    using i assms(2) by (intro sectors_nth) simp
  also have "EXT2_LBA b + of_nat (?j div 512) = buf_lba b + of_nat ((buf_pos b + i) div 512)"
    by (simp add: EXT2_LBA_def buf_pos_def add.assoc)
  also have "?j mod 512 = (buf_pos b + i) mod 512" by (simp add: buf_pos_def add.assoc)
  finally show "take n (drop (unat (pointer b)) (buffer b)) ! i = stream disk (buf_lba b) (buf_pos b) n ! i"
    using i by (simp add: stream_def)
qed

lemma refresh_stream:
  assumes "unat (buf_lba b) + unat (lba_off b) + 12 < 2 ^ 48" "unat p < 2048"
  shows "buf_ok disk ((EXT2_REFRESH rd b)\<lparr>pointer := p\<rparr>)"
    "buf_lba (EXT2_REFRESH rd b) = buf_lba b" "lba_off (EXT2_REFRESH rd b) = lba_off b + 4"
    "unat (lba_off (EXT2_REFRESH rd b)) = unat (lba_off b) + 4"
    "pointer (EXT2_REFRESH rd b) = pointer b"
proof -
  have o: "unat (lba_off b + 4) = unat (lba_off b) + 4" using assms(1) by (simp add: unat_word_ariths)
  then have "unat (buf_lba b + (lba_off b + 4)) = unat (buf_lba b) + (unat (lba_off b) + 4)"
    using assms(1) by (simp add: unat_word_ariths)
  then have "rd (buf_lba b + (lba_off b + 4)) 4 = Some (sectors disk (buf_lba b + (lba_off b + 4)) 4)"
    using assms(1) rd_small [of 4 "buf_lba b + (lba_off b + 4)"] by simp
  then have r: "EXT2_REFRESH rd b = b\<lparr>lba_off := lba_off b + 4, buffer := sectors disk (buf_lba b + (lba_off b + 4)) 4\<rparr>"
    by (simp add: EXT2_REFRESH_def EXT2_LBA_def Let_def)
  show "buf_ok disk ((EXT2_REFRESH rd b)\<lparr>pointer := p\<rparr>)"
    "buf_lba (EXT2_REFRESH rd b) = buf_lba b" "lba_off (EXT2_REFRESH rd b) = lba_off b + 4"
    "unat (lba_off (EXT2_REFRESH rd b)) = unat (lba_off b) + 4"
    "pointer (EXT2_REFRESH rd b) = pointer b"
    using assms o by (simp_all add: r buf_ok_def EXT2_LBA_def)
qed

lemma read_within:
  assumes "buf_ok disk b" "unat (pointer b) + len < 2048"
  shows "\<exists>b'. EXT2_BUFFER_READ rd len b = Inr (stream disk (buf_lba b) (buf_pos b) len, b') \<and>
    buf_ok disk b' \<and> buf_lba b' = buf_lba b \<and> lba_off b' = lba_off b \<and> unat (pointer b') = unat (pointer b) + len"
proof -
  have u: "unat (pointer b + of_nat len) = unat (pointer b) + len"
    using assms unat_pointer_add [of "pointer b" len] by (simp add: buf_ok_def)
  then have "pointer b + of_nat len < EXT2_BUFF_CAP" using assms(2) by (simp add: word_less_nat_alt)
  moreover have "length (buffer b) = 2048" using assms(1) by (simp add: buf_ok_def sectors_length)
  ultimately show ?thesis using assms u buffer_slice [OF assms(1), of len]
    by (simp add: EXT2_BUFFER_READ_def EXT_SIMPLE_BUFFERED_READ_def buf_ok_def EXT2_LBA_def)
qed

lemma read_crossing:
  assumes ok: "buf_ok disk b" and x: "2048 \<le> unat (pointer b) + len" "unat (pointer b) + len < 2048 + 512"
    and room: "unat (buf_lba b) + unat (lba_off b) + 12 < 2 ^ 48"
  shows "\<exists>b'. EXT2_BUFFER_READ rd len b = Inr (stream disk (buf_lba b) (buf_pos b) len, b') \<and>
    buf_ok disk b' \<and> buf_lba b' = buf_lba b \<and> buf_pos b' = buf_pos b + len"
proof -
  have p: "unat (pointer b) < 2048" using ok by (simp add: buf_ok_def)
  let ?part = "2048 - unat (pointer b)"
  define r where "r = len - ?part"
  have l: "len = ?part + r" "r < 512" using p x by (auto simp: r_def)
  have len: "len < 4096" using x by simp
  have le: "\<not> len < ?part" using x by simp
  have up: "unat (pointer b + of_nat len) = unat (pointer b) + len"
    using p len by (simp add: unat_word_ariths unat_of_nat)
  have nlt: "\<not> pointer b + of_nat len < EXT2_BUFF_CAP" using x up by (simp add: word_less_nat_alt)
  have upart: "unat (2048 - pointer b) = ?part"
    using p by (simp add: unat_sub word_le_nat_alt)
  have lb: "length (buffer b) = 2048" using ok by (simp add: buf_ok_def sectors_length)
  let ?b1 = "b\<lparr>pointer := pointer b + of_nat ?part\<rparr>"
  have first: "EXT_SIMPLE_BUFFERED_READ ?part b =
      Inr (stream disk (buf_lba b) (buf_pos b) ?part, ?b1)"
    using p lb buffer_slice [OF ok, of ?part] by (simp add: EXT_SIMPLE_BUFFERED_READ_def)
  have loop: "read_loop rd 0 r [] ?b1 = Inr (r, [], ?b1)"
    using l(2) by (subst read_loop.simps) simp
  define b2 where "b2 = EXT2_REFRESH rd (b\<lparr>pointer := 0\<rparr>)"
  note rf = refresh_stream [of "b\<lparr>pointer := 0\<rparr>" 0]
  have b2: "buf_ok disk b2" "buf_lba b2 = buf_lba b" "unat (lba_off b2) = unat (lba_off b) + 4" "pointer b2 = 0"
    using rf room by (simp_all add: b2_def buf_ok_def EXT2_LBA_def)
  have lb2: "length (buffer b2) = 2048" using b2(1) by (simp add: buf_ok_def sectors_length)
  have pos2: "buf_pos b2 = buf_pos b + ?part" using b2 p by (simp add: buf_pos_def)
  define b3 where "b3 = b2\<lparr>pointer := of_nat r\<rparr>"
  have last: "EXT_SIMPLE_BUFFERED_READ r b2 = Inr (stream disk (buf_lba b) (buf_pos b2) r, b3)"
    using l(2) lb2 b2 buffer_slice [OF b2(1), of r] by (simp add: EXT_SIMPLE_BUFFERED_READ_def b3_def)
  have u3: "unat (of_nat r :: u32) = r" using l(2) by (intro unat_of_nat32) simp
  have "EXT2_BUFFER_READ rd len b = Inr (stream disk (buf_lba b) (buf_pos b) ?part @ [] @
      stream disk (buf_lba b) (buf_pos b2) r, b3)"
    using nlt first loop last le by (simp add: r_def [symmetric] EXT2_BUFFER_READ_def Let_def upart b2_def [symmetric])
  also have "stream disk (buf_lba b) (buf_pos b) ?part @ [] @ stream disk (buf_lba b) (buf_pos b2) r =
      stream disk (buf_lba b) (buf_pos b) len"
    using stream_append [of disk "buf_lba b" "buf_pos b" ?part r] l(1) pos2 by simp
  finally show ?thesis
    using b2 u3 l pos2 p by (intro exI [of _ b3]) (simp add: b3_def buf_ok_def EXT2_LBA_def buf_pos_def)
qed

lemma read_next:
  assumes "buf_ok disk b" "unat (pointer b) + len < 2048 + 512" "unat (buf_lba b) + unat (lba_off b) + 12 < 2 ^ 48"
  shows "\<exists>b'. EXT2_BUFFER_READ rd len b = Inr (stream disk (buf_lba b) (buf_pos b) len, b') \<and>
    buf_ok disk b' \<and> buf_lba b' = buf_lba b \<and> buf_pos b' = buf_pos b + len"
  using assms read_within [of b len] read_crossing [of b len]
  by (cases "unat (pointer b) + len < 2048") (fastforce simp: buf_pos_def)+

lemma read_too_long:
  assumes ok: "buf_ok disk b" and x: "2048 + 512 \<le> unat (pointer b) + len" "unat (pointer b) + len < 4096"
  shows "EXT2_BUFFER_READ rd len b = Inl OutOfBounds"
proof -
  have p: "unat (pointer b) < 2048" using ok by (simp add: buf_ok_def)
  let ?part = "2048 - unat (pointer b)"
  have up: "unat (pointer b + of_nat len) = unat (pointer b) + len"
    using p x by (simp add: unat_word_ariths unat_of_nat)
  have nlt: "\<not> pointer b + of_nat len < EXT2_BUFF_CAP" using x up by (simp add: word_less_nat_alt)
  have upart: "unat (2048 - pointer b) = ?part" using p by (simp add: unat_sub word_le_nat_alt)
  have "length (buffer b) = 2048" using ok by (simp add: buf_ok_def sectors_length)
  then have first: "\<exists>d b1. EXT_SIMPLE_BUFFERED_READ ?part b = Inr (d, b1)"
    using p by (simp add: EXT_SIMPLE_BUFFERED_READ_def)
  have r: "512 \<le> len - ?part" "len - ?part < 2048" using x p by auto
  have "0 < (len - ?part) div 512" using r(1) by (simp add: div_greater_zero_iff)
  then have loop: "read_loop rd 0 (len - ?part) [] b1 = Inl OutOfBounds" for b1
    using r by (subst read_loop.simps) simp
  show ?thesis using nlt first loop by (auto simp: EXT2_BUFFER_READ_def Let_def upart)
qed

lemma skip_within:
  assumes "buf_ok disk b" "unat (pointer b) + n < 2048"
  shows "EXT2_BUFFER_SKIP rd (int n) b = b\<lparr>pointer := pointer b + of_nat n\<rparr>"
    "buf_ok disk (b\<lparr>pointer := pointer b + of_nat n\<rparr>)" "unat (pointer b + of_nat n) = unat (pointer b) + n"
proof -
  show u: "unat (pointer b + of_nat n) = unat (pointer b) + n"
    using assms unat_pointer_add [of "pointer b" n] by (simp add: buf_ok_def)
  then have "pointer b + of_nat n < EXT2_BUFF_CAP" using assms(2) by (simp add: word_less_nat_alt)
  then show "EXT2_BUFFER_SKIP rd (int n) b = b\<lparr>pointer := pointer b + of_nat n\<rparr>"
    by (simp add: EXT2_BUFFER_SKIP_def)
  show "buf_ok disk (b\<lparr>pointer := pointer b + of_nat n\<rparr>)"
    using assms u by (simp add: buf_ok_def EXT2_LBA_def)
qed

end

section \<open>Directory blocks\<close>

text \<open>A directory as a list of entries, and the bytes that represent it: the entries one after
  the other, each padded to its record length. Nothing marks the end: the record length of the
  last entry reaches to the end of the block.\<close>

record dir_entry =
  de_inode :: u32
  de_name :: "u8 list"
  de_type :: u8
  de_pad :: "u8 list"

definition entry_len :: "dir_entry \<Rightarrow> nat" where
  "entry_len e = 8 + length (de_name e) + length (de_pad e)"

definition entry_head :: "dir_entry \<Rightarrow> u8 list" where
  "entry_head e = le_bytes 4 (unat (de_inode e)) @ le_bytes 2 (entry_len e) @
     [of_nat (length (de_name e)), de_type e]"

definition entry_bytes :: "dir_entry \<Rightarrow> u8 list" where
  "entry_bytes e = entry_head e @ de_name e @ de_pad e"

definition entry_ok :: "dir_entry \<Rightarrow> bool" where
  "entry_ok e \<longleftrightarrow> de_inode e \<noteq> 0 \<and> length (de_name e) < 256 \<and> 0 \<notin> set (de_name e) \<and>
     entry_len e < 65536"

definition dir_bytes :: "dir_entry list \<Rightarrow> u8 list" where
  "dir_bytes es = concat (map entry_bytes es)"

lemma length_entry_head [simp]: "length (entry_head e) = 8"
  by (simp add: entry_head_def)

lemma length_entry_bytes [simp]: "length (entry_bytes e) = entry_len e"
  by (simp add: entry_bytes_def entry_len_def)

lemma field_prefix: "n \<le> length xs \<Longrightarrow> field (xs @ ys) 0 n = field xs 0 n"
  by (simp add: field_def)

lemma field_skip: "length xs \<le> off \<Longrightarrow> field (xs @ ys) off n = field ys (off - length xs) n"
  by (simp add: field_def)

lemma decode_head:
  assumes "entry_ok e"
  shows "dir_inode (decode_dir (entry_head e)) = de_inode e"
    "unat (recLen (decode_dir (entry_head e))) = entry_len e"
    "unat (nameLen (decode_dir (entry_head e))) = length (de_name e)"
proof -
  have n: "length (de_name e) < 256" "entry_len e < 65536" using assms by (simp_all add: entry_ok_def)
  have i: "unat (de_inode e) < 4294967296" by (rule unat_u32_less)
  have l2: "le_nat (le_bytes 2 (entry_len e)) = entry_len e" using n(2) by (simp add: le_nat_le_bytes)
  have "field (entry_head e) 0 4 = unat (de_inode e)"
    using i by (simp add: entry_head_def field_def le_nat_le_bytes)
  then show "dir_inode (decode_dir (entry_head e)) = de_inode e" by (simp add: decode_dir_def)
  have "field (entry_head e) 4 2 = entry_len e"
    by (simp add: entry_head_def field_def l2)
  then show "unat (recLen (decode_dir (entry_head e))) = entry_len e"
    using n(2) by (simp add: decode_dir_def unat_of_nat)
  have "field (entry_head e) 6 1 = length (de_name e)"
    using n by (simp add: entry_head_def field_def)
  then show "unat (nameLen (decode_dir (entry_head e))) = length (de_name e)"
    using n by (simp add: decode_dir_def)
qed

lemma same_name_cstring:
  assumes "cstring m a target" "0 \<notin> set xs"
  shows "same_name m a xs \<longleftrightarrow> xs = target"
proof
  assume "same_name m a xs"
  then have "cstring m a xs" using assms(2) by (simp add: same_name_def cstring_def)
  then show "xs = target" using assms(1) by (rule cstring_unique)
next
  assume "xs = target"
  then show "same_name m a xs" using assms(1) by (simp add: same_name_def cstring_def)
qed

lemma stream_split:
  "stream disk lba i (length xs + length ys) = xs @ ys \<Longrightarrow>
   stream disk lba i (length xs) = xs \<and> stream disk lba (i + length xs) (length ys) = ys"
  using stream_append [of disk lba i "length xs" "length ys"] by (simp add: append_eq_append_conv)

context sector_reader
begin

lemma entry_stream:
  assumes "stream disk lba i (entry_len e) = entry_bytes e"
  shows "stream disk lba i 8 = entry_head e" "stream disk lba (i + 8) (length (de_name e)) = de_name e"
proof -
  have "stream disk lba i (length (entry_head e) + length (de_name e @ de_pad e)) = entry_head e @ (de_name e @ de_pad e)"
    using assms by (simp add: entry_bytes_def entry_len_def add.assoc)
  from stream_split [OF this] show "stream disk lba i 8 = entry_head e"
    "stream disk lba (i + 8) (length (de_name e)) = de_name e"
    using stream_split [of disk lba "i + 8" "de_name e" "de_pad e"] by simp_all
qed

lemma dir_next_entry:
  assumes ok: "buf_ok disk b" and e: "entry_ok e"
    and st: "stream disk (buf_lba b) (buf_pos b) (entry_len e) = entry_bytes e"
    and fit: "unat (pointer b) + entry_len e < 2048"
  shows "\<exists>b'. dir_next rd b = Inr (Some (decode_dir (entry_head e), de_name e, b')) \<and>
    buf_ok disk b' \<and> buf_lba b' = buf_lba b \<and> lba_off b' = lba_off b \<and>
    unat (pointer b') = unat (pointer b) + entry_len e"
proof -
  note es = entry_stream [OF st]
  obtain b1 where b1: "EXT2_BUFFER_READ rd 8 b = Inr (entry_head e, b1)" "buf_ok disk b1"
      "buf_lba b1 = buf_lba b" "lba_off b1 = lba_off b" "unat (pointer b1) = unat (pointer b) + 8"
    using read_within [OF ok, of 8] fit es(1) by (auto simp: entry_len_def)
  have p1: "buf_pos b1 = buf_pos b + 8" using b1 by (simp add: buf_pos_def)
  obtain b2 where b2: "EXT2_BUFFER_READ rd (length (de_name e)) b1 = Inr (de_name e, b2)" "buf_ok disk b2"
      "buf_lba b2 = buf_lba b" "lba_off b2 = lba_off b"
      "unat (pointer b2) = unat (pointer b) + 8 + length (de_name e)"
    using read_within [OF b1(2), of "length (de_name e)"] fit es(2) b1(3-5) p1 by (auto simp: entry_len_def)
  have sk: "int (entry_len e) - int (length (de_name e)) - 8 = int (length (de_pad e))" by (simp add: entry_len_def)
  have f3: "unat (pointer b2) + length (de_pad e) < 2048" using b2(5) fit by (simp add: entry_len_def)
  note k = skip_within [OF b2(2) f3]
  have "de_inode e \<noteq> 0" using e by (simp add: entry_ok_def)
  then have "dir_next rd b = Inr (Some (decode_dir (entry_head e), de_name e, b2\<lparr>pointer := pointer b2 + of_nat (length (de_pad e))\<rparr>))"
    using b1(1) b2(1) k(1) sk decode_head [OF e] by (simp add: dir_next_def Let_def)
  moreover have "unat (pointer b2 + of_nat (length (de_pad e))) = unat (pointer b) + entry_len e"
    using k(3) b2(5) by (simp add: entry_len_def)
  ultimately show ?thesis using k(2) b2(3,4) by simp
qed

text \<open>An entry that only starts in the buffer is still read completely; where the skip behind it
  ends is not stated.\<close>

lemma dir_next_start:
  assumes ok: "buf_ok disk b" and e: "entry_ok e"
    and st: "stream disk (buf_lba b) (buf_pos b) (entry_len e) = entry_bytes e"
    and room: "unat (buf_lba b) + unat (lba_off b) + 16 < 2 ^ 48"
  shows "\<exists>b'. dir_next rd b = Inr (Some (decode_dir (entry_head e), de_name e, b'))"
proof -
  note es = entry_stream [OF st]
  have p: "unat (pointer b) < 2048" using ok by (simp add: buf_ok_def)
  have n: "length (de_name e) < 256" "de_inode e \<noteq> 0" using e by (simp_all add: entry_ok_def)
  obtain b1 where b1: "EXT2_BUFFER_READ rd 8 b = Inr (entry_head e, b1)" "buf_ok disk b1"
      "buf_lba b1 = buf_lba b" "buf_pos b1 = buf_pos b + 8"
    using read_next [OF ok, of 8] p room es(1) by auto
  have "512 * unat (lba_off b1) + unat (pointer b1) = 512 * unat (lba_off b) + unat (pointer b) + 8" "unat (pointer b1) < 2048"
    using b1(2,4) by (simp_all add: buf_pos_def buf_ok_def)
  then have "unat (lba_off b1) \<le> unat (lba_off b) + 4" "unat (pointer b1) + length (de_name e) < 2048 + 512"
    using p n(1) by linarith+
  then obtain b2 where "EXT2_BUFFER_READ rd (length (de_name e)) b1 = Inr (de_name e, b2)"
    using read_next [OF b1(2), of "length (de_name e)"] room es(2) b1(3,4) by auto
  then show ?thesis using b1(1) n(2) decode_head [OF e] by (simp add: dir_next_def Let_def)
qed

lemma dir_next_end:
  assumes ok: "buf_ok disk b" and st: "stream disk (buf_lba b) (buf_pos b) 4 = replicate 4 0"
    and room: "unat (buf_lba b) + unat (lba_off b) + 12 < 2 ^ 48"
  shows "dir_next rd b = Inr None"
proof -
  have "unat (pointer b) < 2048" using ok by (simp add: buf_ok_def)
  then obtain b1 where b1: "EXT2_BUFFER_READ rd 8 b = Inr (stream disk (buf_lba b) (buf_pos b) 8, b1)"
    using read_next [OF ok _ room, of 8] by auto
  have "stream disk (buf_lba b) (buf_pos b) 8 = replicate 4 0 @ stream disk (buf_lba b) (buf_pos b + 4) 4"
    using stream_append [of disk "buf_lba b" "buf_pos b" 4 4] st by simp
  then have "field (stream disk (buf_lba b) (buf_pos b) 8) 0 4 = 0" by (simp add: field_def eval_nat_numeral)
  then show ?thesis using b1 by (simp add: dir_next_def decode_dir_def)
qed

text \<open>The loop passes the entries of other names that end before the buffer does.\<close>

lemma find_loop_passes:
  assumes "buf_ok disk b" and "list_all entry_ok xs" and "cstring m name target"
    and "stream disk (buf_lba b) (buf_pos b) (length (dir_bytes xs)) = dir_bytes xs"
    and "unat (pointer b) + length (dir_bytes xs) < 2048" and "\<forall>x \<in> set xs. de_name x \<noteq> target"
  shows "\<exists>b'. find_loop rd m name b = find_loop rd m name b' \<and> buf_ok disk b' \<and> buf_lba b' = buf_lba b \<and>
    lba_off b' = lba_off b \<and> buf_pos b' = buf_pos b + length (dir_bytes xs)"
  using assms
proof (induction xs arbitrary: b)
  case Nil
  then show ?case by (auto simp: dir_bytes_def)
next
  case (Cons e es)
  have e: "entry_ok e" using Cons.prems(2) by simp
  have split: "dir_bytes (e # es) = entry_bytes e @ dir_bytes es" by (simp add: dir_bytes_def)
  have st: "stream disk (buf_lba b) (buf_pos b) (entry_len e) = entry_bytes e"
      "stream disk (buf_lba b) (buf_pos b + entry_len e) (length (dir_bytes es)) = dir_bytes es"
    using Cons.prems(4) stream_split [of disk "buf_lba b" "buf_pos b" "entry_bytes e" "dir_bytes es"]
    by (simp_all add: split)
  have fit: "unat (pointer b) + entry_len e + length (dir_bytes es) < 2048" using Cons.prems(5) by (simp add: split)
  obtain b' where b': "dir_next rd b = Inr (Some (decode_dir (entry_head e), de_name e, b'))" "buf_ok disk b'"
      "buf_lba b' = buf_lba b" "lba_off b' = lba_off b" "unat (pointer b') = unat (pointer b) + entry_len e"
    using dir_next_entry [OF Cons.prems(1) e st(1)] fit by auto
  have "\<not> same_name m name (de_name e)"
    using same_name_cstring [OF Cons.prems(3)] e Cons.prems(6) by (simp add: entry_ok_def)
  then have step: "find_loop rd m name b = find_loop rd m name b'"
    by (subst find_loop.simps) (simp add: b'(1))
  have "\<exists>b''. find_loop rd m name b' = find_loop rd m name b'' \<and> buf_ok disk b'' \<and> buf_lba b'' = buf_lba b' \<and>
      lba_off b'' = lba_off b' \<and> buf_pos b'' = buf_pos b' + length (dir_bytes es)"
    using Cons.prems(2,6) st(2) fit b' by (intro Cons.IH [OF b'(2) _ Cons.prems(3)]) (simp_all add: buf_pos_def add.assoc)
  then show ?case using step b'(3-5) by (auto simp: buf_pos_def split)
qed

lemma find_loop_found:
  assumes ok: "buf_ok disk b" and e: "entry_ok e" "de_name e = target" and nm: "cstring m name target"
    and st: "stream disk (buf_lba b) (buf_pos b) (entry_len e) = entry_bytes e"
    and room: "unat (buf_lba b) + unat (lba_off b) + 16 < 2 ^ 48"
  shows "find_loop rd m name b = Some (Inr (ucast (de_inode e)))"
proof -
  have "same_name m name (de_name e)" using same_name_cstring [OF nm] e by (simp add: entry_ok_def)
  then show ?thesis using dir_next_start [OF ok e(1) st room] decode_head(1) [OF e(1)]
    by (subst find_loop.simps) auto
qed

end

section \<open>File content\<close>

definition block_bytes :: "(u64 \<Rightarrow> u8 list) \<Rightarrow> 'a kext2_scheme \<Rightarrow> u32 \<Rightarrow> u8 list" where
  "block_bytes disk s p = sectors disk (block_lba s p) (nat (blocksizelba s))"

definition file_bytes :: "(u64 \<Rightarrow> u8 list) \<Rightarrow> 'a kext2_scheme \<Rightarrow> u32 list \<Rightarrow> u8 list" where
  "file_bytes disk s ps = concat (map (block_bytes disk s) ps)"

context sector_reader
begin

lemma sectors_prefix: "j \<le> 512 * k \<Longrightarrow> k \<le> n \<Longrightarrow> take j (sectors disk l k) = take j (sectors disk l n)"
proof -
  assume "j \<le> 512 * k" "k \<le> n"
  then have "sectors disk l n = sectors disk l k @ concat (map (\<lambda>i. disk (l + of_nat i)) [k..<n])"
    using upt_add_eq_append [of 0 k "n - k"] by (simp add: sectors_def)
  then show ?thesis using \<open>j \<le> 512 * k\<close> sectors_length [of l k] by simp
qed

lemma fread_prefix:
  assumes "0 < n" "n \<le> 512 * bl" "0 < bl" "bl \<le> 16" "unat lba < 2 ^ 48"
  shows "FREAD rd lba (int n) = Some (take n (sectors disk lba bl))"
proof -
  let ?k = "(n + 511) div 512"
  have k: "0 < ?k" "?k \<le> bl" "n \<le> 512 * ?k" using assms(1,2) by auto
  have e: "(of_int ((int n + 511) div 512) :: u32) = of_nat ?k"
    by (metis of_int_of_nat_eq of_nat_add of_nat_numeral zdiv_int)
  have u: "unat (of_nat ?k :: u32) = ?k" using k(2) assms(4) by (intro unat_of_nat32) simp
  have "rd lba (of_nat ?k) = Some (sectors disk lba ?k)"
    using rd_small [of "of_nat ?k" lba] k assms(4,5) u by simp
  then show ?thesis using sectors_prefix [OF k(3,2)] by (simp add: FREAD_def e)
qed

lemma block_step:
  assumes bl: "blocksize s = int (512 * bl)" "blocksizelba s = int bl" "0 < bl" "bl \<le> 16"
    and p: "p \<noteq> 0" "unat (block_lba s p) < 2 ^ 48"
  shows "read_block rd s p (m, ptr, rem) = (store_bytes m ptr (take (unat rem) (block_bytes disk s p)),
    ptr + of_nat (512 * bl), rem - of_nat (512 * bl))"
proof -
  let ?B = "512 * bl"
  let ?w = "of_int (blocksize s) :: u64"
  have w: "?w = of_nat ?B" by (simp add: bl(1))
  have B: "?B \<le> 8192" using bl(4) by simp
  have uB: "unat ?w = ?B" unfolding w using B by (intro unat_of_nat64) simp
  have lb: "length (block_bytes disk s p) = ?B" by (simp add: block_bytes_def bl sectors_length)
  define n where "n = min (unat rem) ?B"
  have n: "n \<le> ?B" by (simp add: n_def)
  have mn: "(if rem < ?w then rem else ?w) = of_nat n"
    using uB w by (auto simp: n_def word_less_nat_alt min_def)
  have li: "long_to_int (of_nat n) = int n"
    using n B long_to_int_small [of "of_nat n"] by simp
  have tk: "take (unat rem) (block_bytes disk s p) = take n (block_bytes disk s p)"
    using lb by (simp add: n_def min_def)
  have "fread_to rd (block_lba s p) ptr (int n) m = store_bytes m ptr (take n (block_bytes disk s p))"
  proof (cases "n = 0")
    case True
    then show ?thesis by (simp add: fread_to_def FREAD_def split: option.split)
  next
    case False
    then show ?thesis using fread_prefix [OF _ n bl(3,4) p(2)] by (simp add: fread_to_def block_bytes_def bl)
  qed
  then show ?thesis by (simp only: read_block_def case_prod_conv Let_def mn li tk) (simp add: w)
qed

text \<open>While a whole block is wanted, whole blocks are copied.\<close>

lemma read_blocks_full:
  assumes bl: "blocksize s = int (512 * bl)" "blocksizelba s = int bl" "0 < bl" "bl \<le> 16"
  shows "list_all (\<lambda>p. p \<noteq> 0 \<and> unat (block_lba s p) < 2 ^ 48) ps \<Longrightarrow> length ps * (512 * bl) \<le> unat rem \<Longrightarrow>
    read_blocks rd s (ps @ zs) (m, ptr, rem) = read_blocks rd s zs (store_bytes m ptr (file_bytes disk s ps),
      ptr + of_nat (length ps * (512 * bl)), rem - of_nat (length ps * (512 * bl)))"
proof (induction ps arbitrary: m ptr rem)
  case Nil
  then show ?case by (simp add: file_bytes_def)
next
  case (Cons p ps)
  let ?B = "512 * bl"
  have lb: "length (block_bytes disk s p) = ?B" by (simp add: block_bytes_def bl sectors_length)
  have uB: "unat (of_nat ?B :: u64) = ?B" using bl(4) by (intro unat_of_nat64) simp
  have ur: "unat (rem - of_nat ?B) = unat rem - ?B"
    using Cons.prems(2) uB by (simp add: unat_sub word_le_nat_alt)
  have "read_block rd s p (m, ptr, rem) = (store_bytes m ptr (block_bytes disk s p), ptr + of_nat ?B, rem - of_nat ?B)"
    using block_step [OF bl, of p m ptr rem] Cons.prems lb by simp
  then have "read_blocks rd s ((p # ps) @ zs) (m, ptr, rem) =
      read_blocks rd s (ps @ zs) (store_bytes m ptr (block_bytes disk s p), ptr + of_nat ?B, rem - of_nat ?B)"
    using Cons.prems(1) by simp
  also have "\<dots> = read_blocks rd s zs (store_bytes (store_bytes m ptr (block_bytes disk s p)) (ptr + of_nat ?B) (file_bytes disk s ps),
      ptr + of_nat ?B + of_nat (length ps * ?B), rem - of_nat ?B - of_nat (length ps * ?B))"
    using Cons.prems ur by (intro Cons.IH) simp_all
  finally show ?case by (simp add: file_bytes_def store_bytes_append lb algebra_simps)
qed

lemma length_file_bytes: "blocksizelba s = int bl \<Longrightarrow> length (file_bytes disk s qs) = length qs * (512 * bl)"
  by (induction qs) (simp_all add: file_bytes_def block_bytes_def sectors_length)

text \<open>
  The bytes wanted are copied; the counter then wraps, and the blocks behind the one it ended in
  are copied in full.
\<close>

lemma read_blocks_file:
  assumes bl: "blocksize s = int (512 * bl)" "blocksizelba s = int bl" "0 < bl" "bl \<le> 16"
    and ps: "list_all (\<lambda>p. p \<noteq> 0 \<and> unat (block_lba s p) < 2 ^ 48) ps" "length ps \<le> 12"
    and zs: "zs = [] \<or> hd zs = 0" and over: "over = (unat rem div (512 * bl) + 1) * (512 * bl)"
  shows "\<exists>ptr' rem'. read_blocks rd s (ps @ zs) (m, ptr, rem) = (zs \<noteq> [],
    store_bytes (store_bytes m ptr (take (unat rem) (file_bytes disk s ps))) (ptr + of_nat over)
      (drop over (file_bytes disk s ps)), ptr', rem')"
proof -
  let ?B = "512 * bl" and ?F = "file_bytes disk s"
  define q where "q = unat rem div ?B"
  note fl = length_file_bytes [OF bl(2)]
  have fa: "?F (xs @ ys) = ?F xs @ ?F ys" for xs ys by (simp add: file_bytes_def)
  have z: "read_blocks rd s zs st = (zs \<noteq> [], st)" for st using zs by (cases zs) auto
  have qB: "q * ?B \<le> unat rem" "unat rem < q * ?B + ?B"
    using bl(3) dividend_less_div_times [of ?B "unat rem"] by (simp_all add: q_def)
  show ?thesis
  proof (cases "length ps \<le> q")
    case True
    then have q: "length ps * ?B \<le> q * ?B" by (rule mult_le_mono1)
    have le: "length ps * ?B \<le> unat rem" using q qB(1) by (rule order_trans)
    have ov: "length ps * ?B \<le> over" unfolding over q_def [symmetric] add_mult_distrib using q by (rule trans_le_add1)
    then show ?thesis using read_blocks_full [OF bl ps(1) le, of zs m ptr] fl [of ps] le by (simp add: z)
  next
    case False
    then obtain xs p ys where x: "ps = xs @ p # ys" "length xs = q"
      by (metis append_take_drop_id Cons_nth_drop_Suc length_take min.absorb4 not_le_imp_less)
    have ok: "list_all (\<lambda>p. p \<noteq> 0 \<and> unat (block_lba s p) < 2 ^ 48) xs" "p \<noteq> 0" "unat (block_lba s p) < 2 ^ 48"
      "list_all (\<lambda>p. p \<noteq> 0 \<and> unat (block_lba s p) < 2 ^ 48) ys"
      using ps(1) x(1) by simp_all
    have ov: "over = q * ?B + ?B" by (simp add: over q_def)
    define r where "r = unat rem - q * ?B"
    have r: "unat rem = q * ?B + r" "r < ?B" using qB by (auto simp: r_def)
    have qs: "q * ?B < 2 ^ 63"
    proof -
      have "q \<le> 12" using x ps(2) by simp
      then have "q * ?B \<le> 12 * 8192" using bl(4) by (intro mult_le_mono) simp_all
      then show ?thesis by simp
    qed
    let ?r = "rem - of_nat (q * ?B)"
    have uq: "unat (of_nat (q * ?B) :: u64) = q * ?B" using qs by (intro unat_of_nat64) simp
    have ur: "unat ?r = r" using uq r(1) by (simp add: unat_sub word_le_nat_alt del: of_nat_mult of_nat_add)
    have uB: "unat (of_nat ?B :: u64) = ?B" using bl(4) by (intro unat_of_nat64) simp
    have "unat (?r - of_nat ?B) = 2 ^ 64 + r - ?B"
      using ur uB r(2) by (simp add: unat_sub_if_size word_size del: of_nat_mult)
    moreover have "length ys * ?B \<le> 12 * 8192" using x ps(2) bl(4) by (intro mult_le_mono) simp_all
    moreover have "x \<le> y" if "y = 2 ^ 64 + r - ?B" "x \<le> 12 * 8192" for x y using that bl(4) by simp
    ultimately have big: "length ys * ?B \<le> unat (?r - of_nat ?B)" by blast
    have "read_blocks rd s (ps @ zs) (m, ptr, rem) =
        read_blocks rd s (p # ys @ zs) (store_bytes m ptr (?F xs), ptr + of_nat (q * ?B), ?r)"
      using read_blocks_full [OF bl ok(1), of rem "p # ys @ zs" m ptr] qB(1) x by simp
    also have "\<dots> = read_blocks rd s (ys @ zs)
        (store_bytes (store_bytes m ptr (?F xs)) (ptr + of_nat (q * ?B)) (take r (block_bytes disk s p)),
         ptr + of_nat (q * ?B) + of_nat ?B, ?r - of_nat ?B)"
      using block_step [OF bl ok(2,3), of "store_bytes m ptr (?F xs)" "ptr + of_nat (q * ?B)" ?r] ok(2)
      by (simp add: ur del: of_nat_mult)
    also have "store_bytes (store_bytes m ptr (?F xs)) (ptr + of_nat (q * ?B)) (take r (block_bytes disk s p)) =
        store_bytes m ptr (?F xs @ take r (block_bytes disk s p))"
      by (simp add: store_bytes_append fl x(2))
    also have "?F xs @ take r (block_bytes disk s p) = take (unat rem) (?F ps)"
      using r fl [of xs] fl [of "[p]"] by (simp add: x(1) fa x(2)) (simp add: file_bytes_def)
    also have "ptr + of_nat (q * ?B) + of_nat ?B = ptr + of_nat over"
      by (simp add: ov add.assoc)
    finally have "read_blocks rd s (ps @ zs) (m, ptr, rem) =
        read_blocks rd s (ys @ zs) (store_bytes m ptr (take (unat rem) (?F ps)), ptr + of_nat over, ?r - of_nat ?B)" .
    moreover have "drop over (?F ps) = ?F ys"
      using fl [of xs] fl [of "[p]"] by (simp add: x fa ov) (simp add: file_bytes_def)
    ultimately show ?thesis using read_blocks_full [OF bl ok(4) big, of zs] by (simp add: z)
  qed
qed

end

section \<open>Properties\<close>

lemma whole_blocks: "0 < B \<Longrightarrow> n * B < l + B \<Longrightarrow> n * B \<le> (l div B + 1) * (B :: nat)"
proof -
  assume B: "0 < B" "n * B < l + B"
  have "l < (l div B + 1) * B" using B(1) dividend_less_div_times [of B l] by simp
  then have "n * B < (l div B + 2) * B" using B(2) by simp
  then have "n < l div B + 2" using B(1) by (simp only: mult_less_cancel2)
  then show ?thesis by (intro mult_le_mono1) simp
qed

lemma image_disk_nth:
  "unat lba + k div 512 < 2 ^ 64 \<Longrightarrow>
   image_disk img (lba + of_nat (k div 512)) ! (k mod 512) = img (512 * unat lba + k)"
  using unat_add_of_nat [of lba "k div 512"] by (simp add: image_disk_def add.commute)

lemma image_stream:
  assumes "unat lba + (i + n) div 512 < 2 ^ 64"
  shows "stream (image_disk img) lba i n = map (\<lambda>k. img (512 * unat lba + (i + k))) [0..<n]"
proof -
  have "unat lba + (i + k) div 512 < 2 ^ 64" if "k < n" for k
    using that assms div_le_mono [of "i + k" "i + n" 512] by linarith
  then show ?thesis by (simp add: stream_def image_disk_nth)
qed

abbreviation (input) image_rd :: "(nat \<Rightarrow> u8) \<Rightarrow> reader" where
  "image_rd img \<equiv> ahci_rd ready_device (image_disk img)"

text \<open>
  C5: \<open>EXT2_BUFFER_READ\<close> refines reading from a byte stream as long as the request ends less than
  one sector behind the buffer's end: on a disk image served by the AHCI driver, a buffer that is
  in step with the disk then yields the next \<open>len\<close> bytes, stays in step and advances by \<open>len\<close>. A
  request that ends between one and four sectors behind the buffer's end writes outside its
  destination: the loop bound \<open>len/EXT2_BUFF_CAP\<close> is \<open>(len/0x200)*4\<close>, so 2048 bytes are copied
  where fewer are left. The requests of the directory code are at most 255 bytes long and are
  all of the first kind.
\<close>

theorem EXT2_BUFFER_READ_stream:
  assumes ok: "buf_ok (image_disk img) b" and len: "unat (pointer b) + len < 4096"
    and room: "unat (buf_lba b) + unat (lba_off b) + 12 < 2 ^ 48"
  shows "if unat (pointer b) + len < 2048 + 512
    then \<exists>b'. EXT2_BUFFER_READ (image_rd img) len b =
        Inr (map (\<lambda>k. img (512 * unat (buf_lba b) + (buf_pos b + k))) [0..<len], b') \<and>
      buf_ok (image_disk img) b' \<and> buf_lba b' = buf_lba b \<and> buf_pos b' = buf_pos b + len
    else EXT2_BUFFER_READ (image_rd img) len b = Inl OutOfBounds"
proof (cases "unat (pointer b) + len < 2048 + 512")
  case True
  then have "(buf_pos b + len) div 512 \<le> unat (lba_off b) + 5"
    by (simp add: buf_pos_def)
  then have "stream (image_disk img) (buf_lba b) (buf_pos b) len =
      map (\<lambda>k. img (512 * unat (buf_lba b) + (buf_pos b + k))) [0..<len]"
    using room by (intro image_stream) simp
  then show ?thesis using True ahci_disk.read_next [OF ok True room] by simp
next
  case False
  then show ?thesis using ahci_disk.read_too_long [OF ok] len by simp
qed

definition demo_buffer :: EXT2_BUFFER where
  "demo_buffer = \<lparr>buf_lba = 64, lba_off = 0, pointer = 2044, buffer = sectors (image_disk (\<lambda>k. of_nat k)) 64 4\<rparr>"

theorem EXT2_BUFFER_READ_stream_witness:
  "\<exists>b'. EXT2_BUFFER_READ (image_rd (\<lambda>k. of_nat k)) 8 demo_buffer =
     Inr (map (\<lambda>k. of_nat (512 * 64 + (2044 + k))) [0..<8], b') \<and> buf_pos b' = 2052"
proof -
  have "buf_ok (image_disk (\<lambda>k. of_nat k)) demo_buffer"
    by (simp add: buf_ok_def demo_buffer_def EXT2_LBA_def)
  from EXT2_BUFFER_READ_stream [OF this, of 8] show ?thesis
    by (auto simp: demo_buffer_def buf_pos_def)
qed

text \<open>
  \<open>EXT2_BUFFER_SKIP\<close> by \<open>len\<close> bytes advances the position by \<open>len\<close> as long as it stays in
  the buffer; a skip that leaves the buffer ends at offset \<open>2047 - pointer\<close> of the next four
  sectors, which depends on where it started and not on \<open>len\<close>.
\<close>

theorem EXT2_BUFFER_SKIP_position:
  assumes ok: "buf_ok (image_disk img) b" and len: "unat (pointer b) + len < 2 ^ 32"
    and room: "unat (buf_lba b) + unat (lba_off b) + 12 < 2 ^ 48"
  shows "buf_pos (EXT2_BUFFER_SKIP (image_rd img) (int len) b) =
    (if unat (pointer b) + len < 2048 then buf_pos b + len
     else 512 * (unat (lba_off b) + 4) + (2047 - unat (pointer b)))"
proof (cases "unat (pointer b) + len < 2048")
  case True
  then show ?thesis using ahci_disk.skip_within [OF ok True] by (simp add: buf_pos_def)
next
  case False
  have p: "unat (pointer b) < 2048" using ok by (simp add: buf_ok_def)
  have "unat (pointer b + of_nat len) = unat (pointer b) + len"
    using len by (simp add: unat_word_ariths unat_of_nat)
  then have n: "\<not> pointer b + of_nat len < EXT2_BUFF_CAP" using False by (simp add: word_less_nat_alt)
  have "unat (2047 - pointer b) = 2047 - unat (pointer b)" using p by (simp add: unat_sub word_le_nat_alt)
  then show ?thesis
    using n False ahci_disk.refresh_stream(4) [OF room p]
    by (simp add: EXT2_BUFFER_SKIP_def Let_def buf_pos_def)
qed

theorem EXT2_BUFFER_SKIP_position_witness:
  "buf_pos (EXT2_BUFFER_SKIP (image_rd (\<lambda>k. of_nat k)) 100 demo_buffer) = 2051"
proof -
  have "buf_ok (image_disk (\<lambda>k. of_nat k)) demo_buffer"
    by (simp add: buf_ok_def demo_buffer_def EXT2_LBA_def)
  from EXT2_BUFFER_SKIP_position [OF this, of 100] show ?thesis by (simp add: demo_buffer_def)
qed

text \<open>
  C7: \<open>EXT2_READFILE\<close> of a file whose blocks are all direct, for every \<open>len\<close>: the first \<open>len\<close>
  bytes of the file land at the destination. When the file has more blocks than \<open>len\<close> needs,
  the unsigned counter \<open>rem\<close> wraps and every block behind the one that holds byte \<open>len\<close> is
  copied in full to its place behind the destination; no other byte of memory changes. With
  the size in the inode as \<open>len\<close> there are no such blocks.
\<close>

theorem EXT2_READFILE_direct:
  assumes bl: "blocksize s = int (512 * bl)" "blocksizelba s = int bl" "0 < bl" "bl \<le> 16"
    and ptrs: "blockPointers inode = ps @ zs" "length (ps @ zs) = 12"
      "list_all (\<lambda>p. p \<noteq> 0 \<and> unat (block_lba s p) < 2 ^ 48) ps"
      "zs = [] \<or> hd zs = 0" "zs = [] \<longrightarrow> blockPointerIndirect inode = 0"
    and over: "over = (unat len div (512 * bl) + 1) * (512 * bl)"
  shows "EXT2_READFILE (image_rd img) inode data len s =
      Inr (1, s\<lparr>kmem := store_bytes (store_bytes (kmem s) data (take (unat len) (file_bytes (image_disk img) s ps)))
        (data + of_nat over) (drop over (file_bytes (image_disk img) s ps))\<rparr>) \<and>
    (length ps * (512 * bl) < unat len + 512 * bl \<longrightarrow> drop over (file_bytes (image_disk img) s ps) = [])"
proof
  show "EXT2_READFILE (image_rd img) inode data len s =
      Inr (1, s\<lparr>kmem := store_bytes (store_bytes (kmem s) data (take (unat len) (file_bytes (image_disk img) s ps)))
        (data + of_nat over) (drop over (file_bytes (image_disk img) s ps))\<rparr>)"
    using ahci_disk.read_blocks_file [OF bl ptrs(3) _ ptrs(4) over, where m = "kmem s" and ptr = data and img = img] ptrs
    by (cases zs) (auto simp: EXT2_READFILE_def)
  show "length ps * (512 * bl) < unat len + 512 * bl \<longrightarrow> drop over (file_bytes (image_disk img) s ps) = []"
    using whole_blocks [of "512 * bl" "length ps" "unat len"] bl(3) ahci_disk.length_file_bytes [OF bl(2)]
    by (simp add: over)
qed




subsection \<open>Witnesses\<close>

text \<open>A mounted state with 1 KB blocks, the superblock at address 0 and the partition at sector 64.\<close>

definition demo_fs :: "mem \<Rightarrow> kext2" where
  "demo_fs m = \<lparr>kmem = m, malloc_start = 0x270000, malloc_end = 0, ms = 0, me = 0, p3_table = 0x1000,
     p2_table = 0x2000, page_allocator = [], ext2_part = 0x100, ext2_superblock = 0, ext2_blockgroups = 0x200,
     ext2_root = zero_inode\<rparr>"

definition demo_fs_mem :: mem where
  "demo_fs_mem = (\<lambda>_. 0)(0x120 := 64, 0x300 := 97, 0x301 := 98)"

lemma kmem_demo_fs [simp]: "kmem (demo_fs m) = m"
  by (simp add: demo_fs_def)

lemma demo_fs_geometry:
  "blocksize (demo_fs demo_fs_mem) = 1024" "blocksizelba (demo_fs demo_fs_mem) = 2"
  "block_lba (demo_fs demo_fs_mem) p = ucast (p * 2) + 64"
proof -
  have l: "sb_logBlockSize (demo_fs demo_fs_mem) = 0"
    by (simp add: sb_logBlockSize_def demo_fs_def demo_fs_mem_def U32_def bytes_numeral)
  then show "blocksize (demo_fs demo_fs_mem) = 1024" by (simp add: blocksize_def)
  then show "blocksizelba (demo_fs demo_fs_mem) = 2" by (simp add: blocksizelba_def)
  moreover have "part_startLBA (demo_fs demo_fs_mem) = 64"
    by (simp add: part_startLBA_def demo_fs_def demo_fs_mem_def U64_def bytes_numeral)
  ultimately show "block_lba (demo_fs demo_fs_mem) p = ucast (p * 2) + 64" by (simp add: block_lba_def)
qed

theorem EXT2_READFILE_direct_witness:
  "EXT2_READFILE (image_rd (\<lambda>k. of_nat k)) (zero_inode\<lparr>blockPointers := [7, 9, 11, 0, 0, 0, 0, 0, 0, 0, 0, 0]\<rparr>)
     0x5000 1500 (demo_fs demo_fs_mem) =
     Inr (1, (demo_fs demo_fs_mem)\<lparr>kmem := store_bytes (store_bytes demo_fs_mem 0x5000
       (take 1500 (file_bytes (image_disk (\<lambda>k. of_nat k)) (demo_fs demo_fs_mem) [7, 9, 11]))) 0x5800
       (drop 2048 (file_bytes (image_disk (\<lambda>k. of_nat k)) (demo_fs demo_fs_mem) [7, 9, 11]))\<rparr>)"
  using EXT2_READFILE_direct [of "demo_fs demo_fs_mem" 2 "zero_inode\<lparr>blockPointers := [7, 9, 11, 0, 0, 0, 0, 0, 0, 0, 0, 0]\<rparr>"
      "[7, 9, 11]" "[0, 0, 0, 0, 0, 0, 0, 0, 0]" 2048 1500 "\<lambda>k. of_nat k" "0x5000"]
  by (simp add: demo_fs_geometry)



end
