(* ===== verification/Gpt.thy ===== *)
theory Gpt
  imports Ext2
begin

text \<open>
  The partition table reader of \<open>src/src/drivers/gpt/gpt.c\<close>: the header goes to a heap block,
  the entries to another one, and the entries with a non-zero type GUID are counted.
\<close>

section \<open>Definitions\<close>

record GPT_DATA =
  gpt_header :: u64
  gpt_entries :: u64
  nEntries :: int

definition check128 :: "mem \<Rightarrow> u64 \<Rightarrow> bool" where
  "check128 m data =
     (let v = fold (\<lambda>j v. if m (data + of_nat j) \<noteq> 0 then 1 else v) [0..<16] (0 :: int) in v = 0)"

text \<open>\<open>''EFI PART''\<close>\<close>

definition efi_part :: "u8 list" where
  "efi_part = [0x45, 0x46, 0x49, 0x20, 0x50, 0x41, 0x52, 0x54]"

definition count_entries :: "mem \<Rightarrow> u64 \<Rightarrow> int" where
  "count_entries m ent =
     fold (\<lambda>i n. if check128 m (ent + of_nat i * 128) then n else n + 1) [0..<10] 0"

text \<open>
  \<open>GPT_READ\<close>: 0 with \<open>data\<close> untouched when the signature is missing, else 1. The header is
  read through \<open>MemoryPhysical\<close>; the product of the two counts is an \<open>int\<close>.
\<close>

definition GPT_READ :: "reader \<Rightarrow> GPT_DATA \<Rightarrow> 'a kext2_scheme \<Rightarrow> int \<times> GPT_DATA \<times> 'a kext2_scheme" where
  "GPT_READ rd data s =
     (let (header, s) = malloc 0x200 s;
          s = read_heap rd 1 1 (MemoryPhysical header s) s;
          num = sint (U32 (kmem s) (header + 80) * U32 (kmem s) (header + 84));
          (ent, s) = malloc (of_int (int32 (num * 0x80))) s;
          s = read_heap rd (U64 (kmem s) (header + 72)) 4 ent s
      in if load_bytes (kmem s) header 8 \<noteq> efi_part then (0, data, s)
         else (1, \<lparr>gpt_header = header, gpt_entries = ent, nEntries = count_entries (kmem s) ent\<rparr>, s))"

section \<open>Lemmas\<close>

lemma check128_iff: "check128 m a \<longleftrightarrow> load_bytes m a 16 = replicate 16 0"
proof -
  have "fold (\<lambda>j v. if m (a + of_nat j) \<noteq> 0 then 1 else v) [0..<n] (0 :: int) =
      (if \<forall>j < n. m (a + of_nat j) = 0 then 0 else 1)" for n
    by (induction n) (auto simp: less_Suc_eq)
  then have "check128 m a \<longleftrightarrow> (\<forall>j < 16. m (a + of_nat j) = 0)"
    by (simp add: check128_def)
  also have "\<dots> \<longleftrightarrow> load_bytes m a 16 = replicate 16 0"
    by (auto simp: list_eq_iff_nth_eq load_bytes_nth)
  finally show ?thesis .
qed

lemma count_entries_card:
  "count_entries m ent = int (card {i. i < 10 \<and> load_bytes m (ent + of_nat i * 128) 16 \<noteq> replicate 16 0})"
proof -
  let ?P = "\<lambda>i. load_bytes m (ent + of_nat i * 128) 16 \<noteq> replicate 16 0"
  have "fold (\<lambda>i n. if check128 m (ent + of_nat i * 128) then n else n + 1) [0..<k] 0 =
      int (card {i. i < k \<and> ?P i})" for k
  proof (induction k)
    case 0
    then show ?case by simp
  next
    case (Suc k)
    have "{i. i < Suc k \<and> ?P i} = (if ?P k then insert k {i. i < k \<and> ?P i} else {i. i < k \<and> ?P i})"
      by (auto simp: less_Suc_eq)
    then show ?case using Suc by (simp add: check128_iff)
  qed
  then show ?thesis by (simp add: count_entries_def)
qed

section \<open>Properties\<close>

text \<open>
  \<open>GPT_READ\<close> succeeds exactly when the bytes at the header block spell the signature; it
  then reports the number of the first ten entries whose 16-byte type is not all zero, and
  leaves the caller's data alone otherwise.
\<close>

theorem GPT_READ_counts:
  "\<exists>s'. (GPT_READ rd data s = (0, data, s') \<and> load_bytes (kmem s') (malloc_start s) 8 \<noteq> efi_part) \<or>
     (\<exists>ent. GPT_READ rd data s =
        (1, \<lparr>gpt_header = malloc_start s, gpt_entries = ent,
             nEntries = int (card {i. i < 10 \<and> load_bytes (kmem s') (ent + of_nat i * 128) 16 \<noteq> replicate 16 0})\<rparr>, s') \<and>
        load_bytes (kmem s') (malloc_start s) 8 = efi_part)"
  by (auto simp: GPT_READ_def Let_def malloc_def count_entries_card split: prod.splits)

end
