(* ===== verification/KList.thy ===== *)
theory KList
  imports KMalloc
begin

text \<open>
  The containers of \<open>src/src/utils/list\<close>: the singly linked list of \<open>list.c\<close>, whose nodes are
  16-byte heap blocks (\<open>val\<close> at 0, \<open>next\<close> at 8), and the vector of \<open>vector.c\<close>. The loops of the
  list follow pointers in memory and need not end.
\<close>

section \<open>Definitions\<close>

partial_function (option) ListLength_loop :: "mem \<Rightarrow> u64 \<Rightarrow> u32 \<Rightarrow> u32 option" where
  "ListLength_loop m node n =
     (if node \<noteq> 0 then ListLength_loop m (U64 m (node + 8)) (n + 1) else Some n)"

definition ListLength :: "mem \<Rightarrow> u64 \<Rightarrow> u32 option" where
  "ListLength m node = ListLength_loop m node 0"

partial_function (option) last_loop :: "mem \<Rightarrow> u64 \<Rightarrow> u64 option" where
  "last_loop m n = (if U64 m (n + 8) \<noteq> 0 then last_loop m (U64 m (n + 8)) else Some n)"

definition list_last :: "mem \<Rightarrow> u64 \<Rightarrow> u64 option" where
  "list_last m n = (if n = 0 then Some 0 else last_loop m n)"

definition ListAdd :: "u64 \<Rightarrow> u64 \<Rightarrow> 'a kheap_scheme \<Rightarrow> (u64 \<times> 'a kheap_scheme) outcome" where
  "ListAdd first val s =
     (let (n, s) = malloc 16 s;
          s = s\<lparr>kmem := set_U64 (kmem s) (n + 8) 0\<rparr>;
          s = s\<lparr>kmem := set_U64 (kmem s) n val\<rparr>
      in if first = 0 then Inr (n, s)
         else case list_last (kmem s) first of
                None \<Rightarrow> Inl Hangs
              | Some l \<Rightarrow> Inr (first, s\<lparr>kmem := set_U64 (kmem s) (l + 8) n\<rparr>))"

text \<open>The loop of \<open>ListRemove\<close> tests \<open>cur->next\<close> but never moves \<open>cur\<close>.\<close>

partial_function (option) remove_loop :: "u64 \<Rightarrow> u64 \<Rightarrow> mem \<Rightarrow> mem option" where
  "remove_loop cur n m =
     (if U64 m (cur + 8) \<noteq> 0 then
        (if U64 m (cur + 8) = n
         then remove_loop cur n
                (set_U64 (set_U64 m (cur + 8) (U64 m (U64 m (cur + 8) + 8))) (n + 8) 0)
         else remove_loop cur n m)
      else Some m)"

definition ListRemove :: "u64 \<Rightarrow> u64 \<Rightarrow> mem \<Rightarrow> (u64 \<times> mem) outcome" where
  "ListRemove first n m =
     (if n = first then Inr (U64 m (first + 8), m)
      else case remove_loop first n m of None \<Rightarrow> Inl Hangs | Some m' \<Rightarrow> Inr (first, m'))"

record Vector =
  vdata :: u64
  stride :: u32
  vn :: u32
  vcap :: u32

definition VECTOR_GET :: "Vector \<Rightarrow> u32 \<Rightarrow> u64" where
  "VECTOR_GET v n = (if n \<ge> vcap v then 0 else vdata v + ucast (n * stride v))"

definition VECTOR_RESIZE :: "Vector \<Rightarrow> u32 \<Rightarrow> 'a kheap_scheme \<Rightarrow> Vector \<times> 'a kheap_scheme" where
  "VECTOR_RESIZE v n s =
     (let (p, s) = malloc (ucast (stride v * n)) s in (v\<lparr>vcap := n, vdata := p\<rparr>, s))"

definition VECTOR_CHECK_AND_RESIZE :: "Vector \<Rightarrow> u32 \<Rightarrow> 'a kheap_scheme \<Rightarrow> Vector \<times> 'a kheap_scheme" where
  "VECTOR_CHECK_AND_RESIZE v n s =
     (if vcap v \<le> n then
        (let (v, s) = (if 2 * vcap v > n then VECTOR_RESIZE v (2 * vcap v) s else (v, s))
         in VECTOR_RESIZE v n s)
      else (v, s))"

definition VECTOR_OFF :: "Vector \<Rightarrow> u32 \<Rightarrow> u64" where
  "VECTOR_OFF v n = vdata v + ucast (n * stride v)"

definition VECTOR_APPEND :: "Vector \<Rightarrow> u64 \<Rightarrow> 'a kheap_scheme \<Rightarrow> Vector \<times> 'a kheap_scheme" where
  "VECTOR_APPEND v val s =
     (let n = vn v;
          (v, s) = VECTOR_RESIZE v n s;
          s = s\<lparr>kmem := memcpy (kmem s) (VECTOR_OFF v n) val (sint (stride v))\<rparr>
      in (v\<lparr>vn := vn v + 1\<rparr>, s))"

definition VECTOR_PUT :: "Vector \<Rightarrow> u32 \<Rightarrow> u64 \<Rightarrow> 'a kheap_scheme \<Rightarrow> int \<times> 'a kheap_scheme" where
  "VECTOR_PUT v n val s =
     (if n \<ge> vcap v then (0, s)
      else (1, s\<lparr>kmem := memcpy (kmem s) (VECTOR_OFF v n) val (sint (stride v))\<rparr>))"

definition VECTOR_INIT :: "u32 \<Rightarrow> u32 \<Rightarrow> 'a kheap_scheme \<Rightarrow> Vector \<times> 'a kheap_scheme" where
  "VECTOR_INIT n st s =
     (let (p, s) = malloc (ucast (st * n)) s in (\<lparr>vdata = p, stride = st, vn = 0, vcap = n\<rparr>, s))"

section \<open>The list in memory\<close>

text \<open>The nodes of a list, by address; a node has room and does not meet the others.\<close>

fun nodes :: "mem \<Rightarrow> u64 \<Rightarrow> u64 list \<Rightarrow> bool" where
  "nodes m p [] \<longleftrightarrow> p = 0"
| "nodes m p (a # as) \<longleftrightarrow> p = a \<and> a \<noteq> 0 \<and> nodes m (U64 m (a + 8)) as"

fun apart :: "u64 list \<Rightarrow> bool" where
  "apart [] \<longleftrightarrow> True"
| "apart (a # as) \<longleftrightarrow> unat a + 16 \<le> 2 ^ 64 \<and> (\<forall>b \<in> set as. disjoint_blocks a 16 b 16) \<and> apart as"

definition node_vals :: "mem \<Rightarrow> u64 list \<Rightarrow> u64 list" where
  "node_vals m as = map (U64 m) as"

lemma ListLength_loop_nodes:
  "nodes m p as \<Longrightarrow> ListLength_loop m p n = Some (n + of_nat (length as))"
  by (induction as arbitrary: p n) (simp_all add: ListLength_loop.simps [of m] algebra_simps)

lemma last_loop_nodes: "nodes m p as \<Longrightarrow> as \<noteq> [] \<Longrightarrow> last_loop m p = Some (last as)"
proof (induction as arbitrary: p)
  case Nil
  then show ?case by simp
next
  case (Cons a as)
  then show ?case by (cases as) (auto simp: last_loop.simps [of m])
qed

lemma nodes_cong:
  "nodes m p as \<Longrightarrow> (\<And>a. a \<in> set as \<Longrightarrow> U64 m' (a + 8) = U64 m (a + 8)) \<Longrightarrow> nodes m' p as"
  by (induction as arbitrary: p) auto

lemma unat_field8: "unat (a :: u64) + 16 \<le> 2 ^ 64 \<Longrightarrow> unat (a + 8) = unat a + 8"
  by (simp add: unat_word_ariths)

lemma field_apart:
  assumes "disjoint_blocks a 16 b 16"
  shows "disjoint_blocks a 8 b 8" "disjoint_blocks (a + 8) 8 (b + 8) 8" "disjoint_blocks (a + 8) 8 b 8"
    "disjoint_blocks a 8 (b + 8) 8"
  using assms unat_field8 [of a] unat_field8 [of b] by (auto simp: disjoint_blocks_def)

lemma own_fields:
  "unat a + 16 \<le> 2 ^ 64 \<Longrightarrow> disjoint_blocks a 8 (a + 8) 8 \<and> disjoint_blocks (a + 8) 8 a 8"
  by (auto simp: disjoint_blocks_def unat_field8)

text \<open>Linking a further node behind the last one.\<close>

lemma nodes_snoc:
  assumes "nodes m p as" "as \<noteq> []" "apart as" "q \<noteq> 0" "U64 m (q + 8) = 0"
    and "\<forall>a \<in> set as. disjoint_blocks a 16 q 16"
  shows "nodes (set_U64 m (last as + 8) q) p (as @ [q])"
  using assms
proof (induction as arbitrary: p)
  case Nil
  then show ?case by simp
next
  case (Cons a as)
  show ?case
  proof (cases "as = []")
    case True
    then show ?thesis using Cons.prems field_apart(2) [of a q] by (simp add: U64_set_U64_other)
  next
    case False
    then have l: "last as \<in> set as" by simp
    then have "disjoint_blocks (last as + 8) 8 (a + 8) 8"
      using Cons.prems(3) field_apart(2) disjoint_blocks_sym by (metis apart.simps(2))
    then have "U64 (set_U64 m (last as + 8) q) (a + 8) = U64 m (a + 8)" by (rule U64_set_U64_other)
    moreover have "nodes (set_U64 m (last as + 8) q) (U64 m (a + 8)) (as @ [q])"
      using Cons.prems False by (intro Cons.IH) auto
    ultimately show ?thesis using Cons.prems False by simp
  qed
qed

lemma remove_loop_stuck:
  assumes "U64 m (cur + 8) \<noteq> 0" "U64 m (cur + 8) \<noteq> n"
  shows "remove_loop cur n m = None"
proof (rule ccontr)
  assume "remove_loop cur n m \<noteq> None"
  then obtain r where "remove_loop cur n m = Some r" by auto
  then have "U64 m (cur + 8) = 0 \<or> U64 m (cur + 8) = n"
    by (rule remove_loop.raw_induct
        [where P = "\<lambda>cur n m r. U64 m (cur + 8) = 0 \<or> U64 m (cur + 8) = n", rotated])
      (auto split: if_splits)
  with assms show False by simp
qed

lemma new_node:
  assumes q: "unat q + 16 \<le> 2 ^ 64" and m': "m' = set_U64 (set_U64 m (q + 8) 0) q val"
  shows "U64 m' (q + 8) = 0" "U64 m' q = val"
    and "disjoint_blocks a 16 q 16 \<Longrightarrow> U64 m' a = U64 m a \<and> U64 m' (a + 8) = U64 m (a + 8)"
proof -
  note o = own_fields [OF q]
  show "U64 m' (q + 8) = 0" "U64 m' q = val" using o by (simp_all add: m' U64_set_U64_other)
  assume d: "disjoint_blocks a 16 q 16"
  then have "disjoint_blocks q 16 a 16" by (simp add: disjoint_blocks_sym)
  note f = field_apart [OF this]
  show "U64 m' a = U64 m a \<and> U64 m' (a + 8) = U64 m (a + 8)"
    using f by (simp add: m' U64_set_U64_other)
qed

section \<open>Properties\<close>

text \<open>
  C40: \<open>ListAdd\<close> on a well-formed list terminates and appends: the new head leads through the
  old nodes, in order and with their values, to one new heap node that holds \<open>val\<close>.
\<close>

theorem ListAdd_appends:
  fixes s :: "'a kheap_scheme"
  defines "q \<equiv> malloc_start s"
  assumes l: "nodes (kmem s) first as" "apart as"
    and q: "q \<noteq> 0" "unat q + 16 \<le> 2 ^ 64" "\<forall>a \<in> set as. disjoint_blocks a 16 q 16"
  shows "\<exists>s'. ListAdd first val s = Inr (hd (as @ [q]), s') \<and> nodes (kmem s') (hd (as @ [q])) (as @ [q]) \<and>
    node_vals (kmem s') (as @ [q]) = node_vals (kmem s) as @ [val] \<and> malloc_start s' = q + 16"
proof -
  define m' where "m' = set_U64 (set_U64 (kmem s) (q + 8) 0) q val"
  note nn = new_node [OF q(2) m'_def]
  have old: "nodes m' first as" using l(1) nn(3) q(3) by (auto intro: nodes_cong)
  have vals: "node_vals m' as = node_vals (kmem s) as" using nn(3) q(3) by (simp add: node_vals_def)
  have mal: "malloc 16 s = (q, s\<lparr>malloc_start := q + 16\<rparr>)" by (simp add: malloc_def q_def)
  show ?thesis
  proof (cases "as = []")
    case True
    then show ?thesis using l(1) q nn by (simp add: ListAdd_def mal m'_def [symmetric] node_vals_def)
  next
    case False
    let ?m2 = "set_U64 m' (last as + 8) q"
    have hd: "first = hd as" "first \<noteq> 0" using l(1) False by (cases as; simp)+
    have lst: "list_last m' first = Some (last as)"
      using last_loop_nodes [OF old False] hd(2) by (simp add: list_last_def)
    have la: "last as \<in> set as" using False by simp
    have dl: "disjoint_blocks (last as + 8) 8 q 8" using q(3) la field_apart(3) by blast
    have keep: "U64 ?m2 a = U64 m' a" if "a \<in> set as" for a
    proof (cases "a = last as")
      case True
      have "unat a + 16 \<le> 2 ^ 64" using q(3) that by (auto simp: disjoint_blocks_def)
      then show ?thesis using True own_fields by (simp add: U64_set_U64_other)
    next
      case False
      have "apart as \<Longrightarrow> a \<in> set as \<Longrightarrow> b \<in> set as \<Longrightarrow> a \<noteq> b \<Longrightarrow> disjoint_blocks b 16 a 16" for b
        by (induction as) (auto simp: disjoint_blocks_sym)
      then have "disjoint_blocks (last as) 16 a 16" using l(2) that la False by auto
      then show ?thesis using field_apart(3) by (simp add: U64_set_U64_other)
    qed
    then have "node_vals ?m2 as = node_vals m' as" by (simp add: node_vals_def)
    moreover have "U64 ?m2 q = val" using dl nn(2) by (simp add: U64_set_U64_other)
    moreover have "nodes ?m2 first (as @ [q])"
      using nodes_snoc [OF old False l(2) q(1) nn(1) q(3)] .
    ultimately show ?thesis
      using False hd lst vals by (simp add: ListAdd_def mal m'_def [symmetric] node_vals_def)
  qed
qed

text \<open>
  \<open>ListRemove\<close> of a node of a well-formed list returns only in two cases: the node is the
  first (the result is the tail), or the list is exactly the first node and this one (the
  result is the first node alone). In every other case the loop never ends.
\<close>

theorem ListRemove_result:
  assumes l: "nodes m first as" "apart as" and n: "n \<in> set as"
  shows "ListRemove first n m =
      (if n = first then Inr (U64 m (first + 8), m)
       else if as = [first, n] then Inr (first, set_U64 (set_U64 m (first + 8) 0) (n + 8) 0)
       else Inl Hangs) \<and>
    (n = first \<longrightarrow> nodes m (U64 m (first + 8)) (tl as)) \<and>
    (as = [first, n] \<longrightarrow> nodes (set_U64 (set_U64 m (first + 8) 0) (n + 8) 0) first [first])"
proof -
  obtain as' where as: "as = first # as'" using l(1) n by (cases as) auto
  have tail: "nodes m (U64 m (first + 8)) as'" and nz: "first \<noteq> 0" using l(1) as by auto
  have two: "remove_loop first n m = Some (set_U64 (set_U64 m (first + 8) 0) (n + 8) 0) \<and>
      U64 (set_U64 (set_U64 m (first + 8) 0) (n + 8) 0) (first + 8) = 0" if "as' = [n]"
  proof -
    have nx: "U64 m (first + 8) = n" "n \<noteq> 0" "U64 m (n + 8) = 0" using tail that by auto
    have "disjoint_blocks n 16 first 16" using l(2) as that by (auto simp: disjoint_blocks_sym)
    then have z: "U64 (set_U64 (set_U64 m (first + 8) 0) (n + 8) 0) (first + 8) = 0"
      using field_apart(2) [of n first] by (simp add: U64_set_U64_other)
    have "remove_loop first n m = remove_loop first n (set_U64 (set_U64 m (first + 8) 0) (n + 8) 0)"
      using nx by (subst remove_loop.simps) simp
    also have "\<dots> = Some (set_U64 (set_U64 m (first + 8) 0) (n + 8) 0)"
      using z by (subst remove_loop.simps) simp
    finally show ?thesis using z by simp
  qed
  have hang: "remove_loop first n m = None" if ne: "n \<noteq> first" "as' \<noteq> [n]"
  proof -
    obtain a as'' where a: "as' = a # as''" using n as ne by (cases as') auto
    then have nx: "U64 m (first + 8) = a" "a \<noteq> 0" "nodes m (U64 m (a + 8)) as''" using tail by auto
    show ?thesis
    proof (cases "a = n")
      case False
      then show ?thesis using nx remove_loop_stuck by blast
    next
      case True
      then obtain b where b: "U64 m (a + 8) = b" "b \<noteq> 0" "b \<in> set as''" using nx(3) ne(2) a by (cases as'') auto
      have "disjoint_blocks n 16 first 16" using l(2) as a True by (auto simp: disjoint_blocks_sym)
      then have "U64 (set_U64 (set_U64 m (first + 8) b) (n + 8) 0) (first + 8) = b"
        using field_apart(2) [of n first] by (simp add: U64_set_U64_other)
      moreover have "b \<noteq> n" using l(2) as a True b(3) by (auto simp: disjoint_blocks_def)
      ultimately have "remove_loop first n (set_U64 (set_U64 m (first + 8) b) (n + 8) 0) = None"
        using b(2) by (intro remove_loop_stuck) simp_all
      then show ?thesis using nx True b by (subst remove_loop.simps) simp
    qed
  qed
  show ?thesis using two hang tail as nz by (auto simp: ListRemove_def)
qed

text \<open>
  \<open>VECTOR_APPEND\<close> replaces the storage by a new block of \<open>n * stride\<close> bytes, copies none of
  the old elements into it and writes the new element right behind it, at the heap frontier.
\<close>

theorem VECTOR_APPEND_overruns:
  assumes "VECTOR_APPEND v val s = (v', s')" and "unat (vn v) * unat (stride v) < 2 ^ 32"
    and "unat (malloc_start s) + unat (vn v) * unat (stride v) < 2 ^ 64"
  shows "vdata v' = malloc_start s \<and> vcap v' = vn v \<and> vn v' = vn v + 1 \<and>
    VECTOR_OFF v' (vn v) = malloc_start s' \<and>
    unat (malloc_start s') = unat (vdata v') + unat (vn v) * unat (stride v) \<and>
    kmem s' = memcpy (kmem s) (malloc_start s') val (sint (stride v))"
proof -
  define k where "k = vn v * stride v"
  have k: "stride v * vn v = k" by (simp add: k_def mult.commute)
  have "unat k = unat (vn v) * unat (stride v)" using assms(2) by (simp add: k_def unat_word_ariths)
  moreover from this have "unat (malloc_start s + ucast k) = unat (malloc_start s) + unat k"
    using assms(3) by (simp add: unat_word_ariths)
  ultimately show ?thesis using assms(1)
    by (auto simp: VECTOR_APPEND_def VECTOR_RESIZE_def VECTOR_OFF_def malloc_def Let_def k k_def [symmetric])
qed

subsection \<open>Witnesses\<close>

theorem ListAdd_appends_witness:
  "\<exists>s'. ListAdd 0x100 7 \<lparr>kmem = (\<lambda>_. 0), malloc_start = 0x270000, malloc_end = 0, ms = 0, me = 0\<rparr> =
      Inr (0x100, s') \<and> nodes (kmem s') 0x100 [0x100, 0x270000] \<and> node_vals (kmem s') [0x100, 0x270000] = [0, 7]"
proof -
  let ?s = "\<lparr>kmem = (\<lambda>_. 0), malloc_start = 0x270000, malloc_end = 0, ms = 0, me = 0\<rparr>"
  have z: "U64 (\<lambda>_. 0) a = 0" for a by (simp add: U64_def bytes_numeral)
  show ?thesis
    using ListAdd_appends [of ?s "0x100" "[0x100]" 7] by (auto simp: z node_vals_def disjoint_blocks_def)
qed

theorem ListRemove_result_witness:
  "ListRemove 0x100 0x200 ((\<lambda>_. 0)(0x109 := 2, 0x209 := 3)) = Inl Hangs"
proof -
  let ?m = "(\<lambda>_. 0)(0x109 := 2, 0x209 := 3) :: mem"
  have "U64 ?m 0x108 = 0x200" "U64 ?m 0x208 = 0x300" "U64 ?m 0x308 = 0" by (simp_all add: U64_def bytes_numeral)
  then show ?thesis
    using ListRemove_result [of ?m "0x100" "[0x100, 0x200, 0x300]" "0x200"] by (simp add: disjoint_blocks_def)
qed

theorem VECTOR_APPEND_overruns_witness:
  "VECTOR_OFF (fst (VECTOR_APPEND \<lparr>vdata = 0x270000, stride = 8, vn = 2, vcap = 10\<rparr> 0x100
     \<lparr>kmem = (\<lambda>_. 0), malloc_start = 0x280000, malloc_end = 0, ms = 0, me = 0\<rparr>)) 2 = 0x280010"
proof -
  let ?v = "\<lparr>vdata = 0x270000, stride = 8, vn = 2, vcap = 10\<rparr>"
  let ?s = "\<lparr>kmem = (\<lambda>_. 0), malloc_start = 0x280000, malloc_end = 0, ms = 0, me = 0\<rparr>"
  obtain v' s' where r: "VECTOR_APPEND ?v 0x100 ?s = (v', s')" by fastforce
  from VECTOR_APPEND_overruns [OF r] have "VECTOR_OFF v' 2 = malloc_start s'" "unat (malloc_start s') = 0x280010"
    by simp_all
  then show ?thesis using r by (simp add: word_unat_eq_iff)
qed

end
