(* ===== verification/Gdt.thy ===== *)
theory Gdt
  imports Prelude
begin

text \<open>
  The segment descriptors of \<open>src/src/arch/GDT.c\<close>: encoding of code, data and task-state
  descriptors, and the table that \<open>GDT_LOAD\<close> builds. The task-state descriptor is written
  over the eight-byte slots 5 and 6 of the table, which the model does field by field.
\<close>

section \<open>Definitions\<close>

record GDTEntry =
  LimitLow :: u16
  BaseLow :: u16
  BaseMiddle :: u8
  Access :: u8
  FlagsLimitHigh :: u8
  BaseHigh :: u8

record TSSEntry = GDTEntry +
  BaseLong :: u32
  resv :: u32

text \<open>The limit is an \<open>int\<close>, the base a \<open>long\<close>; only bits are taken from them.\<close>

definition GDT_LoadEntry :: "u64 \<Rightarrow> u32 \<Rightarrow> u8 \<Rightarrow> u8 \<Rightarrow> GDTEntry" where
  "GDT_LoadEntry base limit acc flags =
     \<lparr>LimitLow = ucast (limit AND 0xFFFF), BaseLow = ucast (base AND 0xFFFF),
      BaseMiddle = ucast (drop_bit 16 base AND 0xFF), Access = acc,
      FlagsLimitHigh = push_bit 4 (flags AND 0xF) OR ucast (drop_bit 16 limit AND 0x0F),
      BaseHigh = ucast (drop_bit 24 base AND 0xFF)\<rparr>"

definition TSS_LoadEntry :: "u64 \<Rightarrow> u32 \<Rightarrow> u8 \<Rightarrow> u8 \<Rightarrow> TSSEntry" where
  "TSS_LoadEntry base limit acc flags =
     \<lparr>LimitLow = ucast (limit AND 0xFFFF), BaseLow = ucast (base AND 0xFFFF),
      BaseMiddle = ucast (drop_bit 16 base AND 0xFF), Access = acc,
      FlagsLimitHigh = push_bit 4 (flags AND 0xF) OR ucast (drop_bit 16 limit AND 0x0F),
      BaseHigh = ucast (drop_bit 24 base AND 0xFF),
      BaseLong = ucast (drop_bit 32 base), resv = 0\<rparr>"

definition GDT_ACCESS_PRIV :: "nat \<Rightarrow> u8" where
  "GDT_ACCESS_PRIV p = push_bit 5 (of_nat p)"

text \<open>A 16-byte descriptor as the two 8-byte slots it covers.\<close>

definition tss_slots :: "TSSEntry \<Rightarrow> GDTEntry list" where
  "tss_slots e =
     [\<lparr>LimitLow = LimitLow e, BaseLow = BaseLow e, BaseMiddle = BaseMiddle e, Access = Access e,
       FlagsLimitHigh = FlagsLimitHigh e, BaseHigh = BaseHigh e\<rparr>,
      \<lparr>LimitLow = ucast (BaseLong e), BaseLow = ucast (drop_bit 16 (BaseLong e)),
       BaseMiddle = ucast (resv e), Access = ucast (drop_bit 8 (resv e)),
       FlagsLimitHigh = ucast (drop_bit 16 (resv e)), BaseHigh = ucast (drop_bit 24 (resv e))\<rparr>]"

text \<open>\<open>GDT_LOAD\<close>: the seven slots; \<open>tss\<close> is the address of the task-state segment (104 bytes).\<close>

definition GDT_LOAD :: "u64 \<Rightarrow> GDTEntry list" where
  "GDT_LOAD tss =
     [GDT_LoadEntry 0 0 0 0,
      GDT_LoadEntry 0 0 (GDT_ACCESS_PRIV 0 OR 0x9A) 0xA,
      GDT_LoadEntry 0 0 (GDT_ACCESS_PRIV 0 OR 0x92) 0xC,
      GDT_LoadEntry 0 0 (GDT_ACCESS_PRIV 3 OR 0x9A) 0xA,
      GDT_LoadEntry 0 0 (GDT_ACCESS_PRIV 3 OR 0x92) 0xC]
     @ tss_slots (TSS_LoadEntry tss (104 - 1) (0x80 OR GDT_ACCESS_PRIV 3 OR 0x08 OR 0x01) 0)"

section \<open>What the processor reads\<close>

definition desc_base :: "GDTEntry \<Rightarrow> u32" where
  "desc_base e = ucast (BaseLow e) OR push_bit 16 (ucast (BaseMiddle e)) OR push_bit 24 (ucast (BaseHigh e))"

definition desc_limit :: "GDTEntry \<Rightarrow> u32" where
  "desc_limit e = ucast (LimitLow e) OR push_bit 16 (ucast (FlagsLimitHigh e AND 0x0F))"

definition desc_flags :: "GDTEntry \<Rightarrow> u8" where
  "desc_flags e = drop_bit 4 (FlagsLimitHigh e)"

definition desc_dpl :: "GDTEntry \<Rightarrow> u8" where
  "desc_dpl e = drop_bit 5 (Access e) AND 3"

text \<open>The 64-bit base of a system descriptor that starts at slot \<open>i\<close>.\<close>

definition system_base :: "GDTEntry list \<Rightarrow> nat \<Rightarrow> u64" where
  "system_base g i =
     ucast (desc_base (g ! i)) OR push_bit 32 (ucast (LimitLow (g ! Suc i))) OR
     push_bit 48 (ucast (BaseLow (g ! Suc i)))"

lemma desc_base_word:
  "ucast (ucast (b AND 0xFFFF) :: u16) OR push_bit 16 (ucast (ucast (drop_bit 16 b AND 0xFF) :: u8)) OR
     push_bit 24 (ucast (ucast (drop_bit 24 b AND 0xFF) :: u8)) = (ucast (b :: u64) :: u32)"
  unfolding byte_masks
proof (rule bit_word_eqI)
  fix n
  show "bit (ucast (ucast (b AND mask 16) :: u16) OR push_bit 16 (ucast (ucast (drop_bit 16 b AND mask 8) :: u8)) OR
     push_bit 24 (ucast (ucast (drop_bit 24 b AND mask 8) :: u8)) :: u32) n = bit (ucast b :: u32) n"
    if "n < LENGTH(32)"
    using that by (cases "n < 16"; cases "n < 24") (auto simp: bit_simps)
qed

lemma desc_limit_word:
  "ucast (ucast (l AND 0xFFFF) :: u16) OR
     push_bit 16 (ucast ((push_bit 4 (f AND 0x0F) OR ucast (drop_bit 16 l AND 0x0F) :: u8) AND 0x0F)) =
   take_bit 20 (l :: u32)"
  unfolding byte_masks
proof (rule bit_word_eqI)
  fix n
  show "bit (ucast (ucast (l AND mask 16) :: u16) OR
      push_bit 16 (ucast ((push_bit 4 (f AND mask 4) OR ucast (drop_bit 16 l AND mask 4) :: u8) AND mask 4)) :: u32) n =
    bit (take_bit 20 l) n" if "n < LENGTH(32)"
    using that by (cases "n < 16"; cases "n < 20") (auto simp: bit_simps)
qed

lemma desc_flags_word:
  "drop_bit 4 (push_bit 4 (f AND 0x0F) OR ucast (drop_bit 16 (l :: u32) AND 0x0F) :: u8) = take_bit 4 f"
  unfolding byte_masks by (rule bit_word_eqI) (auto simp: bit_simps)

section \<open>Properties\<close>

text \<open>
  a descriptor made by \<open>GDT_LoadEntry\<close> decodes to the low 32 bits of the base, the low 20
  bits of the limit, the low 4 flag bits and the access byte it was made from.
\<close>

theorem GDT_LoadEntry_roundtrip:
  "desc_base (GDT_LoadEntry base limit acc flags) = ucast base \<and>
   desc_limit (GDT_LoadEntry base limit acc flags) = take_bit 20 limit \<and>
   desc_flags (GDT_LoadEntry base limit acc flags) = take_bit 4 flags \<and>
   Access (GDT_LoadEntry base limit acc flags) = acc"
  using desc_base_word [of base] desc_limit_word [of limit flags] desc_flags_word [of flags limit]
  by (simp add: GDT_LoadEntry_def desc_base_def desc_limit_def desc_flags_def)

text \<open>
  the table of \<open>GDT_LOAD\<close> has seven slots; slots 1 and 2 have privilege level 0, slots 3 and
  4 level 3, and the system descriptor at slot 5 has exactly the address of the task-state
  segment as its base and 103 as its limit.
\<close>

theorem GDT_LOAD_table:
  "length (GDT_LOAD tss) = 7 \<and>
   map desc_dpl (take 5 (GDT_LOAD tss)) = [0, 0, 0, 3, 3] \<and>
   map Access (take 5 (GDT_LOAD tss)) = [0, 0x9A, 0x92, 0xFA, 0xF2] \<and>
   system_base (GDT_LOAD tss) 5 = tss \<and> desc_limit (GDT_LOAD tss ! 5) = 103 \<and> Access (GDT_LOAD tss ! 5) = 0xE9"
proof -
  have "desc_base (GDT_LOAD tss ! 5) = ucast tss"
    using desc_base_word [of tss] by (simp add: GDT_LOAD_def tss_slots_def TSS_LoadEntry_def desc_base_def)
  moreover have "ucast (ucast tss :: u32) OR push_bit 32 (ucast (ucast (ucast (drop_bit 32 tss) :: u32) :: u16)) OR
      push_bit 48 (ucast (ucast (drop_bit 16 (ucast (drop_bit 32 tss) :: u32)) :: u16)) = tss"
  proof (rule bit_word_eqI)
    fix n
    show "bit (ucast (ucast tss :: u32) OR push_bit 32 (ucast (ucast (ucast (drop_bit 32 tss) :: u32) :: u16)) OR
      push_bit 48 (ucast (ucast (drop_bit 16 (ucast (drop_bit 32 tss) :: u32)) :: u16)) :: u64) n = bit tss n" if "n < LENGTH(64)"
      using that by (cases "n < 32"; cases "n < 48") (auto simp: bit_simps)
  qed
  ultimately have "system_base (GDT_LOAD tss) 5 = tss"
    by (simp add: system_base_def) (simp add: GDT_LOAD_def tss_slots_def TSS_LoadEntry_def)
  then show ?thesis
    by (simp add: GDT_LOAD_def tss_slots_def TSS_LoadEntry_def GDT_LoadEntry_def desc_dpl_def desc_limit_def
        GDT_ACCESS_PRIV_def)
qed

end
