(* ===== verification/Keyboard.thy ===== *)
theory Keyboard
  imports Prelude
begin

text \<open>
  The PS/2 keyboard driver of \<open>src/src/devices/keyboard.c\<close>: the scan code table, the key event
  built from a scan code, and the modifier byte. The byte that \<open>inb(0x60)\<close> returns is the
  argument \<open>sc\<close>; the event is what the installed handler is called with.
\<close>

section \<open>Definitions\<close>

definition kbdus :: "u8 list" where
  "kbdus =
    [0, 27, 49, 50, 51, 52, 53, 54, 55, 56,
     57, 48, 45, 61, 8,
     9,
     113, 119, 101, 114,
     116, 121, 117, 105, 111, 112, 91, 93, 10,
     0,
     97, 115, 100, 102, 103, 104, 106, 107, 108, 59,
     39, 96, 0,
     92, 122, 120, 99, 118, 98, 110,
     109, 44, 46, 47, 0,
     42,
     0,
     32,
     0,
     0,
     0, 0, 0, 0, 0, 0, 0, 0,
     0,
     0,
     0,
     0,
     0,
     0,
     45,
     0,
     0,
     0,
     43,
     0,
     0,
     0,
     0,
     0,
     0, 0, 0,
     0,
     0,
     0] @ replicate 38 0"

record KeyCode =
  key_type :: u8
  key_val :: u8
  key_pressed :: u8
  key_modifiers :: u8

definition isAlphabetic :: "u8 \<Rightarrow> bool" where
  "isAlphabetic c = (let c = c OR 32 in 97 \<le> sint c \<and> sint c \<le> 122)"

definition key_code :: "u8 \<Rightarrow> u8 \<Rightarrow> KeyCode" where
  "key_code sc modifiers =
     (let kb = kbdus ! unat (sc AND NOT 0x80);
          pressed = (if sc AND 0x80 = 0 then 1 else 0);
          sc = sc AND NOT 0x80
      in if kb \<noteq> 0 then
           let filt = push_bit 5 ((modifiers AND 1) XOR (drop_bit 3 modifiers AND 1));
               kb = (if isAlphabetic kb then kb AND NOT filt else kb)
           in \<lparr>key_type = 1, key_val = kb, key_pressed = pressed, key_modifiers = modifiers\<rparr>
         else if sc \<ge> 0x3B \<and> sc \<le> 0x44 then
           \<lparr>key_type = 2, key_val = sc - 0x3B, key_pressed = pressed, key_modifiers = modifiers\<rparr>
         else if sc = 0x57 \<or> sc = 0x58 then
           \<lparr>key_type = 2, key_val = sc - 0x57 + 11, key_pressed = pressed, key_modifiers = modifiers\<rparr>
         else
           let temp = (if sc = 0x48 then 3 else if sc = 0x50 then 4 else if sc = 0x4B then 1
                       else if sc = 0x4D then 2 else 0)
           in if temp \<noteq> 0
              then \<lparr>key_type = 3, key_val = temp, key_pressed = pressed, key_modifiers = modifiers\<rparr>
              else \<lparr>key_type = 0, key_val = 0, key_pressed = 0, key_modifiers = 0\<rparr>)"

definition next_modifiers :: "u8 \<Rightarrow> u8 \<Rightarrow> u8" where
  "next_modifiers sc modifiers =
     (let pressed = (sc AND 0x80 = 0);
          sc = sc AND NOT 0x80
      in if pressed then
           (if sc = 0x3A then modifiers OR push_bit 3 1
            else if sc = 0x2A then modifiers OR push_bit 0 1
            else if sc = 0x38 then modifiers OR push_bit 1 1
            else if sc = 0x1D then modifiers OR push_bit 2 1
            else modifiers)
         else
           (if sc = 0x3A then modifiers
            else if sc = 0x2A then modifiers AND NOT (push_bit 0 1)
            else if sc = 0x38 then modifiers AND NOT (push_bit 1 1)
            else if sc = 0x1D then modifiers AND NOT (push_bit 2 1)
            else modifiers))"

text \<open>\<open>KeyboardHandlerImpl\<close>: the event given to the handler, and the new modifier byte.\<close>

definition KeyboardHandlerImpl :: "u8 \<Rightarrow> u8 \<Rightarrow> KeyCode \<times> u8" where
  "KeyboardHandlerImpl sc modifiers = (key_code sc modifiers, next_modifiers sc modifiers)"

text \<open>A sequence of keyboard interrupts.\<close>

fun key_events :: "u8 list \<Rightarrow> u8 \<Rightarrow> KeyCode list \<times> u8" where
  "key_events [] modifiers = ([], modifiers)"
| "key_events (sc # scs) modifiers =
     (let (code, modifiers) = KeyboardHandlerImpl sc modifiers;
          (codes, modifiers) = key_events scs modifiers
      in (code # codes, modifiers))"

section \<open>Lemmas\<close>

lemma bit_0x80 [simp]: "bit (0x80 :: int) n = (n = 7)"
  using bit_exp_iff [of 7 n, where ?'a = int] by simp

lemma length_kbdus [simp]: "length kbdus = 128"
  unfolding kbdus_def by simp

text \<open>The alphabetic keys of the table are the lower-case letters.\<close>

lemma kbdus_letters: "list_all (\<lambda>k. isAlphabetic k \<longrightarrow> 97 \<le> k \<and> k \<le> 122 \<and> k AND NOT 32 = k - 32) kbdus"
  unfolding kbdus_def isAlphabetic_def Let_def list_all_append
  by (rule conjI) (simp, simp add: list_all_iff)

lemma letter_upper:
  "i < 128 \<Longrightarrow> isAlphabetic (kbdus ! i) \<Longrightarrow> kbdus ! i AND NOT 32 = kbdus ! i - 32 \<and> 97 \<le> kbdus ! i"
  using kbdus_letters by (auto simp: list_all_length)

lemma scan_index: "unat (sc AND NOT 0x80 :: u8) < 128"
proof -
  have "sc AND NOT 0x80 = take_bit 7 sc"
  proof (rule bit_word_eqI)
    fix n
    show "bit (sc AND NOT 0x80) n = bit (take_bit 7 sc) n" if "n < LENGTH(8)"
      using that by (auto simp: bit_simps)
  qed
  then show ?thesis by (simp add: unsigned_take_bit_eq take_bit_nat_less_exp [of 7, simplified])
qed

lemma case_filter:
  "push_bit 5 ((m AND 1) XOR (drop_bit 3 m AND 1)) = (if bit m 0 \<noteq> bit m 3 then 32 else 0 :: u8)"
proof -
  have 1: "m AND 1 = (if bit m 0 then 1 else 0)" for m :: u8 by (simp add: and_one_eq mod2_eq_if bit_0)
  have 3: "drop_bit 3 m AND 1 = (if bit m 3 then 1 else 0)"
    unfolding 1 by (simp add: bit_drop_bit_eq)
  show ?thesis unfolding 3 unfolding 1 by auto
qed

lemma scan_press: "(sc AND 0x80 = 0) = (\<not> bit (sc :: u8) 7)"
proof -
  have "sc AND 0x80 = (if bit sc 7 then 0x80 else 0)"
    by (rule bit_word_eqI) (auto simp: bit_simps)
  then show ?thesis by simp
qed

lemma scan_press_code:
  assumes "\<not> bit (sc :: u8) 7"
  shows "sc AND NOT 0x80 = sc"
proof (rule bit_word_eqI)
  fix n
  show "bit (sc AND NOT 0x80) n = bit sc n" if "n < LENGTH(8)"
    using that assms by (auto simp: bit_simps)
qed

section \<open>Properties\<close>

text \<open>
  a key that is alphabetic in the table produces an ASCII event whose value is the letter of
  the table, in upper case exactly when one of shift and caps lock is set and the other is not.
\<close>

theorem KeyboardHandlerImpl_letter:
  assumes "isAlphabetic (kbdus ! unat (sc AND NOT 0x80))"
  shows "key_type (fst (KeyboardHandlerImpl sc m)) = 1 \<and>
    key_val (fst (KeyboardHandlerImpl sc m)) =
      kbdus ! unat (sc AND NOT 0x80) - (if bit m 0 \<noteq> bit m 3 then 32 else 0)"
proof -
  have l: "kbdus ! unat (sc AND NOT 0x80) AND NOT 32 = kbdus ! unat (sc AND NOT 0x80) - 32"
    "97 \<le> kbdus ! unat (sc AND NOT 0x80)"
    using letter_upper [OF scan_index assms] by auto
  then have "kbdus ! unat (sc AND NOT 0x80) \<noteq> 0" by auto
  then show ?thesis
    using assms l(1) unfolding KeyboardHandlerImpl_def key_code_def Let_def case_filter by simp
qed

theorem KeyboardHandlerImpl_letter_witness:
  "key_val (fst (KeyboardHandlerImpl 0x1E 1)) = 65"
proof -
  have "kbdus ! 30 = 97" by (simp add: kbdus_def)
  then show ?thesis using KeyboardHandlerImpl_letter [of "0x1E" 1] by (simp add: isAlphabetic_def)
qed

text \<open>
  the modifier byte: bits 0, 1 and 2 follow the press and the release of left shift, alt and
  control; bit 3, caps lock, is set by a press of its key and no event ever clears it.
\<close>

theorem next_modifiers_bits:
  "bit (snd (KeyboardHandlerImpl sc m)) 0 = (sc = 0x2A \<or> sc \<noteq> 0xAA \<and> bit m 0) \<and>
   bit (snd (KeyboardHandlerImpl sc m)) 1 = (sc = 0x38 \<or> sc \<noteq> 0xB8 \<and> bit m 1) \<and>
   bit (snd (KeyboardHandlerImpl sc m)) 2 = (sc = 0x1D \<or> sc \<noteq> 0x9D \<and> bit m 2) \<and>
   bit (snd (KeyboardHandlerImpl sc m)) 3 = (sc = 0x3A \<or> bit m 3)"
proof -
  have rel: "(sc AND NOT 0x80 = c) = (sc = c OR 0x80)" if "bit sc 7" "\<not> bit c 7" for c :: u8
  proof -
    have "sc = (sc AND NOT 0x80) OR 0x80"
      by (rule bit_word_eqI) (use that in \<open>auto simp: bit_simps\<close>)
    moreover have "(c OR 0x80) AND NOT 0x80 = c"
      by (rule bit_word_eqI) (use that in \<open>auto simp: bit_simps\<close>)
    ultimately show ?thesis by metis
  qed
  show ?thesis
  proof (cases "bit sc 7")
    case True
    then have ne: "sc \<noteq> 0x2A" "sc \<noteq> 0x38" "sc \<noteq> 0x1D" "sc \<noteq> 0x3A" by auto
    show ?thesis using True ne rel [OF True]
      by (auto simp: KeyboardHandlerImpl_def next_modifiers_def Let_def scan_press bit_simps)
  next
    case False
    then have ne: "sc \<noteq> 0xAA" "sc \<noteq> 0xB8" "sc \<noteq> 0x9D" by auto
    show ?thesis using False ne
      by (auto simp: KeyboardHandlerImpl_def next_modifiers_def Let_def scan_press scan_press_code [OF False, simplified] bit_simps)
  qed
qed

end
