(* ===== verification/Vfs.thy ===== *)
theory Vfs
  imports Ext2
begin

text \<open>
  The file layer of \<open>src/src/filesystem/vfs.c\<close> and \<open>src/src/file/ext2_file.c\<close>. A \<open>FILE\<close> is a tag
  and a union of an ext2 view (inode and buffer) and a virtual view (buffer and length). The
  model keeps the bytes of the ext2 view; the virtual view overlays its first twelve bytes,
  that is \<open>mode\<close>, \<open>UID\<close>, \<open>size\<close> and \<open>accessTime\<close> of the inode, little endian. Messages on the
  console are not part of the model.
\<close>

section \<open>Definitions\<close>

abbreviation (input) FILE_TYPE_EXT :: int where "FILE_TYPE_EXT \<equiv> 1"
abbreviation (input) FILE_TYPE_VIRT :: int where "FILE_TYPE_VIRT \<equiv> 2"

record FILE =
  ftype :: int
  ext2_inode :: EXT2_INODE
  ext2_data :: u64

text \<open>The union's virtual member: \<open>char* data\<close> at 0 and \<open>int length\<close> at 8.\<close>

definition virt_data :: "FILE \<Rightarrow> u64" where
  "virt_data f =
     ucast (mode (ext2_inode f)) OR push_bit 16 (ucast (UID (ext2_inode f))) OR
     push_bit 32 (ucast (inode_size (ext2_inode f)))"

definition virt_length :: "FILE \<Rightarrow> int" where
  "virt_length f = sint (accessTime (ext2_inode f))"

definition set_virt_data :: "u64 \<Rightarrow> FILE \<Rightarrow> FILE" where
  "set_virt_data p f = f\<lparr>ext2_inode := (ext2_inode f)\<lparr>
     mode := ucast p, UID := ucast (drop_bit 16 p), inode_size := ucast (drop_bit 32 p)\<rparr>\<rparr>"

record FILE_DESC =
  dfile :: FILE
  used :: int
  offset :: int

definition FILE_GetBuffer :: "FILE \<Rightarrow> u64" where
  "FILE_GetBuffer f =
     (if ftype f = FILE_TYPE_EXT then ext2_data f
      else if ftype f = FILE_TYPE_VIRT then virt_data f
      else 0)"

definition FILE_GetLength :: "FILE \<Rightarrow> int" where
  "FILE_GetLength f =
     (if ftype f = FILE_TYPE_EXT then sint (inode_size (ext2_inode f))
      else if ftype f = FILE_TYPE_VIRT then virt_length f
      else 0)"

definition FILE_GetRemaining :: "FILE_DESC \<Rightarrow> int" where
  "FILE_GetRemaining d = int32 (FILE_GetLength (dfile d) - offset d)"

text \<open>
  \<open>FILE_GET\<close>: the inode is looked up into the descriptor itself, so a failed lookup leaves its
  trace there; the second parameter of the C function is not used.
\<close>

definition FILE_GET :: "reader \<Rightarrow> FILE_DESC \<Rightarrow> u64 \<Rightarrow> 'a kext2_scheme \<Rightarrow> (int \<times> FILE_DESC \<times> 'a kext2_scheme) outcome" where
  "FILE_GET rd desc path s =
     andthen (EXT2_GET_INODE_FROM_PATH rd (ext2_inode (dfile desc)) path s) (\<lambda>(r, ext2, s).
       let desc = desc\<lparr>dfile := (dfile desc)\<lparr>ext2_inode := ext2\<rparr>\<rparr>
       in if r \<noteq> 0 then
            let (hex, s) = malloc (ucast (inode_size ext2)) s
            in andthen (EXT2_READFILE rd ext2 hex (ucast (inode_size ext2)) s) (\<lambda>(_, s).
              Inr (1, desc\<lparr>dfile := \<lparr>ftype = FILE_TYPE_EXT, ext2_inode = ext2, ext2_data = hex\<rparr>,
                used := 1, offset := 0\<rparr>, s))
          else Inr (0, desc, s))"

record stat =
  st_dev :: u64
  st_ino :: u64
  st_nlink :: u64
  st_mode :: u32
  st_uid :: u32
  st_gid :: u32
  st_pad0 :: u32
  st_rdev :: u64
  st_size :: u64
  st_blksize :: u64
  st_blocks :: u64
  st_atim :: u64
  st_mtim :: u64
  st_ctim :: u64
  st_unused :: "u64 list"

definition zero_stat :: stat where
  "zero_stat = \<lparr>st_dev = 0, st_ino = 0, st_nlink = 0, st_mode = 0, st_uid = 0, st_gid = 0, st_pad0 = 0, st_rdev = 0,
     st_size = 0, st_blksize = 0, st_blocks = 0, st_atim = 0, st_mtim = 0, st_ctim = 0, st_unused = [0, 0, 0]\<rparr>"

definition FSTAT :: "FILE \<Rightarrow> int \<times> stat" where
  "FSTAT f =
     (if ftype f = FILE_TYPE_EXT then
        let e = ext2_inode f
        in (1, zero_stat\<lparr>st_nlink := ucast (linkCount e), st_mode := ucast (mode e), st_uid := ucast (UID e),
             st_gid := ucast (GID e), st_size := ucast (inode_size e), st_blksize := 0x1000,
             st_blocks := ucast (blockCount e), st_atim := ucast (accessTime e),
             st_mtim := ucast (modificationTime e), st_ctim := ucast (creationTime e)\<rparr>)
      else if ftype f = FILE_TYPE_VIRT then
        (1, zero_stat\<lparr>st_mode := 0x1000, st_size := of_int (virt_length f), st_blksize := 0x1000\<rparr>)
      else (0, zero_stat))"

definition FILE_DESC_FREE :: "FILE_DESC \<Rightarrow> FILE_DESC" where
  "FILE_DESC_FREE d = d\<lparr>used := 0\<rparr>"

definition FILE_DESC_DUP :: "FILE_DESC \<Rightarrow> FILE_DESC \<Rightarrow> 'a kext2_scheme \<Rightarrow> int \<times> FILE_DESC \<times> 'a kext2_scheme" where
  "FILE_DESC_DUP n d s =
     (if used d = 0 then (1, n, s)
      else
        let n = n\<lparr>used := used d, offset := offset d, dfile := (dfile n)\<lparr>ftype := ftype (dfile d)\<rparr>\<rparr>
        in if ftype (dfile d) = FILE_TYPE_EXT then
             let len = sint (inode_size (ext2_inode (dfile d)));
                 (p, s) = malloc (of_int len) s;
                 s = s\<lparr>kmem := memcpy (kmem s) p (ext2_data (dfile d)) len\<rparr>
             in (1, n\<lparr>dfile := (dfile n)\<lparr>ext2_inode := ext2_inode (dfile d), ext2_data := p\<rparr>\<rparr>, s)
           else if ftype (dfile d) = FILE_TYPE_VIRT then
             let len = virt_length (dfile d);
                 (p, s) = malloc (of_int len) s;
                 s = s\<lparr>kmem := memcpy (kmem s) p (virt_data (dfile d)) len\<rparr>
             in (1, n\<lparr>dfile := set_virt_data p (dfile n)\<rparr>, s)
           else (0, n, s))"

text \<open>
  \<open>EXT2_FILE_READ_ALL\<close> takes only the return value 1 of the lookup, which is the inode number
  found, for success.
\<close>

definition EXT2_FILE_READ_ALL ::
    "reader \<Rightarrow> EXT2_INODE \<Rightarrow> u64 \<Rightarrow> 'a kext2_scheme \<Rightarrow> (u64 \<times> EXT2_INODE \<times> 'a kext2_scheme) outcome" where
  "EXT2_FILE_READ_ALL rd file path s =
     andthen (EXT2_GET_INODE_FROM_PATH rd file path s) (\<lambda>(r, file, s).
       if r = 1 then
         let (data, s) = malloc (ucast (inode_size file)) s
         in andthen (EXT2_READFILE rd file data (ucast (inode_size file)) s) (\<lambda>(_, s). Inr (data, file, s))
       else Inr (0, file, s))"

text \<open>\<open>EXT2_DIR_READ_ENTRY\<close>: the names \<open>EXT2_DIR_READ_ENT\<close> prints, if the lookup returns 1.\<close>

definition EXT2_DIR_READ_ENTRY ::
    "reader \<Rightarrow> EXT2_INODE \<Rightarrow> u64 \<Rightarrow> 'a kext2_scheme \<Rightarrow> (u8 list list \<times> 'a kext2_scheme) outcome" where
  "EXT2_DIR_READ_ENTRY rd dir path s =
     andthen (EXT2_GET_INODE_FROM_PATH rd dir path s) (\<lambda>(r, dir, s).
       if r = 1 then andthen (EXT2_LS rd dir s) (\<lambda>names. Inr (names, s)) else Inr ([], s))"

section \<open>Lemmas\<close>

lemma virt_data_set [simp]: "virt_data (set_virt_data p f) = p"
proof (rule bit_word_eqI)
  fix k assume "k < LENGTH(64)"
  then show "bit (virt_data (set_virt_data p f)) k = bit p k"
    by (cases "k < 16"; cases "k < 32")
      (auto simp: virt_data_def set_virt_data_def bit_or_iff bit_push_bit_iff bit_ucast_iff bit_drop_bit_eq
        dest: bit_imp_le_length)
qed

lemma memcpy_block:
  assumes "disjoint_blocks p n q n"
  shows "load_bytes (memcpy m p q (int n)) p n = load_bytes m q n"
    "load_bytes (memcpy m p q (int n)) q n = load_bytes m q n"
proof -
  have "copy_safe p q n" "n \<le> 2 ^ 64"
    using assms by (auto simp: disjoint_blocks_def copy_safe_def unat_sub_if')
  then show "load_bytes (memcpy m p q (int n)) p n = load_bytes m q n"
    "load_bytes (memcpy m p q (int n)) q n = load_bytes m q n"
    using assms load_memcpy_dest load_memcpy_other by blast+
qed

section \<open>Properties\<close>

text \<open>
  duplicating a used ext2 descriptor gives a descriptor with the same inode, offset and
  status, whose buffer is a block of its own at the old heap frontier with the same bytes;
  the bytes of the original stay as they are.
\<close>

theorem FILE_DESC_DUP_copies:
  assumes d: "used d \<noteq> 0" "ftype (dfile d) = FILE_TYPE_EXT"
    and len: "unat (inode_size (ext2_inode (dfile d))) = len" "len < 2 ^ 31"
    and fresh: "disjoint_blocks (malloc_start s) len (ext2_data (dfile d)) len"
  shows "\<exists>d' s'. FILE_DESC_DUP n d s = (1, d', s') \<and>
    used d' = used d \<and> offset d' = offset d \<and> FSTAT (dfile d') = FSTAT (dfile d) \<and>
    FILE_GetRemaining d' = FILE_GetRemaining d \<and>
    FILE_GetBuffer (dfile d') = malloc_start s \<and> malloc_start s' = malloc_start s + of_nat len \<and>
    load_bytes (kmem s') (FILE_GetBuffer (dfile d')) len = load_bytes (kmem s) (FILE_GetBuffer (dfile d)) len \<and>
    load_bytes (kmem s') (FILE_GetBuffer (dfile d)) len = load_bytes (kmem s) (FILE_GetBuffer (dfile d)) len"
proof -
  have "sint (inode_size (ext2_inode (dfile d))) = int len" using len by (simp add: sint_small_u32)
  then show ?thesis
    using d memcpy_block [OF fresh]
    by (simp add: FILE_DESC_DUP_def malloc_def Let_def FSTAT_def FILE_GetRemaining_def FILE_GetLength_def
        FILE_GetBuffer_def)
qed

text \<open>A file of three bytes at 0x100, opened and read up to offset 1.\<close>

definition demo_desc :: FILE_DESC where
  "demo_desc = \<lparr>dfile = \<lparr>ftype = 1, ext2_inode = zero_inode\<lparr>inode_size := 3\<rparr>, ext2_data = 0x100\<rparr>, used = 1, offset = 1\<rparr>"

theorem FILE_DESC_DUP_copies_witness:
  "\<exists>d' s'. FILE_DESC_DUP demo_desc demo_desc (demo_fs ((\<lambda>_. 0)(0x101 := 7))) = (1, d', s') \<and>
     load_bytes (kmem s') (FILE_GetBuffer (dfile d')) 3 = [0, 7, 0]"
proof -
  let ?s = "demo_fs ((\<lambda>_. 0)(0x101 := 7))"
  have b: "load_bytes (kmem ?s) (FILE_GetBuffer (dfile demo_desc)) 3 = [0, 7, 0]"
    by (simp add: demo_desc_def FILE_GetBuffer_def bytes_numeral)
  have "\<exists>d' s'. FILE_DESC_DUP demo_desc demo_desc ?s = (1, d', s') \<and>
      load_bytes (kmem s') (FILE_GetBuffer (dfile d')) 3 =
      load_bytes (kmem ?s) (FILE_GetBuffer (dfile demo_desc)) 3"
    using FILE_DESC_DUP_copies [of demo_desc 3 ?s demo_desc]
    by (fastforce simp: demo_desc_def demo_fs_def disjoint_blocks_def simp del: load_bytes.simps)
  then show ?thesis unfolding b .
qed

end
