(* ===== verification/Idt.thy ===== *)
theory Idt
  imports Prelude
begin

text \<open>
  The interrupt descriptor table of \<open>src/src/interrupts/idt.c\<close> and its initialisation by the
  generated \<open>src/src/interrupts/isrgen.c\<close>. The entry points \<open>ISR0 .. ISR255\<close> are assembly
  symbols: \<open>ISR i\<close> is the address of the \<open>i\<close>-th. The saved register frame of \<open>idt.h\<close>
  is defined here because every handler takes it.
\<close>

section \<open>Definitions\<close>

record registers =
  r_segment :: u64
  r15 :: u64
  r14 :: u64
  r13 :: u64
  r12 :: u64
  r11 :: u64
  r10 :: u64
  r9 :: u64
  r8 :: u64
  rbp :: u64
  rdi :: u64
  rsi :: u64
  rdx :: u64
  rcx :: u64
  rbx :: u64
  rax :: u64
  interupt :: u64
  r_zero :: u64
  rip :: u64
  r_cs :: u64
  rflags :: u64
  rsp :: u64
  r_ss :: u64

record idt_entry_t =
  isr_low :: u16
  kernel_cs :: u16
  ist :: u8
  idt_flags :: u8
  isr_mid :: u16
  isr_high :: u32
  idt_reserved :: u32

type_synonym idt = "idt_entry_t list"

text \<open>The macros \<open>WORD(n,i)\<close> and \<open>DWORD(n,i)\<close> of \<open>bit.h\<close> on a 64-bit value.\<close>

definition WORD :: "u64 \<Rightarrow> nat \<Rightarrow> u64" where
  "WORD n i = drop_bit (16 * i) n AND 0xFFFF"

definition DWORD :: "u64 \<Rightarrow> nat \<Rightarrow> u64" where
  "DWORD n i = drop_bit (32 * i) n AND 0xFFFFFFFF"

definition IDT_SetGate :: "nat \<Rightarrow> u64 \<Rightarrow> u16 \<Rightarrow> u8 \<Rightarrow> idt \<Rightarrow> idt outcome" where
  "IDT_SetGate n base segmentDescriptor fl g =
     array_set g n
       \<lparr>isr_low = ucast (WORD base 0), kernel_cs = segmentDescriptor, ist = 0, idt_flags = fl,
        isr_mid = ucast (WORD base 1), isr_high = ucast (DWORD base 1), idt_reserved = 0\<rparr>"

definition IDT_EnableGate :: "nat \<Rightarrow> idt \<Rightarrow> idt outcome" where
  "IDT_EnableGate n g =
     andthen (array_get g n) (\<lambda>e. array_set g n (e\<lparr>idt_flags := idt_flags e OR 0x80\<rparr>))"

definition IDT_DisableGate :: "nat \<Rightarrow> idt \<Rightarrow> idt outcome" where
  "IDT_DisableGate n g =
     andthen (array_get g n) (\<lambda>e. array_set g n (e\<lparr>idt_flags := idt_flags e AND NOT 0x80\<rparr>))"

text \<open>The computed \<open>flags\<close> are not used: the entry gets \<open>IDT_FLAG_RING3\<close> alone.\<close>

definition IDT_SetPriviledge :: "nat \<Rightarrow> int \<Rightarrow> idt \<Rightarrow> idt outcome" where
  "IDT_SetPriviledge n priv g =
     andthen (array_get g n) (\<lambda>e. array_set g n (e\<lparr>idt_flags := 0x60\<rparr>))"

text \<open>One pair of lines of \<open>SetISRs\<close>, and runs of consecutive pairs.\<close>

definition set_isr :: "(nat \<Rightarrow> u64) \<Rightarrow> u16 \<Rightarrow> u8 \<Rightarrow> nat \<Rightarrow> idt \<Rightarrow> idt outcome" where
  "set_isr ISR code fl i g = andthen (IDT_SetGate i (ISR i) code fl g) (IDT_EnableGate i)"

fun set_isrs :: "(nat \<Rightarrow> u64) \<Rightarrow> u16 \<Rightarrow> nat list \<Rightarrow> idt \<Rightarrow> idt outcome" where
  "set_isrs ISR code [] g = Inr g"
| "set_isrs ISR code (i # is) g = andthen (set_isr ISR code 0x8E i g) (set_isrs ISR code is)"

definition SetISRs_0_71 :: "(nat \<Rightarrow> u64) \<Rightarrow> u16 \<Rightarrow> idt \<Rightarrow> idt outcome" where
  "SetISRs_0_71 ISR code = set_isrs ISR code [0..<72]"

definition SetISRs_72_145 :: "(nat \<Rightarrow> u64) \<Rightarrow> u16 \<Rightarrow> idt \<Rightarrow> idt outcome" where
  "SetISRs_72_145 ISR code = set_isrs ISR code ([72..<128] @ [129..<146])"

definition SetISRs_146_217 :: "(nat \<Rightarrow> u64) \<Rightarrow> u16 \<Rightarrow> idt \<Rightarrow> idt outcome" where
  "SetISRs_146_217 ISR code = set_isrs ISR code [146..<218]"

definition SetISRs_218_255 :: "(nat \<Rightarrow> u64) \<Rightarrow> u16 \<Rightarrow> idt \<Rightarrow> idt outcome" where
  "SetISRs_218_255 ISR code = set_isrs ISR code [218..<256]"

definition SetISRs :: "(nat \<Rightarrow> u64) \<Rightarrow> u16 \<Rightarrow> idt \<Rightarrow> idt outcome" where
  "SetISRs ISR code g =
     andthen (set_isr ISR code (0x8E OR 3 * 2 ^ 5) 128 g) (\<lambda>g.
     andthen (SetISRs_0_71 ISR code g) (\<lambda>g.
     andthen (SetISRs_72_145 ISR code g) (\<lambda>g.
     andthen (SetISRs_146_217 ISR code g) (SetISRs_218_255 ISR code))))"

text \<open>\<open>IDT_Initialize\<close>: the table after \<open>SetISRs\<close> is the one handed to \<open>lidt\<close>.\<close>

definition IDT_Initialize :: "(nat \<Rightarrow> u64) \<Rightarrow> u16 \<Rightarrow> idt \<Rightarrow> idt outcome" where
  "IDT_Initialize ISR code g = SetISRs ISR code g"

section \<open>Lemmas\<close>

text \<open>The address the processor takes from a gate.\<close>

definition gate_address :: "idt_entry_t \<Rightarrow> u64" where
  "gate_address e = ucast (isr_low e) OR push_bit 16 (ucast (isr_mid e)) OR push_bit 32 (ucast (isr_high e))"

definition gate_for :: "(nat \<Rightarrow> u64) \<Rightarrow> u16 \<Rightarrow> u8 \<Rightarrow> nat \<Rightarrow> idt_entry_t \<Rightarrow> bool" where
  "gate_for ISR code fl i e \<longleftrightarrow>
     gate_address e = ISR i \<and> kernel_cs e = code \<and> idt_flags e = fl \<and> ist e = 0 \<and> idt_reserved e = 0"

lemma gate_address_split:
  "ucast (ucast (WORD b 0) :: u16) OR push_bit 16 (ucast (ucast (WORD b 1) :: u16)) OR
     push_bit 32 (ucast (ucast (DWORD b 1) :: u32)) = b"
proof -
  have m: "(0xFFFF :: u64) = mask 16" "(0xFFFFFFFF :: u64) = mask 32" by (simp_all add: mask_eq_exp_minus_1)
  show ?thesis unfolding WORD_def DWORD_def m
  proof (rule bit_word_eqI)
    fix n
    show "bit (ucast (ucast (drop_bit (16 * 0) b AND mask 16) :: u16) OR
        push_bit 16 (ucast (ucast (drop_bit (16 * 1) b AND mask 16) :: u16)) OR
        push_bit 32 (ucast (ucast (drop_bit (32 * 1) b AND mask 32) :: u32)) :: u64) n = bit b n" if "n < LENGTH(64)"
      using that by (cases "n < 16"; cases "n < 32") (auto simp: bit_simps)
  qed
qed

lemma set_isr_ok:
  assumes "i < length g" "fl OR 0x80 = fl"
  shows "\<exists>e. set_isr ISR code fl i g = Inr (g[i := e]) \<and> gate_for ISR code fl i e"
proof (intro exI conjI)
  let ?e = "\<lparr>isr_low = ucast (WORD (ISR i) 0), kernel_cs = code, ist = 0, idt_flags = fl,
        isr_mid = ucast (WORD (ISR i) 1), isr_high = ucast (DWORD (ISR i) 1), idt_reserved = 0\<rparr>"
  show "set_isr ISR code fl i g = Inr (g[i := ?e])"
    using assms by (simp add: set_isr_def IDT_SetGate_def IDT_EnableGate_def array_set_def array_get_def)
  show "gate_for ISR code fl i ?e"
    using gate_address_split [of "ISR i"] by (simp add: gate_for_def gate_address_def)
qed

lemma set_isrs_ok:
  "\<forall>i \<in> set js. i < length g \<Longrightarrow> distinct js \<Longrightarrow>
   \<exists>g'. set_isrs ISR code js g = Inr g' \<and> length g' = length g \<and>
     (\<forall>i < length g. if i \<in> set js then gate_for ISR code 0x8E i (g' ! i) else g' ! i = g ! i)"
proof (induction js arbitrary: g)
  case Nil
  then show ?case by simp
next
  case (Cons i js)
  have "(0x8E :: u8) OR 0x80 = 0x8E" by simp
  then obtain e where e: "set_isr ISR code 0x8E i g = Inr (g[i := e])" "gate_for ISR code 0x8E i e"
    using set_isr_ok [of i g "0x8E" ISR code] Cons.prems(1) by auto
  obtain g' where g': "set_isrs ISR code js (g[i := e]) = Inr g'" "length g' = length g"
      "\<forall>j < length g. if j \<in> set js then gate_for ISR code 0x8E j (g' ! j) else g' ! j = g[i := e] ! j"
    using Cons.IH [of "g[i := e]"] Cons.prems by auto
  have "if j \<in> set (i # js) then gate_for ISR code 0x8E j (g' ! j) else g' ! j = g ! j" if "j < length g" for j
    using g'(3) [rule_format, OF that] e(2) Cons.prems that by (auto split: if_splits)
  with e(1) g' show ?case by auto
qed

lemma set_isrs_append:
  "set_isrs ISR code (xs @ ys) = (\<lambda>g. andthen (set_isrs ISR code xs g) (set_isrs ISR code ys))"
proof
  show "set_isrs ISR code (xs @ ys) g = andthen (set_isrs ISR code xs g) (set_isrs ISR code ys)" for g
    by (induction xs arbitrary: g) (auto simp: andthen_def split: sum.splits)
qed

definition other_gates :: "nat list" where
  "other_gates = [0..<128] @ [129..<256]"

lemma other_gates: "set other_gates = {i. i < 256 \<and> i \<noteq> 128}" "distinct other_gates"
  unfolding other_gates_def set_append set_upt distinct_append by auto

lemma SetISRs_list: "SetISRs ISR code g = andthen (set_isr ISR code 0xEE 128 g) (set_isrs ISR code other_gates)"
proof -
  have s: "other_gates = [0..<72] @ ([72..<128] @ [129..<146]) @ [146..<218] @ [218..<256]"
    using upt_split [of 0 72 128] upt_split [of 129 146 256] upt_split [of 146 218 256]
    unfolding other_gates_def append_assoc by (simp only: append_assoc)
  have f: "(0x8E OR 3 * 2 ^ 5 :: u8) = 0xEE" by simp
  show ?thesis
    unfolding SetISRs_def SetISRs_0_71_def SetISRs_72_145_def SetISRs_146_217_def SetISRs_218_255_def s f
    by (rule arg_cong2 [where f = andthen], rule refl, rule ext) (simp only: set_isrs_append andthen_assoc)
qed

section \<open>Properties\<close>

text \<open>
  C16: \<open>IDT_Initialize\<close> fills all 256 gates: gate \<open>i\<close> decodes to the entry point \<open>ISR i\<close> in the
  given code segment, present, with privilege level 0, except gate 128, which user mode may call.
\<close>

theorem IDT_Initialize_gates:
  assumes "length g = 256"
  shows "\<exists>g'. IDT_Initialize ISR code g = Inr g' \<and> length g' = 256 \<and>
    (\<forall>i < 256. gate_for ISR code (if i = 128 then 0xEE else 0x8E) i (g' ! i))"
proof -
  obtain e where e: "set_isr ISR code 0xEE 128 g = Inr (g[128 := e])" "gate_for ISR code 0xEE 128 e"
    using set_isr_ok [of 128 g "0xEE" ISR code] assms by auto
  obtain g' where g': "set_isrs ISR code other_gates (g[128 := e]) = Inr g'" "length g' = 256"
      "\<forall>i < 256. if i \<in> set other_gates then gate_for ISR code 0x8E i (g' ! i)
         else g' ! i = g[128 := e] ! i"
    using set_isrs_ok [of other_gates "g[128 := e]" ISR code] assms other_gates by auto
  have "gate_for ISR code (if i = 128 then 0xEE else 0x8E) i (g' ! i)" if "i < 256" for i
    using g'(3) [rule_format, OF that] e(2) assms that other_gates by (auto split: if_splits)
  then show ?thesis using e(1) g'(1,2) by (auto simp: IDT_Initialize_def SetISRs_list)
qed

definition blank_gate :: idt_entry_t where
  "blank_gate = \<lparr>isr_low = 0, kernel_cs = 0, ist = 0, idt_flags = 0, isr_mid = 0, isr_high = 0, idt_reserved = 0\<rparr>"

theorem IDT_Initialize_gates_witness:
  "\<exists>g'. IDT_Initialize (\<lambda>i. 0x100000 + of_nat i * 16) 8 (replicate 256 blank_gate) = Inr g' \<and>
     gate_for (\<lambda>i. 0x100000 + of_nat i * 16) 8 0xEE 128 (g' ! 128)"
proof -
  let ?I = "\<lambda>i. 0x100000 + of_nat i * 16 :: u64"
  obtain g' where g': "IDT_Initialize ?I 8 (replicate 256 blank_gate) = Inr g'"
      "\<forall>i < 256. gate_for ?I 8 (if i = 128 then 0xEE else 0x8E) i (g' ! i)"
    using IDT_Initialize_gates [of "replicate 256 blank_gate" ?I 8] by (auto simp del: replicate.simps)
  from g'(2) [rule_format, of 128] have "gate_for ?I 8 0xEE 128 (g' ! 128)" by simp
  with g'(1) show ?thesis by blast
qed

end
