(* ===== verification/Isr.thy ===== *)
theory Isr
  imports Idt
begin

text \<open>
  Interrupt dispatch: \<open>src/src/interrupts/isr.c\<close> and \<open>irq.c\<close>, and the handlers that
  \<open>src/src/exceptions/exceptions.c\<close> installs. A handler is a function pointer; the model
  names the handlers the sources install and leaves the others as numbers. What a dispatch
  does is the handler it calls, and whether the local APIC gets an end of interrupt.
\<close>

section \<open>Definitions\<close>

datatype handler =
  IRQ_Handler_ptr
| InvalidOpcodeException_ptr
| GeneralProtectionFault_ptr
| PageFaultHandler_ptr
| syscall_ptr
| other_handler nat

datatype irq_handler =
  SchedulerInterrupt_ptr
| Scheduler_LOOP_ROUND_ROBIN_ptr
| KeyboardHandlerImpl_ptr
| XHCI_INT_ptr
| XHCI_IRQ8_ptr
| USBIrqImpl_ptr
| APIC_TIMER_INT_ptr
| TIMER_WAIT_INT_ptr
| other_irq_handler nat

record interrupts =
  g_ISRHandlers :: "handler option list"
  g_IRQHandlers :: "irq_handler option list"

definition ISR_addHandler :: "int \<Rightarrow> handler \<Rightarrow> interrupts \<Rightarrow> interrupts outcome" where
  "ISR_addHandler n h s =
     (if 0 \<le> n then andthen (array_set (g_ISRHandlers s) (nat n) (Some h)) (\<lambda>t. Inr (s\<lparr>g_ISRHandlers := t\<rparr>))
      else Inl OutOfBounds)"

definition IRQ_RegisterHandler :: "int \<Rightarrow> irq_handler \<Rightarrow> interrupts \<Rightarrow> interrupts outcome" where
  "IRQ_RegisterHandler irq h s =
     (if 0 \<le> irq then andthen (array_set (g_IRQHandlers s) (nat irq) (Some h)) (\<lambda>t. Inr (s\<lparr>g_IRQHandlers := t\<rparr>))
      else Inl OutOfBounds)"

datatype dispatch = Calls handler | Ignored

text \<open>\<open>ISR_Handler\<close>: the frame with the number truncated to an \<open>int\<close>, and what is called. An
  exception without a handler stops the processor.\<close>

definition ISR_Handler :: "interrupts \<Rightarrow> registers \<Rightarrow> (dispatch \<times> registers) outcome" where
  "ISR_Handler s r =
     (let n = long_to_int (interupt r);
          r = r\<lparr>interupt := of_int n\<rparr>
      in if n < 0 then Inl OutOfBounds
         else andthen (array_get (g_ISRHandlers s) (nat n)) (\<lambda>h.
           case h of
             Some f \<Rightarrow> Inr (Calls f, r)
           | None \<Rightarrow> if n \<ge> 32 then Inr (Ignored, r) else Inl Halted))"

text \<open>\<open>IRQ_Handler\<close>: the registered handler, if there is one; an end of interrupt is always sent.\<close>

definition IRQ_Handler :: "interrupts \<Rightarrow> registers \<Rightarrow> irq_handler option outcome" where
  "IRQ_Handler s r =
     (let irq = int32 (sint (interupt r) - 0x20)
      in if irq < 0 then Inl OutOfBounds else array_get (g_IRQHandlers s) (nat irq))"

text \<open>\<open>IRQ_Initialize\<close>: the sixteen vectors from 0x20 lead to \<open>IRQ_Handler\<close>. The programming of
  the legacy PIC is left to its own component.\<close>

fun add_irqs :: "nat list \<Rightarrow> interrupts \<Rightarrow> interrupts outcome" where
  "add_irqs [] s = Inr s"
| "add_irqs (i # js) s = andthen (ISR_addHandler (0x20 + int i) IRQ_Handler_ptr s) (add_irqs js)"

definition IRQ_Initialize :: "interrupts \<Rightarrow> interrupts outcome" where
  "IRQ_Initialize s = add_irqs [0..<16] s"

definition ExceptionInit :: "interrupts \<Rightarrow> interrupts outcome" where
  "ExceptionInit s =
     andthen (ISR_addHandler 6 InvalidOpcodeException_ptr s) (\<lambda>s.
     andthen (ISR_addHandler 13 GeneralProtectionFault_ptr s) (\<lambda>s.
     andthen (ISR_addHandler 14 PageFaultHandler_ptr s) (\<lambda>s.
     ISR_addHandler 0x80 syscall_ptr s)))"

definition KeyboardInstall :: "interrupts \<Rightarrow> interrupts outcome" where
  "KeyboardInstall s = IRQ_RegisterHandler 1 KeyboardHandlerImpl_ptr s"

section \<open>Lemmas\<close>

definition int_ok :: "interrupts \<Rightarrow> bool" where
  "int_ok s \<longleftrightarrow> length (g_ISRHandlers s) = 256 \<and> length (g_IRQHandlers s) = 16"

lemma ISR_addHandler_ok:
  "int_ok s \<Longrightarrow> 0 \<le> n \<Longrightarrow> n < 256 \<Longrightarrow>
   ISR_addHandler n h s = Inr (s\<lparr>g_ISRHandlers := (g_ISRHandlers s)[nat n := Some h]\<rparr>) \<and>
   int_ok (s\<lparr>g_ISRHandlers := (g_ISRHandlers s)[nat n := Some h]\<rparr>)"
  by (simp add: ISR_addHandler_def array_set_def int_ok_def)

lemma add_irqs_ok:
  "int_ok s \<Longrightarrow> \<forall>i \<in> set js. i < 16 \<Longrightarrow>
   \<exists>s'. add_irqs js s = Inr s' \<and> int_ok s' \<and> g_IRQHandlers s' = g_IRQHandlers s \<and>
     (\<forall>n < 256. g_ISRHandlers s' ! n =
        (if 32 \<le> n \<and> n - 32 \<in> set js then Some IRQ_Handler_ptr else g_ISRHandlers s ! n))"
proof (induction js arbitrary: s)
  case Nil
  then show ?case by simp
next
  case (Cons i js)
  let ?s1 = "s\<lparr>g_ISRHandlers := (g_ISRHandlers s)[32 + i := Some IRQ_Handler_ptr]\<rparr>"
  have "nat (0x20 + int i) = 32 + i" by simp
  then have a: "ISR_addHandler (0x20 + int i) IRQ_Handler_ptr s = Inr ?s1" "int_ok ?s1"
    using ISR_addHandler_ok [OF Cons.prems(1), of "0x20 + int i" IRQ_Handler_ptr] Cons.prems(2) by simp_all
  obtain s' where s': "add_irqs js ?s1 = Inr s'" "int_ok s'" "g_IRQHandlers s' = g_IRQHandlers ?s1"
      "\<forall>n < 256. g_ISRHandlers s' ! n =
        (if 32 \<le> n \<and> n - 32 \<in> set js then Some IRQ_Handler_ptr else g_ISRHandlers ?s1 ! n)"
    using Cons.IH [OF a(2)] Cons.prems(2) by auto
  have len: "length (g_ISRHandlers s) = 256" using Cons.prems(1) by (simp add: int_ok_def)
  have "g_ISRHandlers s' ! n =
      (if 32 \<le> n \<and> n - 32 \<in> set (i # js) then Some IRQ_Handler_ptr else g_ISRHandlers s ! n)" if "n < 256" for n
    using s'(4) [rule_format, OF that] len that by (auto simp: nth_list_update)
  with a(1) s' show ?case by auto
qed

section \<open>Properties\<close>

text \<open>
  after \<open>IRQ_Initialize\<close> and \<open>ExceptionInit\<close> on empty tables, a frame for vector \<open>n\<close> goes to
  the invalid-opcode, protection-fault, page-fault and system-call handlers for 6, 13, 14 and
  128, to \<open>IRQ_Handler\<close> for 32 to 47, stops the processor for the other exceptions and is
  ignored for the other vectors.
\<close>

theorem boot_dispatch:
  assumes "n < 256"
  shows "\<exists>s. andthen (IRQ_Initialize \<lparr>g_ISRHandlers = replicate 256 None, g_IRQHandlers = replicate 16 None\<rparr>)
      ExceptionInit = Inr s \<and>
    ISR_Handler s (r\<lparr>interupt := of_nat n\<rparr>) =
      (if n = 6 then Inr (Calls InvalidOpcodeException_ptr, r\<lparr>interupt := of_nat n\<rparr>)
       else if n = 13 then Inr (Calls GeneralProtectionFault_ptr, r\<lparr>interupt := of_nat n\<rparr>)
       else if n = 14 then Inr (Calls PageFaultHandler_ptr, r\<lparr>interupt := of_nat n\<rparr>)
       else if n = 128 then Inr (Calls syscall_ptr, r\<lparr>interupt := of_nat n\<rparr>)
       else if 32 \<le> n \<and> n < 48 then Inr (Calls IRQ_Handler_ptr, r\<lparr>interupt := of_nat n\<rparr>)
       else if n < 32 then Inl Halted else Inr (Ignored, r\<lparr>interupt := of_nat n\<rparr>))"
proof -
  let ?s0 = "\<lparr>g_ISRHandlers = replicate 256 None, g_IRQHandlers = replicate 16 None\<rparr> :: interrupts"
  have "int_ok ?s0" unfolding int_ok_def by simp
  then obtain s1 where s1: "IRQ_Initialize ?s0 = Inr s1" "int_ok s1"
      "\<forall>n < 256. g_ISRHandlers s1 ! n = (if 32 \<le> n \<and> n - 32 < 16 then Some IRQ_Handler_ptr else None)"
    using add_irqs_ok [of ?s0 "[0..<16]"] unfolding IRQ_Initialize_def set_upt by auto
  let ?t = "(g_ISRHandlers s1)[6 := Some InvalidOpcodeException_ptr, 13 := Some GeneralProtectionFault_ptr,
      14 := Some PageFaultHandler_ptr, 128 := Some syscall_ptr]"
  have l: "length (g_ISRHandlers s1) = 256" using s1(2) by (simp add: int_ok_def)
  have e: "ExceptionInit s1 = Inr (s1\<lparr>g_ISRHandlers := ?t\<rparr>)"
    using l by (simp add: ExceptionInit_def ISR_addHandler_def array_set_def)
  have i: "long_to_int (of_nat n) = int n" using assms long_to_int_small [of "of_nat n"] by simp
  have t: "?t ! n = (if n = 6 then Some InvalidOpcodeException_ptr else if n = 13 then Some GeneralProtectionFault_ptr
      else if n = 14 then Some PageFaultHandler_ptr else if n = 128 then Some syscall_ptr
      else if 32 \<le> n \<and> n < 48 then Some IRQ_Handler_ptr else None)"
    using s1(3) [rule_format, OF assms] l assms by (auto simp: nth_list_update)
  have "ISR_Handler (s1\<lparr>g_ISRHandlers := ?t\<rparr>) (r\<lparr>interupt := of_nat n\<rparr>) =
      (case ?t ! n of Some f \<Rightarrow> Inr (Calls f, r\<lparr>interupt := of_nat n\<rparr>)
       | None \<Rightarrow> if n \<ge> 32 then Inr (Ignored, r\<lparr>interupt := of_nat n\<rparr>) else Inl Halted)"
    using l assms by (cases "?t ! n") (simp_all add: ISR_Handler_def i array_get_def Let_def)
  then show ?thesis unfolding t using s1(1) e
    by (intro exI [of _ "s1\<lparr>g_ISRHandlers := ?t\<rparr>"]) auto
qed

theorem boot_dispatch_witness:
  "\<forall>r. \<exists>s. andthen (IRQ_Initialize \<lparr>g_ISRHandlers = replicate 256 None, g_IRQHandlers = replicate 16 None\<rparr>)
      ExceptionInit = Inr s \<and>
    ISR_Handler s (r\<lparr>interupt := 128\<rparr>) = Inr (Calls syscall_ptr, r\<lparr>interupt := 128\<rparr>)"
  using boot_dispatch [of 128] by simp

text \<open>
  once a handler is registered for one of the sixteen IRQ lines, \<open>IRQ_Handler\<close> calls it for
  the vector \<open>32 + irq\<close>, and the other lines keep their handlers.
\<close>

theorem IRQ_RegisterHandler_called:
  assumes "int_ok s" "irq < 16" "j < 16"
  shows "\<exists>s'. IRQ_RegisterHandler (int irq) h s = Inr s' \<and> int_ok s' \<and>
    IRQ_Handler s' (r\<lparr>interupt := of_nat (32 + j)\<rparr>) =
      Inr (if j = irq then Some h else g_IRQHandlers s ! j)"
proof -
  have "sint (of_nat (32 + j) :: u64) = int (32 + j)"
    using assms(3) by (subst sint_small_u64) (simp_all del: of_nat_add)
  then show ?thesis using assms
    by (auto simp: IRQ_RegisterHandler_def IRQ_Handler_def array_set_def array_get_def int_ok_def Let_def)
qed

theorem IRQ_RegisterHandler_called_witness:
  "\<forall>r. \<exists>s'. IRQ_RegisterHandler 1 KeyboardHandlerImpl_ptr
       \<lparr>g_ISRHandlers = replicate 256 None, g_IRQHandlers = replicate 16 None\<rparr> = Inr s' \<and>
     IRQ_Handler s' (r\<lparr>interupt := 33\<rparr>) = Inr (Some KeyboardHandlerImpl_ptr)"
proof
  fix r :: registers
  let ?s = "\<lparr>g_ISRHandlers = replicate 256 None, g_IRQHandlers = replicate 16 None\<rparr> :: interrupts"
  have "int_ok ?s" unfolding int_ok_def by simp
  from IRQ_RegisterHandler_called [OF this, of 1 1 KeyboardHandlerImpl_ptr r]
  show "\<exists>s'. IRQ_RegisterHandler 1 KeyboardHandlerImpl_ptr ?s = Inr s' \<and>
     IRQ_Handler s' (r\<lparr>interupt := 33\<rparr>) = Inr (Some KeyboardHandlerImpl_ptr)" by auto
qed

end
