(* ===== verification/Elf.thy ===== *)
theory Elf
  imports KMalloc
begin

text \<open>
  The ELF reader of \<open>src/src/specifications/elf/elf.c\<close>. The file image, its section headers
  and its symbols stand in memory; \<open>ELF_FILE\<close> holds pointers to them. A section or symbol name
  given as a C literal is a byte list: comparing \<open>strlen\<close> of its bytes with \<open>strncmp\<close> is comparing
  that many bytes of memory with it.
\<close>

section \<open>Definitions\<close>

record ELF_FILE =
  elf_file :: u64
  elf_len :: int
  elf_header :: u64
  elf_sections :: u64
  elf_name :: u64
  elf_symbolTable :: u64
  elf_stringTable :: u64
  elf_rela :: u64
  elf_symbols :: u64

text \<open>Fields of the ELF header at \<open>h\<close>, of a section header at \<open>p\<close> and of a symbol at \<open>p\<close>.\<close>

definition Ident_Class :: "mem \<Rightarrow> u64 \<Rightarrow> u8" where "Ident_Class m h = m (h + 4)"
definition Ident_OsAbi :: "mem \<Rightarrow> u64 \<Rightarrow> u8" where "Ident_OsAbi m h = m (h + 7)"
definition ELF_Type :: "mem \<Rightarrow> u64 \<Rightarrow> u16" where "ELF_Type m h = U16 m (h + 16)"
definition SectionHeaderOffset :: "mem \<Rightarrow> u64 \<Rightarrow> u64" where "SectionHeaderOffset m h = U64 m (h + 40)"
definition SectionHeaderCount :: "mem \<Rightarrow> u64 \<Rightarrow> u16" where "SectionHeaderCount m h = U16 m (h + 60)"
definition SectionNameTableIndex :: "mem \<Rightarrow> u64 \<Rightarrow> u16" where "SectionNameTableIndex m h = U16 m (h + 62)"
definition NameOffset :: "mem \<Rightarrow> u64 \<Rightarrow> u32" where "NameOffset m p = U32 m p"
definition sec_Addr :: "mem \<Rightarrow> u64 \<Rightarrow> u64" where "sec_Addr m p = U64 m (p + 16)"
definition sec_Offset :: "mem \<Rightarrow> u64 \<Rightarrow> u64" where "sec_Offset m p = U64 m (p + 24)"
definition sec_Size :: "mem \<Rightarrow> u64 \<Rightarrow> u64" where "sec_Size m p = U64 m (p + 32)"
definition sec_EntrySize :: "mem \<Rightarrow> u64 \<Rightarrow> u64" where "sec_EntrySize m p = U64 m (p + 56)"
definition sym_Name :: "mem \<Rightarrow> u64 \<Rightarrow> u32" where "sym_Name m p = U32 m p"
definition sym_SectionTableIndex :: "mem \<Rightarrow> u64 \<Rightarrow> u16" where "sym_SectionTableIndex m p = U16 m (p + 6)"

text \<open>\<open>strncmp(name,literal,strlen(literal))==0\<close>\<close>

definition has_prefix :: "mem \<Rightarrow> u64 \<Rightarrow> u8 list \<Rightarrow> bool" where
  "has_prefix m name lit \<longleftrightarrow> load_bytes m name (length lit) = lit"

text \<open>Section header \<open>i\<close> and symbol \<open>i\<close>, and their names.\<close>

definition section_at :: "ELF_FILE \<Rightarrow> nat \<Rightarrow> u64" where
  "section_at elf i = elf_sections elf + of_nat i * 64"

definition section_name :: "mem \<Rightarrow> ELF_FILE \<Rightarrow> nat \<Rightarrow> u64" where
  "section_name m elf i = elf_file elf + sec_Offset m (elf_name elf) + ucast (NameOffset m (section_at elf i))"

definition ELF_LookUpSection :: "mem \<Rightarrow> ELF_FILE \<Rightarrow> u8 list \<Rightarrow> u64" where
  "ELF_LookUpSection m elf sectionName =
     (case find (\<lambda>i. has_prefix m (section_name m elf i) sectionName)
             [0..<unat (SectionHeaderCount m (elf_header elf))] of
        None \<Rightarrow> 0
      | Some i \<Rightarrow> section_at elf i)"

definition symbol_at :: "mem \<Rightarrow> ELF_FILE \<Rightarrow> nat \<Rightarrow> u64" where
  "symbol_at m elf i = elf_file elf + sec_Offset m (elf_symbolTable elf) + of_nat i * 24"

definition symbol_name :: "mem \<Rightarrow> ELF_FILE \<Rightarrow> nat \<Rightarrow> u64" where
  "symbol_name m elf i =
     elf_file elf + sec_Offset m (elf_stringTable elf) + ucast (sym_Name m (symbol_at m elf i))"

definition ELF_LookUpSymbol :: "mem \<Rightarrow> ELF_FILE \<Rightarrow> u8 list \<Rightarrow> u64 outcome" where
  "ELF_LookUpSymbol m elf symname =
     (if sec_EntrySize m (elf_symbolTable elf) = 0 then Inl DivByZero
      else Inr (case find (\<lambda>i. has_prefix m (symbol_name m elf i) symname)
             [0..<unat (sec_Size m (elf_symbolTable elf) div sec_EntrySize m (elf_symbolTable elf))] of
        None \<Rightarrow> 0
      | Some i \<Rightarrow> symbol_at m elf i))"

abbreviation (input) ERROR_ELF_NO_MAGIC :: int where "ERROR_ELF_NO_MAGIC \<equiv> - 1"
abbreviation (input) ERROR_ELF_UNSUPPORTED_ABI :: int where "ERROR_ELF_UNSUPPORTED_ABI \<equiv> - 2"
abbreviation (input) ERROR_ELF_UNSUPPORTED_ARCH :: int where "ERROR_ELF_UNSUPPORTED_ARCH \<equiv> - 3"
abbreviation (input) ERROR_ELF_NO_STRING_TABLE :: int where "ERROR_ELF_NO_STRING_TABLE \<equiv> - 4"
abbreviation (input) ERROR_ELF_NO_SYMBOL_TABLE :: int where "ERROR_ELF_NO_SYMBOL_TABLE \<equiv> - 5"
abbreviation (input) ERROR_ELF_UNSUPPORTED_TYPE :: int where "ERROR_ELF_UNSUPPORTED_TYPE \<equiv> - 6"

definition errno_ELF :: "int \<Rightarrow> string" where
  "errno_ELF x =
     (if x = ERROR_ELF_NO_MAGIC then ''ERROR_ELF_NO_MAGIC''
      else if x = ERROR_ELF_UNSUPPORTED_ABI then ''ERROR_ELF_UNSUPPORTED_ABI''
      else if x = ERROR_ELF_UNSUPPORTED_ARCH then ''ERROR_ELF_UNSUPPORTED_ARCH''
      else if x = ERROR_ELF_NO_STRING_TABLE then ''ERROR_ELF_NO_STRING_TABLE''
      else if x = ERROR_ELF_NO_SYMBOL_TABLE then ''ERROR_ELF_NO_SYMBOL_TABLE''
      else if x = ERROR_ELF_UNSUPPORTED_TYPE then ''ERROR_ELF_UNSUPPORTED_TYPE''
      else ''MESSAGE NOT FOUND'')"

definition ELF_MAGIC :: "u8 list" where "ELF_MAGIC = [0x7F, 0x45, 0x4C, 0x46]"
definition dot_symtab :: "u8 list" where "dot_symtab = [0x2e, 0x73, 0x79, 0x6d, 0x74, 0x61, 0x62]"
definition dot_strtab :: "u8 list" where "dot_strtab = [0x2e, 0x73, 0x74, 0x72, 0x74, 0x61, 0x62]"
definition dot_rela :: "u8 list" where "dot_rela = [0x2e, 0x72, 0x65, 0x6c, 0x61]"

definition ELF_PARSE :: "mem \<Rightarrow> ELF_FILE \<Rightarrow> u64 \<Rightarrow> int \<Rightarrow> int \<times> ELF_FILE" where
  "ELF_PARSE m elf file len =
     (let elf = elf\<lparr>elf_header := file, elf_file := file, elf_len := len\<rparr>
      in if load_bytes m file 4 \<noteq> ELF_MAGIC then (ERROR_ELF_NO_MAGIC, elf)
      else if Ident_Class m file \<noteq> 2 then (ERROR_ELF_UNSUPPORTED_ARCH, elf)
      else if Ident_OsAbi m file \<noteq> 0 then (ERROR_ELF_UNSUPPORTED_ABI, elf)
      else if ELF_Type m file \<noteq> 2 \<and> ELF_Type m file \<noteq> 3 then (ERROR_ELF_UNSUPPORTED_TYPE, elf)
      else
        let elf = elf\<lparr>elf_sections := file + SectionHeaderOffset m file\<rparr>;
            elf = elf\<lparr>elf_name := section_at elf (unat (SectionNameTableIndex m file))\<rparr>;
            elf = elf\<lparr>elf_symbolTable := ELF_LookUpSection m elf dot_symtab\<rparr>;
            elf = elf\<lparr>elf_stringTable := ELF_LookUpSection m elf dot_strtab\<rparr>;
            elf = elf\<lparr>elf_rela := ELF_LookUpSection m elf dot_rela\<rparr>
        in if elf_symbolTable elf = 0 then (ERROR_ELF_NO_SYMBOL_TABLE, elf)
           else if elf_stringTable elf = 0 then (ERROR_ELF_NO_STRING_TABLE, elf)
           else (1, elf))"

text \<open>A small executable: two sections, \<open>.symtab\<close> and \<open>.strtab\<close>, at 0x1000.\<close>

definition elf_example :: mem where
  "elf_example = (\<lambda>a. if a = 0x1000 then 0x7f else if a = 0x1001 then 0x45 else if a = 0x1002 then 0x4c else if a =
     0x1003 then 0x46 else if a = 0x1004 then 0x2 else if a = 0x1010 then 0x2 else if a = 0x1028 then
     0x40 else if a = 0x103a then 0x40 else if a = 0x103c then 0x3 else if a = 0x103e then 0x2 else if a = 0x1080 then 0x8 else if
     a = 0x10d9 then 0x1 else if a = 0x1100 then 0x2e else if a = 0x1101 then 0x73 else if a = 0x1102
     then 0x79 else if a = 0x1103 then 0x6d else if a = 0x1104 then 0x74 else if a = 0x1105 then 0x61
     else if a = 0x1106 then 0x62 else if a = 0x1108 then 0x2e else if a = 0x1109 then 0x73 else if a
     = 0x110a then 0x74 else if a = 0x110b then 0x72 else if a = 0x110c then 0x74 else if a = 0x110d
     then 0x61 else if a = 0x110e then 0x62 else 0)"

definition elf_blank :: ELF_FILE where
  "elf_blank = \<lparr>elf_file = 0x1000, elf_len = 0, elf_header = 0x1000, elf_sections = 0x1040, elf_name = 0x10C0,
     elf_symbolTable = 0, elf_stringTable = 0, elf_rela = 0, elf_symbols = 0\<rparr>"

section \<open>The file format\<close>

text \<open>
  The ELF64 file header and section header as the format defines them, and their bytes in file
  order. \<open>sections_at\<close>: the section table of the file at \<open>a\<close> holds the headers \<open>shs\<close>, and the names
  found through the table of section names are \<open>nms\<close>.
\<close>

record Elf64_Ehdr =
  e_class :: u8
  e_data :: u8
  e_iversion :: u8
  e_osabi :: u8
  e_ipad :: "u8 list"
  e_type :: u16
  e_machine :: u16
  e_version :: u32
  e_entry :: u64
  e_phoff :: u64
  e_shoff :: u64
  e_flags :: u32
  e_ehsize :: u16
  e_phentsize :: u16
  e_phnum :: u16
  e_shentsize :: u16
  e_shnum :: u16
  e_shstrndx :: u16

definition ehdr_bytes :: "u8 list \<Rightarrow> Elf64_Ehdr \<Rightarrow> u8 list" where
  "ehdr_bytes magic e = magic @ [e_class e, e_data e, e_iversion e, e_osabi e] @ e_ipad e @
     le_bytes 2 (unat (e_type e)) @ le_bytes 2 (unat (e_machine e)) @ le_bytes 4 (unat (e_version e)) @
     le_bytes 8 (unat (e_entry e)) @ le_bytes 8 (unat (e_phoff e)) @ le_bytes 8 (unat (e_shoff e)) @
     le_bytes 4 (unat (e_flags e)) @ le_bytes 2 (unat (e_ehsize e)) @ le_bytes 2 (unat (e_phentsize e)) @
     le_bytes 2 (unat (e_phnum e)) @ le_bytes 2 (unat (e_shentsize e)) @ le_bytes 2 (unat (e_shnum e)) @
     le_bytes 2 (unat (e_shstrndx e))"

record Elf64_Shdr =
  sh_name :: u32
  sh_type :: u32
  sh_flags :: u64
  sh_addr :: u64
  sh_offset :: u64
  sh_rest :: "u8 list"

definition shdr_bytes :: "Elf64_Shdr \<Rightarrow> u8 list" where
  "shdr_bytes h = le_bytes 4 (unat (sh_name h)) @ le_bytes 4 (unat (sh_type h)) @ le_bytes 8 (unat (sh_flags h)) @
     le_bytes 8 (unat (sh_addr h)) @ le_bytes 8 (unat (sh_offset h)) @ sh_rest h"

definition header_at :: "mem \<Rightarrow> u64 \<Rightarrow> u8 list \<Rightarrow> Elf64_Ehdr \<Rightarrow> bool" where
  "header_at m a magic e \<longleftrightarrow> load_bytes m a 64 = ehdr_bytes magic e \<and> length magic = 4 \<and> length (e_ipad e) = 8"

definition sections_at :: "mem \<Rightarrow> u64 \<Rightarrow> Elf64_Ehdr \<Rightarrow> Elf64_Shdr list \<Rightarrow> u8 list list \<Rightarrow> bool" where
  "sections_at m a e shs nms \<longleftrightarrow>
     e_shentsize e = 64 \<and> length shs = unat (e_shnum e) \<and> length nms = length shs \<and> unat (e_shstrndx e) < length shs \<and>
     0 < unat a + unat (e_shoff e) \<and> unat a + unat (e_shoff e) + 64 * length shs \<le> 2 ^ 64 \<and>
     (\<forall>i < length shs. load_bytes m (a + e_shoff e + of_nat (64 * i)) 64 = shdr_bytes (shs ! i) \<and>
        length (sh_rest (shs ! i)) = 32 \<and>
        cstring m (a + sh_offset (shs ! unat (e_shstrndx e)) + ucast (sh_name (shs ! i))) (nms ! i))"

text \<open>The address of the first section header whose name starts with \<open>lit\<close>.\<close>

definition first_section :: "u64 \<Rightarrow> Elf64_Ehdr \<Rightarrow> u8 list list \<Rightarrow> u8 list \<Rightarrow> u64 option" where
  "first_section a e nms lit =
     map_option (\<lambda>i. a + e_shoff e + of_nat (64 * i)) (find (\<lambda>i. take (length lit) (nms ! i) = lit) [0..<length nms])"

section \<open>Lemmas\<close>

lemma ELF_LookUpSection_cases:
  assumes "ELF_LookUpSection m elf nm = p" "p \<noteq> 0"
  shows "\<exists>i < unat (SectionHeaderCount m (elf_header elf)). p = section_at elf i \<and>
    has_prefix m (section_name m elf i) nm \<and> (\<forall>j < i. \<not> has_prefix m (section_name m elf j) nm)"
  using assms
  by (cases "find (\<lambda>i. has_prefix m (section_name m elf i) nm)
      [0..<unat (SectionHeaderCount m (elf_header elf))]")
    (auto simp: ELF_LookUpSection_def find_Some_iff)

lemma has_prefix_strncmp:
  assumes "cstring m lit bs" "length bs < 2 ^ 64"
  shows "has_prefix m name bs \<longleftrightarrow> strncmp m name lit (of_nat (length bs)) = 0"
proof -
  have "load_bytes m lit (length bs) = bs"
    using assms(1) load_bytes_append [of m lit "length bs" 1] by (simp add: cstring_def)
  then show ?thesis using assms(2) by (simp add: has_prefix_def strncmp_zero_iff)
qed

lemma section_at_update [simp]:
  "section_at (elf\<lparr>elf_symbolTable := x\<rparr>) = section_at elf"
  "section_at (elf\<lparr>elf_stringTable := x\<rparr>) = section_at elf"
  "section_at (elf\<lparr>elf_rela := x\<rparr>) = section_at elf"
  by (simp_all add: section_at_def fun_eq_iff)

lemma lookup_update [simp]:
  "ELF_LookUpSection m (elf\<lparr>elf_symbolTable := x\<rparr>) nm = ELF_LookUpSection m elf nm"
  "ELF_LookUpSection m (elf\<lparr>elf_stringTable := x\<rparr>) nm = ELF_LookUpSection m elf nm"
  "ELF_LookUpSection m (elf\<lparr>elf_rela := x\<rparr>) nm = ELF_LookUpSection m elf nm"
  by (simp_all add: ELF_LookUpSection_def section_name_def cong: option.case_cong)

lemma header_fields:
  assumes "header_at m a magic e"
  shows "load_bytes m a 4 = magic" "Ident_Class m a = e_class e" "Ident_OsAbi m a = e_osabi e" "ELF_Type m a = e_type e"
    "SectionHeaderOffset m a = e_shoff e" "SectionHeaderCount m a = e_shnum e" "SectionNameTableIndex m a = e_shstrndx e"
proof -
  have l: "length magic = 4" "length (e_ipad e) = 8" and b: "load_bytes m a 64 = ehdr_bytes magic e"
    using assms by (simp_all add: header_at_def)
  have sl: "load_bytes m (a + of_nat off) n = take n (drop off (ehdr_bytes magic e))" if "off + n \<le> 64" for off n
    using load_bytes_slice [OF that, of m a] b by simp
  show "load_bytes m a 4 = magic" using sl [of 0 4] l by (simp add: ehdr_bytes_def)
  have "load_bytes m (a + 4) 1 = [e_class e]" "load_bytes m (a + 7) 1 = [e_osabi e]"
    using sl [of 4 1] sl [of 7 1] l by (simp_all add: ehdr_bytes_def)
  then show "Ident_Class m a = e_class e" "Ident_OsAbi m a = e_osabi e" by (simp_all add: Ident_Class_def Ident_OsAbi_def)
  show "ELF_Type m a = e_type e" unfolding ELF_Type_def using sl [of 16 2] l by (intro U16_bytes) (simp add: ehdr_bytes_def)
  show "SectionHeaderOffset m a = e_shoff e"
    unfolding SectionHeaderOffset_def using sl [of 40 8] l by (intro U64_bytes) (simp add: ehdr_bytes_def)
  show "SectionHeaderCount m a = e_shnum e"
    unfolding SectionHeaderCount_def using sl [of 60 2] l by (intro U16_bytes) (simp add: ehdr_bytes_def)
  show "SectionNameTableIndex m a = e_shstrndx e"
    unfolding SectionNameTableIndex_def using sl [of 62 2] l by (intro U16_bytes) (simp add: ehdr_bytes_def)
qed

lemma shdr_fields:
  assumes "load_bytes m p 64 = shdr_bytes h" "length (sh_rest h) = 32"
  shows "NameOffset m p = sh_name h" "sec_Offset m p = sh_offset h"
proof -
  have sl: "load_bytes m (p + of_nat off) n = take n (drop off (shdr_bytes h))" if "off + n \<le> 64" for off n
    using load_bytes_slice [OF that, of m p] assms(1) by simp
  show "NameOffset m p = sh_name h"
    unfolding NameOffset_def using sl [of 0 4] by (intro U32_bytes) (simp add: shdr_bytes_def)
  show "sec_Offset m p = sh_offset h"
    unfolding sec_Offset_def using sl [of 24 8] by (intro U64_bytes) (simp add: shdr_bytes_def)
qed

lemma has_prefix_cstring:
  assumes c: "cstring m a nm" and z: "0 \<notin> set lit"
  shows "has_prefix m a lit \<longleftrightarrow> take (length lit) nm = lit"
proof (cases "length lit \<le> length nm")
  case True
  have "load_bytes m a (length lit) = take (length lit) nm"
    using load_bytes_append [of m a "length lit" "Suc (length nm) - length lit"] c True
    by (simp add: cstring_def append_eq_append_conv_if)
  then show ?thesis by (simp add: has_prefix_def)
next
  case False
  then have "length nm < length (load_bytes m a (length lit))" "load_bytes m a (length lit) ! length nm = 0"
    using cstring_end [OF c] by (simp_all add: load_bytes_nth)
  then have "0 \<in> set (load_bytes m a (length lit))" by (metis nth_mem)
  then have "\<not> has_prefix m a lit" using z by (auto simp: has_prefix_def)
  moreover have "take (length lit) nm \<noteq> lit" using False by (auto dest: arg_cong [where f = length])
  ultimately show ?thesis by simp
qed

lemma lookup_first_section:
  assumes h: "header_at m a magic e" and s: "sections_at m a e shs nms" and z: "0 \<notin> set lit"
    and elf: "elf_header elf = a" "elf_file elf = a" "elf_sections elf = a + e_shoff e"
      "elf_name elf = section_at elf (unat (e_shstrndx e))"
  shows "ELF_LookUpSection m elf lit = (case first_section a e nms lit of None \<Rightarrow> 0 | Some p \<Rightarrow> p)"
    "ELF_LookUpSection m elf lit = 0 \<longleftrightarrow> first_section a e nms lit = None"
proof -
  have sec: "section_at elf i = a + e_shoff e + of_nat (64 * i)" for i by (simp add: section_at_def elf(3) mult.commute)
  have len: "length shs = unat (e_shnum e)" "length nms = length shs" "unat (e_shstrndx e) < length shs"
    "0 < unat a + unat (e_shoff e)" "unat a + unat (e_shoff e) + 64 * length shs \<le> 2 ^ 64"
    using s by (simp_all add: sections_at_def)
  have i: "load_bytes m (section_at elf i) 64 = shdr_bytes (shs ! i)" "length (sh_rest (shs ! i)) = 32"
    "cstring m (a + sh_offset (shs ! unat (e_shstrndx e)) + ucast (sh_name (shs ! i))) (nms ! i)" if "i < length shs" for i
    using s that by (simp_all add: sections_at_def sec)
  have nm: "has_prefix m (section_name m elf i) lit \<longleftrightarrow> take (length lit) (nms ! i) = lit" if "i < length shs" for i
    using has_prefix_cstring [OF i(3) [OF that] z] shdr_fields [OF i(1,2) [OF that]] shdr_fields [OF i(1,2) [OF len(3)]]
    by (simp add: section_name_def elf)
  have fd: "find (\<lambda>i. has_prefix m (section_name m elf i) lit) [0..<unat (SectionHeaderCount m (elf_header elf))] =
      find (\<lambda>i. take (length lit) (nms ! i) = lit) [0..<length nms]"
    using nm len(1,2) header_fields(6) [OF h] by (intro find_cong) (simp_all add: elf)
  show eq: "ELF_LookUpSection m elf lit = (case first_section a e nms lit of None \<Rightarrow> 0 | Some p \<Rightarrow> p)"
    unfolding ELF_LookUpSection_def fd first_section_def sec [symmetric] by (auto split: option.split)
  have nz: "section_at elf i \<noteq> 0" if "i < length shs" for i
  proof -
    have "unat (a + e_shoff e) = unat a + unat (e_shoff e)"
      using len(5) that by (intro unat_add_lem [THEN iffD1]) simp
    moreover have "unat (a + e_shoff e + of_nat (64 * i)) = unat (a + e_shoff e) + 64 * i"
      using len(5) that calculation by (intro unat_add_of_nat) simp
    ultimately have "0 < unat (section_at elf i)" using len(4) by (simp add: sec)
    then show ?thesis by auto
  qed
  show "ELF_LookUpSection m elf lit = 0 \<longleftrightarrow> first_section a e nms lit = None"
  proof (cases "find (\<lambda>i. take (length lit) (nms ! i) = lit) [0..<length nms]")
    case (Some j)
    then have "j < length shs" using len(2) by (auto simp: find_Some_iff)
    then have "a + e_shoff e + of_nat (64 * j) \<noteq> 0" using nz by (simp only: sec) simp
    then show ?thesis using Some unfolding eq first_section_def by simp
  qed (simp add: eq first_section_def)
qed

lemma ELF_PARSE_sections:
  assumes "load_bytes m a 4 = ELF_MAGIC" "Ident_Class m a = 2" "Ident_OsAbi m a = 0" "ELF_Type m a = 2 \<or> ELF_Type m a = 3"
    and base: "base = elf0\<lparr>elf_header := a, elf_file := a, elf_len := len, elf_sections := a + SectionHeaderOffset m a,
      elf_name := a + SectionHeaderOffset m a + of_nat (unat (SectionNameTableIndex m a)) * 64\<rparr>"
  defines "symt \<equiv> ELF_LookUpSection m base dot_symtab" and "strt \<equiv> ELF_LookUpSection m base dot_strtab"
  shows "ELF_PARSE m elf0 a len = (if symt = 0 then - 5 else if strt = 0 then - 4 else 1,
    base\<lparr>elf_symbolTable := symt, elf_stringTable := strt, elf_rela := ELF_LookUpSection m base dot_rela\<rparr>)"
  using assms(1-4) by (auto simp: ELF_PARSE_def Let_def base section_at_def symt_def strt_def)

section \<open>Properties\<close>

text \<open>
  \<open>ELF_LookUpSection\<close> agrees with the loop over \<open>strncmp\<close>: it returns the header of the first
  section whose name starts with the given string (a longer name matches too), and NULL only
  when no section name does or the matching header stands at address 0.
\<close>

theorem ELF_LookUpSection_first_prefix:
  assumes "cstring m lit nm"
  shows "(\<forall>i < unat (SectionHeaderCount m (elf_header elf)).
      strncmp m (section_name m elf i) lit (of_nat (length nm)) = 0 \<longrightarrow>
      (\<forall>j < i. strncmp m (section_name m elf j) lit (of_nat (length nm)) \<noteq> 0) \<longrightarrow>
      ELF_LookUpSection m elf nm = section_at elf i) \<and>
    (ELF_LookUpSection m elf nm \<noteq> 0 \<longrightarrow>
      (\<exists>i < unat (SectionHeaderCount m (elf_header elf)).
         ELF_LookUpSection m elf nm = section_at elf i \<and>
         strncmp m (section_name m elf i) lit (of_nat (length nm)) = 0))"
proof -
  note hp = has_prefix_strncmp [OF assms cstring_length [OF assms]]
  let ?n = "unat (SectionHeaderCount m (elf_header elf))"
  have "ELF_LookUpSection m elf nm = section_at elf i"
    if "i < ?n" "has_prefix m (section_name m elf i) nm" "\<forall>j < i. \<not> has_prefix m (section_name m elf j) nm" for i
  proof -
    have "find (\<lambda>i. has_prefix m (section_name m elf i) nm) [0..<?n] = Some i"
      using that by (auto simp: find_Some_iff)
    then show ?thesis by (simp add: ELF_LookUpSection_def)
  qed
  then show ?thesis using ELF_LookUpSection_cases [of m elf nm] unfolding hp by metis
qed

theorem ELF_LookUpSection_first_prefix_witness:
  "cstring elf_example 0x1108 dot_strtab \<and>
   ELF_LookUpSection elf_example elf_blank dot_strtab = section_at elf_blank 1"
proof -
  have c: "cstring elf_example 0x1108 dot_strtab" by code_simp
  have "(1::nat) < unat (SectionHeaderCount elf_example (elf_header elf_blank))" by code_simp
  moreover have "strncmp elf_example (section_name elf_example elf_blank 1) 0x1108 (of_nat (length dot_strtab)) = 0"
    by code_simp
  moreover have "strncmp elf_example (section_name elf_example elf_blank 0) 0x1108 (of_nat (length dot_strtab)) \<noteq> 0"
    by code_simp
  ultimately show ?thesis using ELF_LookUpSection_first_prefix [OF c, of elf_blank] c by simp
qed

text \<open>
  C39: \<open>ELF_PARSE\<close> on a file given by its bytes. A wrong magic number, class, ABI or type is reported
  with its own code, in this order. Otherwise, for every section table \<open>shs\<close> with names \<open>nms\<close>,
  the symbol table, string table and relocation pointers are the headers of the first
  sections whose names start with \<open>.symtab\<close>, \<open>.strtab\<close> and \<open>.rela\<close> (NULL when there is none), and
  the result is -5 without a symbol table, -4 without a string table and 1 with both.
\<close>

theorem ELF_PARSE_image:
  assumes h: "header_at m a magic e"
  shows "(magic \<noteq> [0x7F, 0x45, 0x4C, 0x46] \<longrightarrow> fst (ELF_PARSE m elf0 a len) = - 1) \<and>
    (magic = [0x7F, 0x45, 0x4C, 0x46] \<longrightarrow>
      (e_class e \<noteq> 2 \<longrightarrow> fst (ELF_PARSE m elf0 a len) = - 3) \<and>
      (e_class e = 2 \<and> e_osabi e \<noteq> 0 \<longrightarrow> fst (ELF_PARSE m elf0 a len) = - 2) \<and>
      (e_class e = 2 \<and> e_osabi e = 0 \<and> e_type e \<notin> {2, 3} \<longrightarrow> fst (ELF_PARSE m elf0 a len) = - 6) \<and>
      (e_class e = 2 \<and> e_osabi e = 0 \<and> e_type e \<in> {2, 3} \<and> sections_at m a e shs nms \<longrightarrow>
        (let symt = first_section a e nms dot_symtab; strt = first_section a e nms dot_strtab
         in ELF_PARSE m elf0 a len = (if symt = None then - 5 else if strt = None then - 4 else 1,
              elf0\<lparr>elf_header := a, elf_file := a, elf_len := len, elf_sections := a + e_shoff e,
                elf_name := a + e_shoff e + of_nat (64 * unat (e_shstrndx e)),
                elf_symbolTable := case symt of None \<Rightarrow> 0 | Some p \<Rightarrow> p,
                elf_stringTable := case strt of None \<Rightarrow> 0 | Some p \<Rightarrow> p,
                elf_rela := case first_section a e nms dot_rela of None \<Rightarrow> 0 | Some p \<Rightarrow> p\<rparr>))))"
proof -
  note f = header_fields [OF h]
  have mg: "ELF_MAGIC = [0x7F, 0x45, 0x4C, 0x46]" by (simp add: ELF_MAGIC_def)
  let ?p = "\<lambda>q. case q of None \<Rightarrow> 0 | Some p \<Rightarrow> p"
  have ok: "let symt = first_section a e nms dot_symtab; strt = first_section a e nms dot_strtab
      in ELF_PARSE m elf0 a len = (if symt = None then - 5 else if strt = None then - 4 else 1,
           elf0\<lparr>elf_header := a, elf_file := a, elf_len := len, elf_sections := a + e_shoff e,
             elf_name := a + e_shoff e + of_nat (64 * unat (e_shstrndx e)),
             elf_symbolTable := ?p symt, elf_stringTable := ?p strt, elf_rela := ?p (first_section a e nms dot_rela)\<rparr>)"
    if g: "magic = [0x7F, 0x45, 0x4C, 0x46]" "e_class e = 2" "e_osabi e = 0" "e_type e \<in> {2, 3}" and s: "sections_at m a e shs nms"
  proof -
    define base where "base = elf0\<lparr>elf_header := a, elf_file := a, elf_len := len, elf_sections := a + SectionHeaderOffset m a,
      elf_name := a + SectionHeaderOffset m a + of_nat (unat (SectionNameTableIndex m a)) * 64\<rparr>"
    have b: "elf_header base = a" "elf_file base = a" "elf_sections base = a + e_shoff e"
      "elf_name base = section_at base (unat (e_shstrndx e))"
      by (simp_all add: base_def f section_at_def)
    have z: "0 \<notin> set dot_symtab" "0 \<notin> set dot_strtab" "0 \<notin> set dot_rela"
      by (simp_all add: dot_symtab_def dot_strtab_def dot_rela_def)
    note lk = lookup_first_section [OF h s _ b]
    have "ELF_PARSE m elf0 a len = (if first_section a e nms dot_symtab = None then - 5
        else if first_section a e nms dot_strtab = None then - 4 else 1,
      base\<lparr>elf_symbolTable := ?p (first_section a e nms dot_symtab), elf_stringTable := ?p (first_section a e nms dot_strtab),
        elf_rela := ?p (first_section a e nms dot_rela)\<rparr>)"
      using ELF_PARSE_sections [OF _ _ _ _ base_def] g f mg lk [OF z(1)] lk [OF z(2)] lk(1) [OF z(3)] by auto
    then show ?thesis by (simp add: Let_def base_def f mult.commute)
  qed
  show ?thesis
    using ok by (auto simp: ELF_PARSE_def f mg Let_def)
qed

lemma less_3_cases_all: "(\<forall>i < (3 :: nat). P i) \<longleftrightarrow> P 0 \<and> P 1 \<and> P 2"
  by (auto simp: less_Suc_eq numeral_eq_Suc)

text \<open>The example has the names \<open>.symtab\<close>, \<open>.strtab\<close> and again \<open>.symtab\<close>.\<close>

definition example_ehdr :: Elf64_Ehdr where
  "example_ehdr = \<lparr>e_class = 2, e_data = 0, e_iversion = 0, e_osabi = 0, e_ipad = replicate 8 0, e_type = 2, e_machine = 0,
     e_version = 0, e_entry = 0, e_phoff = 0, e_shoff = 0x40, e_flags = 0, e_ehsize = 0, e_phentsize = 0, e_phnum = 0,
     e_shentsize = 0x40, e_shnum = 3, e_shstrndx = 2\<rparr>"

definition example_shdrs :: "Elf64_Shdr list" where
  "example_shdrs = map (\<lambda>(n, off). \<lparr>sh_name = n, sh_type = 0, sh_flags = 0, sh_addr = 0, sh_offset = off, sh_rest = replicate 32 0\<rparr>)
     [(0, 0), (8, 0), (0, 0x100)]"

theorem ELF_PARSE_image_witness:
  "\<exists>elf. ELF_PARSE elf_example elf_blank 0x1000 272 = (1, elf) \<and> elf_symbolTable elf = 0x1040 \<and>
     elf_stringTable elf = 0x1080 \<and> elf_rela elf = 0"
proof -
  let ?nms = "[dot_symtab, dot_strtab, dot_symtab]"
  have h: "header_at elf_example 0x1000 [0x7F, 0x45, 0x4C, 0x46] example_ehdr" by code_simp
  let ?sec = "\<lambda>i. load_bytes elf_example (0x1000 + e_shoff example_ehdr + of_nat (64 * i)) 64 = shdr_bytes (example_shdrs ! i) \<and>
      length (sh_rest (example_shdrs ! i)) = 32 \<and> cstring elf_example (0x1000 + sh_offset (example_shdrs ! 2) +
        ucast (sh_name (example_shdrs ! i))) (?nms ! i)"
  have "?sec 0" "?sec 1" "?sec 2" by code_simp+
  then have "\<forall>i < 3. ?sec i" by (simp only: less_3_cases_all)
  moreover have "unat (e_shnum example_ehdr) = 3" "unat (e_shstrndx example_ehdr) = 2" "unat (e_shoff example_ehdr) = 64"
    "e_shentsize example_ehdr = 64" "length example_shdrs = 3" by code_simp+
  ultimately have s: "sections_at elf_example 0x1000 example_ehdr example_shdrs ?nms" by (simp add: sections_at_def)
  have f: "first_section 0x1000 example_ehdr ?nms dot_symtab = Some 0x1040"
    "first_section 0x1000 example_ehdr ?nms dot_strtab = Some 0x1080"
    "first_section 0x1000 example_ehdr ?nms dot_rela = None" by code_simp+
  have g: "e_class example_ehdr = 2" "e_osabi example_ehdr = 0" "e_type example_ehdr = 2" by code_simp+
  show ?thesis using ELF_PARSE_image [OF h, of elf_blank 272 example_shdrs ?nms] s f g by (simp add: Let_def)
qed

end
