(* ===== verification/Sched.thy ===== *)
theory Sched
  imports Vfs Isr Elf
begin

text \<open>
  Processes and their scheduler: \<open>src/src/schedule/Scheduler.c\<close>, \<open>Process.c\<close> and \<open>elf.c\<close>, with the
  dynamic array macros of \<open>src/src/utils/list/da_array.h\<close> they use. The \<open>Process\<close> objects live in
  a heap of their own, \<open>proc_heap\<close>, indexed by address; \<open>items\<close> and \<open>current\<close> of \<open>globalProcs\<close>
  are addresses in it (0 is NULL). A jump to user mode does not return, so an operation that
  may make one ends in \<open>Returns\<close> or in \<open>EntersUser\<close> with the register frame it loads.

  Byte memory is indexed by the addresses the kernel uses. That the window at 0x400000 shows
  the pages of the current process is the business of the page tables and not of this memory.
\<close>

section \<open>Definitions\<close>

record Memory =
  m_entry :: u64
  m_base :: u64
  m_stackTop :: u64
  m_stackBase :: u64

record Process =
  pid :: int
  memory :: Memory
  regs :: registers
  fd :: "FILE_DESC list"
  ready :: int
  block_type :: int

abbreviation (input) sizeof_Process :: u64 where "sizeof_Process \<equiv> 39144"

record ksched = kext2 +
  proc_heap :: "u64 \<Rightarrow> Process"
  procs_items :: u64
  procs_count :: u32
  procs_capacity :: u32
  procs_i :: u32
  procs_id :: u32
  procs_current :: u64

datatype ('r, 's) control = Returns 'r 's | EntersUser registers 's

definition zero_desc :: FILE_DESC where
  "zero_desc = \<lparr>dfile = \<lparr>ftype = 0, ext2_inode = zero_inode, ext2_data = 0\<rparr>, used = 0, offset = 0\<rparr>"

subsection \<open>The dynamic array\<close>

definition item_at :: "'a ksched_scheme \<Rightarrow> u64 \<Rightarrow> u64" where
  "item_at s j = procs_items s + j * sizeof_Process"

partial_function (option) grow :: "u32 \<Rightarrow> u32 \<Rightarrow> u32 option" where
  "grow expected cap = (if expected > cap then grow expected (cap * 2) else Some cap)"

text \<open>\<open>realloc\<close> copies as many bytes as the new block has, from the old address.\<close>

definition realloc_items :: "u32 \<Rightarrow> 'a ksched_scheme \<Rightarrow> 'a ksched_scheme" where
  "realloc_items cap s =
     (let old = procs_items s; sz = ucast cap * sizeof_Process;
          (p, s) = malloc sz s
      in s\<lparr>procs_items := p,
           proc_heap := fold (\<lambda>k h. h(p + of_nat k * sizeof_Process := h (old + of_nat k * sizeof_Process)))
             [0..<nat (long_to_int sz) div unat sizeof_Process] (proc_heap s)\<rparr>)"

definition nob_da_reserve :: "u32 \<Rightarrow> 'a ksched_scheme \<Rightarrow> 'a ksched_scheme outcome" where
  "nob_da_reserve expected s =
     (if expected > procs_capacity s then
        case grow expected (if procs_capacity s = 0 then 256 else procs_capacity s) of
          None \<Rightarrow> Inl Hangs
        | Some cap \<Rightarrow> Inr (realloc_items cap (s\<lparr>procs_capacity := cap\<rparr>))
      else Inr s)"

definition nob_da_append :: "Process \<Rightarrow> 'a ksched_scheme \<Rightarrow> 'a ksched_scheme outcome" where
  "nob_da_append p s =
     andthen (nob_da_reserve (procs_count s + 1) s) (\<lambda>s.
       Inr (s\<lparr>proc_heap := (proc_heap s)(item_at s (ucast (procs_count s)) := p),
              procs_count := procs_count s + 1\<rparr>))"

definition nob_da_remove_element :: "u32 \<Rightarrow> 'a ksched_scheme \<Rightarrow> 'a ksched_scheme" where
  "nob_da_remove_element i s =
     s\<lparr>proc_heap := (proc_heap s)(item_at s (ucast i) := proc_heap s (item_at s (ucast i + 1))),
       procs_count := procs_count s - 1\<rparr>"

subsection \<open>Scheduler.c\<close>

definition ProcessSetHollow :: "Process \<Rightarrow> 'a ksched_scheme \<Rightarrow> Process \<times> 'a ksched_scheme" where
  "ProcessSetHollow p s =
     (p\<lparr>fd := replicate 256 zero_desc, pid := sint (procs_id s), ready := 1, block_type := 0\<rparr>,
      s\<lparr>procs_id := procs_id s + 1\<rparr>)"

definition getProcess :: "'a ksched_scheme \<Rightarrow> u64" where
  "getProcess s = procs_current s"

text \<open>The message of \<open>ProcessKillCurrent\<close> reads the id of the current process.\<close>

definition ProcessKillCurrent :: "'a ksched_scheme \<Rightarrow> 'a ksched_scheme outcome" where
  "ProcessKillCurrent s =
     (if getProcess s = 0 then Inl NullDeref
      else Inr ((nob_da_remove_element (procs_i s) s)\<lparr>procs_current := 0\<rparr>))"

definition ProcessRemap :: "Process \<Rightarrow> 'a ksched_scheme \<Rightarrow> 'a ksched_scheme" where
  "ProcessRemap p s =
     MemoryRemap 0x800000 (m_stackBase (memory p)) 7 (MemoryRemap 0x400000 (m_base (memory p)) 7 s)"

definition ProcessRun :: "u64 \<Rightarrow> 'a ksched_scheme \<Rightarrow> ('r, 'a ksched_scheme) control" where
  "ProcessRun p s =
     (let s = s\<lparr>procs_current := p\<rparr>
      in EntersUser (regs (proc_heap s p)) (ProcessRemap (proc_heap s p) s))"

definition SchedulerStart :: "interrupts \<Rightarrow> interrupts outcome" where
  "SchedulerStart t = IRQ_RegisterHandler 0 SchedulerInterrupt_ptr t"

definition UserSpaceDoNothing :: "u64 \<Rightarrow> registers \<Rightarrow> registers" where
  "UserSpaceDoNothing USER_PRIV_LOOP r = r\<lparr>rip := USER_PRIV_LOOP\<rparr>"

definition TrySchedule :: "'a ksched_scheme \<Rightarrow> u64 \<times> 'a ksched_scheme" where
  "TrySchedule s =
     (let s = s\<lparr>procs_i := procs_i s + 1\<rparr>
      in if procs_count s = 0 then (0, s)
         else let s = (if procs_i s \<ge> procs_count s then s\<lparr>procs_i := 0\<rparr> else s)
              in (item_at s (ucast (procs_i s)), s))"

definition SchedulerInterrupt :: "u64 \<Rightarrow> registers \<Rightarrow> 'a ksched_scheme \<Rightarrow> (registers, 'a ksched_scheme) control" where
  "SchedulerInterrupt upl r s =
     (let (p, s) = TrySchedule s
      in if p = 0 then Returns (UserSpaceDoNothing upl r) s else ProcessRun p s)"

definition SchedulerSubmit :: "Process \<Rightarrow> 'a ksched_scheme \<Rightarrow> (int \<times> 'a ksched_scheme) outcome" where
  "SchedulerSubmit p s = andthen (nob_da_append p s) (\<lambda>s. Inr (1, s))"

subsection \<open>Process.c\<close>

definition ProcessSetUpPages :: "Process \<Rightarrow> 'a ksched_scheme \<Rightarrow> (Process \<times> 'a ksched_scheme) outcome" where
  "ProcessSetUpPages p s =
     andthen (PageAllocateN 1 s) (\<lambda>(base, s).
     andthen (PageAllocateN 1 s) (\<lambda>(stack, s).
       Inr (p\<lparr>memory := (memory p)\<lparr>m_base := base, m_stackTop := stack + PAGE_P2_SIZE - 0x10, m_stackBase := stack\<rparr>\<rparr>, s)))"

fun dup_fds :: "FILE_DESC list \<Rightarrow> FILE_DESC list \<Rightarrow> 'a kext2_scheme \<Rightarrow> int \<times> FILE_DESC list \<times> 'a kext2_scheme" where
  "dup_fds (n # ns) (d # ds) s =
     (case FILE_DESC_DUP n d s of (r, n, s) \<Rightarrow>
        if r = 0 then (0, n # ns, s)
        else case dup_fds ns ds s of (r, ns, s) \<Rightarrow> (r, n # ns, s))"
| "dup_fds ns ds s = (1, ns, s)"

definition ProcessDup :: "Process \<Rightarrow> Process \<Rightarrow> 'a ksched_scheme \<Rightarrow> (int \<times> Process \<times> 'a ksched_scheme) outcome" where
  "ProcessDup n old s =
     (let (n, s) = ProcessSetHollow n s
      in andthen (ProcessSetUpPages n s) (\<lambda>(n, s).
        let s = s\<lparr>kmem := memcpy (kmem s) (m_base (memory n)) (m_base (memory old)) 0x200000\<rparr>;
            s = s\<lparr>kmem := memcpy (kmem s) (m_stackBase (memory n)) (m_stackBase (memory old)) 0x200000\<rparr>;
            n = n\<lparr>regs := regs old\<rparr>;
            (r, fds, s) = dup_fds (fd n) (fd old) s
        in Inr (r, n\<lparr>fd := fds\<rparr>, s)))"

text \<open>The loop of \<open>ProcessInitialise\<close> advances the pointer until it is NULL itself.\<close>

partial_function (option) argc_loop :: "u64 \<Rightarrow> int \<Rightarrow> int option" where
  "argc_loop temp argc = (if temp \<noteq> 0 then argc_loop (temp + 8) (int32 (argc + 1)) else Some argc)"

definition ProcessInitialise :: "Process \<Rightarrow> u64 \<Rightarrow> u64 \<Rightarrow> Process outcome" where
  "ProcessInitialise proc args env =
     (case argc_loop args 0 of
        None \<Rightarrow> Inl Hangs
      | Some argc \<Rightarrow> Inr (proc\<lparr>regs := (regs proc)\<lparr>rip := m_entry (memory proc), rsp := 0x800000, rbp := 0x800000,
          rdi := of_int argc, rsi := args\<rparr>\<rparr>))"

definition ProcessReady :: "Process \<Rightarrow> bool" where
  "ProcessReady p \<longleftrightarrow> block_type p = 0"

subsection \<open>schedule/elf.c\<close>

definition start_symbol :: "u8 list" where "start_symbol = [0x5f, 0x73, 0x74, 0x61, 0x72, 0x74]"

text \<open>A section that is loaded must lie in the 2 MB page at 0x400000.\<close>

definition outside_window :: "mem \<Rightarrow> ELF_FILE \<Rightarrow> nat \<Rightarrow> bool" where
  "outside_window m elf i \<longleftrightarrow>
     sec_Addr m (section_at elf i) \<noteq> 0 \<and> sec_Addr m (section_at elf i) div 0x200000 \<noteq> 2"

definition load_section :: "ELF_FILE \<Rightarrow> nat \<Rightarrow> mem \<Rightarrow> mem" where
  "load_section elf i m =
     (let p = section_at elf i
      in if sec_Addr m p \<noteq> 0
         then memcpy m (sec_Addr m p) (elf_file elf + sec_Offset m p) (long_to_int (sec_Size m p)) else m)"

function load_sections :: "ELF_FILE \<Rightarrow> nat \<Rightarrow> mem \<Rightarrow> mem" where
  "load_sections elf i m =
     (if i < 65536 \<and> i < unat (SectionHeaderCount m (elf_header elf))
      then load_sections elf (Suc i) (load_section elf i m) else m)"
  by pat_completeness auto
termination by (relation "measure (\<lambda>(elf, i, m). 65536 - i)") auto

declare load_sections.simps [simp del]

definition ProcessFromELF ::
    "ELF_FILE \<Rightarrow> Process \<Rightarrow> 'a ksched_scheme \<Rightarrow> (int \<times> Process \<times> 'a ksched_scheme) outcome" where
  "ProcessFromELF elf process s =
     (let (process, s) = ProcessSetHollow process s
      in andthen (ProcessSetUpPages process s) (\<lambda>(process, s).
         andthen (ELF_LookUpSymbol (kmem s) elf start_symbol) (\<lambda>start.
           if start = 0 then Inr (0, process, s)
           else
             let base = m_base (memory process);
                 start_addr = sec_Offset (kmem s) (section_at elf (unat (sym_SectionTableIndex (kmem s) start)));
                 process = process\<lparr>memory := (memory process)\<lparr>m_entry := base + start_addr\<rparr>\<rparr>;
                 s = s\<lparr>kmem := memcpy (kmem s) base (elf_file elf) (elf_len elf)\<rparr>
             in if list_ex (outside_window (kmem s) elf) [0..<unat (SectionHeaderCount (kmem s) (elf_header elf))]
                then Inr (0, process, s)
                else Inr (1, process, s\<lparr>kmem := load_sections elf 0 (kmem s)\<rparr>))))"

text \<open>
  \<open>ProcessFromFilePath\<close>: the process it builds is a local variable, \<open>local\<close> its contents before
  and \<open>file\<close> those of the local \<open>ELF_FILE\<close>; the parameter \<open>process\<close> is not used.
\<close>

definition ProcessFromFilePath ::
    "reader \<Rightarrow> u64 \<Rightarrow> EXT2_INODE \<Rightarrow> ELF_FILE \<Rightarrow> Process \<Rightarrow> 'a ksched_scheme \<Rightarrow> (int \<times> EXT2_INODE \<times> 'a ksched_scheme) outcome" where
  "ProcessFromFilePath rd fp elf file proc s =
     andthen (EXT2_GET_INODE_FROM_PATH rd elf fp s) (\<lambda>(r, elf, s).
       if r \<noteq> 0 then
         let (hex, s) = malloc (ucast (inode_size elf)) s
         in andthen (EXT2_READFILE rd elf hex (ucast (inode_size elf)) s) (\<lambda>(_, s).
              let (st, file) = ELF_PARSE (kmem s) file hex (sint (inode_size elf))
              in if st = 1 then
                   andthen (ProcessFromELF file proc s) (\<lambda>(val, proc, s).
                     if val = 0 then Inr (0, elf, s)
                     else andthen (ProcessInitialise proc 0 0) (\<lambda>_. Inr (1, elf, s)))
                 else Inr (0, elf, s))
       else Inr (1, elf, s))"

section \<open>The process table\<close>

text \<open>
  What a client of the process table relies on: below the limit, appending succeeds, keeps the
  invariant and adds the element at the end.
\<close>

locale growing_table =
  fixes app :: "'p \<Rightarrow> 's \<Rightarrow> 's outcome"
    and contents :: "'s \<Rightarrow> 'p list"
    and inv :: "'s \<Rightarrow> bool"
    and limit :: nat
  assumes app_ok: "inv s \<Longrightarrow> length (contents s) < limit \<Longrightarrow>
    \<exists>s'. app p s = Inr s' \<and> inv s' \<and> contents s' = contents s @ [p]"
begin

primrec app_many :: "'p list \<Rightarrow> 's \<Rightarrow> 's outcome" where
  "app_many [] s = Inr s"
| "app_many (p # ps) s = andthen (app p s) (app_many ps)"

lemma app_many_ok:
  "inv s \<Longrightarrow> length (contents s) + length ps \<le> limit \<Longrightarrow>
   \<exists>s'. app_many ps s = Inr s' \<and> inv s' \<and> contents s' = contents s @ ps"
proof (induction ps arbitrary: s)
  case Nil
  then show ?case by simp
next
  case (Cons p ps)
  then obtain s1 where "app p s = Inr s1" "inv s1" "contents s1 = contents s @ [p]"
    using app_ok [of s p] by auto
  then show ?case using Cons.IH [of s1] Cons.prems by auto
qed

end

definition proc_list :: "'a ksched_scheme \<Rightarrow> Process list" where
  "proc_list s = map (\<lambda>k. proc_heap s (item_at s (of_nat k))) [0..<unat (procs_count s)]"

text \<open>
  The table is a block below the heap frontier, its capacity is one the doubling reaches, and
  the heap has room for the blocks of all later doublings up to 32768 processes.
\<close>

definition procs_inv :: "'a ksched_scheme \<Rightarrow> bool" where
  "procs_inv s \<longleftrightarrow>
     procs_count s \<le> procs_capacity s \<and>
     procs_capacity s \<in> {0, 256, 512, 1024, 2048, 4096, 8192, 16384, 32768} \<and>
     unat (procs_items s) + unat (procs_capacity s) * 39144 \<le> unat (malloc_start s) \<and>
     unat (malloc_start s) + (65536 - 2 * unat (procs_capacity s)) * 39144 \<le> 2 ^ 63"

lemma length_proc_list [simp]: "length (proc_list s) = unat (procs_count s)"
  by (simp add: proc_list_def)

lemma unat_slot: "unat a + k * 39144 < 2 ^ 64 \<Longrightarrow> unat (a + of_nat k * sizeof_Process) = unat a + k * 39144"
  using unat_add_of_nat [of a "k * 39144"] by simp

lemma slot_neq:
  assumes "unat a + j * 39144 < unat b + k * 39144" "unat b + k * 39144 < 2 ^ 64"
  shows "a + of_nat j * sizeof_Process \<noteq> b + of_nat k * sizeof_Process"
proof
  assume "a + of_nat j * sizeof_Process = b + of_nat k * sizeof_Process"
  then have "unat (a + of_nat j * sizeof_Process) = unat (b + of_nat k * sizeof_Process)" by (rule arg_cong)
  then show False using assms by (simp only: unat_slot)
qed

lemma copy_cells:
  assumes "inj_on d {..<n}" "k < n" "\<And>j. j < k \<Longrightarrow> d j \<noteq> src k"
  shows "fold (\<lambda>k h. h(d k := h (src k))) [0..<n] h (d k) = h (src k)"
proof -
  have keep: "fold (\<lambda>k h. h(d k := h (src k))) [0..<j] h a = h a" if "\<forall>i < j. d i \<noteq> a" for a j
    using that by (induction j) auto
  have "fold (\<lambda>k h. h(d k := h (src k))) [0..<j] h (d k) = h (src k)" if "k < j" "j \<le> n" for j
    using that
  proof (induction j)
    case (Suc j)
    show ?case
    proof (cases "k = j")
      case True
      have "fold (\<lambda>k h. h(d k := h (src k))) [0..<j] h (src k) = h (src k)" using assms(3) True by (intro keep) auto
      then show ?thesis by (simp add: True del: fun_upd_apply) (simp only: fun_upd_same)
    next
      case False
      then have "d k \<noteq> d j" using assms(1) Suc.prems by (auto simp: inj_on_def)
      then show ?thesis using Suc False by (simp del: fun_upd_apply add: fun_upd_other)
    qed
  qed simp
  then show ?thesis using assms by blast
qed

lemma copy_slots:
  assumes "unat p + n * 39144 \<le> 2 ^ 64" "unat old + c * 39144 \<le> unat p" "k < c" "k < n"
  shows "fold (\<lambda>k h. h(p + of_nat k * sizeof_Process := h (old + of_nat k * sizeof_Process))) [0..<n] h
    (p + of_nat k * sizeof_Process) = h (old + of_nat k * sizeof_Process)"
proof (rule copy_cells)
  show "inj_on (\<lambda>k. p + of_nat k * sizeof_Process) {..<n}"
  proof (rule linorder_inj_onI)
    fix i j assume ij: "i < j" "i \<in> {..<n}" "j \<in> {..<n}"
    then show "p + of_nat i * sizeof_Process \<noteq> p + of_nat j * sizeof_Process"
      using assms(1) by (intro slot_neq) auto
  qed auto
  fix j assume "j < k"
  then have "old + of_nat k * sizeof_Process \<noteq> p + of_nat j * sizeof_Process"
    using assms by (intro slot_neq) auto
  then show "p + of_nat j * sizeof_Process \<noteq> old + of_nat k * sizeof_Process" by (rule not_sym)
qed (rule assms(4))

lemma grow_le: "expected \<le> cap \<Longrightarrow> grow expected cap = Some cap"
  by (subst grow.simps) (simp add: leD)

lemma grow_double: "cap < expected \<Longrightarrow> expected \<le> cap * 2 \<Longrightarrow> grow expected cap = Some (cap * 2)"
  by (subst grow.simps) (simp add: grow_le)

lemma realloc_items_keeps:
  assumes inv: "procs_inv s" and full: "procs_count s = procs_capacity s"
    and cap: "(procs_capacity s = 0 \<and> cap = 256) \<or> (procs_capacity s \<noteq> 0 \<and> procs_capacity s \<noteq> 32768 \<and> cap = procs_capacity s * 2)"
  defines "s' \<equiv> realloc_items cap (s\<lparr>procs_capacity := cap\<rparr>)"
  shows "procs_inv s'" "procs_count s' < procs_capacity s'" "procs_count s' = procs_count s" "proc_list s' = proc_list s"
proof -
  let ?n = "unat (procs_capacity s)"
  have c: "unat cap \<in> {256, 512, 1024, 2048, 4096, 8192, 16384, 32768}" "?n < unat cap"
    "unat cap + 65536 - 2 * unat cap \<le> 65536 - 2 * ?n"
    "cap \<in> {0, 256, 512, 1024, 2048, 4096, 8192, 16384, 32768}"
    using inv cap by (auto simp: procs_inv_def)
  have sz: "unat (ucast cap * sizeof_Process) = unat cap * 39144"
    using c(1) by (subst unat_mult_lem [THEN iffD1]) auto
  have li: "nat (long_to_int (ucast cap * sizeof_Process)) div 39144 = unat cap"
  proof -
    have "unat (ucast cap * sizeof_Process) < 2 ^ 31" using c(1) by (auto simp: sz)
    then show ?thesis by (simp only: long_to_int_small nat_int sz)
  qed
  have fr: "unat (malloc_start s) + unat cap * 39144 + (65536 - 2 * unat cap) * 39144 \<le> 2 ^ 63"
    "unat (procs_items s) + ?n * 39144 \<le> unat (malloc_start s)"
    using inv c(1,3) by (auto simp: procs_inv_def)
  have ms: "unat (malloc_start s + ucast cap * sizeof_Process) = unat (malloc_start s) + unat cap * 39144"
    using fr(1) by (subst unat_add_lem [THEN iffD1]) (simp_all add: sz)
  have e: "procs_items s' = malloc_start s" "procs_count s' = procs_count s" "procs_capacity s' = cap"
    "malloc_start s' = malloc_start s + ucast cap * sizeof_Process"
    by (simp_all add: s'_def realloc_items_def malloc_def Let_def)
  show "procs_inv s'" "procs_count s' < procs_capacity s'" "procs_count s' = procs_count s"
    using c fr ms full by (simp_all add: procs_inv_def e word_le_nat_alt word_less_nat_alt del: insert_iff)
  have "proc_heap s' (item_at s' (of_nat k)) = proc_heap s (item_at s (of_nat k))" if "k < unat (procs_count s)" for k
    using copy_slots [of "malloc_start s" "unat cap" "procs_items s" ?n k "proc_heap s"] that full fr c(2) li
    by (simp add: s'_def realloc_items_def malloc_def Let_def item_at_def)
  then show "proc_list s' = proc_list s" by (simp add: proc_list_def e)
qed

lemma nob_da_reserve_ok:
  assumes inv: "procs_inv s" and room: "unat (procs_count s) < 32768"
  shows "\<exists>s'. nob_da_reserve (procs_count s + 1) s = Inr s' \<and> procs_inv s' \<and> procs_count s' < procs_capacity s' \<and>
    procs_count s' = procs_count s \<and> proc_list s' = proc_list s"
proof (cases "procs_count s < procs_capacity s")
  case True
  have "unat (procs_count s + 1) = Suc (unat (procs_count s))"
    using room by (simp add: unat_plus_if_size word_size)
  then have "procs_count s + 1 \<le> procs_capacity s" using True by (simp add: word_le_nat_alt word_less_nat_alt)
  then show ?thesis using inv True by (simp add: nob_da_reserve_def leD)
next
  case False
  then have full: "procs_count s = procs_capacity s" using inv by (simp add: procs_inv_def)
  have cap: "procs_capacity s \<in> {0, 256, 512, 1024, 2048, 4096, 8192, 16384}"
    using inv room full by (auto simp: procs_inv_def)
  show ?thesis
  proof (cases "procs_capacity s = 0")
    case True
    then have "nob_da_reserve (procs_count s + 1) s = Inr (realloc_items 256 (s\<lparr>procs_capacity := 256\<rparr>))"
      using full grow_le [of 1 256] by (simp add: nob_da_reserve_def)
    then show ?thesis using realloc_items_keeps [OF inv full, of 256] True by simp
  next
    case nz: False
    let ?c = "procs_capacity s"
    have "?c < ?c + 1" "?c + 1 \<le> ?c * 2" "?c \<noteq> 32768" using cap nz by auto
    then have "nob_da_reserve (procs_count s + 1) s = Inr (realloc_items (?c * 2) (s\<lparr>procs_capacity := ?c * 2\<rparr>))"
      using full nz grow_double [of ?c "?c + 1"] by (simp add: nob_da_reserve_def)
    then show ?thesis using realloc_items_keeps [OF inv full, of "?c * 2"] nz \<open>?c \<noteq> 32768\<close> by simp
  qed
qed

lemma item_at_update [simp]:
  "item_at (s\<lparr>proc_heap := h\<rparr>) = item_at s" "item_at (s\<lparr>procs_count := n\<rparr>) = item_at s"
  "item_at (s\<lparr>procs_i := k\<rparr>) = item_at s" "item_at (s\<lparr>procs_current := p\<rparr>) = item_at s"
  by (simp_all add: item_at_def fun_eq_iff)

lemma item_at_neq:
  assumes "procs_inv s" "j < k" "k \<le> unat (procs_capacity s)"
  shows "item_at s (of_nat j) \<noteq> item_at s (of_nat k)"
  using assms unfolding item_at_def by (intro slot_neq) (auto simp: procs_inv_def)

lemma nob_da_append_ok:
  assumes inv: "procs_inv s" and room: "length (proc_list s) < 32768"
  shows "\<exists>s'. nob_da_append p s = Inr s' \<and> procs_inv s' \<and> proc_list s' = proc_list s @ [p]"
proof -
  obtain s1 where s1: "nob_da_reserve (procs_count s + 1) s = Inr s1" "procs_inv s1"
    "procs_count s1 < procs_capacity s1" "procs_count s1 = procs_count s" "proc_list s1 = proc_list s"
    using nob_da_reserve_ok [OF inv] room by auto
  let ?n = "unat (procs_count s1)"
  have c: "unat (procs_count s1 + 1) = Suc ?n" using room s1(4) by (simp add: unat_plus_if_size word_size)
  let ?s = "s1\<lparr>proc_heap := (proc_heap s1)(item_at s1 (of_nat ?n) := p), procs_count := procs_count s1 + 1\<rparr>"
  have "nob_da_append p s = Inr ?s" by (simp add: nob_da_append_def s1(1))
  moreover have "procs_inv ?s"
    using s1(2,3) c by (simp add: procs_inv_def word_le_nat_alt word_less_nat_alt)
  moreover have "proc_heap ?s (item_at s1 (of_nat k)) = proc_heap s1 (item_at s1 (of_nat k))" if "k < ?n" for k
    using item_at_neq [OF s1(2) that] s1(3) by (simp add: word_less_nat_alt)
  then have "proc_list ?s = proc_list s1 @ [p]" by (simp add: proc_list_def c)
  ultimately show ?thesis using s1(5) by auto
qed

interpretation procs: growing_table nob_da_append proc_list procs_inv 32768
  by unfold_locales (rule nob_da_append_ok)

text \<open>Submitting a list of processes one after the other, and scheduling \<open>k\<close> times.\<close>

fun submit_all :: "Process list \<Rightarrow> 'a ksched_scheme \<Rightarrow> 'a ksched_scheme outcome" where
  "submit_all [] s = Inr s"
| "submit_all (p # ps) s = andthen (SchedulerSubmit p s) (\<lambda>(_, s). submit_all ps s)"

fun schedule_many :: "nat \<Rightarrow> 'a ksched_scheme \<Rightarrow> u64 list \<times> 'a ksched_scheme" where
  "schedule_many 0 s = ([], s)"
| "schedule_many (Suc k) s =
     (let (p, s) = TrySchedule s; (ps, s) = schedule_many k s in (p # ps, s))"

lemma submit_all_app_many: "submit_all ps s = procs.app_many ps s"
  by (induction ps arbitrary: s) (simp_all add: SchedulerSubmit_def andthen_assoc)

lemma TrySchedule_next:
  assumes "unat (procs_count s) = n" "unat (procs_i s) < n"
  shows "\<exists>s'. TrySchedule s = (item_at s (of_nat (Suc (unat (procs_i s)) mod n)), s') \<and>
    unat (procs_i s') = Suc (unat (procs_i s)) mod n \<and> procs_count s' = procs_count s \<and>
    item_at s' = item_at s \<and> proc_heap s' = proc_heap s"
proof -
  let ?i = "procs_i s"
  have n: "n < 2 ^ 32" using assms(1) unat_u32_less [of "procs_count s"] by simp
  have i: "unat (?i + 1) = Suc (unat ?i)" using assms(2) n by (simp add: unat_plus_if_size word_size)
  have c: "procs_count s \<noteq> 0" using assms by auto
  show ?thesis
  proof (cases "Suc (unat ?i) = n")
    case True
    then have "procs_count s \<le> ?i + 1" using i assms(1) by (simp add: word_le_nat_alt)
    then show ?thesis using True c by (simp add: TrySchedule_def Let_def)
  next
    case False
    then have l: "Suc (unat ?i) < n" using assms(2) by simp
    then have "\<not> procs_count s \<le> ?i + 1" using i assms(1) by (simp add: word_le_nat_alt)
    moreover have "(ucast (?i + 1) :: u64) = of_nat (Suc (unat ?i))"
      by (rule word_unat_eq_iff [THEN iffD2]) (use i l n in \<open>simp del: of_nat_Suc\<close>)
    ultimately show ?thesis using l i c by (simp add: TrySchedule_def Let_def)
  qed
qed

lemma schedule_many_items:
  assumes "unat (procs_count s) = n" "unat (procs_i s) < n"
  shows "\<exists>s'. schedule_many k s = (map (\<lambda>j. item_at s (of_nat ((unat (procs_i s) + 1 + j) mod n))) [0..<k], s') \<and>
    proc_heap s' = proc_heap s"
  using assms
proof (induction k arbitrary: s)
  case 0
  then show ?case by simp
next
  case (Suc k)
  obtain s1 where s1: "TrySchedule s = (item_at s (of_nat (Suc (unat (procs_i s)) mod n)), s1)"
    "unat (procs_i s1) = Suc (unat (procs_i s)) mod n" "procs_count s1 = procs_count s"
    "item_at s1 = item_at s" "proc_heap s1 = proc_heap s"
    using TrySchedule_next [OF Suc.prems] by blast
  have "unat (procs_i s1) < n" using s1(2) Suc.prems by simp
  then obtain s2 where s2: "schedule_many k s1 =
      (map (\<lambda>j. item_at s1 (of_nat ((unat (procs_i s1) + 1 + j) mod n))) [0..<k], s2)" "proc_heap s2 = proc_heap s1"
    using Suc.IH [of s1] Suc.prems(1) s1(3) by auto
  have "(unat (procs_i s1) + 1 + j) mod n = (unat (procs_i s) + 1 + Suc j) mod n" for j
    using mod_add_left_eq [of "Suc (unat (procs_i s))" n "1 + j"] unfolding s1(2) by (simp add: add.assoc)
  then have "map (\<lambda>j. item_at s1 (of_nat ((unat (procs_i s1) + 1 + j) mod n))) [0..<k] =
      map (\<lambda>j. item_at s (of_nat ((unat (procs_i s) + 1 + j) mod n))) [1..<Suc k]"
    by (simp add: s1(4) map_Suc_upt [symmetric] comp_def del: upt_Suc)
  then show ?case using s1(1,5) s2 by (simp add: upt_conv_Cons del: upt_Suc)
qed

text \<open>
  What removing entry \<open>i\<close> makes of the table: \<open>nob_da_remove_element\<close> copies one successor down and
  drops the last entry.
\<close>

definition killed :: "'p list \<Rightarrow> nat \<Rightarrow> 'p list" where
  "killed ps i = butlast (if Suc i < length ps then ps[i := ps ! Suc i] else ps)"

lemma killed_removes:
  assumes "i < length ps" "length ps \<le> Suc (Suc i)"
  shows "killed ps i = take i ps @ drop (Suc i) ps"
proof (cases "Suc i = length ps")
  case True
  then have "length ps - 1 = i" by simp
  then show ?thesis using True by (simp add: killed_def butlast_conv_take)
next
  case False
  then have "length ps = Suc (Suc i)" using assms by simp
  then show ?thesis
    by (intro nth_equalityI) (auto simp: killed_def nth_butlast nth_list_update nth_append less_Suc_eq)
qed

lemma killed_update [simp]: "i < length ps \<Longrightarrow> killed (ps[i := p]) i = killed ps i"
  by (auto simp: killed_def butlast_conv_take not_less le_Suc_eq)

lemma length_killed [simp]: "length (killed ps i) = length ps - 1"
  by (simp add: killed_def)

lemma ProcessKillCurrent_list:
  assumes inv: "procs_inv s" and cur: "procs_current s \<noteq> 0"
    and i: "unat (procs_i s) = i" "i < length (proc_list s)"
  shows "\<exists>s'. ProcessKillCurrent s = Inr s' \<and> procs_current s' = 0 \<and> proc_list s' = killed (proc_list s) i \<and> procs_inv s' \<and>
    procs_i s' = procs_i s \<and> procs_items s' = procs_items s \<and> kmem s' = kmem s"
proof -
  let ?n = "unat (procs_count s)" and ?h = "proc_heap s"
  have n: "?n \<le> unat (procs_capacity s)" "unat (procs_count s - 1) = ?n - 1"
    using inv i by (auto simp: procs_inv_def word_le_nat_alt unat_sub_if_size)
  have u: "ucast (procs_i s) = (of_nat i :: u64)" using i(1) by auto
  let ?h' = "?h(item_at s (of_nat i) := ?h (item_at s (of_nat (Suc i))))"
  define s' where "s' = (nob_da_remove_element (procs_i s) s)\<lparr>procs_current := 0\<rparr>"
  have k: "ProcessKillCurrent s = Inr s'" using cur by (simp add: ProcessKillCurrent_def getProcess_def s'_def)
  have s': "proc_heap s' = ?h'" "item_at s' = item_at s" "procs_count s' = procs_count s - 1"
    "procs_capacity s' = procs_capacity s" "procs_items s' = procs_items s" "malloc_start s' = malloc_start s"
    "procs_i s' = procs_i s" "kmem s' = kmem s" "procs_current s' = 0"
    unfolding s'_def nob_da_remove_element_def u by (simp_all add: add.commute)
  have el: "proc_heap s' (item_at s (of_nat k)) = (if k = i then ?h (item_at s (of_nat (Suc i))) else ?h (item_at s (of_nat k)))"
    if "k < ?n" for k
    using item_at_neq [OF inv, of k i] item_at_neq [OF inv, of i k] that n(1) i unfolding s'(1)
    by (cases k i rule: linorder_cases) auto
  have "proc_list s' = map (\<lambda>k. if k = i then ?h (item_at s (of_nat (Suc i))) else ?h (item_at s (of_nat k))) [0..<?n - 1]"
    using el by (auto simp: proc_list_def s' n(2))
  then have "proc_list s' = killed (proc_list s) i"
    using i(2) by (intro nth_equalityI) (auto simp: killed_def nth_butlast nth_list_update proc_list_def simp del: of_nat_Suc)
  moreover have "procs_inv s'" using inv n by (simp add: procs_inv_def s' word_le_nat_alt)
  ultimately show ?thesis using k s' by simp
qed

lemma TrySchedule_index:
  assumes "unat (procs_count s) = n" "0 < n" "Suc (unat (procs_i s)) < 2 ^ 32"
  defines "j \<equiv> if Suc (unat (procs_i s)) < n then Suc (unat (procs_i s)) else 0"
  shows "\<exists>k. TrySchedule s = (item_at s (of_nat j), s\<lparr>procs_i := k\<rparr>) \<and> unat k = j"
proof -
  have i: "unat (procs_i s + 1) = Suc (unat (procs_i s))" using assms(3) by (simp add: unat_plus_if_size word_size)
  have c: "procs_count s \<noteq> 0" using assms(1,2) by auto
  show ?thesis
  proof (cases "Suc (unat (procs_i s)) < n")
    case True
    then have "\<not> procs_count s \<le> procs_i s + 1" using i assms(1) by (simp add: word_le_nat_alt)
    moreover have "(ucast (procs_i s + 1) :: u64) = of_nat (Suc (unat (procs_i s)))"
      by (rule word_unat_eq_iff [THEN iffD2]) (use i assms(3) in \<open>simp del: of_nat_Suc\<close>)
    ultimately show ?thesis
      using True i c by (intro exI [of _ "procs_i s + 1"]) (simp add: TrySchedule_def Let_def j_def)
  next
    case False
    then have "procs_count s \<le> procs_i s + 1" using i assms(1) by (simp add: word_le_nat_alt)
    then show ?thesis using False c by (intro exI [of _ 0]) (simp add: TrySchedule_def Let_def j_def)
  qed
qed

lemma ProcessRemap_keeps [simp]:
  "proc_list (ProcessRemap p s) = proc_list s" "procs_inv (ProcessRemap p s) = procs_inv s"
  "procs_current (ProcessRemap p s) = procs_current s" "procs_i (ProcessRemap p s) = procs_i s"
  "item_at (ProcessRemap p s) = item_at s" "procs_items (ProcessRemap p s) = procs_items s"
  by (simp_all add: ProcessRemap_def MemoryRemap_def Let_def proc_list_def procs_inv_def item_at_def fun_eq_iff)

text \<open>The next timer tick: the entry behind the current index runs, or the idle loop when there is none.\<close>

lemma SchedulerInterrupt_table:
  assumes inv: "procs_inv s" and items: "procs_items s \<noteq> 0" and i: "Suc (unat (procs_i s)) < 2 ^ 32"
  defines "ps \<equiv> proc_list s" and "j \<equiv> if Suc (unat (procs_i s)) < length (proc_list s) then Suc (unat (procs_i s)) else 0"
  shows "\<exists>s'. proc_list s' = ps \<and> procs_inv s' \<and>
    (ps = [] \<longrightarrow> SchedulerInterrupt upl r s = Returns (r\<lparr>rip := upl\<rparr>) s' \<and> procs_current s' = procs_current s) \<and>
    (ps \<noteq> [] \<longrightarrow> SchedulerInterrupt upl r s = EntersUser (regs (ps ! j)) s' \<and>
       procs_current s' = item_at s' (of_nat j) \<and> unat (procs_i s') = j)"
proof (cases "ps = []")
  case True
  then have "unat (procs_count s) = 0" unfolding ps_def by (metis length_proc_list list.size(3))
  then have "TrySchedule s = (0, s\<lparr>procs_i := procs_i s + 1\<rparr>)" by (simp add: TrySchedule_def Let_def unat_eq_0)
  then show ?thesis
    using True inv by (auto simp: SchedulerInterrupt_def UserSpaceDoNothing_def ps_def proc_list_def procs_inv_def item_at_def)
next
  case False
  then have "0 < length (proc_list s)" by (simp add: ps_def del: length_proc_list)
  then have n: "0 < unat (procs_count s)" by (simp only: length_proc_list)
  obtain k where k: "TrySchedule s = (item_at s (of_nat j), s\<lparr>procs_i := k\<rparr>)" "unat k = j"
    using TrySchedule_index [OF refl n i] by (auto simp: j_def)
  have j: "j < unat (procs_count s)" using n by (simp add: j_def)
  have "unat (procs_items s) + unat (procs_capacity s) * 39144 \<le> 2 ^ 63" "j < unat (procs_capacity s)"
    using inv j by (simp_all add: procs_inv_def word_le_nat_alt)
  then have "unat (item_at s (of_nat j)) = unat (procs_items s) + j * 39144"
    unfolding item_at_def by (intro unat_slot) simp
  moreover have "0 < unat (procs_items s)" using items by (simp add: unat_gt_0)
  ultimately have nz: "item_at s (of_nat j) \<noteq> 0" by auto
  have pj: "proc_heap s (item_at s (of_nat j)) = ps ! j" using j by (simp add: ps_def proc_list_def)
  show ?thesis
    using False inv k nz pj by (simp add: SchedulerInterrupt_def ProcessRun_def Let_def ps_def)
      (simp add: proc_list_def procs_inv_def item_at_def)
qed

lemma nob_da_append_frame:
  "nob_da_append p s = Inr s' \<Longrightarrow> page_allocator s' = page_allocator s \<and> procs_id s' = procs_id s"
  by (auto simp: nob_da_append_def nob_da_reserve_def realloc_items_def malloc_def andthen_Inr_iff Let_def
      split: if_splits option.splits)

section \<open>Properties\<close>

text \<open>
  C8: round robin: with \<open>n > 0\<close> processes in the table, \<open>k\<close> timer ticks pick the entries that
  follow the current index in cyclic order, so any \<open>n\<close> consecutive ticks pick every process
  exactly once, and the table itself is not changed.
\<close>

theorem TrySchedule_round_robin:
  assumes "unat (procs_count s) = n" "unat (procs_i s) < n"
  shows "\<exists>s'. schedule_many k s = (map (\<lambda>j. item_at s (of_nat ((unat (procs_i s) + 1 + j) mod n))) [0..<k], s') \<and>
    proc_heap s' = proc_heap s \<and>
    bij_betw (\<lambda>j. (unat (procs_i s) + 1 + j) mod n) {0..<n} {0..<n}"
proof -
  let ?f = "\<lambda>j. (unat (procs_i s) + 1 + j) mod n"
  have inj: "inj_on ?f {0..<n}"
  proof (rule linorder_inj_onI)
    fix j l assume "j < l" "j \<in> {0..<n}" "l \<in> {0..<n}"
    then have "\<not> n dvd (unat (procs_i s) + 1 + l) - (unat (procs_i s) + 1 + j)" by (auto dest: dvd_imp_le)
    then show "?f j \<noteq> ?f l" using mod_eq_dvd_iff_nat [of "unat (procs_i s) + 1 + j" "unat (procs_i s) + 1 + l" n] \<open>j < l\<close>
      by auto
  qed auto
  moreover have "?f ` {0..<n} = {0..<n}"
  proof (rule card_subset_eq)
    show "card (?f ` {0..<n}) = card {0..<n}" by (rule card_image [OF inj])
  qed (use assms in auto)
  ultimately show ?thesis using schedule_many_items [OF assms, of k] by (auto simp: bij_betw_def)
qed

text \<open>
  C11: submitting processes appends them to the table in order; it works until the table
  holds 32768 processes, whatever number of reallocations that takes.
\<close>

theorem SchedulerSubmit_appends:
  assumes "procs_inv s" "length (proc_list s) + length ps \<le> 32768"
  shows "\<exists>s'. submit_all ps s = Inr s' \<and> procs_inv s' \<and> proc_list s' = proc_list s @ ps"
  unfolding submit_all_app_many by (rule procs.app_many_ok [OF assms])

text \<open>
  C13: running a process remaps exactly two windows: the 2 MB at 0x400000 show its base page and
  the 2 MB at 0x800000 its stack page; every other address keeps its translation.
\<close>

theorem ProcessRun_windows:
  assumes "paging_inv s" "present s 0"
  shows "\<exists>s'. ProcessRun p s = (EntersUser (regs (proc_heap s p)) s' :: (registers, 'a ksched_scheme) control) \<and>
    procs_current s' = p \<and> paging_inv s' \<and>
    (\<forall>va. unat va < 2 ^ 39 \<longrightarrow> MemoryPhysical va s' =
       (if va div 0x200000 = 4 then PAGE (m_stackBase (memory (proc_heap s p))) + va mod 0x200000
        else if va div 0x200000 = 2 then PAGE (m_base (memory (proc_heap s p))) + va mod 0x200000
        else MemoryPhysical va s))"
proof -
  let ?p = "memory (proc_heap s p)"
  define s0 where "s0 = s\<lparr>procs_current := p\<rparr>"
  define s1 where "s1 = MemoryRemap 0x400000 (m_base ?p) 7 s0"
  have 0: "paging_inv s0" "present s0 0"
    using assms by (simp_all add: s0_def paging_inv_def present_def p3_entry_def)
  have 1: "paging_inv s1" "present s1 0" "\<forall>va. unat va < 2 ^ 39 \<longrightarrow> MemoryPhysical va s1 =
      (if va div 0x200000 = 2 then PAGE (m_base ?p) + va mod 0x200000 else MemoryPhysical va s0)"
    using MemoryRemap_translation [OF 0(1), of "0x400000" 7 "m_base ?p"] 0(2) by (simp_all add: s1_def)
  have 2: "paging_inv (MemoryRemap 0x800000 (m_stackBase ?p) 7 s1) \<and> (\<forall>va. unat va < 2 ^ 39 \<longrightarrow>
      MemoryPhysical va (MemoryRemap 0x800000 (m_stackBase ?p) 7 s1) =
      (if va div 0x200000 = 4 then PAGE (m_stackBase ?p) + va mod 0x200000 else MemoryPhysical va s1))"
    using MemoryRemap_translation [OF 1(1), of "0x800000" 7 "m_stackBase ?p"] 1(2) by simp
  have "MemoryPhysical va s0 = MemoryPhysical va s" for va by (simp add: s0_def MemoryPhysical_def Let_def)
  moreover have "procs_current (MemoryRemap 0x800000 (m_stackBase ?p) 7 s1) = p"
    by (simp add: s1_def s0_def MemoryRemap_def PageRemap_def Let_def)
  ultimately show ?thesis using 1 2 by (simp add: ProcessRun_def ProcessRemap_def s0_def s1_def)
qed

text \<open>
  \<open>ProcessKillCurrent\<close> moves only one entry: the table loses its last entry and entry \<open>i\<close>
  becomes a copy of its successor. That removes exactly entry \<open>i\<close> when it is the last or the
  last but one; otherwise the last process is lost and the successor is there twice.
\<close>

theorem ProcessKillCurrent_table:
  assumes inv: "procs_inv s" and cur: "procs_current s \<noteq> 0"
    and i: "unat (procs_i s) = i" "i < length (proc_list s)"
  shows "\<exists>s'. ProcessKillCurrent s = Inr s' \<and> procs_current s' = 0 \<and>
    (Suc i = length (proc_list s) \<longrightarrow> proc_list s' = take i (proc_list s)) \<and>
    (Suc i < length (proc_list s) \<longrightarrow>
       proc_list s' = butlast ((proc_list s)[i := proc_list s ! Suc i])) \<and>
    (Suc (Suc i) = length (proc_list s) \<longrightarrow>
       proc_list s' = take i (proc_list s) @ drop (Suc i) (proc_list s))"
proof -
  obtain s' where s': "ProcessKillCurrent s = Inr s'" "procs_current s' = 0" "proc_list s' = killed (proc_list s) i"
    using ProcessKillCurrent_list [OF assms] by blast
  then show ?thesis
    using killed_removes [OF i(2)] by (intro exI [of _ s']) (auto simp: killed_def butlast_conv_take)
qed

lemma plus_8_mod_8: "(w + 8) mod 8 = (w :: u64) mod 8"
proof -
  have "(unat w + 8) mod 2 ^ 64 mod 8 = (unat w + 8) mod 8" by (rule mod_mod_cancel) simp
  then show ?thesis by (simp add: word_unat_eq_iff unat_mod_distrib unat_word_ariths)
qed

lemma argc_loop_aligned: "argc_loop temp argc = Some r \<Longrightarrow> temp mod 8 = 0"
proof (induction rule: argc_loop.raw_induct [where P = "\<lambda>temp argc r. temp mod 8 = 0", rotated, consumes 1])
  case (1 loop temp argc y)
  then show ?case
  proof (cases "temp = 0")
    case False
    then have "(temp + 8) mod 8 = 0" using 1 by auto
    then show ?thesis by (simp add: plus_8_mod_8)
  qed simp
qed

text \<open>
  \<open>ProcessInitialise\<close> without arguments sets up the entry point, a stack pointer of 0x800000
  and an argument count of 0; with an argument vector whose address is not a multiple of 8
  its counting loop never ends.
\<close>

theorem ProcessInitialise_args:
  "ProcessInitialise proc 0 env = Inr (proc\<lparr>regs := (regs proc)\<lparr>rip := m_entry (memory proc), rsp := 0x800000,
     rbp := 0x800000, rdi := 0, rsi := 0\<rparr>\<rparr>) \<and>
   (args mod 8 \<noteq> 0 \<longrightarrow> ProcessInitialise proc args env = Inl Hangs)"
proof -
  have "argc_loop 0 0 = Some 0" by (subst argc_loop.simps) simp
  moreover have "argc_loop args 0 = None" if "args mod 8 \<noteq> 0"
    using argc_loop_aligned [of args 0] that by (cases "argc_loop args 0") auto
  ultimately show ?thesis by (simp add: ProcessInitialise_def)
qed

subsection \<open>Witnesses\<close>

definition demo_process :: "int \<Rightarrow> u64 \<Rightarrow> Process" where
  "demo_process i base = \<lparr>pid = i, memory = \<lparr>m_entry = base, m_base = base, m_stackTop = 0, m_stackBase = base + 0x200000\<rparr>,
     regs = \<lparr>r_segment = 0, r15 = 0, r14 = 0, r13 = 0, r12 = 0, r11 = 0, r10 = 0, r9 = 0, r8 = 0, rbp = 0, rdi = 0, rsi = 0,
       rdx = 0, rcx = 0, rbx = 0, rax = 0, interupt = 0, r_zero = 0, rip = 0, r_cs = 0, rflags = 0, rsp = 0, r_ss = 0\<rparr>,
     fd = replicate 256 zero_desc, ready = 1, block_type = 0\<rparr>"

text \<open>A table of \<open>n\<close> processes with room for 256 at 0x1000000; entry \<open>k\<close> has the id \<open>k\<close>.\<close>

definition demo_sched :: "u32 \<Rightarrow> ksched" where
  "demo_sched n = \<lparr>kmem = set_U64 (\<lambda>_. 0) (entry 0x1000 0) 0x2007, malloc_start = 0x2000000, malloc_end = 0, ms = 0, me = 0,
     p3_table = 0x1000, p2_table = 0x2000, page_allocator = [], ext2_part = 0, ext2_superblock = 0, ext2_blockgroups = 0,
     ext2_root = zero_inode, proc_heap = (\<lambda>a. demo_process (int (unat ((a - 0x1000000) div 39144))) 0x40000000),
     procs_items = 0x1000000, procs_count = n, procs_capacity = 256, procs_i = 0, procs_id = 1, procs_current = 0x1000000\<rparr>"

lemma demo_sched_inv: "n \<le> 256 \<Longrightarrow> procs_inv (demo_sched n)"
  by (simp add: procs_inv_def demo_sched_def)

theorem TrySchedule_round_robin_witness:
  "fst (schedule_many 4 (demo_sched 3)) = [0x1000000 + 39144, 0x1000000 + 2 * 39144, 0x1000000, 0x1000000 + 39144]"
proof -
  have c: "unat (procs_count (demo_sched 3)) = 3" "unat (procs_i (demo_sched 3)) = 0"
    "item_at (demo_sched 3) k = 0x1000000 + k * 39144" for k by (simp_all add: demo_sched_def item_at_def)
  have "[0..<4] = [0, 1, 2, 3::nat]" by (simp add: upt_rec)
  moreover have "\<exists>s'. schedule_many 4 (demo_sched 3) =
      (map (\<lambda>j. item_at (demo_sched 3) (of_nat ((unat (procs_i (demo_sched 3)) + 1 + j) mod 3))) [0..<4], s')"
    using TrySchedule_round_robin [of "demo_sched 3" 3 4] c by auto
  ultimately show ?thesis by (auto simp: c)
qed

theorem SchedulerSubmit_appends_witness:
  "\<exists>s'. submit_all [demo_process 7 0, demo_process 8 0] (demo_sched 255) = Inr s' \<and> length (proc_list s') = 257"
  using SchedulerSubmit_appends [OF demo_sched_inv, of 255 "[demo_process 7 0, demo_process 8 0]"]
  by (fastforce simp: demo_sched_def)

theorem ProcessKillCurrent_table_witness:
  "\<exists>s'. ProcessKillCurrent (demo_sched 3) = Inr s' \<and> map pid (proc_list s') = [1, 1]"
proof -
  have l: "[0..<unat (procs_count (demo_sched 3))] = [0, 1, 2]" by (simp add: demo_sched_def upt_rec)
  have p: "map pid (proc_list (demo_sched 3)) = [0, 1, 2]"
    unfolding proc_list_def l by (simp add: demo_sched_def item_at_def demo_process_def)
  then obtain a b c where abc: "proc_list (demo_sched 3) = [a, b, c]" "pid b = 1" by (auto simp: map_eq_Cons_conv)
  have "\<exists>s'. ProcessKillCurrent (demo_sched 3) = Inr s' \<and>
      proc_list s' = butlast ((proc_list (demo_sched 3))[0 := proc_list (demo_sched 3) ! Suc 0])"
    using ProcessKillCurrent_table [OF demo_sched_inv, of 3 0] by (auto simp: demo_sched_def)
  then show ?thesis by (auto simp: abc)
qed

theorem ProcessRun_windows_witness:
  "\<exists>s'. ProcessRun 0x1000000 (demo_sched 3) = (EntersUser (regs (proc_heap (demo_sched 3) 0x1000000)) s' :: (registers, ksched) control) \<and>
     MemoryPhysical 0x412345 s' = 0x40012345 \<and> MemoryPhysical 0x812345 s' = 0x40212345"
proof -
  have z: "p3_entry (demo_sched 3) q = (if q = 0 then 0x2007 else 0)" if "q < 512" for q
    using U64_set_entry [of "0x1000" 0 q "\<lambda>_. 0" "0x2007"] that
    by (simp add: p3_entry_def demo_sched_def U64_def [of "\<lambda>_. 0"] bytes_numeral)
  have "p3_table (demo_sched 3) = 0x1000" "malloc_start (demo_sched 3) = 0x2000000" by (simp_all add: demo_sched_def)
  then have "paging_inv (demo_sched 3)" "present (demo_sched 3) 0"
    by (auto simp: paging_inv_def present_def z TABLE_def disjoint_blocks_def)
  moreover have "memory (proc_heap (demo_sched 3) 0x1000000) =
      \<lparr>m_entry = 0x40000000, m_base = 0x40000000, m_stackTop = 0, m_stackBase = 0x40200000\<rparr>"
    by (simp add: demo_sched_def demo_process_def)
  ultimately show ?thesis using ProcessRun_windows [of "demo_sched 3" "0x1000000"] by (fastforce simp: PAGE_def)
qed

theorem ProcessInitialise_args_witness:
  "ProcessInitialise (demo_process 0 0) 0x1001 0 = Inl Hangs"
  using ProcessInitialise_args [of "demo_process 0 0" 0 "0x1001"] by simp

end
