(* ===== verification/Task.thy ===== *)
theory Task
  imports Sched KList
begin

text \<open>
  The older task list of \<open>src/src/usertask/Task.c\<close> and the user mode entry points of
  \<open>src/src/core/user.c\<close>. \<open>TASK\<close> objects and the register frames they point to live in heaps of
  their own, indexed by address; the list nodes are those of \<open>list.c\<close> in byte memory.
\<close>

section \<open>Definitions\<close>

record TASK =
  t_id :: int
  t_ready :: int
  t_r :: u64
  t_fd :: "FILE_DESC list"
  t_address :: u64
  t_stackTop :: u64
  t_base :: u64

abbreviation (input) sizeof_TASK :: u64 where "sizeof_TASK \<equiv> 38952"

record ktask = ksched +
  task_heap :: "u64 \<Rightarrow> TASK"
  reg_heap :: "u64 \<Rightarrow> registers"
  tasks :: u64
  current :: u64
  PID :: u32

definition set_task :: "u64 \<Rightarrow> (TASK \<Rightarrow> TASK) \<Rightarrow> 'a ktask_scheme \<Rightarrow> 'a ktask_scheme" where
  "set_task t f s = s\<lparr>task_heap := (task_heap s)(t := f (task_heap s t))\<rparr>"

definition set_reg :: "u64 \<Rightarrow> (registers \<Rightarrow> registers) \<Rightarrow> 'a ktask_scheme \<Rightarrow> 'a ktask_scheme" where
  "set_reg p f s = s\<lparr>reg_heap := (reg_heap s)(p := f (reg_heap s p))\<rparr>"

definition zero_registers :: registers where
  "zero_registers = \<lparr>r_segment = 0, r15 = 0, r14 = 0, r13 = 0, r12 = 0, r11 = 0, r10 = 0, r9 = 0, r8 = 0, rbp = 0,
     rdi = 0, rsi = 0, rdx = 0, rcx = 0, rbx = 0, rax = 0, interupt = 0, r_zero = 0, rip = 0, r_cs = 0, rflags = 0,
     rsp = 0, r_ss = 0\<rparr>"

definition Scheduler_START :: "interrupts \<Rightarrow> interrupts outcome" where
  "Scheduler_START t = IRQ_RegisterHandler 0 Scheduler_LOOP_ROUND_ROBIN_ptr t"

definition TaskNewPID :: "'a ktask_scheme \<Rightarrow> int \<times> 'a ktask_scheme" where
  "TaskNewPID s = (sint (PID s + 1), s\<lparr>PID := PID s + 1\<rparr>)"

text \<open>The descriptor loop of \<open>TaskDup\<close> goes on when a descriptor cannot be duplicated.\<close>

fun dup_fds_all :: "FILE_DESC list \<Rightarrow> FILE_DESC list \<Rightarrow> 'a kext2_scheme \<Rightarrow> FILE_DESC list \<times> 'a kext2_scheme" where
  "dup_fds_all (n # ns) (d # ds) s =
     (case FILE_DESC_DUP n d s of (_, n, s) \<Rightarrow> case dup_fds_all ns ds s of (ns, s) \<Rightarrow> (n # ns, s))"
| "dup_fds_all ns ds s = (ns, s)"

definition user_windows :: "u64 \<Rightarrow> 'a kpaging_scheme \<Rightarrow> 'a kpaging_scheme" where
  "user_windows address s =
     MemoryRemap 0x800000 (address + 0x400000) 7
       (MemoryRemap 0x600000 (address + 0x200000) 7 (MemoryRemap 0x400000 address 7 s))"

definition TaskDup :: "u64 \<Rightarrow> u64 \<Rightarrow> 'a ktask_scheme \<Rightarrow> (int \<times> 'a ktask_scheme) outcome" where
  "TaskDup n old s =
     (let stackLen = t_stackTop (task_heap s old) - rsp (reg_heap s (t_r (task_heap s old)));
          nr = t_r (task_heap s n);
          s = set_reg nr (\<lambda>_. reg_heap s (t_r (task_heap s old))) s
      in andthen (PageAllocateN 1 s) (\<lambda>(address, s).
        let s = user_windows address s;
            stack = address + 0x200000;
            s = set_task n (\<lambda>t. t\<lparr>t_base := address\<rparr>) s;
            s = set_reg nr (\<lambda>r. r\<lparr>rsp := stack\<rparr>) s;
            s = set_task n (\<lambda>t. t\<lparr>t_stackTop := stack\<rparr>) s;
            (i, s) = TaskNewPID s;
            s = set_task n (\<lambda>t. t\<lparr>t_id := i, t_ready := 1\<rparr>) s;
            s = set_task n (\<lambda>t. t\<lparr>t_address := address + (t_address (task_heap s old) - t_base (task_heap s old))\<rparr>) s;
            s = set_reg nr (\<lambda>r. r\<lparr>rip := t_address (task_heap s n)\<rparr>) s;
            s = s\<lparr>kmem := memcpy (kmem s) (stack - stackLen) (t_stackTop (task_heap s old) - stackLen) (long_to_int stackLen)\<rparr>;
            (fds, s) = dup_fds_all (t_fd (task_heap s n)) (t_fd (task_heap s old)) s
        in Inr (1, set_task n (\<lambda>t. t\<lparr>t_fd := fds\<rparr>) s)))"

text \<open>
  \<open>USER_JUMP_ASM(args,func,stack)\<close> loads the general registers from the frame at \<open>args\<close> and
  enters user mode at \<open>func\<close> with the given stack. \<open>TaskChange\<close> passes 100 as that address.
\<close>

definition USER_JUMP_ASM :: "u64 \<Rightarrow> u64 \<Rightarrow> u64 \<Rightarrow> 'a ktask_scheme \<Rightarrow> ('r, 'a ktask_scheme) control" where
  "USER_JUMP_ASM args func stack s = EntersUser ((reg_heap s args)\<lparr>rip := func, rsp := stack\<rparr>) s"

definition TaskChange :: "u64 \<Rightarrow> 'a ktask_scheme \<Rightarrow> ('r, 'a ktask_scheme) control" where
  "TaskChange t s =
     (let r = reg_heap s (t_r (task_heap s t)) in USER_JUMP_ASM 100 (rip r) (rsp r) s)"

definition TaskCurrent :: "'a ktask_scheme \<Rightarrow> u64 outcome" where
  "TaskCurrent s = (if current s = 0 then Inl NullDeref else Inr (U64 (kmem s) (current s)))"

definition TaskAddList :: "u64 \<Rightarrow> 'a ktask_scheme \<Rightarrow> 'a ktask_scheme outcome" where
  "TaskAddList task s = andthen (ListAdd (tasks s) task s) (\<lambda>(p, s). Inr (s\<lparr>tasks := p\<rparr>))"

text \<open>The frame pointer of the new task is whatever its block held before.\<close>

definition TaskCreate :: "u64 \<Rightarrow> u64 \<Rightarrow> u64 \<Rightarrow> 'a ktask_scheme \<Rightarrow> (u64 \<times> 'a ktask_scheme) outcome" where
  "TaskCreate args address stack s =
     (let (t, s) = malloc sizeof_TASK s;
          s = set_task t (\<lambda>x. x\<lparr>t_stackTop := stack\<rparr>) s;
          (i, s) = TaskNewPID s;
          s = set_task t (\<lambda>x. x\<lparr>t_id := i, t_ready := 1\<rparr>) s;
          s = set_reg (t_r (task_heap s t)) (\<lambda>_. zero_registers\<lparr>rip := address, rsp := stack - 16, rdi := args\<rparr>) s
      in andthen (TaskAddList t s) (\<lambda>s.
        Inr (t, set_task t (\<lambda>x. x\<lparr>t_fd := replicate 256 zero_desc, t_address := address\<rparr>) s)))"

text \<open>The conditions of the loops of \<open>TaskNextFree\<close> are constant: the first test returns.\<close>

definition TaskNextFree :: "u64 \<Rightarrow> u64 \<Rightarrow> u64" where
  "TaskNextFree start cur = (if start = 0 \<or> cur = 0 then 0 else cur)"

definition next_task :: "'a ktask_scheme \<Rightarrow> u64" where
  "next_task s = (if U64 (kmem s) (current s + 8) = 0 then tasks s else U64 (kmem s) (current s + 8))"

definition TaskKill :: "u64 \<Rightarrow> 'a ktask_scheme \<Rightarrow> (unit, 'a ktask_scheme) control outcome" where
  "TaskKill upl s =
     (let temp = current s
      in andthen (TaskCurrent s) (\<lambda>task.
         andthen (PageDealloc (t_address (task_heap s task)) s) (\<lambda>s.
           let s = set_task task (\<lambda>t. t\<lparr>t_ready := 0\<rparr>) s
           in case ListLength (kmem s) (tasks s) of
                None \<Rightarrow> Inl Hangs
              | Some n \<Rightarrow>
                  if n = 0 then
                    Inr (Returns () ((set_reg (t_r (task_heap s task)) (\<lambda>r. r\<lparr>rip := upl\<rparr>) s)\<lparr>current := 0\<rparr>))
                  else if n = 1 then
                    andthen (ListRemove (tasks s) temp (kmem s)) (\<lambda>(l, m).
                      let s = s\<lparr>kmem := m, tasks := l\<rparr>
                      in Inr (Returns () ((set_reg (t_r (task_heap s task)) (\<lambda>r. r\<lparr>rip := upl\<rparr>) s)\<lparr>current := 0\<rparr>)))
                  else
                    let s = s\<lparr>current := next_task s\<rparr>
                    in andthen (ListRemove (tasks s) temp (kmem s)) (\<lambda>(l, m).
                         let s = s\<lparr>kmem := m, tasks := l\<rparr>
                         in Inr (TaskChange (U64 (kmem s) (current s)) s)))))"

definition Scheduler_LOOP_ROUND_ROBIN :: "u64 \<Rightarrow> 'a ktask_scheme \<Rightarrow> (unit, 'a ktask_scheme) control outcome" where
  "Scheduler_LOOP_ROUND_ROBIN r s =
     (case ListLength (kmem s) (tasks s) of
        None \<Rightarrow> Inl Hangs
      | Some n \<Rightarrow>
          if n = 0 then Inr (Returns () s)
          else if sint n \<le> 1 then
            (if current s = 0 then
               let s = s\<lparr>current := tasks s\<rparr> in Inr (TaskChange (U64 (kmem s) (current s)) s)
             else Inr (Returns () s))
          else andthen (TaskCurrent s) (\<lambda>task.
            let s = set_task task (\<lambda>t. t\<lparr>t_r := r\<rparr>) s;
                s = s\<lparr>current := next_task s\<rparr>
            in Inr (TaskChange (U64 (kmem s) (current s)) s)))"

subsection \<open>core/user.c\<close>

definition USERMODE_ENTER :: "u64 \<Rightarrow> 'a ktask_scheme \<Rightarrow> (unit, 'a ktask_scheme) control outcome" where
  "USERMODE_ENTER TEST_HALT s =
     andthen (AllocatePage 5 0x40000000 7 s) (\<lambda>s.
       let address = 0x140000000; s = s\<lparr>kmem := memcpy (kmem s) address TEST_HALT 100\<rparr>
       in Inr (USER_JUMP_ASM 0 address (address + 0x100000) s))"

definition USERMODE_ADD :: "u64 \<Rightarrow> 'a ktask_scheme \<Rightarrow> 'a ktask_scheme outcome" where
  "USERMODE_ADD TEST_HALT s =
     andthen (AllocatePage 5 0x40000000 7 s) (\<lambda>s.
       let address = 0x140000000; s = s\<lparr>kmem := memcpy (kmem s) address TEST_HALT 100\<rparr>
       in andthen (TaskCreate 0 address (address + 0x100000) s) (\<lambda>(_, s). Inr s))"

definition ARGS_LEN :: "mem \<Rightarrow> u64 \<Rightarrow> int \<Rightarrow> int" where
  "ARGS_LEN m args mx =
     (case find (\<lambda>i. U64 m (args + of_nat (8 * i)) = 0) [0..<nat mx] of None \<Rightarrow> max 0 mx | Some i \<Rightarrow> int i)"

definition USERMODE_DO_STUFF :: "u64 \<Rightarrow> 'a ktask_scheme \<Rightarrow> 'a ktask_scheme outcome" where
  "USERMODE_DO_STUFF task s =
     andthen (PageAllocateN 2 s) (\<lambda>(address, s).
       let s = user_windows address s; stack = address + 0x200000
       in Inr (set_reg (t_r (task_heap s task)) (\<lambda>r. r\<lparr>rip := address, rsp := stack, rbp := stack\<rparr>) s))"

text \<open>\<open>CEILDIV(a,b)\<close> on signed operands: the division truncates towards 0.\<close>

definition ceil_div :: "int \<Rightarrow> int \<Rightarrow> int" where
  "ceil_div a b = (if a + b - 1 < 0 then - ((- (a + b - 1)) div b) else (a + b - 1) div b)"

definition USERMODE_EXEC_ELF :: "ELF_FILE \<Rightarrow> u64 \<Rightarrow> u64 \<Rightarrow> 'a ktask_scheme \<Rightarrow> (int \<times> 'a ktask_scheme) outcome" where
  "USERMODE_EXEC_ELF elf args env s =
     andthen (PageAllocateN (of_int (ceil_div (elf_len elf) 0x200000)) s) (\<lambda>(address, s).
     andthen (ELF_LookUpSymbol (kmem s) elf start_symbol) (\<lambda>start.
       if start = 0 then Inr (0, s)
       else
         let start_addr = sec_Offset (kmem s) (section_at elf (unat (sym_SectionTableIndex (kmem s) start)));
             s = s\<lparr>kmem := memcpy (kmem s) address (elf_file elf) (elf_len elf)\<rparr>
         in if list_ex (outside_window (kmem s) elf) [0..<unat (SectionHeaderCount (kmem s) (elf_header elf))]
            then Inr (0, s)
            else
              let s = user_windows address s;
                  s = s\<lparr>kmem := load_sections elf 0 (kmem s)\<rparr>;
                  stack = address + 0x200000;
                  s = s\<lparr>kmem := set_U64 (kmem s) (stack - 8) args\<rparr>;
                  s = s\<lparr>kmem := set_U64 (kmem s) (stack - 16) (of_int (ARGS_LEN (kmem s) args 10))\<rparr>
              in andthen (TaskCreate args (address + start_addr) (address + 0x200000) s) (\<lambda>(t, s).
                   Inr (1, set_task t (\<lambda>x. x\<lparr>t_base := address\<rparr>) s))))"

section \<open>Lemmas\<close>

lemma nodes_next:
  "nodes m p as \<Longrightarrow> i < length as \<Longrightarrow>
   as ! i \<noteq> 0 \<and> U64 m (as ! i + 8) = (if Suc i < length as then as ! Suc i else 0)"
proof (induction as arbitrary: p i)
  case (Cons a as)
  then show ?case by (cases i; cases as) auto
qed simp

lemma next_task_nodes:
  assumes "nodes (kmem s) (tasks s) as" "current s = as ! i" "i < length as"
  shows "next_task s = as ! (Suc i mod length as)"
proof (cases "Suc i < length as")
  case True
  then show ?thesis using nodes_next [OF assms(1,3)] nodes_next [OF assms(1) True] assms(2) by (simp add: next_task_def)
next
  case False
  then have "Suc i = length as" using assms(3) by simp
  moreover have "tasks s = as ! 0" using assms(1,3) by (cases as) auto
  ultimately show ?thesis using nodes_next [OF assms(1,3)] assms(2) by (simp add: next_task_def)
qed

section \<open>Properties\<close>

text \<open>
  with at least two tasks in the list, a tick saves the frame pointer of the current task,
  makes the next one in cyclic order current, and enters user mode at that task's saved
  instruction and stack pointers; the remaining registers come from the frame at address 100
  and not from the task's own.
\<close>

theorem Scheduler_LOOP_next_task:
  assumes ns: "nodes (kmem s) (tasks s) as" "2 \<le> length as" "length as < 2 ^ 31"
    and i: "i < length as" "current s = as ! i"
    and other: "U64 (kmem s) (as ! (Suc i mod length as)) = nxt" "U64 (kmem s) (as ! i) = cur" "nxt \<noteq> cur"
  shows "\<exists>s'. Scheduler_LOOP_ROUND_ROBIN r s = Inr (EntersUser ((reg_heap s 100)
      \<lparr>rip := rip (reg_heap s (t_r (task_heap s nxt))), rsp := rsp (reg_heap s (t_r (task_heap s nxt)))\<rparr>) s') \<and>
    current s' = as ! (Suc i mod length as) \<and> t_r (task_heap s' cur) = r \<and>
    (\<forall>t. t \<noteq> cur \<longrightarrow> task_heap s' t = task_heap s t)"
proof -
  have n: "ListLength (kmem s) (tasks s) = Some (of_nat (length as))"
    using ListLength_loop_nodes [OF ns(1), of 0] by (simp add: ListLength_def)
  have "unat (of_nat (length as) :: u32) = length as" using ns(3) by (simp add: unat_of_nat take_bit_nat_eq_self)
  then have k: "sint (of_nat (length as) :: u32) = int (length as)" "(of_nat (length as) :: u32) \<noteq> 0"
    using ns(2,3) sint_small_u32 [of "of_nat (length as)"] by (auto simp: word_unat_eq_iff)
  have c: "current s \<noteq> 0" using nodes_next [OF ns(1) i(1)] i(2) by simp
  define s1 where "s1 = set_task cur (\<lambda>t. t\<lparr>t_r := r\<rparr>) s"
  have s1: "kmem s1 = kmem s" "tasks s1 = tasks s" "current s1 = current s" "reg_heap s1 = reg_heap s"
    by (simp_all add: s1_def set_task_def)
  have nt: "next_task s1 = as ! (Suc i mod length as)" using next_task_nodes [of s1 as i] ns(1) i by (simp add: s1)
  have "Scheduler_LOOP_ROUND_ROBIN r s = Inr (TaskChange nxt (s1\<lparr>current := next_task s1\<rparr>))"
    using ns(2) k n c other(1) nt by (simp add: Scheduler_LOOP_ROUND_ROBIN_def TaskCurrent_def i(2) other(2) s1 Let_def
        flip: s1_def)
  then show ?thesis using other(3) nt
    by (simp add: TaskChange_def USER_JUMP_ASM_def Let_def s1) (simp add: s1_def set_task_def)
qed

text \<open>Two tasks at 0x5000 and 0x6000, their nodes at 0x100 and 0x200, the first one current.\<close>

definition demo_tasks :: ktask where
  "demo_tasks = ksched.extend ((demo_sched 0)\<lparr>kmem := (\<lambda>_. 0)(0x101 := 0x50, 0x109 := 2, 0x201 := 0x60)\<rparr>)
     (ktask.fields (\<lambda>a. \<lparr>t_id = 1, t_ready = 1, t_r = a + 0x100, t_fd = [], t_address = 0, t_stackTop = 0, t_base = 0\<rparr>)
       (\<lambda>a. zero_registers\<lparr>rip := a, rsp := a + 8\<rparr>) 0x100 0x100 2)"

lemma demo_tasks_sel:
  "kmem demo_tasks = (\<lambda>_. 0)(0x101 := 0x50, 0x109 := 2, 0x201 := 0x60)"
  "tasks demo_tasks = 0x100" "current demo_tasks = 0x100"
  "reg_heap demo_tasks a = zero_registers\<lparr>rip := a, rsp := a + 8\<rparr>" "t_r (task_heap demo_tasks a) = a + 0x100"
  by (simp_all add: demo_tasks_def demo_sched_def ksched.defs ktask.defs)

theorem Scheduler_LOOP_next_task_witness:
  "\<exists>s' f. Scheduler_LOOP_ROUND_ROBIN 0x9000 demo_tasks = Inr (EntersUser f s') \<and>
     rip f = 0x6100 \<and> rsp f = 0x6108 \<and> current s' = 0x200 \<and> t_r (task_heap s' 0x5000) = 0x9000"
proof -
  have u: "U64 (kmem demo_tasks) 0x100 = 0x5000" "U64 (kmem demo_tasks) 0x108 = 0x200"
    "U64 (kmem demo_tasks) 0x200 = 0x6000" "U64 (kmem demo_tasks) 0x208 = 0"
    by (simp_all add: demo_tasks_sel U64_def bytes_numeral)
  then have "nodes (kmem demo_tasks) (tasks demo_tasks) [0x100, 0x200]" by (simp add: demo_tasks_sel(2))
  then show ?thesis
    using Scheduler_LOOP_next_task [of demo_tasks "[0x100, 0x200]" 0 "0x6000" "0x5000" "0x9000"] u
    by (fastforce simp: demo_tasks_sel(2-))
qed

end
