(* ===== verification/CharDev.thy ===== *)
theory CharDev
  imports CString
begin

text \<open>
  The character device of \<open>src/src/CharacterDevice/CharacterDevice.c\<close>, the buffer between the
  keyboard (writer) and \<open>read\<close> on file descriptor 0 (reader). The array of the device is a
  byte list; the caller's buffers are memory addresses.
\<close>

section \<open>Definitions\<close>

abbreviation (input) CHARACTER_DEVICE_MAX_LEN :: int where "CHARACTER_DEVICE_MAX_LEN \<equiv> 81920"

record CharacterDevice =
  cd_buffer :: "u8 list"
  cd_left :: int
  cd_right :: int

definition STD_IN :: CharacterDevice where
  "STD_IN = \<lparr>cd_buffer = replicate 81920 0, cd_left = 0, cd_right = 0\<rparr>"

text \<open>A copy of \<open>n\<close> bytes into the array from index \<open>start\<close> on, which must lie inside it.\<close>

definition into_array :: "u8 list \<Rightarrow> int \<Rightarrow> u8 list \<Rightarrow> u8 list outcome" where
  "into_array xs start bs =
     (if bs = [] then Inr xs
      else if 0 \<le> start \<and> start + int (length bs) \<le> int (length xs)
      then Inr (take (nat start) xs @ bs @ drop (nat start + length bs) xs)
      else Inl OutOfBounds)"

definition CharacterDeviceWrite :: "mem \<Rightarrow> CharacterDevice \<Rightarrow> u64 \<Rightarrow> int \<Rightarrow> CharacterDevice outcome" where
  "CharacterDeviceWrite m d str len =
     (let start = cd_right d;
          end_ix = int32 (start + len);
          start = min start CHARACTER_DEVICE_MAX_LEN;
          end_ix = min end_ix CHARACTER_DEVICE_MAX_LEN;
          d = d\<lparr>cd_right := end_ix\<rparr>
      in andthen (into_array (cd_buffer d) start (load_bytes m str (nat (end_ix - start))))
           (\<lambda>xs. Inr (d\<lparr>cd_buffer := xs\<rparr>)))"

text \<open>\<open>CharacterDeviceRead\<close>: the returned count, the memory and the device. The argument \<open>len\<close> is
  not used by the code.\<close>

definition CharacterDeviceRead :: "mem \<Rightarrow> CharacterDevice \<Rightarrow> u64 \<Rightarrow> int \<Rightarrow> (int \<times> mem \<times> CharacterDevice) outcome" where
  "CharacterDeviceRead m d target len =
     (let start = cd_left d; end_ix = cd_right d;
          start = min start CHARACTER_DEVICE_MAX_LEN;
          end_ix = min end_ix CHARACTER_DEVICE_MAX_LEN
      in if end_ix = start then Inr (0, m, d)
         else if start < end_ix \<and> (start < 0 \<or> int (length (cd_buffer d)) < end_ix) then Inl OutOfBounds
         else Inr (end_ix - start,
           store_bytes m target (take (nat (end_ix - start)) (drop (nat start) (cd_buffer d))),
           d\<lparr>cd_left := end_ix\<rparr>))"

section \<open>The byte queue interface\<close>

text \<open>
  What the two sides rely on: bytes written are appended to the pending bytes as far as there
  is room, and a read hands over all pending bytes in order and leaves none.
\<close>

locale byte_queue =
  fixes put :: "'q \<Rightarrow> u8 list \<Rightarrow> 'q"
    and get :: "'q \<Rightarrow> u8 list \<times> 'q"
    and pending :: "'q \<Rightarrow> u8 list"
    and space :: "'q \<Rightarrow> nat"
    and inv :: "'q \<Rightarrow> bool"
  assumes put_ok: "inv q \<Longrightarrow> inv (put q bs) \<and> pending (put q bs) = pending q @ take (space q) bs \<and>
      space (put q bs) = space q - length bs"
    and get_ok: "inv q \<Longrightarrow> fst (get q) = pending q \<and> inv (snd (get q)) \<and> pending (snd (get q)) = [] \<and>
      space (snd (get q)) = space q"
begin

lemma puts_then_get:
  "inv q \<Longrightarrow> length (concat bss) \<le> space q \<Longrightarrow>
   fst (get (fold (\<lambda>bs q. put q bs) bss q)) = pending q @ concat bss"
proof (induction bss arbitrary: q)
  case Nil
  then show ?case using get_ok by simp
next
  case (Cons bs bss)
  note p = put_ok [OF Cons.prems(1), of bs]
  have "fst (get (fold (\<lambda>bs q. put q bs) bss (put q bs))) = pending (put q bs) @ concat bss"
    using p Cons.prems(2) by (intro Cons.IH) auto
  then show ?case using p Cons.prems(2) by simp
qed

lemma space_never_grows:
  "inv q \<Longrightarrow> space (fold (\<lambda>bs q. snd (get (put q bs))) bss q) = space q - length (concat bss)"
proof (induction bss arbitrary: q)
  case Nil
  then show ?case by simp
next
  case (Cons bs bss)
  note p = put_ok [OF Cons.prems, of bs]
  note g = get_ok [of "put q bs"]
  show ?case using Cons.IH [of "snd (get (put q bs))"] p g by simp
qed

end

section \<open>Lemmas\<close>

definition cd_inv :: "CharacterDevice \<Rightarrow> bool" where
  "cd_inv d \<longleftrightarrow> length (cd_buffer d) = 81920 \<and> 0 \<le> cd_left d \<and> cd_left d \<le> cd_right d \<and> cd_right d \<le> 81920"

definition cd_pending :: "CharacterDevice \<Rightarrow> u8 list" where
  "cd_pending d = take (nat (cd_right d - cd_left d)) (drop (nat (cd_left d)) (cd_buffer d))"

definition cd_space :: "CharacterDevice \<Rightarrow> nat" where
  "cd_space d = nat (81920 - cd_right d)"

lemma pending_snoc:
  fixes xs :: "u8 list"
  assumes "l \<le> r" "r + length bs \<le> length xs"
  shows "take (r + length bs - l) (drop l (take r xs @ bs @ drop (r + length bs) xs)) =
    take (r - l) (drop l xs) @ bs"
proof -
  have "drop l (take r xs @ bs @ drop (r + length bs) xs) =
      drop l (take r xs) @ bs @ drop (r + length bs) xs"
    using assms by simp
  moreover have "length (drop l (take r xs)) = r - l" using assms by simp
  moreover have "drop l (take r xs) = take (r - l) (drop l xs)" by (simp add: drop_take)
  ultimately show ?thesis using assms by simp
qed

lemma write_effect:
  assumes inv: "cd_inv d" and len: "0 \<le> len" "len < 2 ^ 30"
  defines "n \<equiv> min (nat len) (cd_space d)"
  shows "\<exists>d'. CharacterDeviceWrite m d str len = Inr d' \<and> cd_inv d' \<and> cd_left d' = cd_left d \<and>
    cd_right d' = cd_right d + int n \<and> cd_pending d' = cd_pending d @ load_bytes m str n"
proof -
  obtain l r where lr: "cd_left d = int l" "cd_right d = int r"
    using inv by (metis cd_inv_def nonneg_int_cases order_trans)
  have b: "l \<le> r" "r \<le> 81920" "length (cd_buffer d) = 81920" using inv lr by (simp_all add: cd_inv_def)
  have n: "n = min (nat len) (81920 - r)" by (simp add: n_def cd_space_def lr nat_diff_distrib)
  have e: "min (int32 (int r + len)) 81920 = int (r + n)"
    using b len n by (auto simp: min_def nat_diff_distrib)
  have rn: "r + n \<le> 81920" using b n by simp
  have "load_bytes m str n = [] \<longleftrightarrow> n = 0" by (cases n) auto
  then have i: "into_array (cd_buffer d) (int r) (load_bytes m str n) =
      Inr (take r (cd_buffer d) @ load_bytes m str n @ drop (r + n) (cd_buffer d))"
    using b rn by (cases "n = 0") (simp_all add: into_array_def)
  define d' where "d' = d\<lparr>cd_right := int (r + n),
      cd_buffer := take r (cd_buffer d) @ load_bytes m str n @ drop (r + n) (cd_buffer d)\<rparr>"
  have "CharacterDeviceWrite m d str len = Inr d'"
    using b e i by (simp add: CharacterDeviceWrite_def Let_def lr d'_def)
  moreover have "cd_inv d'" using b rn by (simp add: cd_inv_def d'_def lr)
  moreover have "cd_pending d' = cd_pending d @ load_bytes m str n"
    using pending_snoc [of l r "load_bytes m str n" "cd_buffer d"] b rn
    by (simp add: cd_pending_def d'_def lr nat_diff_distrib' of_nat_diff flip: of_nat_add)
  ultimately show ?thesis by (simp add: d'_def lr)
qed

lemma read_effect:
  assumes "cd_inv d"
  shows "CharacterDeviceRead m d target len =
    Inr (int (length (cd_pending d)), store_bytes m target (cd_pending d), d\<lparr>cd_left := cd_right d\<rparr>)"
proof -
  have b: "length (cd_buffer d) = 81920" "0 \<le> cd_left d" "cd_left d \<le> cd_right d" "cd_right d \<le> 81920"
    using assms by (simp_all add: cd_inv_def)
  then have l: "length (cd_pending d) = nat (cd_right d - cd_left d)" by (simp add: cd_pending_def nat_diff_distrib)
  show ?thesis
  proof (cases "cd_right d = cd_left d")
    case True
    then show ?thesis using b by (simp add: CharacterDeviceRead_def cd_pending_def Let_def)
  next
    case False
    then show ?thesis using b l by (simp add: CharacterDeviceRead_def cd_pending_def Let_def)
  qed
qed

text \<open>The device as a queue: bytes are put from a fixed memory, and taken into one.\<close>

definition cd_put :: "CharacterDevice \<Rightarrow> u8 list \<Rightarrow> CharacterDevice" where
  "cd_put d bs =
     (case CharacterDeviceWrite (store_bytes (\<lambda>_. 0) 0 (take 81920 bs)) d 0 (int (length (take 81920 bs))) of
        Inr d' \<Rightarrow> d' | Inl _ \<Rightarrow> d)"

definition cd_get :: "CharacterDevice \<Rightarrow> u8 list \<times> CharacterDevice" where
  "cd_get d =
     (case CharacterDeviceRead (\<lambda>_. 0) d 0 0 of
        Inr (n, m, d') \<Rightarrow> (load_bytes m 0 (nat n), d') | Inl _ \<Rightarrow> ([], d))"

interpretation stdin_queue: byte_queue cd_put cd_get cd_pending cd_space cd_inv
proof
  fix q :: CharacterDevice and bs :: "u8 list"
  assume inv: "cd_inv q"
  let ?bs = "take 81920 bs" and ?n = "min (nat (int (length (take 81920 bs)))) (cd_space q)"
  have sp: "cd_space q \<le> 81920" using inv by (auto simp: cd_inv_def cd_space_def nat_le_iff)
  have "length ?bs \<le> 81920" by simp
  then have "int (length ?bs) < 1073741824" by linarith
  then have sm: "int (length ?bs) < 2 ^ 30" by simp
  obtain d' where d': "CharacterDeviceWrite (store_bytes (\<lambda>_. 0) 0 ?bs) q 0 (int (length ?bs)) = Inr d'" "cd_inv d'"
      "cd_right d' = cd_right q + int ?n" "cd_pending d' = cd_pending q @ load_bytes (store_bytes (\<lambda>_. 0) 0 ?bs) 0 ?n"
    using write_effect [OF inv of_nat_0_le_iff sm, of "store_bytes (\<lambda>_. 0) 0 ?bs" 0] by blast
  have "load_bytes (store_bytes (\<lambda>_. 0) 0 ?bs) 0 (length ?bs) = ?bs" by (rule load_store_bytes) simp
  then have "take ?n (load_bytes (store_bytes (\<lambda>_. 0) 0 ?bs) 0 (length ?bs)) = take ?n ?bs" by simp
  moreover have "load_bytes m a k = take k (load_bytes m a j)" if "k \<le> j" for m a and j k :: nat
    using that load_bytes_append [of m a k "j - k"] by simp
  ultimately have "load_bytes (store_bytes (\<lambda>_. 0) 0 ?bs) 0 ?n = take ?n ?bs" by (metis min.cobounded1 nat_int)
  also have "\<dots> = take (cd_space q) bs" using sp by (simp add: min_def)
  finally have "load_bytes (store_bytes (\<lambda>_. 0) 0 ?bs) 0 ?n = take (cd_space q) bs" .
  moreover have "cd_put q bs = d'" unfolding cd_put_def d'(1) by simp
  moreover have e: "81920 - cd_right d' = (81920 - cd_right q) - int ?n" using d'(3) by simp
  have "0 \<le> 81920 - cd_right q" using inv by (simp add: cd_inv_def)
  then have "nat ((81920 - cd_right q) - int ?n) = nat (81920 - cd_right q) - nat (int ?n)"
    by (rule nat_diff_distrib') simp
  then have "cd_space d' = cd_space q - ?n" unfolding cd_space_def e nat_int .
  then have "cd_space d' = cd_space q - length bs" using sp by (auto simp: min_def)
  ultimately show "cd_inv (cd_put q bs) \<and> cd_pending (cd_put q bs) = cd_pending q @ take (cd_space q) bs \<and>
      cd_space (cd_put q bs) = cd_space q - length bs"
    using d' by simp
next
  fix q :: CharacterDevice
  assume inv: "cd_inv q"
  have len: "length (cd_pending q) \<le> 81920" using inv by (simp add: cd_pending_def cd_inv_def)
  then have "load_bytes (store_bytes (\<lambda>_. 0) 0 (cd_pending q)) 0 (length (cd_pending q)) = cd_pending q"
    by (intro load_store_bytes) simp
  then have "cd_get q = (cd_pending q, q\<lparr>cd_left := cd_right q\<rparr>)"
    by (simp add: cd_get_def read_effect [OF inv])
  then show "fst (cd_get q) = cd_pending q \<and> cd_inv (snd (cd_get q)) \<and> cd_pending (snd (cd_get q)) = [] \<and>
      cd_space (snd (cd_get q)) = cd_space q"
    using inv by (simp add: cd_inv_def cd_pending_def cd_space_def)
qed

section \<open>Properties\<close>

text \<open>
  \<open>CharacterDeviceWrite\<close> keeps the device well formed and appends to the pending bytes as many
  bytes of the string as there is space behind \<open>right\<close>; the rest is dropped.
\<close>

theorem CharacterDeviceWrite_appends:
  assumes "cd_inv d" "0 \<le> len" "len < 2 ^ 30"
  shows "\<exists>d'. CharacterDeviceWrite m d str len = Inr d' \<and> cd_inv d' \<and>
    cd_pending d' = cd_pending d @ load_bytes m str (min (nat len) (cd_space d))"
  using write_effect [OF assms] by blast

theorem CharacterDeviceWrite_appends_witness:
  "\<exists>d'. CharacterDeviceWrite (\<lambda>_. 65) STD_IN 0x100 3 = Inr d' \<and> cd_pending d' = [65, 65, 65]"
proof -
  have i: "cd_inv STD_IN" and p: "cd_pending STD_IN = []" "cd_space STD_IN = 81920"
    by (simp_all add: cd_inv_def STD_IN_def cd_pending_def cd_space_def)
  show ?thesis using CharacterDeviceWrite_appends [OF i, of 3 "\<lambda>_. 65" "0x100"] p
    by (auto simp: bytes_numeral)
qed

text \<open>
  \<open>CharacterDeviceRead\<close> stores all pending bytes at the target, in order, and returns their
  number, whatever \<open>len\<close> the caller passed: with fewer than that many bytes at the target it
  writes past the caller's buffer.
\<close>

theorem CharacterDeviceRead_all:
  assumes "cd_inv d"
  shows "\<exists>d'. CharacterDeviceRead m d target len =
      Inr (int (length (cd_pending d)), store_bytes m target (cd_pending d), d') \<and>
    cd_inv d' \<and> cd_pending d' = [] \<and> cd_space d' = cd_space d"
  using assms by (simp add: read_effect cd_inv_def cd_pending_def cd_space_def)

theorem CharacterDeviceRead_all_witness:
  "\<exists>m d'. CharacterDeviceRead (\<lambda>_. 0) (STD_IN\<lparr>cd_right := 4\<rparr>) 0x100 1 = Inr (4, m, d')"
proof -
  have i: "cd_inv (STD_IN\<lparr>cd_right := 4\<rparr>)" "length (cd_pending (STD_IN\<lparr>cd_right := 4\<rparr>)) = 4"
    by (simp_all add: cd_inv_def STD_IN_def cd_pending_def)
  show ?thesis using CharacterDeviceRead_all [OF i(1), of "\<lambda>_. 0" "0x100" 1] i(2) by auto
qed

text \<open>
  the space of the device is never given back: after any sequence of writes, each followed by a
  read, it is the initial space less all the bytes written, so after 81920 bytes every
  further byte is lost.
\<close>

theorem device_space_exhausted:
  assumes "cd_inv d" "cd_space d \<le> length (concat bss)"
  shows "cd_pending (cd_put (fold (\<lambda>bs q. snd (cd_get (cd_put q bs))) bss d) bs) =
    cd_pending (fold (\<lambda>bs q. snd (cd_get (cd_put q bs))) bss d)"
proof -
  let ?q = "fold (\<lambda>bs q. snd (cd_get (cd_put q bs))) bss d"
  have "cd_inv (fold (\<lambda>bs q. snd (cd_get (cd_put q bs))) cs d)" for cs
    using assms(1) by (induction cs rule: rev_induct) (auto simp: stdin_queue.put_ok stdin_queue.get_ok)
  then have "cd_inv ?q" .
  moreover have "cd_space ?q = 0" using stdin_queue.space_never_grows [OF assms(1), of bss] assms(2) by simp
  ultimately show ?thesis by (simp add: stdin_queue.put_ok)
qed

theorem device_space_exhausted_witness:
  "cd_pending (cd_put (fold (\<lambda>bs q. snd (cd_get (cd_put q bs))) [replicate 81920 65] STD_IN) [66]) =
     cd_pending (fold (\<lambda>bs q. snd (cd_get (cd_put q bs))) [replicate 81920 65] STD_IN)"
proof -
  have "cd_inv STD_IN" "cd_space STD_IN \<le> length (concat [replicate 81920 (65 :: u8)])"
    by (simp_all add: cd_inv_def STD_IN_def cd_space_def)
  then show ?thesis by (rule device_space_exhausted)
qed

end
