(* ===== verification/SyscallNames.thy ===== *)
theory SyscallNames
  imports Prelude
begin

text \<open>
  The table of system call names in \<open>src/src/userspace/syscall.c\<close> (\<open>SYSCALL_GET_NAME\<close>): a chain of
  comparisons with the numbers of \<open>src/src/include/bits/syscall.h\<close>, in the order of the source,
  the first match wins. Three lists hold the chain.
\<close>

section \<open>Definitions\<close>

definition syscall_names_1 :: "(int \<times> string) list" where
  "syscall_names_1 =
    [(0, ''SYS_read''), (1, ''SYS_write''), (2, ''SYS_open''), (3, ''SYS_close''), (4, ''SYS_stat''), (5,
     ''SYS_fstat''), (6, ''SYS_lstat''), (7, ''SYS_poll''), (8, ''SYS_lseek''), (9, ''SYS_mmap''), (10,
     ''SYS_mprotect''), (11, ''SYS_munmap''), (12, ''SYS_brk''), (13, ''SYS_rt_sigaction''), (14,
     ''SYS_rt_sigprocmask''), (15, ''SYS_rt_sigreturn''), (16, ''SYS_ioctl''), (17, ''SYS_pread64''), (18,
     ''SYS_pwrite64''), (19, ''SYS_readv''), (20, ''SYS_writev''), (21, ''SYS_access''), (22, ''SYS_pipe''), (23,
     ''SYS_select''), (24, ''SYS_sched_yield''), (25, ''SYS_mremap''), (26, ''SYS_msync''), (27,
     ''SYS_mincore''), (28, ''SYS_madvise''), (29, ''SYS_shmget''), (30, ''SYS_shmat''), (31, ''SYS_shmctl''),
     (32, ''SYS_dup''), (33, ''SYS_dup2''), (34, ''SYS_pause''), (35, ''SYS_nanosleep''), (36,
     ''SYS_getitimer''), (37, ''SYS_alarm''), (38, ''SYS_setitimer''), (39, ''SYS_getpid''), (40,
     ''SYS_sendfile''), (41, ''SYS_socket''), (42, ''SYS_connect''), (43, ''SYS_accept''), (44, ''SYS_sendto''),
     (45, ''SYS_recvfrom''), (46, ''SYS_sendmsg''), (47, ''SYS_recvmsg''), (48, ''SYS_shutdown''), (49,
     ''SYS_bind''), (50, ''SYS_listen''), (51, ''SYS_getsockname''), (52, ''SYS_getpeername''), (53,
     ''SYS_socketpair''), (54, ''SYS_setsockopt''), (55, ''SYS_getsockopt''), (56, ''SYS_clone''), (57,
     ''SYS_fork''), (58, ''SYS_vfork''), (59, ''SYS_execve''), (60, ''SYS_exit''), (61, ''SYS_wait4''), (62,
     ''SYS_kill''), (63, ''SYS_uname''), (64, ''SYS_semget''), (65, ''SYS_semop''), (66, ''SYS_semctl''), (67,
     ''SYS_shmdt''), (68, ''SYS_msgget''), (69, ''SYS_msgsnd''), (70, ''SYS_msgrcv''), (71, ''SYS_msgctl''), (72,
     ''SYS_fcntl''), (73, ''SYS_flock''), (74, ''SYS_fsync''), (75, ''SYS_fdatasync''), (76, ''SYS_truncate''),
     (77, ''SYS_ftruncate''), (78, ''SYS_getdents''), (79, ''SYS_getcwd''), (80, ''SYS_chdir''), (81,
     ''SYS_fchdir''), (82, ''SYS_rename''), (83, ''SYS_mkdir''), (84, ''SYS_rmdir''), (85, ''SYS_creat''), (86,
     ''SYS_link''), (87, ''SYS_unlink''), (88, ''SYS_symlink''), (89, ''SYS_readlink''), (90, ''SYS_chmod''),
     (91, ''SYS_fchmod''), (92, ''SYS_chown''), (93, ''SYS_fchown''), (94, ''SYS_lchown''), (95, ''SYS_umask''),
     (96, ''SYS_gettimeofday''), (97, ''SYS_getrlimit''), (98, ''SYS_getrusage''), (99, ''SYS_sysinfo''), (100,
     ''SYS_times''), (101, ''SYS_ptrace''), (102, ''SYS_getuid''), (103, ''SYS_syslog''), (104, ''SYS_getgid''),
     (105, ''SYS_setuid''), (106, ''SYS_setgid''), (107, ''SYS_geteuid''), (108, ''SYS_getegid''), (109,
     ''SYS_setpgid''), (110, ''SYS_getppid''), (111, ''SYS_getpgrp''), (112, ''SYS_setsid''), (113,
     ''SYS_setreuid''), (114, ''SYS_setregid''), (115, ''SYS_getgroups''), (116, ''SYS_setgroups''), (117,
     ''SYS_setresuid''), (118, ''SYS_getresuid''), (119, ''SYS_setresgid''), (120, ''SYS_getresgid''), (121,
     ''SYS_getpgid'')]"

definition syscall_names_2 :: "(int \<times> string) list" where
  "syscall_names_2 =
    [(122, ''SYS_setfsuid''), (123, ''SYS_setfsgid''), (124, ''SYS_getsid''), (125, ''SYS_capget''), (126,
     ''SYS_capset''), (127, ''SYS_rt_sigpending''), (128, ''SYS_rt_sigtimedwait''), (129,
     ''SYS_rt_sigqueueinfo''), (130, ''SYS_rt_sigsuspend''), (131, ''SYS_sigaltstack''), (132, ''SYS_utime''),
     (133, ''SYS_mknod''), (134, ''SYS_uselib''), (135, ''SYS_personality''), (136, ''SYS_ustat''), (137,
     ''SYS_statfs''), (138, ''SYS_fstatfs''), (139, ''SYS_sysfs''), (140, ''SYS_getpriority''), (141,
     ''SYS_setpriority''), (142, ''SYS_sched_setparam''), (143, ''SYS_sched_getparam''), (144,
     ''SYS_sched_setscheduler''), (145, ''SYS_sched_getscheduler''), (146, ''SYS_sched_get_priority_max''), (147,
     ''SYS_sched_get_priority_min''), (148, ''SYS_sched_rr_get_interval''), (149, ''SYS_mlock''), (150,
     ''SYS_munlock''), (151, ''SYS_mlockall''), (152, ''SYS_munlockall''), (153, ''SYS_vhangup''), (154,
     ''SYS_modify_ldt''), (155, ''SYS_pivot_root''), (156, ''SYS__sysctl''), (157, ''SYS_prctl''), (158,
     ''SYS_arch_prctl''), (159, ''SYS_adjtimex''), (160, ''SYS_setrlimit''), (161, ''SYS_chroot''), (162,
     ''SYS_sync''), (163, ''SYS_acct''), (164, ''SYS_settimeofday''), (165, ''SYS_mount''), (166,
     ''SYS_umount2''), (167, ''SYS_swapon''), (168, ''SYS_swapoff''), (169, ''SYS_reboot''), (170,
     ''SYS_sethostname''), (171, ''SYS_setdomainname''), (172, ''SYS_iopl''), (173, ''SYS_ioperm''), (174,
     ''SYS_create_module''), (175, ''SYS_init_module''), (176, ''SYS_delete_module''), (177,
     ''SYS_get_kernel_syms''), (178, ''SYS_query_module''), (179, ''SYS_quotactl''), (180, ''SYS_nfsservctl''),
     (181, ''SYS_getpmsg''), (182, ''SYS_putpmsg''), (183, ''SYS_afs_syscall''), (184, ''SYS_tuxcall''), (185,
     ''SYS_security''), (186, ''SYS_gettid''), (187, ''SYS_readahead''), (188, ''SYS_setxattr''), (189,
     ''SYS_lsetxattr''), (190, ''SYS_fsetxattr''), (191, ''SYS_getxattr''), (192, ''SYS_lgetxattr''), (193,
     ''SYS_fgetxattr''), (194, ''SYS_listxattr''), (195, ''SYS_llistxattr''), (196, ''SYS_flistxattr''), (197,
     ''SYS_removexattr''), (198, ''SYS_lremovexattr''), (199, ''SYS_fremovexattr''), (200, ''SYS_tkill''), (201,
     ''SYS_time''), (202, ''SYS_futex''), (203, ''SYS_sched_setaffinity''), (204, ''SYS_sched_getaffinity''),
     (205, ''SYS_set_thread_area''), (206, ''SYS_io_setup''), (207, ''SYS_io_destroy''), (208,
     ''SYS_io_getevents''), (209, ''SYS_io_submit''), (210, ''SYS_io_cancel''), (211, ''SYS_get_thread_area''),
     (212, ''SYS_lookup_dcookie''), (213, ''SYS_epoll_create''), (214, ''SYS_epoll_ctl_old''), (215,
     ''SYS_epoll_wait_old''), (216, ''SYS_remap_file_pages''), (217, ''SYS_getdents64''), (218,
     ''SYS_set_tid_address''), (219, ''SYS_restart_syscall''), (220, ''SYS_semtimedop''), (221,
     ''SYS_fadvise64''), (222, ''SYS_timer_create''), (223, ''SYS_timer_settime''), (224, ''SYS_timer_gettime''),
     (225, ''SYS_timer_getoverrun''), (226, ''SYS_timer_delete''), (227, ''SYS_clock_settime''), (228,
     ''SYS_clock_gettime''), (229, ''SYS_clock_getres''), (230, ''SYS_clock_nanosleep''), (231,
     ''SYS_exit_group''), (232, ''SYS_epoll_wait''), (233, ''SYS_epoll_ctl''), (234, ''SYS_tgkill''), (235,
     ''SYS_utimes''), (236, ''SYS_vserver''), (237, ''SYS_mbind''), (238, ''SYS_set_mempolicy''), (239,
     ''SYS_get_mempolicy''), (240, ''SYS_mq_open''), (241, ''SYS_mq_unlink''), (242, ''SYS_mq_timedsend''), (243,
     ''SYS_mq_timedreceive''), (244, ''SYS_mq_notify''), (245, ''SYS_mq_getsetattr''), (246, ''SYS_kexec_load'')]"

definition syscall_names_3 :: "(int \<times> string) list" where
  "syscall_names_3 =
    [(247, ''SYS_waitid''), (248, ''SYS_add_key''), (249, ''SYS_request_key''), (250, ''SYS_keyctl''), (251,
     ''SYS_ioprio_set''), (252, ''SYS_ioprio_get''), (253, ''SYS_inotify_init''), (254,
     ''SYS_inotify_add_watch''), (255, ''SYS_inotify_rm_watch''), (256, ''SYS_migrate_pages''), (257,
     ''SYS_openat''), (258, ''SYS_mkdirat''), (259, ''SYS_mknodat''), (260, ''SYS_fchownat''), (261,
     ''SYS_futimesat''), (262, ''SYS_newfstatat''), (263, ''SYS_unlinkat''), (264, ''SYS_renameat''), (265,
     ''SYS_linkat''), (266, ''SYS_symlinkat''), (267, ''SYS_readlinkat''), (268, ''SYS_fchmodat''), (269,
     ''SYS_faccessat''), (270, ''SYS_pselect6''), (271, ''SYS_ppoll''), (272, ''SYS_unshare''), (273,
     ''SYS_set_robust_list''), (274, ''SYS_get_robust_list''), (275, ''SYS_splice''), (276, ''SYS_tee''), (277,
     ''SYS_sync_file_range''), (278, ''SYS_vmsplice''), (279, ''SYS_move_pages''), (280, ''SYS_utimensat''),
     (281, ''SYS_epoll_pwait''), (282, ''SYS_signalfd''), (283, ''SYS_timerfd_create''), (284, ''SYS_eventfd''),
     (285, ''SYS_fallocate''), (286, ''SYS_timerfd_settime''), (287, ''SYS_timerfd_gettime''), (288,
     ''SYS_accept4''), (289, ''SYS_signalfd4''), (290, ''SYS_eventfd2''), (291, ''SYS_epoll_create1''), (292,
     ''SYS_dup3''), (293, ''SYS_pipe2''), (294, ''SYS_inotify_init1''), (295, ''SYS_preadv''), (296,
     ''SYS_pwritev''), (297, ''SYS_rt_tgsigqueueinfo''), (298, ''SYS_perf_event_open''), (299, ''SYS_recvmmsg''),
     (300, ''SYS_fanotify_init''), (301, ''SYS_fanotify_mark''), (302, ''SYS_prlimit64''), (303,
     ''SYS_name_to_handle_at''), (304, ''SYS_open_by_handle_at''), (305, ''SYS_clock_adjtime''), (306,
     ''SYS_syncfs''), (307, ''SYS_sendmmsg''), (308, ''SYS_setns''), (309, ''SYS_getcpu''), (310,
     ''SYS_process_vm_readv''), (311, ''SYS_process_vm_writev''), (312, ''SYS_kcmp''), (313,
     ''SYS_finit_module''), (314, ''SYS_sched_setattr''), (315, ''SYS_sched_getattr''), (316, ''SYS_renameat2''),
     (317, ''SYS_seccomp''), (318, ''SYS_getrandom''), (319, ''SYS_memfd_create''), (320,
     ''SYS_kexec_file_load''), (321, ''SYS_bpf''), (322, ''SYS_execveat''), (323, ''SYS_userfaultfd''), (324,
     ''SYS_membarrier''), (325, ''SYS_mlock2''), (326, ''SYS_copy_file_range''), (327, ''SYS_preadv2''), (328,
     ''SYS_pwritev2''), (329, ''SYS_pkey_mprotect''), (330, ''SYS_pkey_alloc''), (331, ''SYS_pkey_free''), (332,
     ''SYS_statx''), (333, ''SYS_io_pgetevents''), (334, ''SYS_rseq''), (424, ''SYS_pidfd_send_signal''), (425,
     ''SYS_io_uring_setup''), (426, ''SYS_io_uring_enter''), (427, ''SYS_io_uring_register''), (428,
     ''SYS_open_tree''), (429, ''SYS_move_mount''), (430, ''SYS_fsopen''), (431, ''SYS_fsconfig''), (432,
     ''SYS_fsmount''), (433, ''SYS_fspick''), (434, ''SYS_pidfd_open''), (435, ''SYS_clone3''), (436,
     ''SYS_close_range''), (437, ''SYS_openat2''), (438, ''SYS_pidfd_getfd''), (439, ''SYS_faccessat2''), (440,
     ''SYS_process_madvise''), (441, ''SYS_epoll_pwait2''), (442, ''SYS_mount_setattr''), (444,
     ''SYS_landlock_create_ruleset''), (445, ''SYS_landlock_add_rule''), (446, ''SYS_landlock_restrict_self''),
     (447, ''SYS_memfd_secret''), (448, ''SYS_process_mrelease''), (449, ''SYS_futex_waitv''), (450,
     ''SYS_set_mempolicy_home_node''), (451, ''SYS_cachestat''), (452, ''SYS_fchmodat2'')]"

definition syscall_names :: "(int \<times> string) list" where
  "syscall_names = syscall_names_1 @ syscall_names_2 @ syscall_names_3"

definition SYSCALL_GET_NAME :: "int \<Rightarrow> string" where
  "SYSCALL_GET_NAME v = (case map_of syscall_names v of Some n \<Rightarrow> n | None \<Rightarrow> ''UNDEFINED SYSCALL'')"

section \<open>Properties\<close>

lemma syscall_numbers_1: "map fst syscall_names_1 = [0..121]" by code_simp

lemma syscall_numbers_2: "map fst syscall_names_2 = [122..246]" by code_simp

lemma syscall_numbers_3: "map fst syscall_names_3 = [247..334] @ [424..442] @ [444..452]" by code_simp

lemma syscall_numbers: "set (map fst syscall_names) = {0..334} \<union> {424..442} \<union> {444..452}"
  unfolding syscall_names_def map_append set_append syscall_numbers_1 syscall_numbers_2 syscall_numbers_3 set_upto by auto

lemma syscall_numbers_distinct: "distinct (map fst syscall_names)"
  unfolding syscall_names_def map_append syscall_numbers_1 syscall_numbers_2 syscall_numbers_3 by auto

lemma syscall_names_defined: "list_all (\<lambda>e. snd e \<noteq> ''UNDEFINED SYSCALL'') syscall_names"
  unfolding syscall_names_def by code_simp

text \<open>
  the name table is a bijection between its entries and the numbers 0 to 334, 424 to 442 and
  444 to 452: each entry is found under its own number, and exactly the numbers outside these
  ranges are undefined.
\<close>

theorem SYSCALL_GET_NAME_table:
  "(\<forall>e \<in> set syscall_names. SYSCALL_GET_NAME (fst e) = snd e) \<and>
   (SYSCALL_GET_NAME v = ''UNDEFINED SYSCALL'' \<longleftrightarrow> \<not> (0 \<le> v \<and> v \<le> 334 \<or> 424 \<le> v \<and> v \<le> 442 \<or> 444 \<le> v \<and> v \<le> 452))"
proof -
  have 1: "map_of syscall_names (fst e) = Some (snd e)" if "e \<in> set syscall_names" for e
    using that syscall_numbers_distinct by (simp add: map_of_is_SomeI)
  have "map_of syscall_names v = None \<longleftrightarrow> v \<notin> set (map fst syscall_names)" by (simp add: map_of_eq_None_iff)
  moreover have "n \<noteq> ''UNDEFINED SYSCALL''" if "map_of syscall_names v = Some n" for n
    using map_of_SomeD [OF that] syscall_names_defined by (auto simp: list_all_iff)
  ultimately show ?thesis using 1 unfolding syscall_numbers
    by (auto simp: SYSCALL_GET_NAME_def split: option.splits)
qed

theorem SYSCALL_GET_NAME_table_witness:
  "(57, ''SYS_fork'') \<in> set syscall_names \<and> SYSCALL_GET_NAME 57 = ''SYS_fork'' \<and>
   SYSCALL_GET_NAME 443 = ''UNDEFINED SYSCALL''"
proof -
  have m: "(57, ''SYS_fork'') \<in> set syscall_names" by (simp add: syscall_names_def syscall_names_1_def)
  then have "SYSCALL_GET_NAME (fst (57 :: int, ''SYS_fork'')) = snd (57 :: int, ''SYS_fork'')"
    using SYSCALL_GET_NAME_table [of 0] by blast
  then show ?thesis using m SYSCALL_GET_NAME_table [of 443] by simp
qed

end
