(* ===== verification/Syscalls.thy ===== *)
theory Syscalls
  imports Task CharDev SyscallNames
begin

text \<open>
  System calls and the exception handlers that share their machinery:
  \<open>src/src/userspace/syscall.c\<close>, \<open>unistd.c\<close>, \<open>uio.c\<close>, \<open>signal.c\<close> and
  \<open>src/src/exceptions/exceptions.c\<close>. The state adds the standard input device and the bytes
  user programs have written to the terminal (\<open>printf\<close> drops NUL bytes); the kernel's own
  messages are not part of it. Local variables that the C code leaves uninitialised, the disk
  and the address of the idle loop are in a record of parameters.
\<close>

section \<open>Definitions\<close>

record ksys = ktask +
  std_in :: CharacterDevice
  console :: "u8 list"

record sys_env =
  env_rd :: reader
  env_idle :: u64
  env_inode :: EXT2_INODE
  env_elf :: ELF_FILE
  env_proc :: Process

subsection \<open>File descriptors of the current process\<close>

definition get_fd :: "'a ksched_scheme \<Rightarrow> int \<Rightarrow> FILE_DESC outcome" where
  "get_fd s i =
     (if getProcess s = 0 then Inl NullDeref
      else if i < 0 then Inl OutOfBounds
      else array_get (fd (proc_heap s (getProcess s))) (nat i))"

definition set_fd :: "int \<Rightarrow> FILE_DESC \<Rightarrow> 'a ksched_scheme \<Rightarrow> 'a ksched_scheme outcome" where
  "set_fd i d s =
     (if getProcess s = 0 then Inl NullDeref
      else if i < 0 then Inl OutOfBounds
      else andthen (array_set (fd (proc_heap s (getProcess s))) (nat i) d) (\<lambda>fds.
        Inr (s\<lparr>proc_heap := (proc_heap s)(getProcess s := (proc_heap s (getProcess s))\<lparr>fd := fds\<rparr>)\<rparr>)))"

definition FD_FIND :: "'a ksched_scheme \<Rightarrow> int outcome" where
  "FD_FIND s =
     (if getProcess s = 0 then Inl NullDeref
      else Inr (case find (\<lambda>i. used (fd (proc_heap s (getProcess s)) ! i) \<noteq> 1) [3..<256] of
                  None \<Rightarrow> - 1 | Some i \<Rightarrow> int i))"

subsection \<open>unistd.c, uio.c and signal.c\<close>

definition sys_write :: "int \<Rightarrow> u64 \<Rightarrow> u32 \<Rightarrow> 'a ksys_scheme \<Rightarrow> int \<times> 'a ksys_scheme" where
  "sys_write f buf len s =
     (if f \<noteq> 1 then (- 1, s)
      else (sint len, s\<lparr>console := console s @ filter (\<lambda>c. c \<noteq> 0) (load_bytes (kmem s) buf (unat len))\<rparr>))"

text \<open>\<open>MIN(len,FILE_GetRemaining(desc))\<close> compares unsigned values.\<close>

definition read_count :: "u32 \<Rightarrow> FILE_DESC \<Rightarrow> int" where
  "read_count len desc =
     (let rem = of_int (FILE_GetRemaining desc) :: u32 in sint (if len < rem then len else rem))"

definition sys_read :: "int \<Rightarrow> u64 \<Rightarrow> u32 \<Rightarrow> 'a ksys_scheme \<Rightarrow> (int \<times> 'a ksys_scheme) outcome" where
  "sys_read f buf len s =
     (if f = 0 then
        andthen (CharacterDeviceRead (kmem s) (std_in s) buf (sint len)) (\<lambda>(x, m, d).
          Inr (x, s\<lparr>kmem := m, std_in := d\<rparr>))
      else andthen (get_fd s f) (\<lambda>desc.
        if used desc \<noteq> 1 then Inr (0, s)
        else
          let hex = FILE_GetBuffer (dfile desc);
              bytes_read = read_count len desc;
              s = s\<lparr>kmem := memcpy (kmem s) buf (hex + of_int (offset desc)) bytes_read\<rparr>
          in andthen (set_fd f (desc\<lparr>offset := int32 (offset desc + bytes_read)\<rparr>) s) (\<lambda>s. Inr (bytes_read, s))))"

definition sys_exit :: "sys_env \<Rightarrow> registers \<Rightarrow> int \<Rightarrow> 'a ksys_scheme \<Rightarrow> (registers, 'a ksys_scheme) control outcome" where
  "sys_exit env r code s =
     andthen (ProcessKillCurrent s) (\<lambda>s.
       let (p, s) = TrySchedule s
       in Inr (if p \<noteq> 0 then ProcessRun p s else Returns (UserSpaceDoNothing (env_idle env) r) s))"

definition sys_execve :: "sys_env \<Rightarrow> u64 \<Rightarrow> u64 \<Rightarrow> u64 \<Rightarrow> 'a ksys_scheme \<Rightarrow> (int \<times> 'a ksys_scheme) outcome" where
  "sys_execve env path argv envp s =
     andthen (EXT2_GET_INODE_FROM_PATH (env_rd env) (env_inode env) path s) (\<lambda>(r, elf, s).
       if r = 1 then
         let (hex, s) = malloc (ucast (inode_size elf)) s
         in andthen (EXT2_READFILE (env_rd env) elf hex (ucast (inode_size elf)) s) (\<lambda>(_, s).
              let (st, file) = ELF_PARSE (kmem s) (env_elf env) hex (sint (inode_size elf))
              in if st = 1 then andthen (USERMODE_EXEC_ELF file argv envp s) (\<lambda>(_, s). Inr (0, s)) else Inr (0, s))
       else Inr (0, s))"

definition sys_fork :: "sys_env \<Rightarrow> 'a ksys_scheme \<Rightarrow> (int \<times> 'a ksys_scheme) outcome" where
  "sys_fork env s =
     (if getProcess s = 0 then Inl NullDeref
      else andthen (ProcessDup (env_proc env) (proc_heap s (getProcess s)) s) (\<lambda>(i, n, s).
        if i = 0 then Inr (- 1, s)
        else let n = n\<lparr>regs := (regs n)\<lparr>rax := 0\<rparr>\<rparr>
             in andthen (SchedulerSubmit n s) (\<lambda>(_, s). Inr (pid n, s))))"

fun writev_loop :: "int \<Rightarrow> u64 \<Rightarrow> nat \<Rightarrow> int \<Rightarrow> 'a ksys_scheme \<Rightarrow> int \<times> 'a ksys_scheme" where
  "writev_loop f iov 0 acc s = (acc, s)"
| "writev_loop f iov (Suc n) acc s =
     (case sys_write f (U64 (kmem s) iov) (ucast (U64 (kmem s) (iov + 8))) s of
        (k, s) \<Rightarrow> writev_loop f (iov + 16) n (int32 (acc + k)) s)"

definition sys_writev :: "int \<Rightarrow> u64 \<Rightarrow> int \<Rightarrow> 'a ksys_scheme \<Rightarrow> int \<times> 'a ksys_scheme" where
  "sys_writev f iov iovcnt s = writev_loop f iov (unat (of_int iovcnt :: u64)) 0 s"

definition sigprocmask :: "int \<Rightarrow> u64 \<Rightarrow> u64 \<Rightarrow> int" where
  "sigprocmask how nset oldset = - 1"

subsection \<open>syscall.c\<close>

definition ioctl :: "int \<Rightarrow> int \<Rightarrow> int" where
  "ioctl f op = 0"

text \<open>The \<open>struct stat\<close> as it stands in the caller's buffer.\<close>

definition stat_bytes :: "stat \<Rightarrow> u8 list" where
  "stat_bytes b =
     le_bytes 8 (unat (st_dev b)) @ le_bytes 8 (unat (st_ino b)) @ le_bytes 8 (unat (st_nlink b)) @
     le_bytes 4 (unat (st_mode b)) @ le_bytes 4 (unat (st_uid b)) @ le_bytes 4 (unat (st_gid b)) @
     le_bytes 4 (unat (st_pad0 b)) @ le_bytes 8 (unat (st_rdev b)) @ le_bytes 8 (unat (st_size b)) @
     le_bytes 8 (unat (st_blksize b)) @ le_bytes 8 (unat (st_blocks b)) @ le_bytes 8 (unat (st_atim b)) @
     le_bytes 8 (unat (st_mtim b)) @ le_bytes 8 (unat (st_ctim b)) @ concat (map (\<lambda>w. le_bytes 8 (unat w)) (st_unused b))"

definition sys_fstat :: "int \<Rightarrow> u64 \<Rightarrow> 'a ksys_scheme \<Rightarrow> (int \<times> 'a ksys_scheme) outcome" where
  "sys_fstat f statbuf s =
     andthen (get_fd s f) (\<lambda>desc.
       let (r, b) = FSTAT (dfile desc) in Inr (r, s\<lparr>kmem := store_bytes (kmem s) statbuf (stat_bytes b)\<rparr>))"

definition sys_getpid :: "'a ktask_scheme \<Rightarrow> int outcome" where
  "sys_getpid s = andthen (TaskCurrent s) (\<lambda>t. Inr (t_id (task_heap s t)))"

definition fcntl :: "int \<Rightarrow> int \<Rightarrow> int \<Rightarrow> int" where
  "fcntl f op args = 1"

definition sys_close :: "int \<Rightarrow> 'a ksched_scheme \<Rightarrow> (int \<times> 'a ksched_scheme) outcome" where
  "sys_close f s =
     andthen (get_fd s f) (\<lambda>d.
       if used d = 0 then Inr (0, s)
       else andthen (set_fd f (FILE_DESC_FREE d) s) (\<lambda>s. Inr (1, s)))"

text \<open>\<open>FILE_DESC_DUP(&t->fd[n],&t->fd[f])\<close>\<close>

definition dup_into :: "int \<Rightarrow> int \<Rightarrow> 'a ksched_scheme \<Rightarrow> 'a ksched_scheme outcome" where
  "dup_into n f s =
     andthen (get_fd s n) (\<lambda>dn.
     andthen (get_fd s f) (\<lambda>df.
       case FILE_DESC_DUP dn df s of (_, d, s) \<Rightarrow> set_fd n d s))"

definition sys_dup :: "int \<Rightarrow> 'a ksched_scheme \<Rightarrow> (int \<times> 'a ksched_scheme) outcome" where
  "sys_dup f s =
     andthen (get_fd s f) (\<lambda>d.
       if used d = 0 then Inr (0, s)
       else andthen (FD_FIND s) (\<lambda>idx.
            andthen (dup_into idx f s) (\<lambda>s. Inr (1, s))))"

definition sys_dup2 :: "int \<Rightarrow> int \<Rightarrow> 'a ksched_scheme \<Rightarrow> (int \<times> 'a ksched_scheme) outcome" where
  "sys_dup2 f n s =
     andthen (get_fd s f) (\<lambda>d.
       if used d = 0 then Inr (0, s)
       else andthen (sys_close n s) (\<lambda>(_, s).
            andthen (dup_into n f s) (\<lambda>s. Inr (1, s))))"

definition sys_open :: "sys_env \<Rightarrow> u64 \<Rightarrow> int \<Rightarrow> u16 \<Rightarrow> 'a ksched_scheme \<Rightarrow> (int \<times> 'a ksched_scheme) outcome" where
  "sys_open env path flags md s =
     andthen (FD_FIND s) (\<lambda>idx.
       if idx = - 1 then Inr (0, s)
       else andthen (get_fd s idx) (\<lambda>d.
            andthen (FILE_GET (env_rd env) d path s) (\<lambda>(r, d, s).
            andthen (set_fd idx d s) (\<lambda>s. Inr (if r \<noteq> 0 then idx else 0, s)))))"

definition save_frame :: "registers \<Rightarrow> 'a ksched_scheme \<Rightarrow> 'a ksched_scheme" where
  "save_frame r s =
     (if getProcess s \<noteq> 0
      then s\<lparr>proc_heap := (proc_heap s)(getProcess s := (proc_heap s (getProcess s))\<lparr>regs := r\<rparr>)\<rparr> else s)"

text \<open>The calls that return a value: the number, the three arguments, the result.\<close>

definition dispatch_call ::
    "sys_env \<Rightarrow> u64 \<Rightarrow> u64 \<Rightarrow> u64 \<Rightarrow> u64 \<Rightarrow> 'a ksys_scheme \<Rightarrow> (int \<times> 'a ksys_scheme) outcome option" where
  "dispatch_call env nr a1 a2 a3 s =
     (if nr = 1 then Some (Inr (sys_write (long_to_int a1) a2 (ucast a3) s))
      else if nr = 20 then Some (Inr (sys_writev (long_to_int a1) a2 (long_to_int a3) s))
      else if nr = 2 then Some (sys_open env a1 (long_to_int a2) (ucast a3) s)
      else if nr = 0 then Some (sys_read (long_to_int a1) a2 (ucast a3) s)
      else if nr = 59 then Some (sys_execve env a1 a2 a3 s)
      else if nr = 39 then Some (andthen (sys_getpid s) (\<lambda>i. Inr (i, s)))
      else if nr = 4 then Some (sys_fstat (long_to_int a1) a2 s)
      else if nr = 32 then Some (sys_dup (long_to_int a1) s)
      else if nr = 33 then Some (sys_dup2 (long_to_int a1) (long_to_int a2) s)
      else if nr = 3 then Some (sys_close (long_to_int a1) s)
      else if nr = 72 then Some (Inr (fcntl (long_to_int a1) (long_to_int a2) (long_to_int a3), s))
      else if nr = 16 then Some (Inr (ioctl (long_to_int a1) (long_to_int a2), s))
      else if nr = 14 then Some (Inr (sigprocmask (long_to_int a1) a2 a3, s))
      else if nr = 57 then Some (sys_fork env s)
      else None)"

definition syscall :: "sys_env \<Rightarrow> registers \<Rightarrow> 'a ksys_scheme \<Rightarrow> (registers, 'a ksys_scheme) control outcome" where
  "syscall env r s =
     (let s = save_frame r s
      in case dispatch_call env (rax r) (rdi r) (rsi r) (rdx r) s of
           Some x \<Rightarrow> andthen x (\<lambda>(ret, s). Inr (Returns (r\<lparr>rax := of_int ret\<rparr>) s))
         | None \<Rightarrow>
             andthen (sys_exit env r (if rax r = 60 then long_to_int (rdi r) else - 1) s) (\<lambda>c.
               Inr (case c of Returns r s \<Rightarrow> Returns (r\<lparr>rax := 0\<rparr>) s | EntersUser f s \<Rightarrow> EntersUser f s)))"

subsection \<open>exceptions.c\<close>

text \<open>A fault of a user program, recognised by an I/O privilege level of 3.\<close>

definition from_user :: "registers \<Rightarrow> bool" where
  "from_user r \<longleftrightarrow> drop_bit 12 (rflags r) = 3"

definition PageFaultHandler :: "sys_env \<Rightarrow> registers \<Rightarrow> 'a ksched_scheme \<Rightarrow> (registers \<times> 'a ksched_scheme) outcome" where
  "PageFaultHandler env r s =
     (if from_user r then
        let r = r\<lparr>rip := env_idle env\<rparr>
        in if getProcess s \<noteq> 0 then andthen (ProcessKillCurrent s) (\<lambda>s. Inr (r, s)) else Inr (r, s)
      else Inl Halted)"

definition InvalidOpcodeException :: "sys_env \<Rightarrow> registers \<Rightarrow> 'a ksched_scheme \<Rightarrow> (registers \<times> 'a ksched_scheme) outcome" where
  "InvalidOpcodeException env r s =
     (if from_user r then
        let r = r\<lparr>rip := env_idle env\<rparr>
        in if getProcess s \<noteq> 0 then andthen (ProcessKillCurrent s) (\<lambda>s. Inr (r, s)) else Inr (r, s)
      else Inl Halted)"

definition GeneralProtectionFault ::
    "sys_env \<Rightarrow> registers \<Rightarrow> 'a ktask_scheme \<Rightarrow> (registers, 'a ktask_scheme) control outcome" where
  "GeneralProtectionFault env r s =
     (if from_user r then
        let r = r\<lparr>rip := env_idle env\<rparr>
        in andthen (TaskKill (env_idle env) s) (\<lambda>c.
             Inr (case c of Returns _ s \<Rightarrow> Returns r s | EntersUser f s \<Rightarrow> EntersUser f s))
      else Inl Halted)"

section \<open>Lemmas\<close>

text \<open>Reading in chunks: the bytes each call delivered into the buffer.\<close>

fun read_many :: "int \<Rightarrow> u64 \<Rightarrow> u32 list \<Rightarrow> 'a ksys_scheme \<Rightarrow> (u8 list \<times> 'a ksys_scheme) outcome" where
  "read_many f buf [] s = Inr ([], s)"
| "read_many f buf (n # ns) s =
     andthen (sys_read f buf n s) (\<lambda>(k, s).
     andthen (read_many f buf ns s) (\<lambda>(bs, s'). Inr (load_bytes (kmem s) buf (nat k) @ bs, s')))"

text \<open>Descriptor \<open>f\<close> of the current process is an ext2 file with \<open>len\<close> bytes at \<open>p\<close>, read up to \<open>off\<close>.\<close>

definition open_at :: "'a ksched_scheme \<Rightarrow> int \<Rightarrow> u64 \<Rightarrow> nat \<Rightarrow> nat \<Rightarrow> bool" where
  "open_at s f p len off \<longleftrightarrow>
     0 < f \<and> (\<exists>d. get_fd s f = Inr d \<and> used d = 1 \<and> ftype (dfile d) = 1 \<and> ext2_data (dfile d) = p \<and>
       unat (inode_size (ext2_inode (dfile d))) = len \<and> offset d = int off) \<and> off \<le> len \<and> len < 2 ^ 31"

lemma get_fd_set_fd:
  assumes "get_fd s f = Inr d0"
  shows "\<exists>s'. set_fd f d s = Inr s' \<and> get_fd s' f = Inr d \<and> kmem s' = kmem s"
  using assms by (auto simp: get_fd_def set_fd_def array_get_def array_set_def getProcess_def split: if_splits)

lemma get_fd_kmem [simp]: "get_fd (s\<lparr>kmem := m\<rparr>) f = get_fd s f"
  by (simp add: get_fd_def getProcess_def)

lemma get_fd_heap [simp]: "get_fd (s\<lparr>malloc_start := p\<rparr>) f = get_fd s f"
  by (simp add: get_fd_def getProcess_def)

lemma find_range_Some:
  assumes "a \<le> i" "i < b" "P i" "\<And>j. a \<le> j \<Longrightarrow> j < i \<Longrightarrow> \<not> P j"
  shows "find P [a..<b] = Some i"
  using assms by (auto simp: find_Some_iff intro!: exI [of _ "i - a"])

lemma read_count_open:
  assumes "ftype (dfile d) = 1" "unat (inode_size (ext2_inode (dfile d))) = len" "offset d = int off"
    "off \<le> len" "len < 2 ^ 31"
  shows "read_count n d = int (min (unat n) (len - off))"
proof -
  have r: "FILE_GetRemaining d = int (len - off)"
    using assms by (simp add: FILE_GetRemaining_def FILE_GetLength_def sint_small_u32 of_nat_diff)
  have u: "unat (of_int (int (len - off)) :: u32) = len - off" using assms(5) by (simp add: unat_of_nat take_bit_nat_eq_self)
  show ?thesis using u assms(5)
    by (cases "unat n < len - off") (simp_all add: read_count_def r Let_def word_less_nat_alt sint_small_u32)
qed

lemma sys_read_step:
  assumes o: "open_at s f p len off" and dj: "disjoint_blocks buf (unat n) p len"
  defines "k \<equiv> min (unat n) (len - off)"
  shows "\<exists>s'. sys_read f buf n s = Inr (int k, s') \<and> open_at s' f p len (off + k) \<and>
    load_bytes (kmem s') buf k = take k (drop off (load_bytes (kmem s) p len)) \<and>
    load_bytes (kmem s') p len = load_bytes (kmem s) p len"
proof -
  obtain d where d: "get_fd s f = Inr d" "used d = 1" "ftype (dfile d) = 1" "ext2_data (dfile d) = p"
    "unat (inode_size (ext2_inode (dfile d))) = len" "offset d = int off" and b: "off \<le> len" "len < 2 ^ 31" "0 < f"
    using o by (auto simp: open_at_def)
  have rc: "read_count n d = int k" unfolding k_def by (rule read_count_open [OF d(3,5,6) b(1,2)])
  let ?s = "s\<lparr>kmem := memcpy (kmem s) buf (p + of_nat off) (int k)\<rparr>"
  let ?d = "d\<lparr>offset := int (off + k)\<rparr>"
  obtain s' where s': "set_fd f ?d ?s = Inr s'" "get_fd s' f = Inr ?d" "kmem s' = kmem ?s"
    using get_fd_set_fd [of ?s f d ?d] d(1) by auto
  have k: "k \<le> unat n" "off + k \<le> len" using b by (auto simp: k_def)
  have "int32 (int off + int k) = int (off + k)" using k b by simp
  then have "sys_read f buf n s = Inr (int k, s')"
    using d b s'(1) by (simp add: sys_read_def Let_def rc FILE_GetBuffer_def)
  moreover have "open_at s' f p len (off + k)" using d b k s'(2) by (simp add: open_at_def)
  moreover
  have pk: "unat (p + of_nat off) = unat p + off \<or> k = 0"
    using dj k b by (cases "k = 0") (auto simp: disjoint_blocks_def unat_add_of_nat)
  have dk: "disjoint_blocks buf k (p + of_nat off) k" "disjoint_blocks buf k p len"
    using dj k b pk less_imp_le [OF unat_u64_less [of "p + of_nat off"]] by (auto simp: disjoint_blocks_def)
  have "load_bytes (kmem s) p len = load_bytes (kmem s) p off @ load_bytes (kmem s) (p + of_nat off) (k + (len - off - k))"
    using load_bytes_append [of "kmem s" p off "len - off"] k(2) by simp
  then have sub: "load_bytes (kmem s) (p + of_nat off) k = take k (drop off (load_bytes (kmem s) p len))"
    by (simp add: load_bytes_append)
  have "load_bytes (kmem s') buf k = take k (drop off (load_bytes (kmem s) p len))"
    "load_bytes (kmem s') p len = load_bytes (kmem s) p len"
    using memcpy_block [OF dk(1), of "kmem s"] load_memcpy_other [OF disjoint_copy_safe [OF dk(1)] _ dk(2), of "kmem s"] k b
    by (simp_all add: s'(3) sub)
  ultimately show ?thesis by blast
qed

lemma read_many_file:
  assumes "open_at s f p len off" "list_all (\<lambda>n. disjoint_blocks buf (unat n) p len) ns"
  shows "\<exists>s'. read_many f buf ns s =
      Inr (take (sum_list (map unat ns)) (drop off (load_bytes (kmem s) p len)), s') \<and>
    open_at s' f p len (min len (off + sum_list (map unat ns)))"
  using assms
proof (induction ns arbitrary: s off)
  case Nil
  then show ?case by (auto simp: open_at_def)
next
  case (Cons n ns)
  let ?k = "min (unat n) (len - off)" and ?bs = "load_bytes (kmem s) p len"
  obtain s1 where s1: "sys_read f buf n s = Inr (int ?k, s1)" "open_at s1 f p len (off + ?k)"
    "load_bytes (kmem s1) buf ?k = take ?k (drop off ?bs)" "load_bytes (kmem s1) p len = ?bs"
    using sys_read_step [OF Cons.prems(1), of buf n] Cons.prems(2) by auto
  obtain s2 where s2: "read_many f buf ns s1 = Inr (take (sum_list (map unat ns)) (drop (off + ?k) ?bs), s2)"
    "open_at s2 f p len (min len (off + ?k + sum_list (map unat ns)))"
    using Cons.IH [OF s1(2)] Cons.prems(2) s1(4) by auto
  have off: "off \<le> len" using Cons.prems(1) by (simp add: open_at_def)
  have "take ?k (drop off ?bs) @ take (sum_list (map unat ns)) (drop (off + ?k) ?bs) =
      take (unat n + sum_list (map unat ns)) (drop off ?bs)"
  proof (cases "unat n \<le> len - off")
    case True
    then show ?thesis by (simp add: take_add add.commute min_absorb1)
  next
    case False
    then show ?thesis using off by simp
  qed
  moreover have "min len (off + ?k + sum_list (map unat ns)) = min len (off + (unat n + sum_list (map unat ns)))"
    using off by auto
  ultimately show ?case using s1(1,3) s2 by (simp del: load_bytes.simps)
qed

text \<open>Descriptors that \<open>FILE_DESC_DUP\<close> accepts, and the heap bytes it takes for one.\<close>

definition dup_ok :: "FILE_DESC \<Rightarrow> bool" where
  "dup_ok d \<longleftrightarrow> used d = 0 \<or> ftype (dfile d) = 1 \<and> unat (inode_size (ext2_inode (dfile d))) < 2 ^ 31"

definition dup_bytes :: "FILE_DESC \<Rightarrow> nat" where
  "dup_bytes d = (if used d = 0 then 0 else unat (inode_size (ext2_inode (dfile d))))"

lemma FILE_DESC_DUP_ok:
  assumes "dup_ok d"
  shows "\<exists>n' m. FILE_DESC_DUP n d s = (1, n', s\<lparr>malloc_start := malloc_start s + of_nat (dup_bytes d), kmem := m\<rparr>) \<and>
    (used d = 0 \<longrightarrow> n' = n) \<and> (used d \<noteq> 0 \<longrightarrow> used n' = used d \<and> offset n' = offset d \<and>
      ext2_inode (dfile n') = ext2_inode (dfile d) \<and> ftype (dfile n') = ftype (dfile d))"
proof (cases "used d = 0")
  case True
  then show ?thesis by (auto simp: FILE_DESC_DUP_def dup_bytes_def intro!: exI [of _ "kmem s"])
next
  case False
  then have "sint (inode_size (ext2_inode (dfile d))) = int (dup_bytes d)" "ftype (dfile d) = 1"
    using assms by (simp_all add: dup_ok_def dup_bytes_def sint_small_u32)
  then show ?thesis using False by (auto simp: FILE_DESC_DUP_def malloc_def Let_def)
qed

lemma dup_fds_ok:
  assumes "list_all dup_ok ds" "length ns = length ds"
  shows "\<exists>ns' m. dup_fds ns ds s =
      (1, ns', s\<lparr>malloc_start := malloc_start s + of_nat (sum_list (map dup_bytes ds)), kmem := m\<rparr>) \<and>
    list_all2 (\<lambda>n' d. used d \<noteq> 0 \<longrightarrow> used n' = used d \<and> offset n' = offset d \<and>
      ext2_inode (dfile n') = ext2_inode (dfile d) \<and> ftype (dfile n') = ftype (dfile d)) ns' ds"
  using assms
proof (induction ds arbitrary: ns s)
  case Nil
  then show ?case by (auto intro!: exI [of _ "kmem s"])
next
  case (Cons d ds)
  then obtain n ns1 where ns: "ns = n # ns1" "length ns1 = length ds" by (cases ns) auto
  obtain n' m where 1: "FILE_DESC_DUP n d s = (1, n', s\<lparr>malloc_start := malloc_start s + of_nat (dup_bytes d), kmem := m\<rparr>)"
    "used d \<noteq> 0 \<longrightarrow> used n' = used d \<and> offset n' = offset d \<and>
      ext2_inode (dfile n') = ext2_inode (dfile d) \<and> ftype (dfile n') = ftype (dfile d)"
    using FILE_DESC_DUP_ok [of d n s] Cons.prems(1) by auto
  show ?case
    using Cons.IH [of ns1 "s\<lparr>malloc_start := malloc_start s + of_nat (dup_bytes d), kmem := m\<rparr>"] Cons.prems(1) ns 1
    by (auto simp: add.assoc)
qed

text \<open>The saved flags of a user fault, bit by bit.\<close>

lemma from_user_bits:
  "from_user r \<longleftrightarrow> bit (rflags r) 12 \<and> bit (rflags r) 13 \<and> (\<forall>k \<ge> 14. \<not> bit (rflags r) k)"
proof -
  have m: "(3 :: u64) = mask 2" by (simp add: mask_eq_exp_minus_1)
  have three: "bit (3 :: u64) n \<longleftrightarrow> n < 2" for n unfolding m by (auto simp: bit_mask_iff)
  have "from_user r \<longleftrightarrow> (\<forall>n < 64. bit (rflags r) (12 + n) \<longleftrightarrow> n < 2)"
    unfolding from_user_def by (simp add: bit_eq_iff bit_drop_bit_eq three [symmetric])
  also have "\<dots> \<longleftrightarrow> (\<forall>n. bit (rflags r) (12 + n) \<longleftrightarrow> n < 2)"
    using bit_imp_le_length [of "rflags r"] by force
  also have "(\<forall>n. bit (rflags r) (12 + n) \<longleftrightarrow> n < 2) \<longleftrightarrow> bit (rflags r) 12 \<and> bit (rflags r) 13 \<and> (\<forall>k \<ge> 14. \<not> bit (rflags r) k)"
  proof
    assume a: "\<forall>n. bit (rflags r) (12 + n) \<longleftrightarrow> n < 2"
    have "\<not> bit (rflags r) k" if "14 \<le> k" for k using a [rule_format, of "k - 12"] that by simp
    then show "bit (rflags r) 12 \<and> bit (rflags r) 13 \<and> (\<forall>k \<ge> 14. \<not> bit (rflags r) k)"
      using a [rule_format, of 0] a [rule_format, of 1] by simp
  next
    assume a: "bit (rflags r) 12 \<and> bit (rflags r) 13 \<and> (\<forall>k \<ge> 14. \<not> bit (rflags r) k)"
    show "\<forall>n. bit (rflags r) (12 + n) \<longleftrightarrow> n < 2"
    proof
      fix n show "bit (rflags r) (12 + n) \<longleftrightarrow> n < 2"
        using a by (cases "n = 0"; cases "n = 1") auto
    qed
  qed
  finally show ?thesis .
qed

lemma save_frame_list:
  assumes inv: "procs_inv s" and i: "i < unat (procs_count s)"
    and cur: "procs_current s = item_at s (of_nat i)" "procs_current s \<noteq> 0"
  shows "proc_list (save_frame r s) = (proc_list s)[i := (proc_list s ! i)\<lparr>regs := r\<rparr>]"
proof -
  have "i \<le> unat (procs_capacity s)" "unat (procs_count s) \<le> unat (procs_capacity s)"
    using inv i by (simp_all add: procs_inv_def word_le_nat_alt)
  then have ne: "item_at s (of_nat k) \<noteq> item_at s (of_nat i)" if "k < unat (procs_count s)" "k \<noteq> i" for k
    using item_at_neq [OF inv, of k i] item_at_neq [OF inv, of i k] that by (cases "k < i") force+
  show ?thesis
    using cur i ne by (intro nth_equalityI) (auto simp: proc_list_def save_frame_def getProcess_def nth_list_update)
qed

lemma free_slot_allocated:
  assumes "length (page_allocator s) = 512" "free_slots s \<noteq> {}"
  shows "\<exists>i \<in> free_slots s. PageAllocateN 1 s = Inr (slot_page s i, s\<lparr>page_allocator := (page_allocator s)[i := 1]\<rparr>)"
proof -
  have rf: "run_free pa 1 i \<longleftrightarrow> pa ! i = 0" if "i < 512" for pa i using that by (auto simp: run_free_iff)
  obtain j where j: "j < 512" "page_allocator s ! j = 0" using assms(2) by (auto simp: free_slots_def)
  then obtain i where i: "find (run_free (page_allocator s) (unat (1 :: u32))) [0..<512] = Some i"
    using find_upt_None [of "run_free (page_allocator s) 1" 512] rf
    by (cases "find (run_free (page_allocator s) 1) [0..<512]") auto
  then have i': "i < 512" "page_allocator s ! i = 0" using rf by (auto simp: find_upt_Some)
  have "mark_run i 1 (unat (1 :: u32)) (page_allocator s) = Inr ((page_allocator s)[i := 1])"
    using i'(1) assms(1) by (simp add: array_set_def)
  then show ?thesis using i i' by (intro bexI [of _ i]) (simp_all add: PageAllocateN_def free_slots_def)
qed

lemma slot_page_procs_id [simp]: "slot_page (s\<lparr>procs_id := n\<rparr>) = slot_page (s :: 'a ksched_scheme)"
  by (simp add: slot_page_def fun_eq_iff)

lemma two_pages:
  fixes s :: "'a ksched_scheme"
  assumes pool: "pool_inv s" and two: "2 \<le> card (free_slots s)"
  shows "\<exists>i \<in> free_slots s. \<exists>j \<in> free_slots s. i \<noteq> j \<and> slot_page s i \<noteq> slot_page s j \<and>
    PageAllocateN 1 (s\<lparr>procs_id := n\<rparr>) =
      Inr (slot_page s i, s\<lparr>procs_id := n, page_allocator := (page_allocator s)[i := 1]\<rparr>) \<and>
    PageAllocateN 1 (s\<lparr>procs_id := n, page_allocator := (page_allocator s)[i := 1]\<rparr>) =
      Inr (slot_page s j, s\<lparr>procs_id := n, page_allocator := (page_allocator s)[i := 1, j := 1]\<rparr>)"
proof -
  have len: "length (page_allocator s) = 512" and inj: "inj_on (slot_page s) {..<512}"
    using pool by (simp_all add: pool_inv_def)
  have fs: "free_slots (s\<lparr>procs_id := n\<rparr>) = free_slots s" by (simp add: free_slots_def)
  have "free_slots s \<noteq> {}" using two by auto
  then obtain i where i: "i \<in> free_slots s" "PageAllocateN 1 (s\<lparr>procs_id := n\<rparr>) =
      Inr (slot_page s i, s\<lparr>procs_id := n, page_allocator := (page_allocator s)[i := 1]\<rparr>)"
    using free_slot_allocated [of "s\<lparr>procs_id := n\<rparr>"] len fs by auto
  let ?t = "s\<lparr>procs_id := n, page_allocator := (page_allocator s)[i := 1]\<rparr>"
  have fs2: "free_slots ?t = free_slots s - {i}"
    using len i(1) by (auto simp: free_slots_def nth_list_update split: if_splits)
  have "finite (free_slots s)" by (simp add: free_slots_def)
  then have "card (free_slots s - {i}) = card (free_slots s) - 1" using i(1) by simp
  then have "free_slots ?t \<noteq> {}" unfolding fs2 using two by (metis card.empty diff_is_0_eq not_less_eq_eq numeral_2_eq_2 One_nat_def)
  then obtain j where j: "j \<in> free_slots ?t" "PageAllocateN 1 ?t =
      Inr (slot_page s j, s\<lparr>procs_id := n, page_allocator := (page_allocator s)[i := 1, j := 1]\<rparr>)"
    using free_slot_allocated [of ?t] len by auto
  have ij: "j \<in> free_slots s" "i \<noteq> j" using j(1) fs2 by auto
  moreover have "slot_page s i \<noteq> slot_page s j"
    using inj_on_eq_iff [OF inj, of i j] i(1) ij by (simp add: free_slots_def)
  ultimately show ?thesis using i j(2) by blast
qed

section \<open>Properties\<close>

text \<open>
  C3: reading an open file in chunks of any sizes delivers the bytes of the file in order, from
  the current offset on and up to its end, and moves the offset by what was delivered; the
  buffer must not overlap the file's.
\<close>

theorem sys_read_stream:
  assumes "open_at s f p len off" "list_all (\<lambda>n. disjoint_blocks buf (unat n) p len) ns"
  shows "\<exists>s'. read_many f buf ns s =
      Inr (take (sum_list (map unat ns)) (drop off (load_bytes (kmem s) p len)), s') \<and>
    open_at s' f p len (min len (off + sum_list (map unat ns)))"
  by (rule read_many_file [OF assms])

text \<open>
  C36: a page fault or an invalid opcode of a user program (both privilege bits of the saved flags
  set and none above them) ends process \<open>i\<close>: the program counter goes to the idle loop, the
  table becomes \<open>killed\<close> of it (one successor copied down, the last entry dropped: da_array.h:60),
  no process is current, memory is unchanged, and the next timer tick runs the entry behind
  index \<open>i\<close> of what is left, or the idle loop when nothing is. With any other saved flags, a
  resume flag included, the processor stops.
\<close>

theorem PageFaultHandler_kills:
  fixes r :: registers and s :: "'a ksched_scheme"
  assumes inv: "procs_inv s" and items: "procs_items s \<noteq> 0" and i: "unat (procs_i s) = i" "i < length (proc_list s)"
    and cur: "procs_current s \<noteq> 0"
  defines "user \<equiv> bit (rflags r) 12 \<and> bit (rflags r) 13 \<and> (\<forall>k \<ge> 14. \<not> bit (rflags r) k)"
    and "rest \<equiv> killed (proc_list s) i"
    and "j \<equiv> if Suc i < length (proc_list s) - 1 then Suc i else 0"
  shows "(user \<longrightarrow> (\<exists>s'. PageFaultHandler env r s = Inr (r\<lparr>rip := env_idle env\<rparr>, s') \<and>
      InvalidOpcodeException env r s = Inr (r\<lparr>rip := env_idle env\<rparr>, s') \<and>
      proc_list s' = rest \<and> procs_inv s' \<and> procs_current s' = 0 \<and> kmem s' = kmem s \<and>
      (\<forall>r'. \<exists>s''. proc_list s'' = rest \<and> SchedulerInterrupt (env_idle env) r' s' =
        (if rest = [] then Returns (r'\<lparr>rip := env_idle env\<rparr>) s'' else EntersUser (regs (rest ! j)) s'')))) \<and>
   (\<not> user \<longrightarrow> PageFaultHandler env r s = Inl Halted \<and> InvalidOpcodeException env r s = Inl Halted)"
proof -
  have u: "from_user r = user" by (simp add: from_user_bits user_def)
  obtain s' where s': "ProcessKillCurrent s = Inr s'" "procs_current s' = 0" "proc_list s' = rest" "procs_inv s'"
    "procs_i s' = procs_i s" "procs_items s' = procs_items s" "kmem s' = kmem s"
    using ProcessKillCurrent_list [OF inv cur i] unfolding rest_def by blast
  have i32: "Suc (unat (procs_i s')) < 2 ^ 32"
    using i s'(5) unat_u32_less [of "procs_count s"] by simp
  have it: "procs_items s' \<noteq> 0" using items s'(6) by simp
  have "\<exists>s''. proc_list s'' = rest \<and> SchedulerInterrupt (env_idle env) r' s' =
      (if rest = [] then Returns (r'\<lparr>rip := env_idle env\<rparr>) s'' else EntersUser (regs (rest ! j)) s'')" for r'
    using SchedulerInterrupt_table [OF s'(4) it i32, of "env_idle env" r'] s'(3,5) i(1)
    unfolding s'(3) by (auto simp: j_def rest_def)
  then show ?thesis
    using u s' cur by (auto simp: PageFaultHandler_def InvalidOpcodeException_def getProcess_def Let_def)
qed

text \<open>
  a general protection fault of a user process is charged to the task list: without a
  current task the handler dereferences NULL although a process is running.
\<close>

theorem GeneralProtectionFault_task:
  assumes "from_user r" "current s = 0"
  shows "GeneralProtectionFault env r s = Inl NullDeref"
  using assms by (simp add: GeneralProtectionFault_def TaskKill_def TaskCurrent_def Let_def)

text \<open>
  C22: \<open>exit\<close> and every system call number that the dispatcher does not know end the current
  process, entry \<open>i\<close>: the table becomes \<open>killed\<close> of it (one successor copied down, the last entry
  dropped: exact removal for the last two entries, da_array.h:60 otherwise). When a process is
  left, the entry behind index \<open>i\<close> of the new table (the first one past the end) becomes
  current and its saved registers are entered; otherwise the idle loop runs, with 0 in the
  result register and no current process.
\<close>

theorem syscall_unknown_exits:
  assumes nr: "rax r \<notin> {0, 1, 2, 3, 4, 14, 16, 20, 32, 33, 39, 57, 59, 72}"
    and inv: "procs_inv s" and items: "procs_items s \<noteq> 0" and i: "unat (procs_i s) = i" "i < length (proc_list s)"
    and cur: "procs_current s = item_at s (of_nat i)" "procs_current s \<noteq> 0"
  defines "rest \<equiv> killed (proc_list s) i"
    and "j \<equiv> if Suc i < length (proc_list s) - 1 then Suc i else 0"
  shows "\<exists>s'. proc_list s' = rest \<and> procs_inv s' \<and>
    (if rest = [] then syscall env r s = Inr (Returns (r\<lparr>rip := env_idle env, rax := 0\<rparr>) s') \<and> procs_current s' = 0
     else syscall env r s = Inr (EntersUser (regs (rest ! j)) s') \<and>
       procs_current s' = item_at s' (of_nat j) \<and> unat (procs_i s') = j)"
proof -
  let ?s0 = "save_frame r s"
  have n: "i < unat (procs_count s)" using i(2) by simp
  have s0: "procs_current ?s0 = procs_current s" "procs_i ?s0 = procs_i s" "procs_items ?s0 = procs_items s" "procs_inv ?s0"
    "proc_list ?s0 = (proc_list s)[i := (proc_list s ! i)\<lparr>regs := r\<rparr>]"
    using save_frame_list [OF inv n cur, of r] inv by (simp_all add: save_frame_def procs_inv_def)
  have none: "dispatch_call env (rax r) (rdi r) (rsi r) (rdx r) ?s0 = None"
    using nr by (simp add: dispatch_call_def)
  have cur0: "procs_current ?s0 \<noteq> 0" using cur(2) s0(1) by simp
  have i0: "unat (procs_i ?s0) = i" "i < length (proc_list ?s0)" using i(1) s0(2) n by (simp_all add: save_frame_def)
  obtain s1 where s1: "ProcessKillCurrent ?s0 = Inr s1" "procs_current s1 = 0" "proc_list s1 = rest" "procs_inv s1"
    "procs_i s1 = procs_i s" "procs_items s1 = procs_items s"
    using ProcessKillCurrent_list [OF s0(4) cur0 i0] i(2) unfolding rest_def s0(2,3,5) by auto
  have i32: "Suc (unat (procs_i s1)) < 2 ^ 32"
    using i s1(5) unat_u32_less [of "procs_count s"] by simp
  have it: "procs_items s1 \<noteq> 0" using items s1(6) by simp
  have ex: "sys_exit env r c ?s0 = Inr (SchedulerInterrupt (env_idle env) r s1)" for c
    by (simp add: sys_exit_def s1(1) SchedulerInterrupt_def Let_def split_beta)
  have lr: "length rest = length (proc_list s) - 1" by (simp add: rest_def del: length_proc_list)
  obtain s' where "proc_list s' = rest" "procs_inv s'"
    "rest = [] \<longrightarrow> SchedulerInterrupt (env_idle env) r s1 = Returns (r\<lparr>rip := env_idle env\<rparr>) s' \<and> procs_current s' = procs_current s1"
    "rest \<noteq> [] \<longrightarrow> SchedulerInterrupt (env_idle env) r s1 = EntersUser (regs (rest ! j)) s' \<and>
       procs_current s' = item_at s' (of_nat j) \<and> unat (procs_i s') = j"
    using SchedulerInterrupt_table [OF s1(4) it i32, of "env_idle env" r] s1(5) i(1) lr
    unfolding s1(3) j_def by metis
  then show ?thesis
    using s1(2) by (intro exI [of _ s']) (auto simp: syscall_def none ex Let_def)
qed

text \<open>
  C4: \<open>fork\<close> with two free pages and room in the table appends one process to it and returns
  that process's id, the value of the id counter, which it increments. The child has the
  parent's registers with 0 as its result, the pages of two different slots that were free
  and are now taken (no other slot changes), and the parent's open files at the same offsets.
\<close>

theorem sys_fork_child:
  assumes inv: "procs_inv s" and cur: "procs_current s \<noteq> 0" "old = proc_heap s (procs_current s)"
    and fds: "length (fd old) = 256" "list_all dup_ok (fd old)"
    and heap: "unat (malloc_start s) + sum_list (map dup_bytes (fd old)) + 65536 * 39144 \<le> 2 ^ 63"
    and room: "length (proc_list s) < 32768"
    and pool: "pool_inv s" "2 \<le> card (free_slots s)"
  shows "\<exists>s' child i j. sys_fork env s = Inr (sint (procs_id s), s') \<and> procs_inv s' \<and>
    proc_list s' = proc_list s @ [child] \<and> pid child = sint (procs_id s) \<and> procs_id s' = procs_id s + 1 \<and>
    regs child = (regs old)\<lparr>rax := 0\<rparr> \<and> i \<in> free_slots s \<and> j \<in> free_slots s \<and> i \<noteq> j \<and>
    page_allocator s' = (page_allocator s)[i := 1, j := 1] \<and>
    m_base (memory child) = slot_page s i \<and> m_stackBase (memory child) = slot_page s j \<and> slot_page s i \<noteq> slot_page s j \<and>
    list_all2 (\<lambda>c d. used d \<noteq> 0 \<longrightarrow> used c = used d \<and> offset c = offset d \<and>
      ext2_inode (dfile c) = ext2_inode (dfile d) \<and> ftype (dfile c) = ftype (dfile d)) (fd child) (fd old)"
proof -
  let ?T = "sum_list (map dup_bytes (fd old))"
  obtain i j where ij: "i \<in> free_slots s" "j \<in> free_slots s" "i \<noteq> j" "slot_page s i \<noteq> slot_page s j"
    and pg: "PageAllocateN 1 (s\<lparr>procs_id := procs_id s + 1\<rparr>) =
        Inr (slot_page s i, s\<lparr>procs_id := procs_id s + 1, page_allocator := (page_allocator s)[i := 1]\<rparr>)"
      "PageAllocateN 1 (s\<lparr>procs_id := procs_id s + 1, page_allocator := (page_allocator s)[i := 1]\<rparr>) =
        Inr (slot_page s j, s\<lparr>procs_id := procs_id s + 1, page_allocator := (page_allocator s)[i := 1, j := 1]\<rparr>)"
    using two_pages [OF pool] by blast
  define base where "base = slot_page s i"
  define stack where "stack = slot_page s j"
  define sb where "sb = s\<lparr>procs_id := procs_id s + 1, page_allocator := (page_allocator s)[i := 1, j := 1]\<rparr>"
  define n0 where "n0 = (env_proc env)\<lparr>fd := replicate 256 zero_desc, pid := sint (procs_id s), ready := 1, block_type := 0,
    memory := (memory (env_proc env))\<lparr>m_base := base, m_stackTop := stack + PAGE_P2_SIZE - 0x10, m_stackBase := stack\<rparr>\<rparr>"
  define m1 where "m1 = memcpy (memcpy (kmem s) base (m_base (memory old)) 0x200000) stack (m_stackBase (memory old)) 0x200000"
  obtain ns m2 where d: "dup_fds (replicate 256 zero_desc) (fd old) (sb\<lparr>kmem := m1\<rparr>) =
      (1, ns, sb\<lparr>malloc_start := malloc_start s + of_nat ?T, kmem := m2\<rparr>)"
    "list_all2 (\<lambda>c d. used d \<noteq> 0 \<longrightarrow> used c = used d \<and> offset c = offset d \<and>
      ext2_inode (dfile c) = ext2_inode (dfile d) \<and> ftype (dfile c) = ftype (dfile d)) ns (fd old)"
    using dup_fds_ok [OF fds(2), of "replicate 256 zero_desc" "sb\<lparr>kmem := m1\<rparr>"] fds(1) by (auto simp: sb_def)
  define s2 where "s2 = sb\<lparr>malloc_start := malloc_start s + of_nat ?T, kmem := m2\<rparr>"
  let ?c = "n0\<lparr>fd := ns, regs := (regs old)\<lparr>rax := 0\<rparr>\<rparr>"
  have pages: "ProcessSetUpPages (fst (ProcessSetHollow (env_proc env) s)) (snd (ProcessSetHollow (env_proc env) s)) = Inr (n0, sb)"
    using pg by (simp add: ProcessSetHollow_def ProcessSetUpPages_def n0_def base_def stack_def sb_def)
  have dup: "ProcessDup (env_proc env) old s = Inr (1, n0\<lparr>regs := regs old, fd := ns\<rparr>, s2)"
    using pages d(1) by (simp add: ProcessDup_def Let_def split_beta s2_def m1_def n0_def sb_def)
  have "unat (malloc_start s2) = unat (malloc_start s) + ?T"
    using heap unat_add_of_nat [of "malloc_start s" ?T] by (simp add: s2_def)
  then have "procs_inv s2" "proc_list s2 = proc_list s"
    using inv heap by (auto simp: procs_inv_def proc_list_def item_at_def s2_def sb_def)
  then obtain s' where s': "nob_da_append ?c s2 = Inr s'" "procs_inv s'" "proc_list s' = proc_list s @ [?c]"
    using nob_da_append_ok [of s2 ?c] room by auto
  have "page_allocator s' = (page_allocator s)[i := 1, j := 1]" "procs_id s' = procs_id s + 1"
    using nob_da_append_frame [OF s'(1)] by (simp_all add: s2_def sb_def)
  moreover have "sys_fork env s = Inr (sint (procs_id s), s')"
    using s'(1) dup cur by (simp add: sys_fork_def getProcess_def SchedulerSubmit_def n0_def)
  ultimately show ?thesis
    using d(2) s'(2,3) ij by (intro exI [of _ s'] exI [of _ ?c] exI [of _ i] exI [of _ j]) (simp add: n0_def base_def stack_def)
qed

text \<open>
  \<open>dup\<close> copies the descriptor into the lowest free slot from 3 on but returns 1 and not that
  slot; with no free slot it writes outside the table. \<open>dup2\<close> of a descriptor onto itself closes it.
\<close>

theorem sys_dup_slots:
  assumes f: "get_fd s f = Inr d" "used d \<noteq> 0" "dup_ok d"
    and len: "length (fd (proc_heap s (procs_current s))) = 256"
  shows "(\<forall>i. 3 \<le> i \<longrightarrow> i < 256 \<longrightarrow> used (fd (proc_heap s (procs_current s)) ! i) \<noteq> 1 \<longrightarrow>
      (\<forall>j. 3 \<le> j \<longrightarrow> j < i \<longrightarrow> used (fd (proc_heap s (procs_current s)) ! j) = 1) \<longrightarrow>
      (\<exists>s' d'. sys_dup f s = Inr (1, s') \<and> get_fd s' (int i) = Inr d' \<and> used d' = used d \<and> offset d' = offset d \<and>
        ext2_inode (dfile d') = ext2_inode (dfile d))) \<and>
    ((\<forall>i. 3 \<le> i \<longrightarrow> i < 256 \<longrightarrow> used (fd (proc_heap s (procs_current s)) ! i) = 1) \<longrightarrow>
      sys_dup f s = Inl OutOfBounds) \<and>
    (\<exists>s'. sys_dup2 f f s = Inr (1, s') \<and> get_fd s' f = Inr (d\<lparr>used := 0\<rparr>))"
  (is "?A \<and> ?B \<and> ?C")
proof (intro conjI)
  have cur: "procs_current s \<noteq> 0" using f(1) by (auto simp: get_fd_def getProcess_def split: if_splits)
  have B: "sys_dup f s = Inl OutOfBounds"
    if "\<forall>i. 3 \<le> i \<longrightarrow> i < 256 \<longrightarrow> used (fd (proc_heap s (procs_current s)) ! i) = 1"
  proof -
    have "find (\<lambda>i. used (fd (proc_heap s (procs_current s)) ! i) \<noteq> 1) [3..<256] = None"
      using that by (simp add: find_None_iff)
    then have "FD_FIND s = Inr (- 1)" using cur by (simp add: FD_FIND_def getProcess_def)
    then show ?thesis using f cur by (simp add: sys_dup_def dup_into_def get_fd_def getProcess_def)
  qed
  then show ?B by blast
  obtain s1 where s1: "set_fd f (FILE_DESC_FREE d) s = Inr s1" "get_fd s1 f = Inr (FILE_DESC_FREE d)"
    using get_fd_set_fd [OF f(1)] by blast
  obtain s2 where s2: "set_fd f (FILE_DESC_FREE d) s1 = Inr s2" "get_fd s2 f = Inr (FILE_DESC_FREE d)"
    using get_fd_set_fd [OF s1(2)] by blast
  have "FILE_DESC_DUP (FILE_DESC_FREE d) (FILE_DESC_FREE d) s1 = (1, FILE_DESC_FREE d, s1)"
    by (simp add: FILE_DESC_DUP_def FILE_DESC_FREE_def)
  then show ?C using f(1,2) s1 s2 by (simp add: sys_dup2_def sys_close_def dup_into_def) (simp add: FILE_DESC_FREE_def)
  show ?A
  proof (intro allI impI)
    fix i assume i: "3 \<le> i" "i < 256" "used (fd (proc_heap s (procs_current s)) ! i) \<noteq> 1"
      and l: "\<forall>j. 3 \<le> j \<longrightarrow> j < i \<longrightarrow> used (fd (proc_heap s (procs_current s)) ! j) = 1"
    have ff: "FD_FIND s = Inr (int i)"
      using find_range_Some [of 3 i 256 "\<lambda>i. used (fd (proc_heap s (procs_current s)) ! i) \<noteq> 1"] i l cur
      by (simp add: FD_FIND_def getProcess_def)
    have g: "get_fd s (int i) = Inr (fd (proc_heap s (procs_current s)) ! i)"
      using i len cur by (simp add: get_fd_def getProcess_def array_get_def)
    obtain n' m where n': "FILE_DESC_DUP (fd (proc_heap s (procs_current s)) ! i) d s =
        (1, n', s\<lparr>malloc_start := malloc_start s + of_nat (dup_bytes d), kmem := m\<rparr>)"
      "used n' = used d" "offset n' = offset d" "ext2_inode (dfile n') = ext2_inode (dfile d)"
      using FILE_DESC_DUP_ok [OF f(3)] f(2) by blast
    obtain s' where "set_fd (int i) n' (s\<lparr>malloc_start := malloc_start s + of_nat (dup_bytes d), kmem := m\<rparr>) = Inr s'"
      "get_fd s' (int i) = Inr n'"
      using get_fd_set_fd [of "s\<lparr>malloc_start := malloc_start s + of_nat (dup_bytes d), kmem := m\<rparr>" "int i"] g by auto
    then show "\<exists>s' d'. sys_dup f s = Inr (1, s') \<and> get_fd s' (int i) = Inr d' \<and> used d' = used d \<and> offset d' = offset d \<and>
        ext2_inode (dfile d') = ext2_inode (dfile d)"
      using f(1,2) ff g n' by (simp add: sys_dup_def dup_into_def)
  qed
qed

subsection \<open>Witnesses\<close>

text \<open>Process 0 runs; descriptor 3 is an open file of five bytes at 0x9000; no task, no page is free.\<close>

definition demo_file :: FILE_DESC where
  "demo_file = \<lparr>dfile = \<lparr>ftype = 1, ext2_inode = zero_inode\<lparr>inode_size := 5\<rparr>, ext2_data = 0x9000\<rparr>, used = 1, offset = 1\<rparr>"

definition demo_env :: sys_env where
  "demo_env = \<lparr>env_rd = (\<lambda>_ _. None), env_idle = 0x1234, env_inode = zero_inode, env_elf = elf_blank,
     env_proc = demo_process 0 0\<rparr>"

definition demo_sys :: "u32 \<Rightarrow> ksys" where
  "demo_sys n = ktask.extend (ksched.extend ((demo_sched n)\<lparr>kmem := (\<lambda>a. ucast a), page_allocator := replicate 512 1,
       proc_heap := (\<lambda>a. (demo_process 0 0)\<lparr>fd := (replicate 256 zero_desc)[3 := demo_file]\<rparr>)\<rparr>)
     (ktask.fields (\<lambda>a. \<lparr>t_id = 1, t_ready = 1, t_r = 0, t_fd = [], t_address = 0, t_stackTop = 0, t_base = 0\<rparr>)
       (\<lambda>a. zero_registers) 0 0 0)) (ksys.fields STD_IN [])"

lemma demo_sys_sel [simp]:
  "kmem (demo_sys n) = (\<lambda>a. ucast a)" "malloc_start (demo_sys n) = 0x2000000" "procs_current (demo_sys n) = 0x1000000"
  "procs_count (demo_sys n) = n" "procs_i (demo_sys n) = 0" "procs_id (demo_sys n) = 1" "procs_items (demo_sys n) = 0x1000000"
  "procs_capacity (demo_sys n) = 256" "current (demo_sys n) = 0" "page_allocator (demo_sys n) = replicate 512 1"
  "proc_heap (demo_sys n) = (\<lambda>a. (demo_process 0 0)\<lparr>fd := (replicate 256 zero_desc)[3 := demo_file]\<rparr>)"
  by (simp_all add: demo_sys_def demo_sched_def ksched.defs ktask.defs ksys.defs)

lemma sum_list_le_length: "list_all (\<lambda>x. f x \<le> k) xs \<Longrightarrow> sum_list (map f xs) \<le> length xs * (k :: nat)"
  by (induction xs) auto

lemma demo_sys_fd3: "get_fd (demo_sys n) 3 = Inr demo_file"
  by (simp add: get_fd_def getProcess_def array_get_def)

theorem sys_read_stream_witness:
  "\<exists>s'. read_many 3 0x100 [2, 9] (demo_sys 1) = Inr ([1, 2, 3, 4], s')"
proof -
  have "open_at (demo_sys 1) 3 0x9000 5 1" by (simp add: open_at_def demo_sys_fd3) (simp add: demo_file_def)
  then show ?thesis
    using sys_read_stream [of "demo_sys 1" 3 "0x9000" 5 1 "0x100" "[2, 9]"]
    by (auto simp: disjoint_blocks_def bytes_numeral)
qed

lemma demo_sys_inv: "n \<le> 256 \<Longrightarrow> procs_inv (demo_sys n)"
  by (simp add: procs_inv_def)

text \<open>Two processes, the first is current: a fault leaves the second, which the next tick runs.\<close>

theorem PageFaultHandler_kills_witness:
  "\<exists>s'. PageFaultHandler demo_env (zero_registers\<lparr>rflags := 0x3202\<rparr>) (demo_sys 2) =
      Inr (zero_registers\<lparr>rflags := 0x3202, rip := 0x1234\<rparr>, s') \<and> length (proc_list s') = 1 \<and> procs_current s' = 0"
proof -
  have "from_user (zero_registers\<lparr>rflags := 0x3202\<rparr>)" by (simp add: from_user_def drop_bit_eq_div)
  then have u: "bit (rflags (zero_registers\<lparr>rflags := 0x3202\<rparr>)) 12" "bit (rflags (zero_registers\<lparr>rflags := 0x3202\<rparr>)) 13"
    "\<forall>k \<ge> 14. \<not> bit (rflags (zero_registers\<lparr>rflags := 0x3202\<rparr>)) k"
    unfolding from_user_bits by blast+
  have l: "length (killed (proc_list (demo_sys 2)) 0) = 1" by simp
  obtain s' where "PageFaultHandler demo_env (zero_registers\<lparr>rflags := 0x3202\<rparr>) (demo_sys 2) =
      Inr ((zero_registers\<lparr>rflags := 0x3202\<rparr>)\<lparr>rip := env_idle demo_env\<rparr>, s')"
    "proc_list s' = killed (proc_list (demo_sys 2)) 0" "procs_current s' = 0"
    using PageFaultHandler_kills [OF demo_sys_inv, of 2 0 "zero_registers\<lparr>rflags := 0x3202\<rparr>" demo_env, THEN conjunct1] u by auto
  then show ?thesis using l by (auto simp: demo_env_def zero_registers_def simp del: length_proc_list)
qed

theorem GeneralProtectionFault_task_witness:
  "GeneralProtectionFault demo_env (zero_registers\<lparr>rflags := 0x3202\<rparr>) (demo_sys 1) = Inl NullDeref"
  by (rule GeneralProtectionFault_task) (simp_all add: from_user_def drop_bit_eq_div)

theorem syscall_unknown_exits_witness:
  "\<exists>s'. syscall demo_env (zero_registers\<lparr>rax := 60\<rparr>) (demo_sys 1) = Inr (Returns (zero_registers\<lparr>rip := 0x1234, rax := 0\<rparr>) s') \<and>
     proc_list s' = []"
proof -
  have l: "length (killed (proc_list (demo_sys 1)) 0) = 0" by simp
  then have "killed (proc_list (demo_sys 1)) 0 = []" by (simp only: length_0_conv)
  then show ?thesis
    using syscall_unknown_exits [of "zero_registers\<lparr>rax := 60\<rparr>" "demo_sys 1" 0 demo_env, OF _ demo_sys_inv]
    by (auto simp: demo_env_def zero_registers_def item_at_def)
qed

text \<open>The same state with all pages free; their addresses are those of the demonstration page tables.\<close>

definition demo_free :: ksys where
  "demo_free = (demo_sys 1)\<lparr>page_allocator := replicate 512 0, kmem := kmem (demo_pool []), p3_table := p3_table (demo_pool [])\<rparr>"

lemma demo_free_pool: "pool_inv demo_free" "2 \<le> card (free_slots demo_free)"
proof -
  have "slot_page demo_free = slot_page (demo_pool (replicate 512 0))"
    by (simp add: slot_page_def fun_eq_iff demo_free_def demo_pool_def)
  then show "pool_inv demo_free"
    using demo_pool_inv [of "replicate 512 0"] by (simp add: pool_inv_def demo_free_def)
  have "free_slots demo_free = {..<512}" by (auto simp: free_slots_def demo_free_def)
  then show "2 \<le> card (free_slots demo_free)" by simp
qed

theorem sys_fork_child_witness:
  "\<exists>s' child. sys_fork demo_env demo_free = Inr (1, s') \<and> proc_list s' = proc_list demo_free @ [child] \<and> pid child = 1 \<and>
     procs_id s' = 2 \<and> m_base (memory child) \<noteq> m_stackBase (memory child)"
proof -
  let ?s = "demo_free"
  have sel: "malloc_start ?s = 0x2000000" "procs_current ?s = 0x1000000" "procs_id ?s = 1" "procs_count ?s = 1"
    "proc_heap ?s = (\<lambda>a. (demo_process 0 0)\<lparr>fd := (replicate 256 zero_desc)[3 := demo_file]\<rparr>)"
    by (simp_all add: demo_free_def)
  have inv: "procs_inv ?s" by (simp add: procs_inv_def demo_free_def)
  have fds: "fd (proc_heap ?s (procs_current ?s)) = (replicate 256 zero_desc)[3 := demo_file]"
    by (simp add: sel)
  have sub: "set ((replicate 256 zero_desc)[3 := demo_file]) \<subseteq> {zero_desc, demo_file}"
    by (auto dest!: subsetD [OF set_update_subset_insert])
  then have ok: "list_all dup_ok ((replicate 256 zero_desc)[3 := demo_file])"
    by (auto simp: list_all_iff dup_ok_def zero_desc_def demo_file_def)
  have "list_all (\<lambda>d. dup_bytes d \<le> 5) ((replicate 256 zero_desc)[3 := demo_file])"
    using sub by (auto simp: list_all_iff dup_bytes_def zero_desc_def demo_file_def)
  then have le: "sum_list (map dup_bytes ((replicate 256 zero_desc)[3 := demo_file])) \<le> 256 * 5"
    using sum_list_le_length [of dup_bytes 5 "(replicate 256 zero_desc)[3 := demo_file]"] by simp
  have "\<exists>s' child i j. sys_fork demo_env ?s = Inr (sint (procs_id ?s), s') \<and> procs_inv s' \<and>
      proc_list s' = proc_list ?s @ [child] \<and> pid child = sint (procs_id ?s) \<and> procs_id s' = procs_id ?s + 1 \<and>
      m_base (memory child) = slot_page ?s i \<and> m_stackBase (memory child) = slot_page ?s j \<and> slot_page ?s i \<noteq> slot_page ?s j"
    using sys_fork_child [OF inv _ refl _ _ _ _ demo_free_pool, of demo_env] ok le unfolding fds by (auto simp: sel)
  then show ?thesis by (auto simp: sel)
qed

theorem sys_dup_slots_witness:
  "\<exists>s' d'. sys_dup 3 (demo_sys 1) = Inr (1, s') \<and> get_fd s' 4 = Inr d' \<and> offset d' = 1"
proof -
  have "dup_ok demo_file" "used demo_file = 1" by (simp_all add: dup_ok_def demo_file_def)
  then have "\<exists>s' d'. sys_dup 3 (demo_sys 1) = Inr (1, s') \<and> get_fd s' (int 4) = Inr d' \<and> offset d' = offset demo_file"
    using sys_dup_slots [OF demo_sys_fd3, of 1, THEN conjunct1, rule_format, of 4]
    by (fastforce simp: nth_list_update zero_desc_def demo_file_def)
  then show ?thesis by (simp add: demo_file_def)
qed

end
