(* ===== verification/Io.thy ===== *)
theory Io
  imports Prelude
begin

text \<open>
  Input and output: the port instructions of \<open>src/src/utils/ports.h\<close>, accesses to memory
  mapped registers, and the small drivers that consist of such accesses: the legacy
  interrupt controller (\<open>drivers/pic.c\<close>), the serial line (\<open>drivers/serial.c\<close>), the interval
  timer (\<open>devices/pit/pit.c\<close>), the clock (\<open>devices/rtc/rtc.c\<close>) and the ATA driver
  (\<open>disk/atapio/atapio.c\<close>).

  A run is the list of accesses it makes, oldest first. The hardware is a parameter: a record of
  functions that answer a read from the accesses made so far, so that any device whose
  answers depend on its inputs is an instance.
\<close>

section \<open>Accesses\<close>

datatype io_event =
    OutB u16 u8
  | InB u16 u8
  | InW u16 u16
  | OutL u16 u32
  | InL u16 u32
  | MmioW u64 u32
  | MmioR u64 u32
  | MmioWB u64 u8
  | MmioRB u64 u8
  | MmioWH u64 u16
  | RdMsr u32 u64
  | Cli
  | Sti

type_synonym history = "io_event list"

record hardware =
  port_b :: "history \<Rightarrow> u16 \<Rightarrow> u8"
  port_w :: "history \<Rightarrow> u16 \<Rightarrow> u16"
  port_l :: "history \<Rightarrow> u16 \<Rightarrow> u32"
  mmio_l :: "history \<Rightarrow> u64 \<Rightarrow> u32"
  msr_q :: "history \<Rightarrow> u32 \<Rightarrow> u64"

definition inb :: "hardware \<Rightarrow> u16 \<Rightarrow> history \<Rightarrow> u8 \<times> history" where
  "inb hw port h = (let v = port_b hw h port in (v, h @ [InB port v]))"

definition outb :: "u16 \<Rightarrow> u8 \<Rightarrow> history \<Rightarrow> history" where
  "outb port v h = h @ [OutB port v]"

definition inw :: "hardware \<Rightarrow> u16 \<Rightarrow> history \<Rightarrow> u16 \<times> history" where
  "inw hw port h = (let v = port_w hw h port in (v, h @ [InW port v]))"

definition inportl :: "hardware \<Rightarrow> u16 \<Rightarrow> history \<Rightarrow> u32 \<times> history" where
  "inportl hw port h = (let v = port_l hw h port in (v, h @ [InL port v]))"

definition outportl :: "u16 \<Rightarrow> u64 \<Rightarrow> history \<Rightarrow> history" where
  "outportl port v h = h @ [OutL port (ucast v)]"

definition io_wait :: "history \<Rightarrow> history" where
  "io_wait h = h @ [OutB 0x80 0]"

definition enableInterrupts :: "history \<Rightarrow> history" where
  "enableInterrupts h = h @ [Sti]"

definition disableInterrupts :: "history \<Rightarrow> history" where
  "disableInterrupts h = h @ [Cli]"

definition RDMSR :: "hardware \<Rightarrow> u32 \<Rightarrow> history \<Rightarrow> u64 \<times> history" where
  "RDMSR hw r h = (let v = msr_q hw h r in (v, h @ [RdMsr r v]))"

text \<open>A volatile 32-bit load or store at the address of a device register.\<close>

definition mmio_read :: "hardware \<Rightarrow> u64 \<Rightarrow> history \<Rightarrow> u32 \<times> history" where
  "mmio_read hw a h = (let v = mmio_l hw h a in (v, h @ [MmioR a v]))"

definition mmio_write :: "u64 \<Rightarrow> u32 \<Rightarrow> history \<Rightarrow> history" where
  "mmio_write a v h = h @ [MmioW a v]"

text \<open>A device with registers of one byte, and stores of one and two bytes.\<close>

record byte_device = hardware +
  mmio_b :: "history \<Rightarrow> u64 \<Rightarrow> u8"

definition mmio_read8 :: "byte_device \<Rightarrow> u64 \<Rightarrow> history \<Rightarrow> u8 \<times> history" where
  "mmio_read8 hw a h = (let v = mmio_b hw h a in (v, h @ [MmioRB a v]))"

definition mmio_write8 :: "u64 \<Rightarrow> u8 \<Rightarrow> history \<Rightarrow> history" where
  "mmio_write8 a v h = h @ [MmioWB a v]"

definition mmio_write16 :: "u64 \<Rightarrow> u16 \<Rightarrow> history \<Rightarrow> history" where
  "mmio_write16 a v h = h @ [MmioWH a v]"

text \<open>The value last written to a register of 32 bits.\<close>

definition last_write :: "u64 \<Rightarrow> history \<Rightarrow> u32 option" where
  "last_write a h = foldl (\<lambda>v e. case e of MmioW b x \<Rightarrow> if b = a then Some x else v | _ \<Rightarrow> v) None h"

lemma last_write_simps [simp]:
  "last_write b (mmio_write a v h) = (if b = a then Some v else last_write b h)"
  "last_write b (snd (mmio_read hw a h)) = last_write b h"
  "last_write b (snd (mmio_read8 dv a h)) = last_write b h"
  "last_write b (mmio_write8 a x h) = last_write b h" "last_write b (mmio_write16 a y h) = last_write b h"
  by (simp_all add: last_write_def mmio_write_def mmio_read_def mmio_read8_def mmio_write8_def mmio_write16_def Let_def)

text \<open>A register that reads as written.\<close>

definition reads_back :: "hardware \<Rightarrow> u64 \<Rightarrow> bool" where
  "reads_back hw a \<longleftrightarrow> (\<forall>h c. last_write a h = Some c \<longrightarrow> mmio_l hw h a = c)"

text \<open>The bytes written to a port, in order.\<close>

fun port_writes :: "u16 \<Rightarrow> history \<Rightarrow> u8 list" where
  "port_writes p [] = []"
| "port_writes p (OutB q v # h) = (if q = p then v # port_writes p h else port_writes p h)"
| "port_writes p (_ # h) = port_writes p h"

section \<open>The legacy interrupt controller\<close>

abbreviation (input) "PIC1_COMMAND \<equiv> 0x20 :: u16"
abbreviation (input) "PIC1_DATA \<equiv> 0x21 :: u16"
abbreviation (input) "PIC2_COMMAND \<equiv> 0xA0 :: u16"
abbreviation (input) "PIC2_DATA \<equiv> 0xA1 :: u16"

definition PIC_sendEOI :: "u8 \<Rightarrow> history \<Rightarrow> history" where
  "PIC_sendEOI irq h =
     (let h = (if irq \<ge> 8 then outb PIC2_COMMAND 0x20 h else h)
      in outb PIC1_COMMAND 0x20 h)"

definition PIC_INIT :: "hardware \<Rightarrow> u32 \<Rightarrow> u32 \<Rightarrow> history \<Rightarrow> history" where
  "PIC_INIT hw offset1 offset2 h =
     (let (a1, h) = inb hw PIC1_DATA h;
          (a2, h) = inb hw PIC2_DATA h;
          h = io_wait (outb PIC1_COMMAND (0x10 OR 0x01) h);
          h = io_wait (outb PIC2_COMMAND (0x10 OR 0x01) h);
          h = io_wait (outb PIC1_DATA (ucast offset1) h);
          h = io_wait (outb PIC2_DATA (ucast offset2) h);
          h = io_wait (outb PIC1_DATA 4 h);
          h = io_wait (outb PIC2_DATA 2 h);
          h = io_wait (outb PIC1_DATA 0x01 h);
          h = io_wait (outb PIC2_DATA 0x01 h);
          h = outb PIC1_DATA a1 h
      in outb PIC2_DATA a2 h)"

definition PIC_Disable :: "history \<Rightarrow> history" where
  "PIC_Disable h = outb PIC2_DATA 0xff (outb PIC1_DATA 0xff h)"

definition PICGetIrqReg :: "hardware \<Rightarrow> u32 \<Rightarrow> history \<Rightarrow> u16 \<times> history" where
  "PICGetIrqReg hw ocw3 h =
     (let h = outb PIC1_COMMAND (ucast ocw3) h;
          h = outb PIC2_COMMAND (ucast ocw3) h;
          (hi, h) = inb hw PIC2_COMMAND h;
          (lo, h) = inb hw PIC1_COMMAND h
      in (push_bit 8 (ucast hi) OR ucast lo, h))"

definition PIC_GetIRR :: "hardware \<Rightarrow> history \<Rightarrow> u16 \<times> history" where
  "PIC_GetIRR hw h = PICGetIrqReg hw 0x0a h"

definition PIC_GetISR :: "hardware \<Rightarrow> history \<Rightarrow> u16 \<times> history" where
  "PIC_GetISR hw h = PICGetIrqReg hw 0x0b h"

section \<open>The serial line\<close>

text \<open>Port arithmetic is in \<open>unsigned int\<close>; the port argument of \<open>inb\<close> and \<open>outb\<close> is 16 bits.\<close>

definition serial_port :: "u32 \<Rightarrow> u32 \<Rightarrow> u16" where
  "serial_port port off = ucast (port + off)"

definition serial_init :: "hardware \<Rightarrow> u32 \<Rightarrow> history \<Rightarrow> int \<times> history" where
  "serial_init hw port h =
     (let h = outb (serial_port port 1) 0x00 h;
          h = outb (serial_port port 3) 0x80 h;
          h = outb (serial_port port 0) 0x03 h;
          h = outb (serial_port port 1) 0x00 h;
          h = outb (serial_port port 3) 0x03 h;
          h = outb (serial_port port 2) 0xC7 h;
          h = outb (serial_port port 4) 0x0B h;
          h = outb (serial_port port 4) 0x1E h;
          h = outb (serial_port port 0) 0xAE h;
          (v, h) = inb hw (serial_port port 0) h
      in if v \<noteq> 0xAE then (1, h)
         else (0, outb (serial_port port 4) 0x0F h))"

definition serial_received :: "hardware \<Rightarrow> u32 \<Rightarrow> history \<Rightarrow> u8 \<times> history" where
  "serial_received hw port h =
     (let (v, h) = inb hw (serial_port port 5) h in (v AND 1, h))"

partial_function (option) wait_received :: "hardware \<Rightarrow> u32 \<Rightarrow> history \<Rightarrow> history option" where
  "wait_received hw port h =
     (let (v, h) = serial_received hw port h
      in if v = 0 then wait_received hw port h else Some h)"

definition SerialRead :: "hardware \<Rightarrow> u32 \<Rightarrow> history \<Rightarrow> (u8 \<times> history) outcome" where
  "SerialRead hw port h =
     (case wait_received hw port h of
        None \<Rightarrow> Inl Hangs
      | Some h \<Rightarrow> Inr (inb hw (serial_port port 0) h))"

definition is_transmit_empty :: "hardware \<Rightarrow> u32 \<Rightarrow> history \<Rightarrow> u8 \<times> history" where
  "is_transmit_empty hw port h =
     (let (v, h) = inb hw (serial_port port 5) h in (v AND 0x20, h))"

partial_function (option) wait_transmit :: "hardware \<Rightarrow> u32 \<Rightarrow> history \<Rightarrow> history option" where
  "wait_transmit hw port h =
     (let (v, h) = is_transmit_empty hw port h
      in if v = 0 then wait_transmit hw port h else Some h)"

definition SerialWrite :: "hardware \<Rightarrow> u32 \<Rightarrow> u8 \<Rightarrow> history \<Rightarrow> history outcome" where
  "SerialWrite hw port a h =
     (case wait_transmit hw port h of
        None \<Rightarrow> Inl Hangs
      | Some h \<Rightarrow> Inr (outb (serial_port port 0) a h))"

definition putSerial :: "hardware \<Rightarrow> u8 \<Rightarrow> history \<Rightarrow> history outcome" where
  "putSerial hw a h = SerialWrite hw 0x3F8 a h"

fun putSerials :: "hardware \<Rightarrow> u8 list \<Rightarrow> history \<Rightarrow> history outcome" where
  "putSerials hw [] h = Inr h"
| "putSerials hw (c # cs) h = andthen (putSerial hw c h) (putSerials hw cs)"

section \<open>The interval timer\<close>

definition PIT_ReadCount :: "hardware \<Rightarrow> history \<Rightarrow> u32 \<times> history" where
  "PIT_ReadCount hw h =
     (let h = disableInterrupts h;
          h = outb 0x43 0 h;
          (lo, h) = inb hw 0x40 h;
          (hi, h) = inb hw 0x40 h
      in (ucast lo OR push_bit 8 (ucast hi), enableInterrupts h))"

definition PIT_SetCount :: "u32 \<Rightarrow> history \<Rightarrow> history" where
  "PIT_SetCount count h =
     (let h = disableInterrupts h;
          h = outb 0x40 (ucast (count AND 0xFF)) h;
          h = outb 0x40 (ucast (drop_bit 8 (count AND 0xFF00))) h
      in enableInterrupts h)"

partial_function (option) sleep_loop :: "hardware \<Rightarrow> u32 \<Rightarrow> history \<Rightarrow> history option" where
  "sleep_loop hw limit h =
     (let (c, h) = PIT_ReadCount hw h
      in if limit \<ge> c then sleep_loop hw limit h else Some h)"

definition PIT_SLEEP :: "hardware \<Rightarrow> u32 \<Rightarrow> history \<Rightarrow> history outcome" where
  "PIT_SLEEP hw millis h =
     (if millis = 0 then Inr h
      else let (start, h) = PIT_ReadCount hw h
           in case sleep_loop hw (start + millis) h of None \<Rightarrow> Inl Hangs | Some h \<Rightarrow> Inr h)"

text \<open>The port accesses of \<open>PIT_Initialize\<close>; it also registers \<open>PIT_INT\<close> for line 0.\<close>

definition PIT_Initialize :: "history \<Rightarrow> history" where
  "PIT_Initialize h = enableInterrupts (outb 0x43 (0x00 OR 0x30 OR 0x4) (disableInterrupts h))"

definition PIT_INT :: "int \<Rightarrow> int" where
  "PIT_INT count = int32 (count - 1)"

section \<open>The clock\<close>

definition RTC_READ :: "hardware \<Rightarrow> u32 \<Rightarrow> history \<Rightarrow> u8 \<times> history" where
  "RTC_READ hw x h = inb hw 0x71 (outb 0x70 (ucast (x OR 0x80)) h)"

definition RTC_WRITE :: "u32 \<Rightarrow> u8 \<Rightarrow> history \<Rightarrow> history" where
  "RTC_WRITE x v h = outb 0x71 v (outb 0x70 (ucast (x OR 0x80)) h)"

definition RTC_INIT :: "hardware \<Rightarrow> u32 \<Rightarrow> history \<Rightarrow> history" where
  "RTC_INIT hw rate h =
     (let h = disableInterrupts h;
          h = RTC_WRITE 0xA 0x2F h;
          (prev, h) = RTC_READ hw 0xB h;
          h = RTC_WRITE 0xB (prev OR 0x40 OR ucast rate) h
      in enableInterrupts h)"

definition RTC_INTERRUPT_ENABLE :: "hardware \<Rightarrow> int \<Rightarrow> history \<Rightarrow> history" where
  "RTC_INTERRUPT_ENABLE hw val h =
     (let (prev, h) = RTC_READ hw 0xB h;
          prev = (if val \<noteq> 0 then prev OR 0x40 else prev AND 0xBF)
      in RTC_WRITE 0xB prev h)"

definition RTC_SET_SPEED :: "u32 \<Rightarrow> history \<Rightarrow> history" where
  "RTC_SET_SPEED val h = RTC_WRITE 0xA (0x20 OR ucast (val AND 0xf)) h"

record CURRENT_TIME =
  t_year :: int
  t_month :: int
  t_date :: int
  t_week :: int
  t_hour :: int
  t_minute :: int
  t_second :: int

definition RTC_GET_TIME :: "hardware \<Rightarrow> history \<Rightarrow> CURRENT_TIME \<times> history" where
  "RTC_GET_TIME hw h =
     (let (y, h) = RTC_READ hw 0x9 h;
          (mo, h) = RTC_READ hw 0x8 h;
          (d, h) = RTC_READ hw 0x7 h;
          (w, h) = RTC_READ hw 0x6 h;
          (ho, h) = RTC_READ hw 0x4 h;
          (mi, h) = RTC_READ hw 0x2 h;
          (s, h) = RTC_READ hw 0x0 h
      in (\<lparr>t_year = uint y + 2000, t_month = uint mo, t_date = uint d, t_week = uint w,
           t_hour = uint ho, t_minute = uint mi, t_second = uint s\<rparr>, h))"

section \<open>The ATA driver\<close>

text \<open>The globals \<open>data\<close>, \<open>atapio_identify\<close>, \<open>atapio_lba48\<close> and \<open>req\<close>.\<close>

record ata =
  ata_data :: "u16 list"
  atapio_identify :: "u16 list"
  atapio_lba48 :: int
  ata_req :: int

definition addressFromLBA :: "u64 \<Rightarrow> u64" where
  "addressFromLBA lba = lba * 0x800"

definition convertFromPort :: "u16 \<Rightarrow> u16" where
  "convertFromPort x = push_bit 8 (x AND 0xff) OR (drop_bit 8 x AND 0xff)"

definition getLBA28Addresses :: "ata \<Rightarrow> u32" where
  "getLBA28Addresses s = push_bit 16 (ucast (ata_data s ! 61)) OR ucast (ata_data s ! 60)"

definition getLBA48Addresses :: "ata \<Rightarrow> u64" where
  "getLBA48Addresses s =
     ucast (ata_data s ! 100) OR push_bit 16 (ucast (ata_data s ! 101)) OR
     push_bit 32 (ucast (ata_data s ! 102)) OR push_bit 48 (ucast (ata_data s ! 103))"

definition byte_of :: "'a::len word \<Rightarrow> nat \<Rightarrow> u8" where
  "byte_of n i = ucast (drop_bit (8 * i) n)"

definition readStuff :: "u16 \<Rightarrow> u64 \<Rightarrow> history \<Rightarrow> history" where
  "readStuff sectorcount lba h =
     (let h = outb 0x1F6 0x40 h;
          h = outb 0x1F2 (byte_of sectorcount 1) h;
          h = outb 0x1F3 (byte_of lba 3) h;
          h = outb 0x1F4 (byte_of lba 4) h;
          h = outb 0x1F5 (byte_of lba 5) h;
          h = outb 0x1F2 (byte_of sectorcount 0) h;
          h = outb 0x1F3 (byte_of lba 0) h;
          h = outb 0x1F4 (byte_of lba 1) h;
          h = outb 0x1F5 (byte_of lba 2) h
      in outb 0x1F7 0x24 h)"

fun read_words :: "hardware \<Rightarrow> nat \<Rightarrow> history \<Rightarrow> u16 list \<times> history" where
  "read_words hw 0 h = ([], h)"
| "read_words hw (Suc n) h =
     (let (x, h) = inw hw 0x1F0 h; (xs, h) = read_words hw n h in (x # xs, h))"

definition ATAPIO_HANDLE_IRQ :: "hardware \<Rightarrow> ata \<times> history \<Rightarrow> ata \<times> history" where
  "ATAPIO_HANDLE_IRQ hw = (\<lambda>(s, h).
     let (xs, h) = read_words hw 256 h in (s\<lparr>ata_data := xs, ata_req := 0\<rparr>, h))"

partial_function (option) wait_not_busy :: "hardware \<Rightarrow> history \<Rightarrow> history option" where
  "wait_not_busy hw h =
     (let (v, h) = inb hw 0x1F7 h
      in if v AND 0x80 \<noteq> 0 then wait_not_busy hw h else Some h)"

text \<open>
  The interrupt handler runs between two instructions of \<open>ATAPIO_ReadBytes\<close>. If it runs
  after \<open>req=1\<close> and before the test of \<open>while(req==0)\<close> (\<open>early\<close>), \<open>req\<close> is 0 and stays 0, so the loop does not
  end. Otherwise the loop is left at once, and the handler may run during the status
  polls (\<open>late\<close>).
\<close>

definition ATAPIO_ReadBytes ::
    "hardware \<Rightarrow> bool \<Rightarrow> bool \<Rightarrow> u32 \<Rightarrow> u32 \<Rightarrow> ata \<times> history \<Rightarrow> (u16 list \<times> ata \<times> history) outcome" where
  "ATAPIO_ReadBytes hw early late sectors lba = (\<lambda>(s, h).
     let s = s\<lparr>ata_req := 1\<rparr>;
         h = readStuff (ucast sectors) (scast lba) h
     in if early then Inl Hangs
        else case wait_not_busy hw h of
          None \<Rightarrow> Inl Hangs
        | Some h \<Rightarrow>
            (let (s, h) = (if late then ATAPIO_HANDLE_IRQ hw (s, h) else (s, h))
             in Inr (ata_data s, s, h)))"

partial_function (option) wait_drq :: "hardware \<Rightarrow> u8 \<Rightarrow> history \<Rightarrow> (u8 \<times> history) option" where
  "wait_drq hw v h =
     (if v AND 0x08 = 0
      then let (v, h) = inb hw 0x1F7 h in wait_drq hw v h
      else Some (v, h))"

text \<open>A busy device makes \<open>ATAPIO_Identify\<close> read from ports given by uninitialised variables.\<close>

definition ATAPIO_Identify :: "hardware \<Rightarrow> u32 \<Rightarrow> ata \<times> history \<Rightarrow> (ata \<times> history) outcome" where
  "ATAPIO_Identify hw target = (\<lambda>(s, h).
     let h = outb 0x1F6 (ucast target) h;
         h = outb 0x1F2 0 h;
         h = outb 0x1F2 0 h;
         h = outb 0x1F3 0 h;
         h = outb 0x1F4 0 h;
         h = outb 0x1F5 0 h;
         h = outb 0x1F7 0xEC h;
         (v, h) = inb hw 0x1F7 h
     in if v AND 0x80 \<noteq> 0 then Inl Uninitialised
        else case wait_drq hw v h of
          None \<Rightarrow> Inl Hangs
        | Some (v, h) \<Rightarrow>
            if v AND 0x01 \<noteq> 0 then Inr (s, h)
            else if bit (atapio_identify s ! 83) 10 then Inr (s\<lparr>atapio_lba48 := 1\<rparr>, h)
            else Inr (s, h))"

section \<open>The sequences of the interrupt controller\<close>

lemma port_writes_append [simp]: "port_writes p (h @ h') = port_writes p h @ port_writes p h'"
  by (induction p h rule: port_writes.induct) simp_all

lemmas port_defs = inb_def outb_def inw_def inportl_def outportl_def io_wait_def
  enableInterrupts_def disableInterrupts_def Let_def

text \<open>
  Initialising the two interrupt controllers sends each of them the four initialisation
  words in order - the start word on the command port, then the vector offset, the
  cascade wiring and the mode on the data port - and afterwards restores the masks that
  were read before.
\<close>

theorem PIC_INIT_sequence:
  "port_writes PIC1_COMMAND (PIC_INIT hw o1 o2 []) = [0x11] \<and>
   port_writes PIC2_COMMAND (PIC_INIT hw o1 o2 []) = [0x11] \<and>
   port_writes PIC1_DATA (PIC_INIT hw o1 o2 []) =
     [ucast o1, 4, 1, port_b hw [] PIC1_DATA] \<and>
   port_writes PIC2_DATA (PIC_INIT hw o1 o2 []) =
     [ucast o2, 2, 1, port_b hw [InB PIC1_DATA (port_b hw [] PIC1_DATA)] PIC2_DATA]"
  by (simp add: PIC_INIT_def port_defs)

section \<open>Output on the serial line\<close>

text \<open>Reading the line status register of the first serial port \<open>n\<close> times.\<close>

abbreviation (input) "LSR \<equiv> 0x3FD :: u16"
abbreviation (input) "THR \<equiv> 0x3F8 :: u16"

fun poll :: "hardware \<Rightarrow> nat \<Rightarrow> history \<Rightarrow> history" where
  "poll hw 0 h = h"
| "poll hw (Suc n) h = poll hw n (snd (inb hw LSR h))"

text \<open>The transmitter becomes empty if it is polled often enough.\<close>

definition transmitter_drains :: "hardware \<Rightarrow> bool" where
  "transmitter_drains hw \<longleftrightarrow> (\<forall>h. \<exists>n. port_b hw (poll hw n h) LSR AND 0x20 \<noteq> 0)"

text \<open>Every byte sent follows a read of the line status that reported an empty transmitter.\<close>

fun sends_when_empty :: "bool \<Rightarrow> history \<Rightarrow> bool" where
  "sends_when_empty ok [] = True"
| "sends_when_empty ok (OutB p v # h) = ((p = THR \<longrightarrow> ok) \<and> sends_when_empty False h)"
| "sends_when_empty ok (InB p v # h) = sends_when_empty (p = LSR \<and> v AND 0x20 \<noteq> 0) h"
| "sends_when_empty ok (_ # h) = sends_when_empty False h"

lemma wait_transmit_step:
  "wait_transmit hw 0x3F8 h =
     (let v = port_b hw h LSR
      in if v AND 0x20 = 0 then wait_transmit hw 0x3F8 (h @ [InB LSR v])
         else Some (h @ [InB LSR v]))"
  by (subst wait_transmit.simps) (simp add: is_transmit_empty_def serial_port_def inb_def Let_def)

lemma wait_transmit_returns:
  assumes "port_b hw (poll hw n h) LSR AND 0x20 \<noteq> 0"
  shows "\<exists>t v. wait_transmit hw 0x3F8 h = Some (h @ t @ [InB LSR v]) \<and> v AND 0x20 \<noteq> 0 \<and>
           list_all (\<lambda>e. \<exists>v. e = InB LSR v) t"
  using assms
proof (induction n arbitrary: h)
  case 0
  then show ?case
    by (intro exI [of _ "[]"] exI [of _ "port_b hw h LSR"])
       (subst wait_transmit_step, simp add: Let_def)
next
  case (Suc n)
  show ?case
  proof (cases "port_b hw h LSR AND 0x20 = 0")
    case True
    let ?e = "InB LSR (port_b hw h LSR)"
    from Suc.prems have "port_b hw (poll hw n (h @ [?e])) LSR AND 0x20 \<noteq> 0"
      by (simp add: inb_def Let_def)
    from Suc.IH [OF this] obtain t v where
      "wait_transmit hw 0x3F8 (h @ [?e]) = Some ((h @ [?e]) @ t @ [InB LSR v])"
      "v AND 0x20 \<noteq> 0" "list_all (\<lambda>e. \<exists>v. e = InB LSR v) t" by blast
    with True show ?thesis
      by (intro exI [of _ "?e # t"] exI [of _ v]) (subst wait_transmit_step, simp add: Let_def)
  next
    case False
    then show ?thesis
      by (intro exI [of _ "[]"] exI [of _ "port_b hw h LSR"])
         (subst wait_transmit_step, simp add: Let_def)
  qed
qed

lemma polls_neutral:
  assumes "list_all (\<lambda>e. \<exists>v. e = InB LSR v) t"
  shows "port_writes THR t = []"
    and "\<exists>ok'. \<forall>h. sends_when_empty ok (t @ h) = sends_when_empty ok' h"
proof -
  show "port_writes THR t = []" using assms by (induction t) auto
  show "\<exists>ok'. \<forall>h. sends_when_empty ok (t @ h) = sends_when_empty ok' h"
    using assms
  proof (induction t arbitrary: ok)
    case Nil
    show ?case by (intro exI [of _ ok]) simp
  next
    case (Cons e t)
    then obtain v where e: "e = InB LSR v" by auto
    from Cons obtain ok' where
      "\<forall>h. sends_when_empty (v AND 0x20 \<noteq> 0) (t @ h) = sends_when_empty ok' h" by fastforce
    then show ?case by (intro exI [of _ ok']) (simp add: e)
  qed
qed

lemma putSerial_sends:
  assumes "transmitter_drains hw"
  shows "\<exists>t. putSerial hw c h = Inr (h @ t) \<and> port_writes THR t = [c] \<and>
           (\<forall>ok h'. sends_when_empty ok (t @ h') = sends_when_empty False h')"
proof -
  from assms obtain n where "port_b hw (poll hw n h) LSR AND 0x20 \<noteq> 0"
    by (auto simp: transmitter_drains_def)
  from wait_transmit_returns [OF this] obtain t v where w:
    "wait_transmit hw 0x3F8 h = Some (h @ t @ [InB LSR v])" "v AND 0x20 \<noteq> 0"
    "list_all (\<lambda>e. \<exists>v. e = InB LSR v) t" by blast
  have "sends_when_empty ok ((t @ [InB LSR v, OutB THR c]) @ h') = sends_when_empty False h'" for ok h'
  proof -
    from polls_neutral(2) [OF w(3), of ok] obtain ok' where
      "\<forall>h. sends_when_empty ok (t @ h) = sends_when_empty ok' h" by blast
    then show ?thesis using w(2) by simp
  qed
  moreover have "port_writes THR (t @ [InB LSR v, OutB THR c]) = [c]"
    using polls_neutral(1) [OF w(3)] by simp
  moreover have "putSerial hw c h = Inr (h @ t @ [InB LSR v, OutB THR c])"
    using w(1) by (simp add: putSerial_def SerialWrite_def outb_def serial_port_def)
  ultimately show ?thesis by (intro exI [of _ "t @ [InB LSR v, OutB THR c]"] conjI allI) simp_all
qed

lemma putSerials_sends:
  assumes "transmitter_drains hw"
  shows "\<exists>t. putSerials hw cs h = Inr (h @ t) \<and> port_writes THR t = cs \<and> sends_when_empty False t"
proof (induction cs arbitrary: h)
  case Nil
  then show ?case by simp
next
  case (Cons c cs)
  from putSerial_sends [OF assms, of c h] obtain t where t:
    "putSerial hw c h = Inr (h @ t)" "port_writes THR t = [c]"
    "\<And>ok h'. sends_when_empty ok (t @ h') = sends_when_empty False h'" by blast
  from Cons [of "h @ t"] obtain u where
    "putSerials hw cs (h @ t) = Inr ((h @ t) @ u)" "port_writes THR u = cs" "sends_when_empty False u"
    by blast
  with t show ?case by (intro exI [of _ "t @ u"]) simp
qed

text \<open>
  Writing a string to the serial line returns as long as the transmitter always becomes empty after
  finitely many polls; the bytes appear on the data port in order, each one
  directly after a status read that reported an empty transmitter.
\<close>

theorem putSerials_in_order:
  assumes "transmitter_drains hw"
  shows "\<exists>t. putSerials hw cs h = Inr (h @ t) \<and> port_writes THR t = cs \<and> sends_when_empty False t"
  by (rule putSerials_sends [OF assms])

text \<open>A transmitter that is busy on every other poll.\<close>

definition alternating :: hardware where
  "alternating =
     \<lparr>port_b = (\<lambda>h p. if even (length h) then 0 else 0x20), port_w = (\<lambda>h p. 0), port_l = (\<lambda>h p. 0),
      mmio_l = (\<lambda>h a. 0), msr_q = (\<lambda>h r. 0)\<rparr>"

lemma alternating_drains: "transmitter_drains alternating"
  unfolding transmitter_drains_def
proof
  fix h
  show "\<exists>n. port_b alternating (poll alternating n h) LSR AND 0x20 \<noteq> 0"
    by (rule exI [of _ "if even (length h) then 1 else 0"])
       (simp add: alternating_def inb_def)
qed

theorem putSerials_in_order_witness:
  "\<exists>t. putSerials alternating [0x4F, 0x4B] [] = Inr ([] @ t) \<and> port_writes THR t = [0x4F, 0x4B] \<and>
     sends_when_empty False t"
  by (rule putSerials_in_order [OF alternating_drains])

section \<open>Addresses of the ATA driver\<close>

text \<open>
  What an ATA device makes of the register writes: the sector count and each address
  register hold the two bytes written last, the earlier one as the high order byte.
\<close>

definition lba48_request :: "history \<Rightarrow> (nat \<times> nat) option" where
  "lba48_request h =
     (case (port_writes 0x1F2 h, port_writes 0x1F3 h, port_writes 0x1F4 h, port_writes 0x1F5 h) of
        ([ch, cl], [l3, l0], [l4, l1], [l5, l2]) \<Rightarrow>
          Some (le_nat [cl, ch], le_nat [l0, l1, l2, l3, l4, l5])
      | _ \<Rightarrow> None)"

lemma unat_byte_of: "unat (byte_of w i) = unat w div 2 ^ (8 * i) mod 256"
  by (simp add: byte_of_def unat_ucast_down unat_drop_bit)

lemma le_nat_bytes_of: "le_nat (map (byte_of w) [i..<i + n]) = unat w div 2 ^ (8 * i) mod 256 ^ n"
proof (induction n arbitrary: i)
  case 0
  then show ?case by simp
next
  case (Suc n)
  have "[i..<i + Suc n] = i # [Suc i..<Suc i + n]" by (simp add: upt_conv_Cons)
  then have "le_nat (map (byte_of w) [i..<i + Suc n]) =
      unat w div 2 ^ (8 * i) mod 256 + 256 * (unat w div 2 ^ (8 * Suc i) mod 256 ^ n)"
    using Suc [of "Suc i"] by (simp add: unat_byte_of del: upt_Suc)
  also have "unat w div 2 ^ (8 * Suc i) = unat w div 2 ^ (8 * i) div 256"
    using div_mult2_eq [of "unat w" "2 ^ (8 * i)" 256] by (simp add: power_add mult.commute)
  also have "unat w div 2 ^ (8 * i) mod 256 + 256 * (unat w div 2 ^ (8 * i) div 256 mod 256 ^ n) =
      unat w div 2 ^ (8 * i) mod 256 ^ Suc n"
    by (simp add: mod_mult2_eq)
  finally show ?case .
qed

text \<open>
  The register writes of a read request name the sector count and the low 48 bits of the address:
  decoding them as the device does gives both back.
\<close>

theorem readStuff_roundtrip:
  "lba48_request (readStuff count lba []) = Some (unat count, unat lba mod 2 ^ 48)"
proof -
  have "le_nat [byte_of count 0, byte_of count 1] = unat count"
    using le_nat_bytes_of [of count 0 2] unsigned_less [of count, where ?'a = nat]
    by (simp add: upt_rec)
  moreover have "le_nat [byte_of lba 0, byte_of lba 1, byte_of lba 2, byte_of lba 3, byte_of lba 4, byte_of lba 5] =
      unat lba mod 2 ^ 48"
    using le_nat_bytes_of [of lba 0 6] by (simp add: upt_rec flip: One_nat_def numeral_2_eq_2 numeral_3_eq_3)
  ultimately show ?thesis
    by (simp add: lba48_request_def readStuff_def outb_def)
qed

text \<open>
  \<open>ATAPIO_ReadBytes\<close> does not wait for the interrupt that brings the data: when the device is not
  busy and the interrupt has not come yet, the caller gets the words of
  the previous transfer; when it comes before the test, the call does not return.
\<close>

theorem ATAPIO_ReadBytes_stale:
  assumes "port_b hw (readStuff (ucast n) (scast lba) h) 0x1F7 AND 0x80 = 0"
  shows "(\<exists>s' h'. ATAPIO_ReadBytes hw False False n lba (s, h) = Inr (ata_data s, s', h')) \<and>
    ATAPIO_ReadBytes hw True late n lba (s, h) = Inl Hangs"
proof
  have "\<exists>h'. wait_not_busy hw (readStuff (ucast n) (scast lba) h) = Some h'"
    using assms by (subst wait_not_busy.simps) (simp add: inb_def Let_def)
  then show "\<exists>s' h'. ATAPIO_ReadBytes hw False False n lba (s, h) = Inr (ata_data s, s', h')"
    by (auto simp: ATAPIO_ReadBytes_def Let_def)
  show "ATAPIO_ReadBytes hw True late n lba (s, h) = Inl Hangs"
    by (simp add: ATAPIO_ReadBytes_def Let_def)
qed

theorem ATAPIO_ReadBytes_stale_witness:
  "\<exists>s' h'. ATAPIO_ReadBytes alternating False False 1 7
     (\<lparr>ata_data = replicate 256 0xAA, atapio_identify = replicate 256 0, atapio_lba48 = 0, ata_req = 0\<rparr>, []) =
       Inr (replicate 256 0xAA, s', h')"
  using ATAPIO_ReadBytes_stale [of alternating 1 7 "[]"
     "\<lparr>ata_data = replicate 256 0xAA, atapio_identify = replicate 256 0, atapio_lba48 = 0, ata_req = 0\<rparr>"]
  by (simp add: alternating_def readStuff_def outb_def)

end
