(* ===== verification/Pci.thy ===== *)
theory Pci
  imports Io
begin

text \<open>
  The PCI configuration space of \<open>src/src/drivers/pci.c\<close>: reading and writing registers through the
  ports 0xCF8 and 0xCFC, the scan over all buses that fills the device table, the lookups in
  that table and the header fields of a device. The configuration space behind the
  ports is a parameter. \<open>src/src/drivers/msix/msix.c\<close>, which programs the interrupt
  message of a device, is at the end.
\<close>

section \<open>Data\<close>

record PCI_device =
  pci_bus :: u16
  pci_slot :: u16
  pci_function :: u16
  vendor_id :: u16
  device_id :: u16
  pci_command :: u16
  pci_status :: u16
  revision :: u8
  progIF :: u8
  subclass_id :: u8
  class_id :: u8
  cacheLineSize :: u8
  latencyTimer :: u8
  headerType :: u8
  bist :: u8

record PCIGeneralDevice =
  gen_base :: PCI_device
  BAR :: "u32 list"
  subsystem_id :: u16
  subsystem_vendor_id :: u16
  expansion_rom_address :: u32
  capabilities_pointer :: u8
  max_latency :: u8
  min_grant :: u8
  interript_pin :: u8
  interrupt_line :: u8

text \<open>The globals \<open>devices\<close>, an array of 100 entries, and \<open>PCI_dev_count\<close>.\<close>

record pci =
  devices :: "PCI_device list"
  PCI_dev_count :: int

definition zero_device :: PCI_device where
  "zero_device = \<lparr>pci_bus = 0, pci_slot = 0, pci_function = 0, vendor_id = 0, device_id = 0, pci_command = 0,
     pci_status = 0, revision = 0, progIF = 0, subclass_id = 0, class_id = 0, cacheLineSize = 0,
     latencyTimer = 0, headerType = 0, bist = 0\<rparr>"

section \<open>Configuration accesses\<close>

definition config_address :: "u8 \<Rightarrow> u8 \<Rightarrow> u8 \<Rightarrow> u8 \<Rightarrow> u32" where
  "config_address b s f offset =
     push_bit 16 (ucast b) OR push_bit 11 (ucast s) OR push_bit 8 (ucast f) OR
     (ucast offset AND 0xFC) OR 0x80000000"

definition PCI_ConfigReadWord ::
    "hardware \<Rightarrow> u8 \<Rightarrow> u8 \<Rightarrow> u8 \<Rightarrow> u8 \<Rightarrow> history \<Rightarrow> u16 \<times> history" where
  "PCI_ConfigReadWord hw b s f offset h =
     (let h = outportl 0xCF8 (ucast (config_address b s f offset)) h;
          (v, h) = inportl hw 0xCFC h
      in (ucast (drop_bit (unat (offset AND 2) * 8) v AND 0xFFFF), h))"

definition PCI_ConfigWriteWord :: "u8 \<Rightarrow> u8 \<Rightarrow> u8 \<Rightarrow> u8 \<Rightarrow> u32 \<Rightarrow> history \<Rightarrow> history" where
  "PCI_ConfigWriteWord b s f offset val h =
     outportl 0xCFC (ucast val) (outportl 0xCF8 (ucast (config_address b s f offset)) h)"

text \<open>The two accesses through a device keep the 16-bit location fields of the device unmasked.\<close>

definition device_address :: "PCI_device \<Rightarrow> u8 \<Rightarrow> u32" where
  "device_address d offset =
     push_bit 16 (ucast (pci_bus d)) OR push_bit 11 (ucast (pci_slot d)) OR push_bit 8 (ucast (pci_function d)) OR
     (ucast offset AND 0xFC) OR 0x80000000"

definition PCI_DeviceConfigWriteWord :: "PCI_device \<Rightarrow> u8 \<Rightarrow> u32 \<Rightarrow> history \<Rightarrow> history" where
  "PCI_DeviceConfigWriteWord d offset val h =
     outportl 0xCFC (ucast val) (outportl 0xCF8 (ucast (device_address d offset)) h)"

definition PCI_DeviceConfigReadWord :: "hardware \<Rightarrow> PCI_device \<Rightarrow> u8 \<Rightarrow> history \<Rightarrow> u32 \<times> history" where
  "PCI_DeviceConfigReadWord hw d offset h =
     inportl hw 0xCFC (outportl 0xCF8 (ucast (device_address d offset)) h)"

definition PCI_CheckVendor :: "hardware \<Rightarrow> u8 \<Rightarrow> u8 \<Rightarrow> u8 \<Rightarrow> history \<Rightarrow> u16 \<times> history" where
  "PCI_CheckVendor hw b s f h =
     (let (vendor, h) = PCI_ConfigReadWord hw b s f 0 h
      in if vendor \<noteq> 0xFFFF
         then let (device, h) = PCI_ConfigReadWord hw b s f 2 h in (vendor, h)
         else (vendor, h))"

text \<open>\<open>PCI_ReadDevice\<close> keeps the bus as passed; the reads take its low byte.\<close>

definition PCI_ReadDevice ::
    "hardware \<Rightarrow> u16 \<Rightarrow> u8 \<Rightarrow> u8 \<Rightarrow> history \<Rightarrow> PCI_device \<times> history" where
  "PCI_ReadDevice hw b s f h =
     (let rd = PCI_ConfigReadWord hw (ucast b) s f;
          (vendor, h) = rd 0x00 h;
          (device, h) = rd 0x02 h;
          (stat, h) = rd 0x06 h;
          (cmd, h) = rd 0x04 h;
          (revprogif, h) = rd 0x08 h;
          (subclassClass, h) = rd 0x0a h;
          (cachelatency, h) = rd 0x0c h;
          (headerbist, h) = rd 0x0e h
      in (\<lparr>pci_bus = b, pci_slot = ucast s, pci_function = ucast f, vendor_id = vendor, device_id = device,
           pci_command = cmd, pci_status = stat,
           revision = ucast (revprogif AND 0xFF), progIF = ucast (drop_bit 8 revprogif AND 0xFF),
           subclass_id = ucast (subclassClass AND 0xFF), class_id = ucast (drop_bit 8 subclassClass AND 0xFF),
           cacheLineSize = ucast (cachelatency AND 0xFF), latencyTimer = ucast (drop_bit 8 cachelatency AND 0xFF),
           headerType = ucast (headerbist AND 0xFF), bist = ucast (drop_bit 8 headerbist AND 0xFF)\<rparr>, h))"

definition PCI_Refresh :: "hardware \<Rightarrow> PCI_device \<Rightarrow> history \<Rightarrow> PCI_device \<times> history" where
  "PCI_Refresh hw d h = PCI_ReadDevice hw (pci_bus d) (ucast (pci_slot d)) (ucast (pci_function d)) h"

section \<open>The device table\<close>

definition PCI_GetDeviceCount :: "pci \<Rightarrow> u16" where
  "PCI_GetDeviceCount p = of_int (PCI_dev_count p)"

text \<open>The lookups return the index of the entry, where the code returns its address or 0.\<close>

fun find_device :: "(PCI_device \<Rightarrow> bool) \<Rightarrow> PCI_device list \<Rightarrow> nat \<Rightarrow> nat \<Rightarrow> nat option outcome" where
  "find_device P ds i 0 = Inr None"
| "find_device P ds i (Suc n) =
     andthen (array_get ds i) (\<lambda>d. if P d then Inr (Some i) else find_device P ds (Suc i) n)"

definition PCI_GetFromID :: "u16 \<Rightarrow> u16 \<Rightarrow> pci \<Rightarrow> nat option outcome" where
  "PCI_GetFromID vendor device p =
     find_device (\<lambda>d. vendor_id d = vendor \<and> device_id d = device) (devices p) 0
       (unat (PCI_GetDeviceCount p))"

definition PCI_GetFromType :: "int \<Rightarrow> int \<Rightarrow> pci \<Rightarrow> nat option outcome" where
  "PCI_GetFromType cls sub p =
     find_device (\<lambda>d. uint (class_id d) = cls \<and> uint (subclass_id d) = sub) (devices p) 0
       (unat (PCI_GetDeviceCount p))"

text \<open>One iteration of the innermost loop of the scan.\<close>

definition scan_function ::
    "hardware \<Rightarrow> nat \<Rightarrow> nat \<Rightarrow> nat \<Rightarrow> pci \<times> history \<Rightarrow> (pci \<times> history) outcome" where
  "scan_function hw b s f = (\<lambda>(p, h).
     let (vendor, h) = PCI_CheckVendor hw (of_nat b) (of_nat s) (of_nat f) h
     in if vendor = 0xFFFF then Inr (p, h)
        else let (d, h) = PCI_ReadDevice hw (of_nat b) (of_nat s) (of_nat f) h
             in andthen (array_set (devices p) (nat (PCI_dev_count p)) d) (\<lambda>ds.
                  Inr (p\<lparr>devices := ds, PCI_dev_count := PCI_dev_count p + 1\<rparr>, h)))"

fun for_each :: "('a \<Rightarrow> 's \<Rightarrow> 's outcome) \<Rightarrow> 'a list \<Rightarrow> 's \<Rightarrow> 's outcome" where
  "for_each f [] s = Inr s"
| "for_each f (x # xs) s = andthen (f x s) (for_each f xs)"

definition PCI_Initiate :: "hardware \<Rightarrow> pci \<times> history \<Rightarrow> (pci \<times> history) outcome" where
  "PCI_Initiate hw = (\<lambda>(p, h).
     for_each (\<lambda>b. for_each (\<lambda>s. for_each (\<lambda>f. scan_function hw b s f) [0..<8]) [0..<32]) [0..<256]
       (p\<lparr>PCI_dev_count := 0\<rparr>, h))"

section \<open>Header fields\<close>

definition PCI_GetMMIO :: "PCI_device \<Rightarrow> u64 \<Rightarrow> u64" where
  "PCI_GetMMIO d b = b + scast (push_bit 20 (ucast (pci_bus d)) OR push_bit 15 (ucast (pci_slot d)) OR
     push_bit 12 (ucast (pci_function d)) :: u32)"

definition COMBINE_WORD :: "u16 \<Rightarrow> u16 \<Rightarrow> u32" where
  "COMBINE_WORD msb lsb = push_bit 16 (ucast msb) OR ucast lsb"

definition EXPORT_BYTE :: "u16 \<Rightarrow> bool \<Rightarrow> u8" where
  "EXPORT_BYTE target fst_byte =
     (if fst_byte then ucast (target AND 0x00FF) else ucast (drop_bit 8 (target AND 0xFF00)))"

fun read_bars :: "(u8 \<Rightarrow> history \<Rightarrow> u16 \<times> history) \<Rightarrow> nat list \<Rightarrow> history \<Rightarrow> u32 list \<times> history" where
  "read_bars rd [] h = ([], h)"
| "read_bars rd (i # is') h =
     (let (hi, h) = rd (of_nat (0x10 + 4 * i + 2)) h;
          (lo, h) = rd (of_nat (0x10 + 4 * i)) h;
          (bs, h) = read_bars rd is' h
      in (COMBINE_WORD hi lo # bs, h))"

definition PCI_GetGeneralDevice ::
    "hardware \<Rightarrow> PCI_device \<Rightarrow> history \<Rightarrow> PCIGeneralDevice \<times> history" where
  "PCI_GetGeneralDevice hw d h =
     (let rd = PCI_ConfigReadWord hw (ucast (pci_bus d)) (ucast (pci_slot d)) (ucast (pci_function d));
          (bars, h) = read_bars rd [0..<6] h;
          (svendor, h) = rd 0x2C h;
          (sid, h) = rd 0x2E h;
          (romhi, h) = rd 0x32 h;
          (romlo, h) = rd 0x30 h;
          (cap, h) = rd 0x34 h;
          (ints, h) = rd 0x3C h;
          (grant, h) = rd 0x3E h
      in (\<lparr>gen_base = d, BAR = bars, subsystem_id = sid, subsystem_vendor_id = svendor,
           expansion_rom_address = COMBINE_WORD romhi romlo,
           capabilities_pointer = EXPORT_BYTE cap True,
           max_latency = EXPORT_BYTE grant False, min_grant = EXPORT_BYTE grant True,
           interript_pin = EXPORT_BYTE ints False, interrupt_line = EXPORT_BYTE ints True\<rparr>, h))"

definition PCI_INFO_VENDOR :: "int \<Rightarrow> string option" where
  "PCI_INFO_VENDOR vendor =
     (if vendor = 0x8086 then Some ''Intel Corporation''
      else if vendor = 0x10EC then Some '' Realtek Semiconductor Co., Ltd.''
      else None)"

definition PCI_INFO_DEVICE :: "int \<Rightarrow> int \<Rightarrow> string option" where
  "PCI_INFO_DEVICE vendor device = None"

section \<open>Interrupt messages\<close>

text \<open>\<open>arch_msi_address\<close> returns the address and stores the data word.\<close>

definition arch_msi_address :: "u64 \<Rightarrow> u32 \<Rightarrow> u8 \<Rightarrow> u8 \<Rightarrow> u64 \<times> u32" where
  "arch_msi_address vector processor edgetrigger deassert =
     (ucast (0xFEE00000 OR push_bit 12 processor),
      ucast (vector AND 0xFF) OR (if edgetrigger = 1 then 0 else 0x8000) OR
      (if deassert = 1 then 0 else 0x4000))"

text \<open>\<open>MSIX_HANDLE_CAPABILITY\<close>: the capability structure is read and written as registers, and every
  entry of the table behind the base address register gets the same message.\<close>

definition ADDR_FROM_BIR :: "u32 list \<Rightarrow> u32 \<Rightarrow> u64 outcome" where
  "ADDR_FROM_BIR bars a =
     andthen (array_get bars (unat (a AND 0x7))) (\<lambda>b. Inr (ucast ((b AND (NOT 0xf)) + (a AND (NOT 0x7)))))"

definition msix_entry :: "u64 \<Rightarrow> nat \<Rightarrow> history \<Rightarrow> history" where
  "msix_entry table i h =
     (let (addr, dat) = arch_msi_address 0x2B 0 1 0;
          e = table + of_nat (16 * i);
          h = mmio_write e (ucast addr AND (NOT 0x3)) h;
          h = mmio_write (e + 4) (ucast (drop_bit 32 addr)) h;
          h = mmio_write (e + 8) dat h
      in mmio_write (e + 12) 0 h)"

definition MSIX_HANDLE_CAPABILITY ::
    "hardware \<Rightarrow> u64 \<Rightarrow> PCIGeneralDevice \<Rightarrow> u32 \<Rightarrow> history \<Rightarrow> history outcome" where
  "MSIX_HANDLE_CAPABILITY hw cap device maxintrs h =
     (let (d, h) = mmio_read hw cap h;
          (d, h) = mmio_read hw cap h;
          h = mmio_write cap (d OR 0x80000000) h;
          (d, h) = mmio_read hw cap h;
          (_, h) = mmio_read hw (cap + 4) h;
          (addr, h) = mmio_read hw (cap + 4) h;
          (pba, h) = mmio_read hw (cap + 8) h
      in andthen (ADDR_FROM_BIR (BAR device) addr) (\<lambda>table.
           andthen (ADDR_FROM_BIR (BAR device) pba) (\<lambda>_.
             Inr (fold (msix_entry table) [0..<unat maxintrs] h))))"

definition MSI_HANDLE_CAPABILITY :: "hardware \<Rightarrow> u64 \<Rightarrow> history \<Rightarrow> history" where
  "MSI_HANDLE_CAPABILITY hw cap h =
     (let (v, h) = mmio_read hw cap h;
          h = mmio_write cap (v AND (NOT (push_bit 16 0x71))) h;
          (v, h) = mmio_read hw cap h;
          h = mmio_write cap (v OR push_bit 16 0x11) h;
          (v, h) = mmio_read hw cap h;
          bit64 = bit v 23;
          (v, h) = mmio_read hw cap h;
          masking = bit v 24;
          dataptr = cap + 8 + (if bit64 then 4 else 0);
          (addr, dat) = arch_msi_address 0x2A 0 1 0;
          h = mmio_write dataptr dat h;
          h = mmio_write (cap + 4) (ucast addr) h;
          h = (if bit64 then mmio_write (cap + 8) (ucast (drop_bit 32 addr)) h else h)
      in if masking then mmio_write (dataptr + 16) 0 h else h)"

section \<open>Configuration space\<close>

text \<open>
  The documented behaviour of configuration mechanism 1: a read of the data port returns the
  double word whose address was written to the address port just before. \<open>cfg\<close> is the
  content of the configuration space by address.
\<close>

definition config_space :: "hardware \<Rightarrow> (u32 \<Rightarrow> u32) \<Rightarrow> bool" where
  "config_space hw cfg \<longleftrightarrow> (\<forall>h a. port_l hw (h @ [OutL 0xCF8 a]) 0xCFC = cfg a)"

text \<open>What the header of a function says, by double words.\<close>

definition cfg_header :: "(u32 \<Rightarrow> u32) \<Rightarrow> u8 \<times> u8 \<times> u8 \<Rightarrow> u8 \<Rightarrow> u32" where
  "cfg_header cfg = (\<lambda>(b, s, f) off. cfg (config_address b s f off))"

definition cfg_present :: "(u32 \<Rightarrow> u32) \<Rightarrow> u8 \<times> u8 \<times> u8 \<Rightarrow> bool" where
  "cfg_present cfg l \<longleftrightarrow> (ucast (cfg_header cfg l 0) :: u16) \<noteq> 0xFFFF"

definition cfg_device :: "(u32 \<Rightarrow> u32) \<Rightarrow> u8 \<times> u8 \<times> u8 \<Rightarrow> PCI_device" where
  "cfg_device cfg l =
     \<lparr>pci_bus = ucast (fst l), pci_slot = ucast (fst (snd l)), pci_function = ucast (snd (snd l)),
      vendor_id = ucast (cfg_header cfg l 0), device_id = ucast (drop_bit 16 (cfg_header cfg l 0)),
      pci_command = ucast (cfg_header cfg l 4), pci_status = ucast (drop_bit 16 (cfg_header cfg l 4)),
      revision = byte_of (cfg_header cfg l 8) 0, progIF = byte_of (cfg_header cfg l 8) 1,
      subclass_id = byte_of (cfg_header cfg l 8) 2, class_id = byte_of (cfg_header cfg l 8) 3,
      cacheLineSize = byte_of (cfg_header cfg l 12) 0, latencyTimer = byte_of (cfg_header cfg l 12) 1,
      headerType = byte_of (cfg_header cfg l 12) 2, bist = byte_of (cfg_header cfg l 12) 3\<rparr>"

lemma word16_of_dword [simp]: "ucast ((v :: u32) AND 0xFFFF) = (ucast v :: u16)"
  unfolding byte_masks by (rule bit_word_eqI) (auto simp: bit_simps)

lemma ucast_u64_u32 [simp]: "ucast (ucast (x :: u32) :: u64) = x"
  by (rule bit_word_eqI) (simp add: bit_simps)

lemma byte_of_word16:
  "ucast ((ucast (v :: u32) :: u16) AND 0xFF) = byte_of v 0"
  "ucast (drop_bit 8 (ucast v :: u16) AND 0xFF) = byte_of v 1"
  "ucast ((ucast (drop_bit 16 v) :: u16) AND 0xFF) = byte_of v 2"
  "ucast (drop_bit 8 (ucast (drop_bit 16 v) :: u16) AND 0xFF) = byte_of v 3"
  unfolding byte_masks by (rule bit_word_eqI; auto simp: byte_of_def bit_simps; fail)+

lemma byte_of_high [simp]:
  "byte_of (drop_bit 16 v) 0 = byte_of v 2" "byte_of (drop_bit 16 v) (Suc 0) = byte_of v 3"
  by (simp_all add: byte_of_def)

text \<open>A read delivers the half of the addressed double word that the offset selects.\<close>

lemma ConfigReadWord_value:
  assumes "config_space hw cfg"
  shows "fst (PCI_ConfigReadWord hw b s f off h) =
    ucast (drop_bit (unat (off AND 2) * 8) (cfg_header cfg (b, s, f) off))"
  using assms
  by (simp add: PCI_ConfigReadWord_def config_space_def cfg_header_def outportl_def inportl_def Let_def)

lemma config_address_offset:
  "off AND 0xFC = off' AND 0xFC \<Longrightarrow> config_address b s f off = config_address b s f off'"
proof -
  assume o: "off AND 0xFC = off' AND 0xFC"
  have "(ucast x AND 0xFC :: u32) = ucast (x AND 0xFC)" for x :: u8
    by (simp add: unsigned_and_eq)
  with o show ?thesis by (simp add: config_address_def)
qed

lemma cfg_header_halves:
  "cfg_header cfg l 2 = cfg_header cfg l 0" "cfg_header cfg l 6 = cfg_header cfg l 4"
  "cfg_header cfg l 10 = cfg_header cfg l 8" "cfg_header cfg l 14 = cfg_header cfg l 12"
  by (cases l; simp add: cfg_header_def; rule arg_cong [where f = cfg]; rule config_address_offset; simp)+

text \<open>Reading a device returns what its header says.\<close>

lemma ReadDevice_value:
  assumes "config_space hw cfg"
  shows "fst (PCI_ReadDevice hw (ucast b) s f h) = cfg_device cfg (b, s, f)"
proof -
  have b: "ucast (ucast b :: u16) = b" by (rule bit_word_eqI) (simp add: bit_simps)
  note rd = ConfigReadWord_value [OF assms, of b s f, simplified]
  show ?thesis
    by (simp add: PCI_ReadDevice_def b Let_def split_beta rd cfg_header_halves cfg_device_def byte_of_word16)
qed

lemma CheckVendor_value:
  assumes "config_space hw cfg"
  shows "(fst (PCI_CheckVendor hw b s f h) = 0xFFFF) = (\<not> cfg_present cfg (b, s, f))"
  using ConfigReadWord_value [OF assms, of b s f 0 h]
  by (simp add: PCI_CheckVendor_def Let_def split_beta cfg_present_def)

section \<open>The scan\<close>

text \<open>All functions in the order of the three loops.\<close>

definition locations :: "(nat \<times> nat \<times> nat) list" where
  "locations = List.product [0..<256] (List.product [0..<32] [0..<8])"

definition location :: "nat \<times> nat \<times> nat \<Rightarrow> u8 \<times> u8 \<times> u8" where
  "location = (\<lambda>(b, s, f). (of_nat b, of_nat s, of_nat f))"

definition found :: "(u32 \<Rightarrow> u32) \<Rightarrow> (nat \<times> nat \<times> nat) list \<Rightarrow> PCI_device list" where
  "found cfg ls = map (cfg_device cfg) (filter (cfg_present cfg) (map location ls))"

lemma for_each_append: "for_each f (xs @ ys) s = andthen (for_each f xs s) (for_each f ys)"
  by (induction xs arbitrary: s) (simp_all add: andthen_def split: sum.split)

lemma for_each_map: "for_each f (map g xs) s = for_each (\<lambda>x. f (g x)) xs s"
  by (induction xs arbitrary: s) (simp_all add: andthen_def split: sum.split)

lemma for_each_product:
  "for_each (\<lambda>x. for_each (f x) ys) xs s = for_each (\<lambda>(x, y). f x y) (List.product xs ys) s"
proof (induction xs arbitrary: s)
  case Nil
  then show ?case by simp
next
  case (Cons x xs)
  then show ?case
    by (simp add: for_each_append for_each_map) (rule arg_cong [where f = "andthen _"], rule ext, simp)
qed

lemma PCI_Initiate_locations:
  "PCI_Initiate hw (p, h) =
     for_each (\<lambda>(b, s, f). scan_function hw b s f) locations (p\<lparr>PCI_dev_count := 0\<rparr>, h)"
proof -
  have "for_each (\<lambda>s. for_each (scan_function hw b s) [0..<8]) [0..<32] =
      for_each (\<lambda>(s, f). scan_function hw b s f) (List.product [0..<32] [0..<8])" for b
    by (rule ext) (rule for_each_product)
  then have "PCI_Initiate hw (p, h) =
      for_each (\<lambda>b. for_each (\<lambda>(s, f). scan_function hw b s f) (List.product [0..<32] [0..<8])) [0..<256]
        (p\<lparr>PCI_dev_count := 0\<rparr>, h)"
    by (simp add: PCI_Initiate_def)
  then show ?thesis unfolding for_each_product locations_def by simp
qed

lemma scan_function_step:
  assumes "config_space hw cfg" and "b < 256"
  shows "\<exists>h'. scan_function hw b s f (\<lparr>devices = ds, PCI_dev_count = int n\<rparr>, h) =
    (if cfg_present cfg (location (b, s, f))
     then andthen (array_set ds n (cfg_device cfg (location (b, s, f)))) (\<lambda>ds.
       Inr (\<lparr>devices = ds, PCI_dev_count = int (Suc n)\<rparr>, h'))
     else Inr (\<lparr>devices = ds, PCI_dev_count = int n\<rparr>, h'))"
proof -
  have b: "(of_nat b :: u16) = ucast (of_nat b :: u8)"
    using assms(2) by (simp add: word_unat_eq_iff unat_ucast_up unat_of_nat)
  obtain v h1 where v: "PCI_CheckVendor hw (of_nat b) (of_nat s) (of_nat f) h = (v, h1)" by fastforce
  obtain d h2 where d: "PCI_ReadDevice hw (of_nat b) (of_nat s) (of_nat f) h1 = (d, h2)" by fastforce
  have "(v = 0xFFFF) = (\<not> cfg_present cfg (location (b, s, f)))"
    using CheckVendor_value [OF assms(1), of "of_nat b" "of_nat s" "of_nat f" h] v
    by (simp add: location_def)
  moreover have "d = cfg_device cfg (location (b, s, f))"
    using ReadDevice_value [OF assms(1), of "of_nat b" "of_nat s" "of_nat f" h1] d
    by (simp add: location_def b)
  ultimately show ?thesis
    using v d
    by (intro exI [of _ "if v = 0xFFFF then h1 else h2"])
       (auto simp: scan_function_def Let_def add.commute)
qed

text \<open>
  The scan from any point: the devices of the remaining locations go to the next free entries, and
  the scan faults when the table is full.
\<close>

lemma scan_found:
  assumes "config_space hw cfg" and "\<forall>l\<in>set ls. fst l < 256"
  assumes "n \<le> length ds"
  shows "\<exists>h'. for_each (\<lambda>(b, s, f). scan_function hw b s f) ls (\<lparr>devices = ds, PCI_dev_count = int n\<rparr>, h) =
    (if n + length (found cfg ls) \<le> length ds
     then Inr (\<lparr>devices = take n ds @ found cfg ls @ drop (n + length (found cfg ls)) ds,
                PCI_dev_count = int (n + length (found cfg ls))\<rparr>, h')
     else Inl OutOfBounds)"
  using assms(2-3)
proof (induction ls arbitrary: ds n h)
  case Nil
  then show ?case by (auto simp: found_def)
next
  case (Cons l ls)
  obtain b s f where l: "l = (b, s, f)" by (cases l)
  then have b: "b < 256" using Cons.prems(1) by simp
  let ?p = "\<lparr>devices = ds, PCI_dev_count = int n\<rparr>"
  let ?d = "cfg_device cfg (location (b, s, f))"
  let ?scan = "\<lambda>(b, s, f). scan_function hw b s f"
  from scan_function_step [OF assms(1) b, of s f ds n h] obtain h1 where step:
    "scan_function hw b s f (?p, h) =
      (if cfg_present cfg (location (b, s, f))
       then andthen (array_set ds n ?d) (\<lambda>ds. Inr (\<lparr>devices = ds, PCI_dev_count = int (Suc n)\<rparr>, h1))
       else Inr (?p, h1))" by blast
  show ?case
  proof (cases "cfg_present cfg (location (b, s, f))")
    case False
    then have fl: "found cfg (l # ls) = found cfg ls" by (simp add: found_def l)
    have fe: "for_each ?scan (l # ls) (?p, h) = for_each ?scan ls (?p, h1)"
      using step False by (simp add: l)
    have "\<forall>l\<in>set ls. fst l < 256" using Cons.prems by auto
    from Cons.IH [OF this Cons.prems(2), of h1] show ?thesis by (simp only: fl fe)
  next
    case True
    have f: "found cfg (l # ls) = ?d # found cfg ls" using True by (simp add: found_def l)
    show ?thesis
    proof (cases "n < length ds")
      case False
      then show ?thesis using step True Cons.prems f by (simp add: l array_set_def)
    next
      case n: True
      have "for_each ?scan (l # ls) (?p, h) =
          for_each ?scan ls (\<lparr>devices = ds[n := ?d], PCI_dev_count = int (Suc n)\<rparr>, h1)"
        using step True n by (simp add: l array_set_def)
      moreover have "take (Suc n) (ds[n := ?d]) = take n ds @ [?d]"
        using n by (simp add: take_Suc_conv_app_nth)
      moreover obtain h2 where "for_each ?scan ls (\<lparr>devices = ds[n := ?d], PCI_dev_count = int (Suc n)\<rparr>, h1) =
          (if Suc n + length (found cfg ls) \<le> length ds
           then Inr (\<lparr>devices = take (Suc n) (ds[n := ?d]) @ found cfg ls @ drop (Suc n + length (found cfg ls)) (ds[n := ?d]),
                      PCI_dev_count = int (Suc n + length (found cfg ls))\<rparr>, h2)
           else Inl OutOfBounds)"
        using Cons.IH [of "Suc n" "ds[n := ?d]" h1] Cons.prems n by auto
      ultimately show ?thesis
        by (intro exI [of _ h2]) (simp add: f)
    qed
  qed
qed

lemma PCI_Initiate_found:
  assumes "config_space hw cfg" and "length (devices p) = 100"
  shows "\<exists>h'. PCI_Initiate hw (p, h) =
    (if length (found cfg locations) \<le> 100
     then Inr (\<lparr>devices = found cfg locations @ drop (length (found cfg locations)) (devices p),
                PCI_dev_count = int (length (found cfg locations))\<rparr>, h')
     else Inl OutOfBounds)"
proof -
  have "\<forall>l\<in>set locations. fst l < 256" by (auto simp: locations_def)
  from scan_found [OF assms(1) this, of 0 "devices p" h] assms(2)
  show ?thesis by (cases p) (simp add: PCI_Initiate_locations cong: if_cong)
qed

text \<open>
  C17: The scan of all buses fills the table with exactly the functions whose vendor field is not
  0xFFFF, in the order of bus, slot and function, each with the fields of its
  header. A machine with more than 100 functions makes it write past the table, which has no guard.
\<close>

theorem PCI_Initiate_scan:
  assumes "config_space hw cfg" and "length (devices p) = 100"
  shows "\<exists>h'. PCI_Initiate hw (p, h) =
    (if length (found cfg locations) \<le> 100
     then Inr (\<lparr>devices = found cfg locations @ drop (length (found cfg locations)) (devices p),
                PCI_dev_count = int (length (found cfg locations))\<rparr>, h')
     else Inl OutOfBounds)"
  by (rule PCI_Initiate_found [OF assms])

text \<open>A machine with one function, at bus 0, slot 0.\<close>

definition one_function :: hardware where
  "one_function = \<lparr>port_b = (\<lambda>h p. 0), port_w = (\<lambda>h p. 0),
     port_l = (\<lambda>h p. case rev h of OutL q a # _ \<Rightarrow> if a = 0x80000000 then 0x12378086 else 0xFFFFFFFF | _ \<Rightarrow> 0xFFFFFFFF),
     mmio_l = (\<lambda>h a. 0), msr_q = (\<lambda>h r. 0)\<rparr>"

lemma one_function_space:
  "config_space one_function (\<lambda>a. if a = 0x80000000 then 0x12378086 else 0xFFFFFFFF)"
  by (simp add: config_space_def one_function_def)

theorem PCI_Initiate_scan_witness:
  "\<exists>h'. PCI_Initiate one_function (\<lparr>devices = replicate 100 zero_device, PCI_dev_count = 7\<rparr>, []) =
    (if length (found (\<lambda>a. if a = 0x80000000 then 0x12378086 else 0xFFFFFFFF) locations) \<le> 100
     then Inr (\<lparr>devices = found (\<lambda>a. if a = 0x80000000 then 0x12378086 else 0xFFFFFFFF) locations @
                  drop (length (found (\<lambda>a. if a = 0x80000000 then 0x12378086 else 0xFFFFFFFF) locations))
                    (replicate 100 zero_device),
                PCI_dev_count = int (length (found (\<lambda>a. if a = 0x80000000 then 0x12378086 else 0xFFFFFFFF) locations))\<rparr>, h')
     else Inl OutOfBounds)"
  using PCI_Initiate_scan [OF one_function_space, of "\<lparr>devices = replicate 100 zero_device, PCI_dev_count = 7\<rparr>" "[]"]
  by (simp only: pci.simps length_replicate simp_thms)

section \<open>Lookups\<close>

lemma find_device_find:
  assumes "i + n \<le> length ds"
  shows "find_device P ds i n = Inr (find (\<lambda>j. P (ds ! j)) [i..<i + n])"
  using assms
proof (induction n arbitrary: i)
  case 0
  then show ?case by simp
next
  case (Suc n)
  have "[i..<i + Suc n] = i # [Suc i..<Suc i + n]" by (simp add: upt_conv_Cons)
  then show ?case using Suc.IH [of "Suc i"] Suc.prems by (simp add: array_get_def del: upt_Suc)
qed

lemma find_upt_append:
  assumes "n \<le> length xs"
  shows "find (\<lambda>j. P ((xs @ ys) ! j)) [0..<n] = find (\<lambda>j. P (xs ! j)) [0..<n]"
  using assms by (intro find_cong) (auto simp: nth_append)

text \<open>
  When all functions fit the table, a scan followed by a lookup of a vendor and device number returns the first
  function in scan order whose header carries them, and nothing when there is none.
\<close>

theorem PCI_GetFromID_first:
  assumes "config_space hw cfg" and "length (devices p) = 100" and "length (found cfg locations) \<le> 100"
  shows "\<exists>p' h'. PCI_Initiate hw (p, h) = Inr (p', h') \<and>
    PCI_GetFromID v d p' =
      Inr (find (\<lambda>i. vendor_id (found cfg locations ! i) = v \<and> device_id (found cfg locations ! i) = d)
            [0..<length (found cfg locations)])"
proof -
  let ?n = "length (found cfg locations)"
  let ?p = "\<lparr>devices = found cfg locations @ drop ?n (devices p), PCI_dev_count = int ?n\<rparr>"
  let ?P = "\<lambda>e. vendor_id e = v \<and> device_id e = d"
  obtain h' where h': "PCI_Initiate hw (p, h) = Inr (?p, h')"
    using PCI_Initiate_found [OF assms(1,2), of h] assms(3) by auto
  have n: "unat (PCI_GetDeviceCount ?p) = ?n"
    using assms(3) by (simp add: PCI_GetDeviceCount_def unat_of_nat)
  have "find_device ?P (devices ?p) 0 ?n = Inr (find (\<lambda>j. ?P (devices ?p ! j)) [0..<0 + ?n])"
    by (rule find_device_find) simp
  also have "find (\<lambda>j. ?P (devices ?p ! j)) [0..<0 + ?n] = find (\<lambda>i. ?P (found cfg locations ! i)) [0..<?n]"
    using find_upt_append [of ?n "found cfg locations" ?P "drop ?n (devices p)"] by simp
  finally show ?thesis using h' n by (auto simp: PCI_GetFromID_def)
qed

lemma small_bits: "unat (x :: u8) < 2 ^ k \<Longrightarrow> bit x n \<Longrightarrow> n < k"
proof (rule ccontr)
  assume x: "unat x < 2 ^ k" "bit x n" "\<not> n < k"
  then have "take_bit k x = x" by (simp add: word_unat_eq_iff unsigned_take_bit_eq take_bit_nat_eq_self)
  with x(2,3) show False by (metis bit_take_bit_iff)
qed

lemma bit_u8_less: "bit (x :: u8) n \<Longrightarrow> n < 8"
  using bit_imp_le_length [of x n] by simp

lemma bit_top: "bit (0x80000000 :: int) n \<longleftrightarrow> n = 31"
proof -
  have "(0x80000000 :: int) = push_bit 31 1" by simp
  then show ?thesis by (simp only: bit_push_bit_iff bit_1_iff) auto
qed

lemma bit_config_address:
  "bit (config_address b s f off) n \<longleftrightarrow>
     16 \<le> n \<and> bit b (n - 16) \<or> 11 \<le> n \<and> bit s (n - 11) \<or> 8 \<le> n \<and> bit f (n - 8) \<or>
     2 \<le> n \<and> bit off n \<or> n = 31"
proof -
  have "(0xFC :: u32) = push_bit 2 (mask 6)"
    by (simp add: mask_eq_exp_minus_1)
  then have eq: "config_address b s f off =
      push_bit 16 (ucast b) OR push_bit 11 (ucast s) OR push_bit 8 (ucast f) OR
      (ucast off AND push_bit 2 (mask 6)) OR 0x80000000"
    by (simp only: config_address_def)
  have "bit b (n - 16) \<Longrightarrow> n < 24" "bit s (n - 11) \<Longrightarrow> n < 19" "bit f (n - 8) \<Longrightarrow> n < 16" "bit off n \<Longrightarrow> n < 8"
    using bit_u8_less [of off n] bit_u8_less [of b "n - 16"] bit_u8_less [of s "n - 11"] bit_u8_less [of f "n - 8"]
    by linarith+
  note less = this
  have parts: "(16 \<le> n \<and> n < 32 \<and> n - 16 < 32 \<and> bit b (n - 16)) = (16 \<le> n \<and> bit b (n - 16))"
    "(11 \<le> n \<and> n < 32 \<and> n - 11 < 32 \<and> bit s (n - 11)) = (11 \<le> n \<and> bit s (n - 11))"
    "(8 \<le> n \<and> n < 32 \<and> n - 8 < 32 \<and> bit f (n - 8)) = (8 \<le> n \<and> bit f (n - 8))"
    "(n < 32 \<and> bit off n \<and> 2 \<le> n \<and> n < 32 \<and> n - 2 < 32 \<and> n - 2 < 6) = (2 \<le> n \<and> bit off n)"
    "(n < 32 \<and> n = 31) = (n = 31)"
    using less by auto
  show ?thesis
    unfolding eq by (simp add: bit_simps bit_top) (simp only: parts)
qed

lemma config_address_fields:
  assumes "unat s < 32" and "unat f < 8"
  shows "byte_of (config_address b s f off) 2 = b"
    and "ucast (drop_bit 11 (config_address b s f off) AND 0x1F) = s"
    and "ucast (drop_bit 8 (config_address b s f off) AND 0x07) = f"
proof -
  have s: "bit s m \<Longrightarrow> m < 5" for m using small_bits [of s 5 m] assms by simp
  have f: "bit f m \<Longrightarrow> m < 3" for m using small_bits [of f 3 m] assms by simp
  show "byte_of (config_address b s f off) 2 = b"
    by (rule bit_word_eqI) (auto simp: byte_of_def bit_config_address bit_simps dest: s f bit_u8_less)
  show "ucast (drop_bit 11 (config_address b s f off) AND 0x1F) = s"
    unfolding byte_masks
    by (rule bit_word_eqI) (auto simp: bit_config_address bit_simps dest: s f bit_u8_less)
  show "ucast (drop_bit 8 (config_address b s f off) AND 0x07) = f"
    unfolding byte_masks
    by (rule bit_word_eqI) (auto simp: bit_config_address bit_simps dest: s f bit_u8_less)
qed

text \<open>
  The address of a configuration register determines the function: its
  fields read back the bus, the slot below 32 and the function below 8 that it was built from, with the
  enable bit set and the low two bits clear.
\<close>

theorem config_address_roundtrip:
  assumes "unat s < 32" and "unat f < 8"
  shows "byte_of (config_address b s f off) 2 = b \<and>
    ucast (drop_bit 11 (config_address b s f off) AND 0x1F) = s \<and>
    ucast (drop_bit 8 (config_address b s f off) AND 0x07) = f \<and>
    bit (config_address b s f off) 31 \<and>
    \<not> bit (config_address b s f off) 0 \<and> \<not> bit (config_address b s f off) 1"
  using config_address_fields [OF assms, of b off] by (simp add: bit_config_address)

theorem config_address_roundtrip_witness:
  "byte_of (config_address 3 31 7 0x3E) 2 = 3 \<and>
    ucast (drop_bit 11 (config_address 3 31 7 0x3E) AND 0x1F) = (31 :: u8) \<and>
    ucast (drop_bit 8 (config_address 3 31 7 0x3E) AND 0x07) = (7 :: u8) \<and>
    bit (config_address 3 31 7 0x3E) 31 \<and>
    \<not> bit (config_address 3 31 7 0x3E) 0 \<and> \<not> bit (config_address 3 31 7 0x3E) 1"
  using config_address_roundtrip [of 31 7 3 "0x3E"] by simp

lemma one_function_found:
  "length (found (\<lambda>a. if a = 0x80000000 then 0x12378086 else 0xFFFFFFFF) locations) \<le> 100"
proof -
  let ?cfg = "\<lambda>a :: u32. if a = 0x80000000 then 0x12378086 else 0xFFFFFFFF :: u32"
  have "l = (0, 0, 0)" if "l \<in> set locations" "cfg_present ?cfg (location l)" for l
  proof -
    obtain b s f where l: "l = (b, s, f)" by (cases l)
    with that have lim: "b < 256" "s < 32" "f < 8" by (auto simp: locations_def)
    have a: "config_address (of_nat b) (of_nat s) (of_nat f) 0 = 0x80000000"
      using that(2) by (auto simp: cfg_present_def cfg_header_def location_def l split: if_splits)
    have "(of_nat b :: u8) = 0 \<and> (of_nat s :: u8) = 0 \<and> (of_nat f :: u8) = 0"
      using config_address_fields [of "of_nat s" "of_nat f" "of_nat b" 0] lim
      unfolding a by (simp add: byte_of_def unat_of_nat)
    then show ?thesis using lim by (simp add: l word_unat_eq_iff unat_of_nat)
  qed
  then have "{l. cfg_present ?cfg (location l)} \<inter> set locations \<subseteq> {(0, 0, 0)}" by blast
  then have "card ({l. cfg_present ?cfg (location l)} \<inter> set locations) \<le> card {(0 :: nat, 0 :: nat, 0 :: nat)}"
    by (intro card_mono) simp
  moreover have "length (found ?cfg locations) = length (filter (\<lambda>l. cfg_present ?cfg (location l)) locations)"
    by (simp only: found_def length_map filter_map comp_def)
  moreover have "distinct locations" by (simp add: locations_def distinct_product)
  ultimately show ?thesis by (simp add: distinct_length_filter)
qed

theorem PCI_GetFromID_first_witness:
  "\<exists>p' h'. PCI_Initiate one_function (\<lparr>devices = replicate 100 zero_device, PCI_dev_count = 7\<rparr>, []) = Inr (p', h') \<and>
    PCI_GetFromID 0x8086 0x1237 p' =
      Inr (find (\<lambda>i. vendor_id (found (\<lambda>a. if a = 0x80000000 then 0x12378086 else 0xFFFFFFFF) locations ! i) = 0x8086 \<and>
                     device_id (found (\<lambda>a. if a = 0x80000000 then 0x12378086 else 0xFFFFFFFF) locations ! i) = 0x1237)
            [0..<length (found (\<lambda>a. if a = 0x80000000 then 0x12378086 else 0xFFFFFFFF) locations)])"
  by (rule PCI_GetFromID_first [OF one_function_space _ one_function_found]) simp

section \<open>Header fields and messages\<close>

lemma word16_halves: "COMBINE_WORD (ucast (drop_bit 16 v)) (ucast v) = v"
proof (rule bit_word_eqI)
  fix n
  show "bit (COMBINE_WORD (ucast (drop_bit 16 v)) (ucast v)) n = bit v n" if "n < LENGTH(32)"
    using that by (cases "n < 16") (auto simp: COMBINE_WORD_def bit_simps)
qed

lemma bar_header:
  assumes "config_space hw cfg" and "i < 6"
  shows "COMBINE_WORD (fst (PCI_ConfigReadWord hw b s f (of_nat (0x10 + 4 * i + 2)) h))
      (fst (PCI_ConfigReadWord hw b s f (of_nat (0x10 + 4 * i)) h')) =
    cfg_header cfg (b, s, f) (of_nat (0x10 + 4 * i))"
proof -
  have "i = 0 \<or> i = 1 \<or> i = 2 \<or> i = 3 \<or> i = 4 \<or> i = 5" using assms(2) by auto
  then have "cfg_header cfg (b, s, f) (of_nat (0x10 + 4 * i + 2)) = cfg_header cfg (b, s, f) (of_nat (0x10 + 4 * i)) \<and>
      unat ((of_nat (0x10 + 4 * i + 2) :: u8) AND 2) = 2 \<and> unat ((of_nat (0x10 + 4 * i) :: u8) AND 2) = 0"
    by (elim disjE) (auto simp: cfg_header_def intro!: arg_cong [where f = cfg] config_address_offset)
  then show ?thesis
    by (simp only: ConfigReadWord_value [OF assms(1)]) (simp add: word16_halves)
qed

lemma read_bars_values:
  assumes "config_space hw cfg" and "\<forall>i\<in>set is'. i < 6"
  shows "fst (read_bars (PCI_ConfigReadWord hw b s f) is' h) =
    map (\<lambda>i. cfg_header cfg (b, s, f) (of_nat (0x10 + 4 * i))) is'"
  using assms(2)
proof (induction is' arbitrary: h)
  case Nil
  then show ?case by simp
next
  case (Cons i is')
  then show ?case
    using bar_header [OF assms(1), of i b s f]
    by (simp add: split_beta Let_def del: of_nat_add of_nat_mult of_nat_numeral)
qed

definition device_location :: "PCI_device \<Rightarrow> u8 \<times> u8 \<times> u8" where
  "device_location d = (ucast (pci_bus d), ucast (pci_slot d), ucast (pci_function d))"

text \<open>
  The header of a device: the six base address registers are the double words from offset 16 on and
  the capability pointer, the interrupt line and the interrupt pin are the bytes at 0x34, 0x3C and 0x3D.
\<close>

theorem PCI_GetGeneralDevice_header:
  assumes "config_space hw cfg"
  shows "BAR (fst (PCI_GetGeneralDevice hw d h)) = map (\<lambda>i. cfg_header cfg (device_location d) (of_nat (0x10 + 4 * i))) [0..<6] \<and>
    capabilities_pointer (fst (PCI_GetGeneralDevice hw d h)) = byte_of (cfg_header cfg (device_location d) 0x34) 0 \<and>
    interrupt_line (fst (PCI_GetGeneralDevice hw d h)) = byte_of (cfg_header cfg (device_location d) 0x3C) 0 \<and>
    interript_pin (fst (PCI_GetGeneralDevice hw d h)) = byte_of (cfg_header cfg (device_location d) 0x3C) 1"
proof -
  have b: "EXPORT_BYTE (ucast v) True = byte_of v 0" "EXPORT_BYTE (ucast v) False = byte_of v 1" for v :: u32
  proof -
    show "EXPORT_BYTE (ucast v) False = byte_of v 1"
      using byte_of_word16(2) [of v] by (simp add: EXPORT_BYTE_def)
    show "EXPORT_BYTE (ucast v) True = byte_of v 0"
      using byte_of_word16(1) [of v] by (simp add: EXPORT_BYTE_def)
  qed
  have bars: "fst (read_bars (PCI_ConfigReadWord hw (ucast (pci_bus d)) (ucast (pci_slot d)) (ucast (pci_function d))) [0..<6] h) =
      map (\<lambda>i. cfg_header cfg (device_location d) (of_nat (0x10 + 4 * i))) [0..<6]"
    unfolding device_location_def by (rule read_bars_values [OF assms(1)]) simp
  note rd = ConfigReadWord_value [OF assms(1), of "ucast (pci_bus d)" "ucast (pci_slot d)" "ucast (pci_function d)", simplified]
  show ?thesis
    unfolding bars [symmetric]
    by (simp add: PCI_GetGeneralDevice_def split_beta Let_def rd b device_location_def)
qed

theorem PCI_GetGeneralDevice_header_witness:
  "BAR (fst (PCI_GetGeneralDevice one_function zero_device [])) =
     map (\<lambda>i. cfg_header (\<lambda>a. if a = 0x80000000 then 0x12378086 else 0xFFFFFFFF) (device_location zero_device)
       (of_nat (0x10 + 4 * i))) [0..<6] \<and>
   capabilities_pointer (fst (PCI_GetGeneralDevice one_function zero_device [])) =
     byte_of (cfg_header (\<lambda>a. if a = 0x80000000 then 0x12378086 else 0xFFFFFFFF) (device_location zero_device) 0x34) 0"
  using PCI_GetGeneralDevice_header [OF one_function_space, of zero_device "[]"] by blast

text \<open>
  The message a device is programmed with addresses local interrupt controller 0 and carries the vector, with
  level and polarity bits as asked; the two vectors the code asks for in the MSI case are 0x2A
  and, because the device may change the low bit of the data, 0x2B.
\<close>

theorem arch_msi_message:
  "fst (arch_msi_address v 0 e d) = 0xFEE00000 \<and>
   snd (arch_msi_address v 0 e d) AND 0xFF = ucast v AND 0xFF \<and>
   (bit (snd (arch_msi_address v 0 e d)) 15 \<longleftrightarrow> e \<noteq> 1) \<and>
   (bit (snd (arch_msi_address v 0 e d)) 14 \<longleftrightarrow> d \<noteq> 1)"
proof -
  have "take_bit 8 (ucast (v AND 0xFF) OR (if e = 1 then 0 else 0x8000) OR (if d = 1 then 0 else 0x4000) :: u32) =
      take_bit 8 (ucast v)"
    unfolding byte_masks by (simp add: take_bit_or) (rule bit_word_eqI, auto simp: bit_simps)
  then show ?thesis
    by (auto simp: arch_msi_address_def byte_masks simp flip: take_bit_eq_mask) (auto simp: bit_simps)
qed

end
