(* ===== verification/XhciRing.thy ===== *)
theory XhciRing
  imports Paging Pci
begin

text \<open>
  The rings of the USB 3 host controller driver \<open>src/src/drivers/xhci/xhci.c\<close>: transfer request
  blocks with their encodings (\<open>xhci.h\<close>), the command ring, the transfer ring of an endpoint and the
  control requests that are written to it.

  Rings, contexts and descriptors are heap memory shared with the controller and live in the flat
  memory. The slot table (\<open>XHCI_Endpoint\<close>) and the data of its endpoints are private to the driver and are lists
  of records; the descriptor \<open>desc\<close>, into which the controller writes, is at its address in memory.
  Registers and doorbells are accesses of theory \<open>Io\<close>.
\<close>

section \<open>Transfer request blocks\<close>

record XHCI_TRB =
  int1 :: u32
  int2 :: u32
  int3 :: u32
  trb_def :: u32

definition trb_at :: "mem \<Rightarrow> u64 \<Rightarrow> XHCI_TRB" where
  "trb_at m a = \<lparr>int1 = U32 m a, int2 = U32 m (a + 4), int3 = U32 m (a + 8), trb_def = U32 m (a + 12)\<rparr>"

definition put_trb :: "mem \<Rightarrow> u64 \<Rightarrow> XHCI_TRB \<Rightarrow> mem" where
  "put_trb m a t =
     set_U32 (set_U32 (set_U32 (set_U32 m a (int1 t)) (a + 4) (int2 t)) (a + 8) (int3 t)) (a + 12) (trb_def t)"

definition XHCI_TRB_TYPE :: "u32 \<Rightarrow> u32" where
  "XHCI_TRB_TYPE x = drop_bit 10 x AND 0x3F"

definition XHCI_TRB_SLOT :: "u32 \<Rightarrow> u32" where
  "XHCI_TRB_SLOT x = drop_bit 24 x AND 0xFF"

definition XHCI_TRB_CYCLE :: "u32 \<Rightarrow> u32" where
  "XHCI_TRB_CYCLE x = x AND 1"

definition XHCI_GET_TRB_PTR :: "XHCI_TRB \<Rightarrow> u64" where
  "XHCI_GET_TRB_PTR t = push_bit 32 (ucast (int2 t)) OR ucast (int1 t AND NOT 0xF)"

definition DWORD_lo :: "u64 \<Rightarrow> u32" where "DWORD_lo p = ucast p"
definition DWORD_hi :: "u64 \<Rightarrow> u32" where "DWORD_hi p = ucast (drop_bit 32 p)"

text \<open>The command blocks of \<open>xhci.h\<close>.\<close>

definition XHCI_CMD_NOOP :: "u32 \<Rightarrow> XHCI_TRB" where
  "XHCI_CMD_NOOP C = \<lparr>int1 = 0, int2 = 0, int3 = 0, trb_def = push_bit 10 23 OR (C AND 1)\<rparr>"

definition XHCI_CMD_ENABLE_SLOT :: "u32 \<Rightarrow> u32 \<Rightarrow> XHCI_TRB" where
  "XHCI_CMD_ENABLE_SLOT type C =
     \<lparr>int1 = 0, int2 = 0, int3 = 0, trb_def = push_bit 10 9 OR push_bit 16 type OR (C AND 1)\<rparr>"

definition context_command :: "u32 \<Rightarrow> u64 \<Rightarrow> u32 \<Rightarrow> u32 \<Rightarrow> u32 \<Rightarrow> XHCI_TRB" where
  "context_command code ptr slot bsr C =
     \<lparr>int1 = DWORD_lo ptr AND NOT 0xF, int2 = DWORD_hi ptr, int3 = 0,
      trb_def = push_bit 24 (slot AND 0xFF) OR push_bit 10 code OR push_bit 9 (bsr AND 1) OR (C AND 1)\<rparr>"

definition XHCI_CMD_ADDRESS_DEVICE :: "u64 \<Rightarrow> u32 \<Rightarrow> u32 \<Rightarrow> u32 \<Rightarrow> XHCI_TRB" where
  "XHCI_CMD_ADDRESS_DEVICE = context_command 11"

definition XHCI_CMD_EVALUATE_CONTEXT :: "u64 \<Rightarrow> u32 \<Rightarrow> u32 \<Rightarrow> u32 \<Rightarrow> XHCI_TRB" where
  "XHCI_CMD_EVALUATE_CONTEXT = context_command 13"

definition XHCI_CMD_CONFIGURE_CONTEXT :: "u64 \<Rightarrow> u32 \<Rightarrow> u32 \<Rightarrow> u32 \<Rightarrow> XHCI_TRB" where
  "XHCI_CMD_CONFIGURE_CONTEXT = context_command 12"

text \<open>
  The blocks of a transfer are bit field structures; a field of width \<open>w\<close> at bit \<open>off\<close> keeps the low
  \<open>w\<close> bits of what is assigned to it. Fields the initialisers leave out are zero.
\<close>

definition bf :: "nat \<Rightarrow> nat \<Rightarrow> u32 \<Rightarrow> u32" where
  "bf off w v = push_bit off (take_bit w v)"

record XHCI_TRB_SETUP =
  bmRequestType :: u8
  bRequest :: u8
  wValue :: u16
  wIndex :: u16
  wLength :: u16
  s_TRBTransferLength :: u32
  s_C :: u32
  s_IOC :: u32
  s_IDT :: u32
  s_TRBType :: u32
  TransferType :: u32

definition setup_trb :: "XHCI_TRB_SETUP \<Rightarrow> XHCI_TRB" where
  "setup_trb r =
     \<lparr>int1 = ucast (bmRequestType r) OR push_bit 8 (ucast (bRequest r)) OR push_bit 16 (ucast (wValue r)),
      int2 = ucast (wIndex r) OR push_bit 16 (ucast (wLength r)),
      int3 = bf 0 17 (s_TRBTransferLength r),
      trb_def = bf 0 1 (s_C r) OR bf 5 1 (s_IOC r) OR bf 6 1 (s_IDT r) OR bf 10 6 (s_TRBType r) OR
        bf 16 2 (TransferType r)\<rparr>"

record XHCI_TRB_DATA =
  d_data_low :: u32
  d_data_high :: u32
  d_transfer_len :: u16
  d_C :: u32
  d_CH :: u32
  d_IOC :: u32
  d_IDT :: u32
  d_TRBType :: u32
  d_D :: u32

definition data_trb :: "XHCI_TRB_DATA \<Rightarrow> XHCI_TRB" where
  "data_trb r =
     \<lparr>int1 = d_data_low r, int2 = d_data_high r, int3 = ucast (d_transfer_len r),
      trb_def = bf 0 1 (d_C r) OR bf 4 1 (d_CH r) OR bf 5 1 (d_IOC r) OR bf 6 1 (d_IDT r) OR
        bf 10 6 (d_TRBType r) OR bf 16 1 (d_D r)\<rparr>"

record XHCI_TRB_STATUS =
  int_target :: u32
  t_C :: u32
  t_CH :: u32
  t_IOC :: u32
  t_TRBType :: u32
  t_D :: u32

definition status_trb :: "XHCI_TRB_STATUS \<Rightarrow> XHCI_TRB" where
  "status_trb r =
     \<lparr>int1 = 0, int2 = 0, int3 = bf 21 11 (int_target r),
      trb_def = bf 0 1 (t_C r) OR bf 4 1 (t_CH r) OR bf 5 1 (t_IOC r) OR bf 10 6 (t_TRBType r) OR bf 16 1 (t_D r)\<rparr>"

record XHCI_TRB_NORMAL =
  n_data_low :: u32
  n_data_high :: u32
  n_TRBTransferLength :: u32
  TDSize :: u32
  InterrupterTarget :: u32
  n_C :: u32
  n_IOC :: u32
  n_TRBType :: u32

definition normal_trb :: "XHCI_TRB_NORMAL \<Rightarrow> XHCI_TRB" where
  "normal_trb r =
     \<lparr>int1 = n_data_low r, int2 = n_data_high r,
      int3 = bf 0 17 (n_TRBTransferLength r) OR bf 17 5 (TDSize r) OR bf 22 10 (InterrupterTarget r),
      trb_def = bf 0 1 (n_C r) OR bf 5 1 (n_IOC r) OR bf 10 6 (n_TRBType r)\<rparr>"

section \<open>Driver state\<close>

record XHCI_Endpoint_Data =
  trbs :: u64
  ep_c :: int
  ep_sz :: int
  CY :: u32

text \<open>The pointer \<open>endpoints\<close> of a slot is NULL, here the empty list, until the slot is enabled.\<close>

record XHCI_Endpoint =
  ep_port :: u32
  contexts :: u64
  desc_product :: u64
  ep_done :: int
  configs :: u64
  conf_device :: u64
  ep_endpoints :: "XHCI_Endpoint_Data list"

record XHCI_CAP_REG =
  CAPLENGTH :: u8
  HCIVersion :: u16
  HCSParams1 :: u32
  HCSParams2 :: u32
  HCSParams3 :: u32
  HCCParams1 :: u32
  DBOFF :: u32
  RTSOFF :: u32
  HCCParams2 :: u32

text \<open>
  The globals of \<open>xhci.c\<close>, with the fields of \<open>xhci_hub\<close> among them. \<open>endpoint_base\<close> is the address of the slot
  table, so the descriptor of slot \<open>i\<close> is at \<open>endpoint_base + 80 * i\<close>. \<open>keyboard_buf\<close> and
  \<open>report_buf\<close> are the addresses of \<open>keyboard\<close> and \<open>___buffer\<close>; \<open>portlist\<close> is the array \<open>ports\<close> and \<open>portptr\<close> the
  index its pointer stands at.
\<close>

record kxhci = kpaging +
  xio :: history
  config :: XHCI_CAP_REG
  ports :: u64
  ints :: u64
  dcbaa :: u64
  op_registers :: u64
  doorbell :: u64
  hub_flag :: u32
  command_ring :: u64
  hub_pagesize :: u64
  protocols :: "u64 list option"
  endpoint_base :: u64
  endpoints :: "XHCI_Endpoint list"
  command_off :: int
  portlist :: "u32 list"
  portptr :: int
  keyboard_buf :: u64
  report_buf :: u64
  keyboard_endpoint :: "nat option"
  keyboard_slot :: u32

definition reg_read :: "hardware \<Rightarrow> u64 \<Rightarrow> 'a kxhci_scheme \<Rightarrow> u32 \<times> 'a kxhci_scheme" where
  "reg_read hw a s = (let (v, h) = mmio_read hw a (xio s) in (v, s\<lparr>xio := h\<rparr>))"

definition reg_write :: "u64 \<Rightarrow> u32 \<Rightarrow> 'a kxhci_scheme \<Rightarrow> 'a kxhci_scheme" where
  "reg_write a v s = s\<lparr>xio := mmio_write a v (xio s)\<rparr>"

definition XHCI_DOORBELL :: "u32 \<Rightarrow> u32 \<Rightarrow> 'a kxhci_scheme \<Rightarrow> 'a kxhci_scheme" where
  "XHCI_DOORBELL slot val s = reg_write (doorbell s + 4 * scast slot) val s"

section \<open>Rings\<close>

definition XHCI_COMMAND :: "XHCI_TRB \<Rightarrow> 'a kxhci_scheme \<Rightarrow> 'a kxhci_scheme" where
  "XHCI_COMMAND t s =
     s\<lparr>kmem := put_trb (kmem s) (command_ring s + 16 * of_int (command_off s))
                (t\<lparr>trb_def := (trb_def t AND NOT 1) OR 1\<rparr>),
       command_off := int32 (command_off s + 1)\<rparr>"

definition XHCI_SLOT_ENABLE :: "u32 \<Rightarrow> u32 \<Rightarrow> 'a kxhci_scheme \<Rightarrow> int \<times> 'a kxhci_scheme" where
  "XHCI_SLOT_ENABLE type cycle s = (1, XHCI_COMMAND (XHCI_CMD_ENABLE_SLOT type cycle) s)"

text \<open>A new transfer ring: 256 cleared blocks and the link back to the start in block 127.\<close>

definition clear_trbs :: "u64 \<Rightarrow> nat \<Rightarrow> mem \<Rightarrow> mem" where
  "clear_trbs a n m =
     fold (\<lambda>i m. put_trb m (a + 16 * of_nat i) \<lparr>int1 = 0, int2 = 0, int3 = 0, trb_def = 0\<rparr>) [0..<n] m"

definition link_trb :: "u64 \<Rightarrow> XHCI_TRB" where
  "link_trb a = \<lparr>int1 = DWORD_lo a, int2 = DWORD_hi a, int3 = push_bit 22 2, trb_def = push_bit 10 6 OR 1\<rparr>"

definition XHCI_getTransferTRBs :: "'a kpaging_scheme \<Rightarrow> (u64 \<times> 'a kpaging_scheme) outcome" where
  "XHCI_getTransferTRBs s =
     andthen (mallocAB (64 * 1024) (64 * 1024) (64 * 1024) s) (\<lambda>(p, s).
       let trb = MemoryPhysical p s;
           m = clear_trbs trb 256 (kmem s)
       in Inr (trb, s\<lparr>kmem := put_trb m (trb + 16 * 127) (link_trb trb)\<rparr>))"

text \<open>\<open>&endp->endpoints[num]\<close>; the accesses through it are checked.\<close>

definition get_slot :: "nat \<Rightarrow> 'a kxhci_scheme \<Rightarrow> XHCI_Endpoint outcome" where
  "get_slot slot s = array_get (endpoints s) slot"

definition set_slot :: "nat \<Rightarrow> XHCI_Endpoint \<Rightarrow> 'a kxhci_scheme \<Rightarrow> 'a kxhci_scheme" where
  "set_slot slot e s = s\<lparr>endpoints := (endpoints s)[slot := e]\<rparr>"

definition get_data :: "XHCI_Endpoint \<Rightarrow> nat \<Rightarrow> XHCI_Endpoint_Data outcome" where
  "get_data e num = (if ep_endpoints e = [] then Inl NullDeref else array_get (ep_endpoints e) num)"

definition ring_next :: "int \<Rightarrow> int" where
  "ring_next c = (if c = 127 then 0 else c)"

definition XHCI_TRANSFER :: "nat \<Rightarrow> nat \<Rightarrow> XHCI_TRB \<Rightarrow> 'a kxhci_scheme \<Rightarrow> 'a kxhci_scheme outcome" where
  "XHCI_TRANSFER slot num t s =
     andthen (get_slot slot s) (\<lambda>e. andthen (get_data e num) (\<lambda>d.
       let c = ring_next (ep_c d);
           m = put_trb (kmem s) (trbs d + 16 * of_int c) (t\<lparr>trb_def := (trb_def t AND NOT 1) OR CY d\<rparr>)
       in Inr (set_slot slot (e\<lparr>ep_endpoints := (ep_endpoints e)[num := d\<lparr>ep_c := int32 (c + 1)\<rparr>]\<rparr>)
                (s\<lparr>kmem := m\<rparr>))))"

fun XHCI_TRANSFERS :: "nat \<Rightarrow> nat \<Rightarrow> XHCI_TRB list \<Rightarrow> 'a kxhci_scheme \<Rightarrow> 'a kxhci_scheme outcome" where
  "XHCI_TRANSFERS slot num [] s = Inr s"
| "XHCI_TRANSFERS slot num (t # ts) s = andthen (XHCI_TRANSFER slot num t s) (XHCI_TRANSFERS slot num ts)"

section \<open>Control requests\<close>

definition XHCI_TRB_CLEAR :: "u64 \<Rightarrow> mem \<Rightarrow> mem" where
  "XHCI_TRB_CLEAR a m = put_trb m a \<lparr>int1 = 0, int2 = 0, int3 = 0, trb_def = 0\<rparr>"

definition zero_setup :: XHCI_TRB_SETUP where
  "zero_setup = \<lparr>bmRequestType = 0, bRequest = 0, wValue = 0, wIndex = 0, wLength = 0,
     s_TRBTransferLength = 0, s_C = 0, s_IOC = 0, s_IDT = 0, s_TRBType = 0, TransferType = 0\<rparr>"

definition zero_data :: XHCI_TRB_DATA where
  "zero_data = \<lparr>d_data_low = 0, d_data_high = 0, d_transfer_len = 0, d_C = 0, d_CH = 0, d_IOC = 0, d_IDT = 0,
     d_TRBType = 0, d_D = 0\<rparr>"

definition zero_status :: XHCI_TRB_STATUS where
  "zero_status = \<lparr>int_target = 0, t_C = 0, t_CH = 0, t_IOC = 0, t_TRBType = 0, t_D = 0\<rparr>"

definition zero_normal :: XHCI_TRB_NORMAL where
  "zero_normal = \<lparr>n_data_low = 0, n_data_high = 0, n_TRBTransferLength = 0, TDSize = 0, InterrupterTarget = 0,
     n_C = 0, n_IOC = 0, n_TRBType = 0\<rparr>"

definition USB_GET_DESC_VAL :: "u32 \<Rightarrow> u32 \<Rightarrow> u16" where
  "USB_GET_DESC_VAL index type = ucast (index OR push_bit 8 type)"

definition XHCI_SETIDLE :: "nat \<Rightarrow> nat \<Rightarrow> u32 \<Rightarrow> 'a kxhci_scheme \<Rightarrow> 'a kxhci_scheme outcome" where
  "XHCI_SETIDLE slot num target s = XHCI_TRANSFERS slot num
     [setup_trb (zero_setup\<lparr>s_TRBType := 2, TransferType := 0, s_TRBTransferLength := 8, s_IOC := 0, s_IDT := 0,
        bmRequestType := 0x21, bRequest := 0xA, wValue := 0, wIndex := 0, wLength := 0, s_C := 1\<rparr>),
      status_trb (zero_status\<lparr>t_TRBType := 4, t_D := 1, t_CH := 0, t_IOC := 1, t_C := 1, int_target := target\<rparr>)] s"

definition XHCI_NORMAL :: "nat \<Rightarrow> u64 \<Rightarrow> u32 \<Rightarrow> nat \<Rightarrow> u32 \<Rightarrow> 'a kxhci_scheme \<Rightarrow> 'a kxhci_scheme outcome" where
  "XHCI_NORMAL slot buffer len target intp s = XHCI_TRANSFERS slot target
     [normal_trb (zero_normal\<lparr>n_data_low := DWORD_lo buffer, n_data_high := DWORD_hi buffer,
        n_TRBTransferLength := len, TDSize := 0, InterrupterTarget := 2, n_TRBType := 1, n_IOC := 0, n_C := 1\<rparr>),
      status_trb (zero_status\<lparr>t_TRBType := 4, t_D := 0, t_CH := 0, t_IOC := 1, t_C := 1, int_target := intp\<rparr>)] s"

text \<open>A control read: setup, data and status stage on endpoint 0.\<close>

definition control_read :: "u8 \<Rightarrow> u8 \<Rightarrow> u16 \<Rightarrow> u32 \<Rightarrow> u64 \<Rightarrow> XHCI_TRB list" where
  "control_read reqtype req val len buff =
     [setup_trb (zero_setup\<lparr>s_TRBType := 2, TransferType := 3, s_TRBTransferLength := 8, s_IOC := 0, s_IDT := 1,
        bmRequestType := reqtype, bRequest := req, wValue := val, wIndex := 0, wLength := ucast len, s_C := 1\<rparr>),
      data_trb (zero_data\<lparr>d_TRBType := 3, d_D := 1, d_transfer_len := ucast len, d_CH := 0, d_IOC := 0, d_IDT := 0,
        d_data_low := DWORD_lo buff, d_data_high := DWORD_hi buff, d_C := 1\<rparr>),
      status_trb (zero_status\<lparr>t_TRBType := 4, t_D := 0, t_CH := 0, t_IOC := 1, t_C := 1\<rparr>)]"

definition XHCI_GetDescriptor ::
    "nat \<Rightarrow> u64 \<Rightarrow> u32 \<Rightarrow> u32 \<Rightarrow> u32 \<Rightarrow> 'a kxhci_scheme \<Rightarrow> 'a kxhci_scheme outcome" where
  "XHCI_GetDescriptor slot buff type index len s =
     XHCI_TRANSFERS slot 0 (control_read 0x80 6 (USB_GET_DESC_VAL index type) len buff) s"

definition XHCI_GetReport :: "nat \<Rightarrow> u64 \<Rightarrow> 'a kxhci_scheme \<Rightarrow> 'a kxhci_scheme outcome" where
  "XHCI_GetReport slot buff s = XHCI_TRANSFERS slot 0 (control_read 0xA1 1 0x100 8 buff) s"

section \<open>Blocks in memory\<close>

definition trb_bytes :: "XHCI_TRB \<Rightarrow> u8 list" where
  "trb_bytes t = le_bytes 4 (unat (int1 t)) @ le_bytes 4 (unat (int2 t)) @ le_bytes 4 (unat (int3 t)) @
     le_bytes 4 (unat (trb_def t))"

lemma length_trb_bytes [simp]: "length (trb_bytes t) = 16"
  by (simp add: trb_bytes_def)

lemma put_trb_store: "put_trb m a t = store_bytes m a (trb_bytes t)"
  by (simp add: put_trb_def trb_bytes_def set_U32_def store_bytes_append add.assoc)

lemma load_trb_split:
  "load_bytes m a 16 = load_bytes m a 4 @ load_bytes m (a + 4) 4 @ load_bytes m (a + 8) 4 @ load_bytes m (a + 12) 4"
  using load_bytes_append [of m a 4 12] load_bytes_append [of m "a + 4" 4 8] load_bytes_append [of m "a + 8" 4 4]
  by (simp add: add.assoc)

lemma trb_at_load:
  "load_bytes m a 16 = trb_bytes t \<Longrightarrow> trb_at m a = t"
  "load_bytes m a 16 = load_bytes m' b 16 \<Longrightarrow> trb_at m a = trb_at m' b"
proof -
  have four: "of_nat (le_nat (le_bytes 4 (unat v))) = v" for v :: u32
    using unat_u32_less [of v] by (simp add: le_nat_le_bytes)
  show "load_bytes m a 16 = trb_bytes t \<Longrightarrow> trb_at m a = t"
    by (simp add: load_trb_split trb_bytes_def append_eq_append_conv) (simp add: trb_at_def U32_def four)
  show "load_bytes m a 16 = load_bytes m' b 16 \<Longrightarrow> trb_at m a = trb_at m' b"
    by (simp add: load_trb_split append_eq_append_conv) (simp add: trb_at_def U32_def)
qed

lemma trb_at_put_same [simp]: "trb_at (put_trb m a t) a = t"
  using load_store_bytes [of "trb_bytes t" m a] by (intro trb_at_load) (simp add: put_trb_store)

lemma trb_at_put_other: "disjoint_blocks a 16 b 16 \<Longrightarrow> trb_at (put_trb m a t) b = trb_at m b"
  by (intro trb_at_load(2)) (simp add: put_trb_store load_store_disjoint)

lemma load_put_trb_other: "disjoint_blocks a 16 b n \<Longrightarrow> load_bytes (put_trb m a t) b n = load_bytes m b n"
  by (simp add: put_trb_store load_store_disjoint)

text \<open>Block \<open>i\<close> of a ring that does not wrap around the address space.\<close>

lemma ring_blocks_disjoint:
  assumes "unat a + 16 * n \<le> 2 ^ 64" and "i < n" and "j < n" and "i \<noteq> j"
  shows "disjoint_blocks (a + 16 * of_nat i) 16 (a + 16 * of_nat j) 16"
proof -
  have "unat (a + 16 * of_nat k :: u64) = unat a + 16 * k" if "k < n" for k
    using unat_add_of_nat [of a "16 * k"] assms(1) that by simp
  with assms show ?thesis by (auto simp: disjoint_blocks_def)
qed

section \<open>The transfer ring\<close>

text \<open>
  The blocks of the ring of an endpoint, and the abstract ring: the position of the producer and a
  table of blocks. Pushing writes at the position, which goes round after 127 blocks.
\<close>

definition ring_block :: "nat \<Rightarrow> nat \<Rightarrow> 'a kxhci_scheme \<Rightarrow> nat \<Rightarrow> XHCI_TRB" where
  "ring_block slot num s i = trb_at (kmem s) (trbs (ep_endpoints (endpoints s ! slot) ! num) + 16 * of_nat i)"

definition mark :: "u32 \<Rightarrow> XHCI_TRB \<Rightarrow> XHCI_TRB" where
  "mark cy t = t\<lparr>trb_def := (trb_def t AND NOT 1) OR cy\<rparr>"

definition ring_push :: "u32 \<Rightarrow> XHCI_TRB \<Rightarrow> nat \<times> (nat \<Rightarrow> XHCI_TRB) \<Rightarrow> nat \<times> (nat \<Rightarrow> XHCI_TRB)" where
  "ring_push cy t = (\<lambda>(c, f). let c = (if c = 127 then 0 else c) in (Suc c, f(c := mark cy t)))"

text \<open>A slot whose endpoint \<open>num\<close> has a ring of 128 blocks and a producer position within it.\<close>

definition ring_ok :: "nat \<Rightarrow> nat \<Rightarrow> 'a kxhci_scheme \<Rightarrow> bool" where
  "ring_ok slot num s \<longleftrightarrow>
     slot < length (endpoints s) \<and> num < length (ep_endpoints (endpoints s ! slot)) \<and>
     0 \<le> ep_c (ep_endpoints (endpoints s ! slot) ! num) \<and> ep_c (ep_endpoints (endpoints s ! slot) ! num) \<le> 127 \<and>
     unat (trbs (ep_endpoints (endpoints s ! slot) ! num)) + 16 * 128 \<le> 2 ^ 64"

definition ring_abs :: "nat \<Rightarrow> nat \<Rightarrow> 'a kxhci_scheme \<Rightarrow> nat \<times> (nat \<Rightarrow> XHCI_TRB)" where
  "ring_abs slot num s =
     (nat (ep_c (ep_endpoints (endpoints s ! slot) ! num)),
      \<lambda>i. if i < 128 then ring_block slot num s i else \<lparr>int1 = 0, int2 = 0, int3 = 0, trb_def = 0\<rparr>)"

lemma XHCI_TRANSFER_step:
  assumes "ring_ok slot num s"
  defines "d \<equiv> ep_endpoints (endpoints s ! slot) ! num"
  shows "\<exists>s'. XHCI_TRANSFER slot num t s = Inr s' \<and> ring_ok slot num s' \<and>
    ring_abs slot num s' = ring_push (CY d) t (ring_abs slot num s) \<and>
    trbs (ep_endpoints (endpoints s' ! slot) ! num) = trbs d \<and>
    CY (ep_endpoints (endpoints s' ! slot) ! num) = CY d"
proof -
  have ok: "slot < length (endpoints s)" "num < length (ep_endpoints (endpoints s ! slot))"
    "0 \<le> ep_c d" "ep_c d \<le> 127" "unat (trbs d) + 16 * 128 \<le> 2 ^ 64"
    using assms by (auto simp: ring_ok_def)
  then obtain c where c: "ring_next (ep_c d) = int c" "c < 127"
    by (cases "ep_c d = 127") (auto simp: ring_next_def intro: that [of "nat (ep_c d)"])
  let ?m = "put_trb (kmem s) (trbs d + 16 * of_nat c) (mark (CY d) t)"
  let ?e = "(endpoints s ! slot)\<lparr>ep_endpoints := (ep_endpoints (endpoints s ! slot))[num := d\<lparr>ep_c := int c + 1\<rparr>]\<rparr>"
  let ?s = "s\<lparr>kmem := ?m, endpoints := (endpoints s)[slot := ?e]\<rparr>"
  have g: "get_slot slot s = Inr (endpoints s ! slot)" "get_data (endpoints s ! slot) num = Inr d"
    using ok(1,2) by (auto simp: get_slot_def get_data_def array_get_def d_def)
  have "XHCI_TRANSFER slot num t s = Inr ?s"
    using c by (simp add: XHCI_TRANSFER_def g Let_def set_slot_def mark_def)
  moreover have blk: "ring_block slot num ?s i = (if i = c then mark (CY d) t else ring_block slot num s i)" if "i < 128" for i
    using ok c ring_blocks_disjoint [OF ok(5), of c i] that
    by (auto simp: ring_block_def d_def trb_at_put_other)
  moreover have "ring_ok slot num ?s" using ok c(2) by (simp add: ring_ok_def)
  moreover have "ring_abs slot num ?s = ring_push (CY d) t (ring_abs slot num s)"
  proof -
    have "(if nat (ep_c d) = 127 then 0 else nat (ep_c d)) = c"
      using c ok(3) by (auto simp: ring_next_def split: if_splits)
    then show ?thesis
      using ok(1,2) c blk by (auto simp: ring_abs_def ring_push_def Let_def nat_add_distrib fun_eq_iff simp flip: d_def)
  qed
  ultimately show ?thesis using ok(1,2) by (intro exI [of _ ?s]) simp
qed

lemma XHCI_TRANSFERS_ring:
  assumes "ring_ok slot num s"
  shows "\<exists>s'. XHCI_TRANSFERS slot num ts s = Inr s' \<and> ring_ok slot num s' \<and>
    ring_abs slot num s' = fold (ring_push (CY (ep_endpoints (endpoints s ! slot) ! num))) ts (ring_abs slot num s)"
  using assms
proof (induction ts arbitrary: s)
  case Nil
  then show ?case by simp
next
  case (Cons t ts)
  from XHCI_TRANSFER_step [OF Cons.prems, of t] obtain s1 where s1:
    "XHCI_TRANSFER slot num t s = Inr s1" "ring_ok slot num s1"
    "ring_abs slot num s1 = ring_push (CY (ep_endpoints (endpoints s ! slot) ! num)) t (ring_abs slot num s)"
    "CY (ep_endpoints (endpoints s1 ! slot) ! num) = CY (ep_endpoints (endpoints s ! slot) ! num)" by blast
  with Cons.IH [OF s1(2)] show ?case by simp
qed

text \<open>What the calls leave alone: everything but the position and the ring's first 127 blocks.\<close>

definition ring_moved :: "nat \<Rightarrow> nat \<Rightarrow> int \<Rightarrow> mem \<Rightarrow> 'a kxhci_scheme \<Rightarrow> 'a kxhci_scheme" where
  "ring_moved slot num c m s = s\<lparr>kmem := m, endpoints := (endpoints s)[slot := (endpoints s ! slot)\<lparr>ep_endpoints :=
     (ep_endpoints (endpoints s ! slot))[num := (ep_endpoints (endpoints s ! slot) ! num)\<lparr>ep_c := c\<rparr>]\<rparr>]\<rparr>"

lemma ring_moved_id: "ring_moved slot num (ep_c (ep_endpoints (endpoints s ! slot) ! num)) (kmem s) s = s"
  by (simp add: ring_moved_def)

lemma ring_moved_twice:
  "slot < length (endpoints s) \<Longrightarrow> num < length (ep_endpoints (endpoints s ! slot)) \<Longrightarrow>
   ring_moved slot num c' m' (ring_moved slot num c m s) = ring_moved slot num c' m' s"
  by (simp add: ring_moved_def)

lemma ring_moved_select [simp]:
  assumes "slot < length (endpoints s)" "num < length (ep_endpoints (endpoints s ! slot))"
  shows "ep_c (ep_endpoints (endpoints (ring_moved slot num c m s) ! slot) ! num) = c"
    "trbs (ep_endpoints (endpoints (ring_moved slot num c m s) ! slot) ! num) = trbs (ep_endpoints (endpoints s ! slot) ! num)"
    "kmem (ring_moved slot num c m s) = m"
  using assms by (simp_all add: ring_moved_def)

lemma put_trb_outside:
  assumes "unat a + 16 * n \<le> 2 ^ 64" "c < n" "\<not> in_block a (16 * n) x"
  shows "put_trb m (a + 16 * of_nat c) t x = m x"
proof -
  have "\<not> in_block (a + 16 * of_nat c) 16 x"
  proof
    assume "in_block (a + 16 * of_nat c) 16 x"
    then have k: "unat (x - (a + 16 * of_nat c)) < 16" by (simp add: in_block_def)
    then have "unat (x - (a + 16 * of_nat c)) + 16 * c < 16 * n" using assms(2) by linarith
    then have "unat (x - (a + 16 * of_nat c) + of_nat (16 * c)) < 16 * n"
      using assms(1) by (subst unat_add_of_nat) simp_all
    then show False using assms(3) by (simp add: in_block_def)
  qed
  then show ?thesis by (simp add: put_trb_store store_bytes_apply)
qed

lemma XHCI_TRANSFERS_frame:
  assumes "ring_ok slot num s" "XHCI_TRANSFERS slot num ts s = Inr s'"
  shows "\<exists>c. s' = ring_moved slot num c (kmem s') s \<and>
    (\<forall>x. \<not> in_block (trbs (ep_endpoints (endpoints s ! slot) ! num)) (16 * 127) x \<longrightarrow> kmem s' x = kmem s x)"
  using assms
proof (induction ts arbitrary: s)
  case Nil
  then show ?case using ring_moved_id [of slot num s]
    by (intro exI [of _ "ep_c (ep_endpoints (endpoints s ! slot) ! num)"]) simp
next
  case (Cons t ts)
  let ?d = "ep_endpoints (endpoints s ! slot) ! num"
  have ok: "slot < length (endpoints s)" "num < length (ep_endpoints (endpoints s ! slot))"
    "0 \<le> ep_c ?d" "ep_c ?d \<le> 127" "unat (trbs ?d) + 16 * 128 \<le> 2 ^ 64"
    using Cons.prems(1) by (auto simp: ring_ok_def)
  then obtain c where c: "ring_next (ep_c ?d) = int c" "c < 127"
    by (cases "ep_c ?d = 127") (auto simp: ring_next_def intro: that [of "nat (ep_c ?d)"])
  let ?m = "put_trb (kmem s) (trbs ?d + 16 * of_nat c) (mark (CY ?d) t)"
  have g: "get_slot slot s = Inr (endpoints s ! slot)" "get_data (endpoints s ! slot) num = Inr ?d"
    using ok(1,2) by (auto simp: get_slot_def get_data_def array_get_def)
  have tr: "XHCI_TRANSFER slot num t s = Inr (ring_moved slot num (int c + 1) ?m s)"
    using c by (simp add: XHCI_TRANSFER_def g Let_def set_slot_def mark_def ring_moved_def)
  let ?s1 = "ring_moved slot num (int c + 1) ?m s"
  have "ring_ok slot num ?s1" using XHCI_TRANSFER_step [OF Cons.prems(1), of t] tr by auto
  then obtain c' where c': "s' = ring_moved slot num c' (kmem s') ?s1"
    "\<forall>x. \<not> in_block (trbs ?d) (16 * 127) x \<longrightarrow> kmem s' x = ?m x"
    using Cons.IH [of ?s1] Cons.prems(2) tr ok(1,2) by auto
  moreover have "?m x = kmem s x" if "\<not> in_block (trbs ?d) (16 * 127) x" for x
    using ok(5) c(2) that by (intro put_trb_outside [of _ 127]) simp_all
  ultimately show ?case using ring_moved_twice [OF ok(1,2)] by (intro exI [of _ c']) simp
qed

text \<open>The content of the abstract ring after a list of pushes from the start.\<close>

definition ring_after :: "u32 \<Rightarrow> XHCI_TRB list \<Rightarrow> (nat \<Rightarrow> XHCI_TRB) \<Rightarrow> nat \<Rightarrow> XHCI_TRB" where
  "ring_after cy ts f j =
     (if j < 127 \<and> j < length ts then mark cy (ts ! (j + 127 * ((length ts - 1 - j) div 127))) else f j)"

lemma ring_position: "0 < n \<Longrightarrow> (n - 1) mod 127 + 1 = (if n mod 127 = 0 then 127 else n mod (127 :: nat))"
  by (cases n) (auto simp: mod_Suc)

lemma ring_index_last: "n mod 127 + 127 * ((n - n mod 127) div 127) = (n :: nat)"
  by (simp add: minus_mod_eq_div_mult)

lemma ring_index_old:
  assumes "j < 127" and "j < n" and "j \<noteq> n mod (127 :: nat)"
  shows "(n - j) div 127 = (n - 1 - j) div 127" and "j + 127 * ((n - 1 - j) div 127) < n"
proof -
  obtain k where k: "n = j + Suc k" using assms(2) less_iff_Suc_add by auto
  have "Suc k mod 127 \<noteq> 0"
  proof
    assume "Suc k mod 127 = 0"
    then have "n mod 127 = j" using k assms(1) mod_add_right_eq [of j "Suc k" 127] by simp
    with assms(3) show False by simp
  qed
  then show "(n - j) div 127 = (n - 1 - j) div 127" using k by (simp add: div_Suc)
  have "127 * (k div 127) \<le> k" by simp
  then show "j + 127 * ((n - 1 - j) div 127) < n" using k by simp
qed

lemma ring_index_recent:
  assumes "i < n" and "n \<le> i + 127"
  shows "i mod 127 + 127 * ((n - 1 - i mod 127) div 127) = (i :: nat)"
proof -
  have "n - 1 - i mod 127 = 127 * (i div 127) + (n - 1 - i)"
    using assms(1) mult_div_mod_eq [of 127 i] by linarith
  moreover have "n - 1 - i < 127" using assms by linarith
  ultimately have "(n - 1 - i mod 127) div 127 = i div 127" by (simp only: div_mult_self4) simp
  then show ?thesis by simp
qed

lemma fold_ring_push:
  "fold (ring_push cy) ts (0, f) =
     (if ts = [] then 0 else (length ts - 1) mod 127 + 1, ring_after cy ts f)"
proof (induction ts rule: rev_induct)
  case Nil
  then show ?case by (simp add: ring_after_def fun_eq_iff)
next
  case (snoc t ts)
  let ?n = "length ts"
  have "(if (if ts = [] then 0 else (?n - 1) mod 127 + 1) = 127 then 0
      else (if ts = [] then 0 else (?n - 1) mod 127 + 1)) = ?n mod 127"
    using ring_position [of ?n] by (cases "ts = []") auto
  moreover have "(ring_after cy ts f)(?n mod 127 := mark cy t) = ring_after cy (ts @ [t]) f"
  proof
    fix j
    consider (new) "j = ?n mod 127" | (old) "j \<noteq> ?n mod 127" "j < 127" "j < ?n" | (out) "127 \<le> j \<or> ?n < j"
    proof (cases "127 \<le> j \<or> ?n < j \<or> j = ?n mod 127")
      case False
      moreover have "j \<noteq> ?n" using False by auto
      ultimately show ?thesis using old by linarith
    qed (use new out in blast)
    then show "((ring_after cy ts f)(?n mod 127 := mark cy t)) j = ring_after cy (ts @ [t]) f j"
    proof cases
      case new
      moreover have "j \<le> ?n" using new by simp
      ultimately show ?thesis using ring_index_last [of ?n] by (simp add: ring_after_def nth_append less_Suc_eq_le)
    next
      case old
      then show ?thesis using ring_index_old [of j ?n] by (simp add: ring_after_def nth_append)
    next
      case out
      then have "j \<noteq> ?n mod 127"
        using mod_less_divisor [of 127 ?n] mod_less_eq_dividend [of ?n 127] by linarith
      then show ?thesis using out by (auto simp: ring_after_def)
    qed
  qed
  ultimately show ?case using snoc by (simp add: ring_push_def Let_def)
qed

text \<open>
  C18: A fresh endpoint ring under any list of transfers: each call succeeds, the last 127 blocks written are in the
  ring at their position modulo 127, and every block written carries the same cycle bit. Blocks that were never
  reached, the link in block 127 and every byte outside the ring are as before; of the rest of the state only the
  producer position of this ring changes, to the place behind the last block written (1 to 127). The driver never
  changes the cycle bit, so once 127 blocks have been written the controller cannot tell a new block from an old one.
\<close>

theorem XHCI_TRANSFERS_wrap:
  assumes "ring_ok slot num s" and "ep_c (ep_endpoints (endpoints s ! slot) ! num) = 0"
    and "CY (ep_endpoints (endpoints s ! slot) ! num) = 1"
  shows "\<exists>s'. XHCI_TRANSFERS slot num ts s = Inr s' \<and>
    s' = ring_moved slot num (if ts = [] then 0 else int ((length ts - 1) mod 127 + 1)) (kmem s') s \<and>
    (\<forall>i < length ts. length ts \<le> i + 127 \<longrightarrow> ring_block slot num s' (i mod 127) = mark 1 (ts ! i)) \<and>
    (\<forall>j < 127. length ts \<le> j \<longrightarrow> ring_block slot num s' j = ring_block slot num s j) \<and>
    ring_block slot num s' 127 = ring_block slot num s 127 \<and>
    (\<forall>j < 127. j < length ts \<longrightarrow> XHCI_TRB_CYCLE (trb_def (ring_block slot num s' j)) = 1) \<and>
    (\<forall>x. \<not> in_block (trbs (ep_endpoints (endpoints s ! slot) ! num)) (16 * 127) x \<longrightarrow> kmem s' x = kmem s x)"
proof -
  have ok: "slot < length (endpoints s)" "num < length (ep_endpoints (endpoints s ! slot))"
    using assms(1) by (simp_all add: ring_ok_def)
  from XHCI_TRANSFERS_ring [OF assms(1), of ts] obtain s' where s':
    "XHCI_TRANSFERS slot num ts s = Inr s'" "ring_ok slot num s'"
    "ring_abs slot num s' = fold (ring_push 1) ts (ring_abs slot num s)" using assms(3) by auto
  from XHCI_TRANSFERS_frame [OF assms(1) s'(1)] obtain c where c: "s' = ring_moved slot num c (kmem s') s"
    "\<forall>x. \<not> in_block (trbs (ep_endpoints (endpoints s ! slot) ! num)) (16 * 127) x \<longrightarrow> kmem s' x = kmem s x" by blast
  obtain f where f: "ring_abs slot num s = (0, f)" "\<And>j. j < 128 \<Longrightarrow> f j = ring_block slot num s j"
    using assms(2) by (simp add: ring_abs_def)
  have pos: "ep_c (ep_endpoints (endpoints s' ! slot) ! num) = c"
    using ring_moved_select(1) [OF ok, of c "kmem s'"] c(1) by metis
  have "nat c = fst (ring_abs slot num s')" by (simp add: ring_abs_def pos)
  moreover have "0 \<le> c" using s'(2) pos by (simp add: ring_ok_def)
  ultimately have c': "c = (if ts = [] then 0 else int ((length ts - 1) mod 127 + 1))"
    using s'(3) f(1) fold_ring_push [of 1 ts f] by (simp add: nat_eq_iff split: if_splits)
  have "ring_block slot num s' j = snd (ring_abs slot num s') j" if "j < 128" for j
    using that by (simp add: ring_abs_def)
  then have blk: "ring_block slot num s' j = ring_after 1 ts f j" if "j < 128" for j
    using that s'(3) f(1) fold_ring_push [of 1 ts f] by simp
  have cyc: "XHCI_TRB_CYCLE (trb_def (mark 1 t)) = 1" for t
    by (rule bit_word_eqI) (auto simp: XHCI_TRB_CYCLE_def mark_def bit_simps)
  have idx: "i mod 127 + 127 * ((length ts - 1 - i mod 127) div 127) = i" if "i < length ts" "length ts \<le> i + 127" for i
    by (rule ring_index_recent [OF that])
  have lt: "i mod 127 < length ts" if "i < length ts" for i
    using that mod_less_eq_dividend [of i 127] by linarith
  have "s' = ring_moved slot num (if ts = [] then 0 else int ((length ts - 1) mod 127 + 1)) (kmem s') s"
    using c(1) unfolding c' .
  then show ?thesis
    using blk f(2) cyc idx lt s'(1) c(2) by (intro exI [of _ s']) (simp only: ring_after_def, simp)
qed

text \<open>A hub with one enabled slot whose endpoints have fresh rings from 0x10000 on.\<close>

definition demo_endpoint :: XHCI_Endpoint where
  "demo_endpoint = \<lparr>ep_port = 1, contexts = 0, desc_product = 0, ep_done = 0, configs = 0, conf_device = 0,
     ep_endpoints = map (\<lambda>i. \<lparr>trbs = 0x10000 + 0x1000 * of_nat i, ep_c = 0, ep_sz = 128, CY = 1\<rparr>) [0..<32]\<rparr>"

definition demo_config :: XHCI_CAP_REG where
  "demo_config = \<lparr>CAPLENGTH = 0x40, HCIVersion = 0x100, HCSParams1 = 0x08001040, HCSParams2 = 0, HCSParams3 = 0,
     HCCParams1 = 0, DBOFF = 0x2000, RTSOFF = 0x1000, HCCParams2 = 0\<rparr>"

definition demo_hub :: kxhci where
  "demo_hub = \<lparr>kmem = (\<lambda>_. 0), malloc_start = 0x100000, malloc_end = 0x1000000, ms = 0, me = 0,
     p3_table = 0x4000, p2_table = 0x5000, page_allocator = replicate 512 0,
     xio = [], config = demo_config, ports = 0xFEB00440, ints = 0xFEB01020, dcbaa = 0x6000,
     op_registers = 0xFEB00040, doorbell = 0xFEB02000, hub_flag = 0, command_ring = 0x40000,
     hub_pagesize = 4096, protocols = Some [], endpoint_base = 0x7000, endpoints = [demo_endpoint],
     command_off = 0, portlist = replicate 32 0, portptr = 0, keyboard_buf = 0x8000, report_buf = 0x8010,
     keyboard_endpoint = None, keyboard_slot = 0\<rparr>"

theorem XHCI_TRANSFERS_wrap_witness:
  "\<exists>s'. XHCI_TRANSFERS 0 0 (replicate 130 (XHCI_CMD_NOOP 0)) demo_hub = Inr s' \<and>
    ring_block 0 0 s' 2 = mark 1 (XHCI_CMD_NOOP 0) \<and> ring_block 0 0 s' 126 = mark 1 (XHCI_CMD_NOOP 0) \<and>
    ring_block 0 0 s' 127 = ring_block 0 0 demo_hub 127 \<and> XHCI_TRB_CYCLE (trb_def (ring_block 0 0 s' 5)) = 1"
proof -
  have "ring_ok 0 0 demo_hub" by (simp add: ring_ok_def demo_hub_def demo_endpoint_def)
  moreover have "ep_c (ep_endpoints (endpoints demo_hub ! 0) ! 0) = 0" "CY (ep_endpoints (endpoints demo_hub ! 0) ! 0) = 1"
    by (simp_all add: demo_hub_def demo_endpoint_def)
  ultimately obtain s' where s': "XHCI_TRANSFERS 0 0 (replicate 130 (XHCI_CMD_NOOP 0)) demo_hub = Inr s'"
    "ring_block 0 0 s' 127 = ring_block 0 0 demo_hub 127"
    "\<And>i. i < 130 \<Longrightarrow> 130 \<le> i + 127 \<Longrightarrow> ring_block 0 0 s' (i mod 127) = mark 1 (replicate 130 (XHCI_CMD_NOOP 0) ! i)"
    "\<And>j. j < 127 \<Longrightarrow> XHCI_TRB_CYCLE (trb_def (ring_block 0 0 s' j)) = 1"
    using XHCI_TRANSFERS_wrap [of 0 0 demo_hub "replicate 130 (XHCI_CMD_NOOP 0)"]
    by (simp only: length_replicate) fastforce
  from s'(3) [of 129] s'(3) [of 126] s'(4) [of 5] s'(1,2) show ?thesis by auto
qed

section \<open>The command ring\<close>

definition command_block :: "'a kxhci_scheme \<Rightarrow> nat \<Rightarrow> XHCI_TRB" where
  "command_block s i = trb_at (kmem s) (command_ring s + 16 * of_nat i)"

lemma XHCI_COMMAND_step:
  assumes "command_off s = int n" and "unat (command_ring s) + 16 * N \<le> 2 ^ 64" and "n < N" and "N < 2 ^ 31"
  shows "command_off (XHCI_COMMAND t s) = int (Suc n)"
    and "command_ring (XHCI_COMMAND t s) = command_ring s"
    and "i < N \<Longrightarrow> command_block (XHCI_COMMAND t s) i = (if i = n then mark 1 t else command_block s i)"
proof -
  show "command_off (XHCI_COMMAND t s) = int (Suc n)"
    using assms by (simp add: XHCI_COMMAND_def)
  show "command_ring (XHCI_COMMAND t s) = command_ring s" by (simp add: XHCI_COMMAND_def)
  show "command_block (XHCI_COMMAND t s) i = (if i = n then mark 1 t else command_block s i)" if "i < N"
    using assms that ring_blocks_disjoint [OF assms(2), of n i]
    by (auto simp: XHCI_COMMAND_def command_block_def mark_def trb_at_put_other)
qed

lemma fold_XHCI_COMMAND:
  assumes "command_off s = int n" and "unat (command_ring s) + 16 * N \<le> 2 ^ 64" and "n + length ts \<le> N" and "N < 2 ^ 31"
  shows "command_off (fold XHCI_COMMAND ts s) = int (n + length ts) \<and>
    command_ring (fold XHCI_COMMAND ts s) = command_ring s \<and>
    (\<forall>i < N. command_block (fold XHCI_COMMAND ts s) i =
      (if n \<le> i \<and> i < n + length ts then mark 1 (ts ! (i - n)) else command_block s i))"
  using assms(1-3)
proof (induction ts arbitrary: s n)
  case Nil
  then show ?case by auto
next
  case (Cons t ts)
  have n: "n < N" using Cons.prems by simp
  note st = XHCI_COMMAND_step [OF Cons.prems(1,2) n assms(4), where t = t]
  have pre: "command_off (XHCI_COMMAND t s) = int (Suc n)"
    "unat (command_ring (XHCI_COMMAND t s)) + 16 * N \<le> 2 ^ 64" "Suc n + length ts \<le> N"
    using st Cons.prems by simp_all
  have "i - n = Suc (i - Suc n)" if "Suc n \<le> i" for i using that by simp
  with Cons.IH [OF pre] st show ?case by (auto simp: nth_Cons')
qed

text \<open>
  C28: Commands go to consecutive blocks of the command ring in order, each with the cycle bit set. The position is never
  reset: the command after the first 127 replaces the link that closes the ring, and
  later ones are written behind it.
\<close>

theorem XHCI_COMMAND_sequence:
  assumes "command_off s = 0" and "unat (command_ring s) + 16 * length ts \<le> 2 ^ 64"
    and "unat (command_ring s) + 16 * 128 \<le> 2 ^ 64" and "length ts < 2 ^ 31"
  shows "(\<forall>i < length ts. command_block (fold XHCI_COMMAND ts s) i = mark 1 (ts ! i)) \<and>
    command_off (fold XHCI_COMMAND ts s) = int (length ts) \<and>
    (length ts \<le> 127 \<longrightarrow> command_block (fold XHCI_COMMAND ts s) 127 = command_block s 127) \<and>
    (127 < length ts \<longrightarrow> command_block (fold XHCI_COMMAND ts s) 127 = mark 1 (ts ! 127))"
  using fold_XHCI_COMMAND [of s 0 "max 128 (length ts)" ts] assms by auto

theorem XHCI_COMMAND_sequence_witness:
  "command_block (fold XHCI_COMMAND (replicate 200 (XHCI_CMD_NOOP 1)) demo_hub) 5 = mark 1 (XHCI_CMD_NOOP 1) \<and>
    command_block (fold XHCI_COMMAND (replicate 200 (XHCI_CMD_NOOP 1)) demo_hub) 127 = mark 1 (XHCI_CMD_NOOP 1) \<and>
    command_block (fold XHCI_COMMAND (replicate 200 (XHCI_CMD_NOOP 1)) demo_hub) 199 = mark 1 (XHCI_CMD_NOOP 1)"
proof -
  let ?r = "fold XHCI_COMMAND (replicate 200 (XHCI_CMD_NOOP 1)) demo_hub"
  have "command_off demo_hub = 0" "unat (command_ring demo_hub) = 0x40000" by (simp_all add: demo_hub_def)
  then have "command_block ?r i = mark 1 (XHCI_CMD_NOOP 1)" if "i < 200" for i
    using XHCI_COMMAND_sequence [of demo_hub "replicate 200 (XHCI_CMD_NOOP 1)"] that
    by (simp only: length_replicate) simp
  then show ?thesis by simp
qed

section \<open>Encodings\<close>

lemma context_command_fields:
  assumes "code AND 0x3F = code"
  shows "XHCI_TRB_TYPE (trb_def (context_command code ptr slot bsr C)) = code"
    and "XHCI_TRB_SLOT (trb_def (context_command code ptr slot bsr C)) = slot AND 0xFF"
    and "XHCI_TRB_CYCLE (trb_def (context_command code ptr slot bsr C)) = C AND 1"
    and "XHCI_GET_TRB_PTR (context_command code ptr slot bsr C) = ptr AND NOT 0xF"
proof -
  have code: "bit code n \<Longrightarrow> n < 6" for n
  proof -
    assume b: "bit code n"
    have "bit (code AND mask 6) n" using b assms by (simp add: byte_masks)
    then show "n < 6" by (simp add: bit_simps)
  qed
  show "XHCI_TRB_TYPE (trb_def (context_command code ptr slot bsr C)) = code"
    unfolding XHCI_TRB_TYPE_def context_command_def byte_masks
    by (rule bit_word_eqI) (auto simp: bit_simps dest: code)
  show "XHCI_TRB_SLOT (trb_def (context_command code ptr slot bsr C)) = slot AND 0xFF"
    unfolding XHCI_TRB_SLOT_def context_command_def byte_masks
    by (rule bit_word_eqI) (auto simp: bit_simps dest: code)
  show "XHCI_TRB_CYCLE (trb_def (context_command code ptr slot bsr C)) = C AND 1"
    unfolding XHCI_TRB_CYCLE_def context_command_def
    by (rule bit_word_eqI) (auto simp: bit_simps dest: code)
  show "XHCI_GET_TRB_PTR (context_command code ptr slot bsr C) = ptr AND NOT 0xF"
    unfolding XHCI_GET_TRB_PTR_def context_command_def byte_masks DWORD_lo_def DWORD_hi_def
  proof (rule bit_word_eqI)
    fix n
    show "bit (push_bit 32 (ucast (int2 \<lparr>int1 = ucast ptr AND NOT (mask 4), int2 = ucast (drop_bit 32 ptr), int3 = 0,
            trb_def = push_bit 24 (slot AND mask 8) OR push_bit 10 code OR push_bit 9 (bsr AND 1) OR C AND 1\<rparr>)) OR
          ucast (int1 \<lparr>int1 = ucast ptr AND NOT (mask 4), int2 = ucast (drop_bit 32 ptr), int3 = 0,
            trb_def = push_bit 24 (slot AND mask 8) OR push_bit 10 code OR push_bit 9 (bsr AND 1) OR C AND 1\<rparr> AND NOT (mask 4)) :: u64) n =
        bit (ptr AND NOT (mask 4)) n" if "n < LENGTH(64)"
      using that by (cases "n < 32") (auto simp: bit_simps)
  qed
qed

text \<open>
  Commands that carry a context read back as they were built: the decoding macros of the driver
  return the command code, the slot, the cycle bit and the context address without its low four bits.
\<close>

theorem context_command_roundtrip:
  "XHCI_TRB_TYPE (trb_def (XHCI_CMD_ADDRESS_DEVICE p slot b C)) = 11 \<and>
   XHCI_TRB_TYPE (trb_def (XHCI_CMD_CONFIGURE_CONTEXT p slot b C)) = 12 \<and>
   XHCI_TRB_TYPE (trb_def (XHCI_CMD_EVALUATE_CONTEXT p slot b C)) = 13 \<and>
   (\<forall>t \<in> {XHCI_CMD_ADDRESS_DEVICE p slot b C, XHCI_CMD_CONFIGURE_CONTEXT p slot b C, XHCI_CMD_EVALUATE_CONTEXT p slot b C}.
      XHCI_TRB_SLOT (trb_def t) = slot AND 0xFF \<and> XHCI_TRB_CYCLE (trb_def t) = C AND 1 \<and>
      XHCI_GET_TRB_PTR t = p AND NOT 0xF)"
  using context_command_fields [of 11 p slot b C] context_command_fields [of 12 p slot b C]
    context_command_fields [of 13 p slot b C]
  by (simp add: XHCI_CMD_ADDRESS_DEVICE_def XHCI_CMD_CONFIGURE_CONTEXT_def XHCI_CMD_EVALUATE_CONTEXT_def)

theorem context_command_roundtrip_witness:
  "XHCI_TRB_TYPE (trb_def (XHCI_CMD_ADDRESS_DEVICE 0x12345678 3 0 1)) = 11 \<and>
   XHCI_TRB_SLOT (trb_def (XHCI_CMD_ADDRESS_DEVICE 0x12345678 3 0 1)) = 3 \<and>
   XHCI_GET_TRB_PTR (XHCI_CMD_ADDRESS_DEVICE 0x12345678 3 0 1) = 0x12345670"
  using context_command_roundtrip [of "0x12345678" 3 0 1] by simp

lemma bf_bits: "bit (bf off w v) n \<longleftrightarrow> off \<le> n \<and> n < 32 \<and> n - off < w \<and> bit v (n - off)"
  by (auto simp: bf_def bit_simps)

text \<open>
  A control read is a setup, a data and a status block. The setup block holds the eight bytes of the request, the
  data block the buffer and the length, and only the status block asks for an interrupt.
\<close>

theorem control_read_stages:
  "map (\<lambda>t. XHCI_TRB_TYPE (trb_def t)) (control_read rt rq val len buff) = [2, 3, 4] \<and>
   map (\<lambda>t. bit (trb_def t) 5) (control_read rt rq val len buff) = [False, False, True] \<and>
   (let st = control_read rt rq val len buff ! 0; dat = control_read rt rq val len buff ! 1
    in byte_of (int1 st) 0 = rt \<and> byte_of (int1 st) 1 = rq \<and> ucast (drop_bit 16 (int1 st)) = val \<and>
       ucast (drop_bit 16 (int2 st)) = (ucast len :: u16) \<and> int3 st = 8 \<and>
       push_bit 32 (ucast (int2 dat)) OR ucast (int1 dat) = buff \<and> int3 dat = ucast (ucast len :: u16))"
proof -
  have types: "XHCI_TRB_TYPE (bf 0 1 1 OR bf 5 1 0 OR bf 6 1 1 OR bf 10 6 2 OR bf 16 2 3) = 2"
    "XHCI_TRB_TYPE (bf 0 1 1 OR bf 4 1 0 OR bf 5 1 0 OR bf 6 1 0 OR bf 10 6 3 OR bf 16 1 1) = 3"
    "XHCI_TRB_TYPE (bf 0 1 1 OR bf 4 1 0 OR bf 5 1 1 OR bf 10 6 4 OR bf 16 1 0) = 4" "bf 0 17 8 = 8"
    by (simp_all add: XHCI_TRB_TYPE_def bf_def)
  have ioc: "\<not> bit (bf 0 1 1 OR bf 5 1 0 OR bf 6 1 1 OR bf 10 6 2 OR bf 16 2 3) 5"
    "\<not> bit (bf 0 1 1 OR bf 4 1 0 OR bf 5 1 0 OR bf 6 1 0 OR bf 10 6 3 OR bf 16 1 1) 5"
    "bit (bf 0 1 1 OR bf 4 1 0 OR bf 5 1 1 OR bf 10 6 4 OR bf 16 1 0) 5"
    by (simp_all add: bf_def)
  have fields: "byte_of (ucast rt OR push_bit 8 (ucast rq) OR push_bit 16 (ucast val) :: u32) 0 = rt"
    "byte_of (ucast rt OR push_bit 8 (ucast rq) OR push_bit 16 (ucast val) :: u32) 1 = rq"
    "ucast (drop_bit 16 (ucast rt OR push_bit 8 (ucast rq) OR push_bit 16 (ucast val) :: u32)) = val"
    "ucast (drop_bit 16 (push_bit 16 (ucast (ucast len :: u16)) :: u32)) = (ucast len :: u16)"
    by (rule bit_word_eqI; auto simp: byte_of_def bit_simps dest: bit_imp_le_length; fail)+
  have ptr: "push_bit 32 (ucast (DWORD_hi buff)) OR ucast (DWORD_lo buff) = buff"
  proof (rule bit_word_eqI)
    fix n
    show "bit (push_bit 32 (ucast (DWORD_hi buff)) OR ucast (DWORD_lo buff) :: u64) n = bit buff n" if "n < LENGTH(64)"
      using that by (cases "n < 32") (auto simp: DWORD_hi_def DWORD_lo_def bit_simps)
  qed
  show ?thesis
    using types ioc fields ptr
    by (simp add: control_read_def setup_trb_def data_trb_def status_trb_def zero_setup_def zero_data_def zero_status_def Let_def)
qed

end
