(* ===== verification/Usb.thy ===== *)
theory Usb
  imports KMalloc CharDev
begin

text \<open>
  USB descriptors and the boot keyboard: \<open>USB_PARSE_CONFIG\<close> of \<open>src/src/drivers/usb/usb.c\<close>, which finds the
  endpoint descriptors of a configuration, the endpoint numbering of \<open>xhci.h\<close>, and the report
  handler of \<open>src/src/devices/usb/keyboard.c\<close> with the key table of \<open>xhci.c\<close>. Descriptors are packed
  bytes in the flat memory.
\<close>

section \<open>Configuration descriptors\<close>

text \<open>Both descriptor kinds start with their length and type; an interface has its endpoint count at 4.\<close>

definition desc_len :: "mem \<Rightarrow> u64 \<Rightarrow> u64" where
  "desc_len m p = ucast (m p)"

text \<open>\<open>config->intf[0].interface->num_endpoints\<close>\<close>

definition intf_endpoints :: "mem \<Rightarrow> u64 \<Rightarrow> u8" where
  "intf_endpoints m cfg = m (U64 m (U64 m (cfg + 8)) + 4)"

partial_function (option) skip_to_endpoint :: "mem \<Rightarrow> u64 \<Rightarrow> u64 option" where
  "skip_to_endpoint m p = (if m (p + 1) = 5 then Some p else skip_to_endpoint m (p + desc_len m p))"

partial_function (option) endpoint_loop :: "u64 \<Rightarrow> nat \<Rightarrow> u64 \<Rightarrow> mem \<Rightarrow> mem option" where
  "endpoint_loop cfg i p m =
     (if i < unat (intf_endpoints m cfg)
      then case skip_to_endpoint m p of
             None \<Rightarrow> None
           | Some p \<Rightarrow>
               let m = set_U64 m (U64 m (U64 m (cfg + 8) + 16) + 8 * of_nat i) p
               in endpoint_loop cfg (Suc i) (p + desc_len m p) m
      else Some m)"

definition USB_PARSE_CONFIG :: "u64 \<Rightarrow> u64 \<Rightarrow> 'a kheap_scheme \<Rightarrow> 'a kheap_scheme outcome" where
  "USB_PARSE_CONFIG cfg p s =
     (let s = s\<lparr>kmem := set_U64 (kmem s) cfg p\<rparr>;
          p = p + desc_len (kmem s) (U64 (kmem s) cfg);
          (intf, s) = malloc 24 s;
          s = s\<lparr>kmem := set_U64 (kmem s) (cfg + 8) intf\<rparr>;
          s = s\<lparr>kmem := set_U64 (kmem s) (U64 (kmem s) (cfg + 8)) p\<rparr>;
          p = p + desc_len (kmem s) (U64 (kmem s) (U64 (kmem s) (cfg + 8)));
          s = s\<lparr>kmem := set_U64 (kmem s) (U64 (kmem s) (cfg + 8) + 8) p\<rparr>;
          (arr, s) = malloc (8 * ucast (intf_endpoints (kmem s) cfg)) s;
          s = s\<lparr>kmem := set_U64 (kmem s) (U64 (kmem s) (cfg + 8) + 16) arr\<rparr>
      in case endpoint_loop cfg 0 p (kmem s) of
           None \<Rightarrow> Inl Hangs
         | Some m \<Rightarrow> Inr (s\<lparr>kmem := m\<rparr>))"

section \<open>Endpoint numbering\<close>

text \<open>\<open>endpoint_address\<close> is the byte at 2 of an endpoint descriptor, \<open>attributes\<close> the one at 3.\<close>

definition XHCI_GET_TYPE_DESC :: "mem \<Rightarrow> u64 \<Rightarrow> u32" where
  "XHCI_GET_TYPE_DESC m desc =
     (if desc = 0 then 4
      else (ucast (m (desc + 3)) AND 0x3) OR push_bit 2 (drop_bit 7 (ucast (m (desc + 2))) AND 1))"

definition XHCI_GET_INDEX_DESC :: "mem \<Rightarrow> u64 \<Rightarrow> int" where
  "XHCI_GET_INDEX_DESC m desc =
     sint ((push_bit 1 (ucast (m (desc + 2)) AND 0xF) OR (drop_bit 7 (ucast (m (desc + 2))) AND 1)) :: u32) - 1"

text \<open>\<open>1<<val\<close> with the count taken modulo 32, as the processor shifts.\<close>

definition XHCI_MAX_PACKETS :: "u32 \<Rightarrow> u32 \<Rightarrow> u32" where
  "XHCI_MAX_PACKETS version val =
     (if drop_bit 8 version = 2 then val else push_bit (unat val mod 32) 1)"

section \<open>The boot keyboard\<close>

text \<open>Key codes are a \<open>char\<close>, signed; codes above 127 are in no range.\<close>

definition fromScanCode :: "u8 \<Rightarrow> u8" where
  "fromScanCode x =
     (if 0x04 \<le> sint x \<and> sint x \<le> 0x1d then x - 4 + 0x41
      else if x = 0x28 then 0x0A
      else if x = 0x2C then 0x20
      else if x = 0x2A then 0x08
      else if x = 0x37 then 0x2E
      else if x = 0x38 then 0x2F
      else 0)"

text \<open>
  A report has the modifier bits in byte 0 (left shift bit 1, right shift bit 5) and six key codes from byte
  2 on. The handler queues one byte.
\<close>

definition report_char :: "u8 list \<Rightarrow> u8" where
  "report_char report =
     (let shift = (\<lambda>i. if bit (report ! 0) i then 1 else 0 :: u8);
          caps = shift 1 XOR shift 5 XOR 1;
          k = fromScanCode (report ! 2)
      in if 0x41 \<le> sint k \<and> sint k \<le> 0x5A then k OR push_bit 5 caps else k)"

definition USB_KEYBOARD_HANDLER :: "u8 list \<Rightarrow> CharacterDevice \<Rightarrow> CharacterDevice outcome" where
  "USB_KEYBOARD_HANDLER report dev = CharacterDeviceWrite (\<lambda>_. report_char report) dev 0 1"

section \<open>Finding the endpoints\<close>

text \<open>A descriptor as bytes: its first byte is its length.\<close>

definition wf_desc :: "u8 list \<Rightarrow> bool" where
  "wf_desc d \<longleftrightarrow> 2 \<le> length d \<and> unat (d ! 0) = length d"

fun endpoint_addrs :: "u64 \<Rightarrow> u8 list list \<Rightarrow> u64 list" where
  "endpoint_addrs a [] = []"
| "endpoint_addrs a (d # ds) =
     (if d ! 1 = 5 then [a] else []) @ endpoint_addrs (a + of_nat (length d)) ds"

definition holds :: "mem \<Rightarrow> u64 \<Rightarrow> u8 list \<Rightarrow> bool" where
  "holds m a bs \<longleftrightarrow> load_bytes m a (length bs) = bs"

lemma holds_append: "holds m a (xs @ ys) \<longleftrightarrow> holds m a xs \<and> holds m (a + of_nat (length xs)) ys"
  by (simp add: holds_def load_bytes_append)

lemma holds_desc:
  assumes "holds m a d" and "wf_desc d"
  shows "m (a + 1) = d ! 1" and "a + desc_len m a = a + of_nat (length d)"
proof -
  have l: "2 \<le> length d" using assms(2) by (simp add: wf_desc_def)
  have "m (a + of_nat i) = d ! i" if "i < length d" for i
    using assms(1) load_bytes_nth [OF that, of m a] by (simp add: holds_def)
  from this [of 0] this [of 1] l have "m a = d ! 0" "m (a + 1) = d ! 1" by (cases d, simp_all)
  moreover have "(ucast (d ! 0) :: u64) = of_nat (length d)"
    using assms(2) unat_u8_less [of "d ! 0"] by (simp add: wf_desc_def word_unat_eq_iff)
  ultimately show "m (a + 1) = d ! 1" "a + desc_len m a = a + of_nat (length d)" by (simp_all add: desc_len_def)
qed

text \<open>
  With descriptors from byte \<open>i\<close> of a region on, the search stops at the first endpoint descriptor, and the
  rest of the descriptors follows it.
\<close>

lemma skip_to_endpoint_finds:
  assumes "holds m (p + of_nat i) (concat ds)" and "\<forall>d\<in>set ds. wf_desc d"
    and "endpoint_addrs (p + of_nat i) ds = e # es" and "i + length (concat ds) \<le> len"
  shows "\<exists>k d ds'. skip_to_endpoint m (p + of_nat i) = Some e \<and> e = p + of_nat k \<and> wf_desc d \<and> holds m e d \<and>
    k + length d + length (concat ds') \<le> len \<and> holds m (p + of_nat (k + length d)) (concat ds') \<and>
    (\<forall>d\<in>set ds'. wf_desc d) \<and> endpoint_addrs (p + of_nat (k + length d)) ds' = es"
  using assms
proof (induction ds arbitrary: i)
  case Nil
  then show ?case by simp
next
  case (Cons d ds)
  have d: "holds m (p + of_nat i) d" "holds m (p + of_nat (i + length d)) (concat ds)" "wf_desc d"
    using Cons.prems by (simp_all add: holds_append add.assoc)
  note hd = holds_desc [OF d(1,3)]
  show ?case
  proof (cases "d ! 1 = 5")
    case True
    then have "skip_to_endpoint m (p + of_nat i) = Some (p + of_nat i)"
      by (subst skip_to_endpoint.simps) (simp add: hd)
    moreover have "e = p + of_nat i" "es = endpoint_addrs (p + of_nat (i + length d)) ds"
      using Cons.prems(3) True by (auto simp: add.assoc)
    ultimately show ?thesis
      using d Cons.prems(2,4) by (intro exI [of _ i] exI [of _ d] exI [of _ ds]) simp
  next
    case False
    then have "skip_to_endpoint m (p + of_nat i) = skip_to_endpoint m (p + of_nat (i + length d))"
      by (subst skip_to_endpoint.simps, simp only: hd if_False, simp add: add.assoc)
    moreover have "endpoint_addrs (p + of_nat (i + length d)) ds = e # es"
      using Cons.prems(3) False by (simp add: add.assoc)
    ultimately show ?thesis using Cons.IH [of "i + length d"] d(2) Cons.prems(2,4) by simp
  qed
qed

text \<open>
  The objects the parser writes: the two words of the configuration, the three words of the interface and the
  array of endpoint pointers. They overlap neither each other nor the \<open>len\<close> bytes of descriptors.
\<close>

definition parse_layout :: "u64 \<Rightarrow> u64 \<Rightarrow> u64 \<Rightarrow> nat \<Rightarrow> u64 \<Rightarrow> nat \<Rightarrow> bool" where
  "parse_layout cfg intf arr n p len \<longleftrightarrow>
     disjoint_blocks cfg 16 intf 24 \<and> disjoint_blocks cfg 16 arr (8 * n) \<and> disjoint_blocks intf 24 arr (8 * n) \<and>
     disjoint_blocks cfg 16 p len \<and> disjoint_blocks intf 24 p len \<and> disjoint_blocks arr (8 * n) p len"

lemma disjoint_sub:
  assumes "disjoint_blocks a m b n" and "i + k \<le> m" and "i < m"
  shows "disjoint_blocks (a + of_nat i) k b n"
proof -
  have "unat (a + of_nat i) = unat a + i"
    using assms by (intro unat_add_of_nat) (auto simp: disjoint_blocks_def)
  then show ?thesis using assms by (auto simp: disjoint_blocks_def)
qed

lemma byte_other: "disjoint_blocks a 8 b 1 \<Longrightarrow> set_U64 m a v b = m b"
  using load_set_U64_other [of a b 1 m v] by simp

text \<open>What the loop relies on and keeps: the pointers, the endpoint count and the descriptors.\<close>

definition parse_inv :: "u64 \<Rightarrow> u64 \<Rightarrow> u64 \<Rightarrow> u64 \<Rightarrow> u64 \<Rightarrow> nat \<Rightarrow> mem \<Rightarrow> bool" where
  "parse_inv cfg pc intf arr iface n m \<longleftrightarrow>
     U64 m cfg = pc \<and> U64 m (cfg + 8) = intf \<and> U64 m intf = iface \<and> U64 m (intf + 16) = arr \<and> unat (m (iface + 4)) = n"

lemma arr_store:
  assumes "parse_layout cfg intf arr n p len" and "i < n"
  shows "disjoint_blocks (arr + 8 * of_nat i) 8 p len"
    and "disjoint_blocks (arr + 8 * of_nat i) 8 cfg 16" and "disjoint_blocks (arr + 8 * of_nat i) 8 intf 24"
proof -
  have i: "8 * i + 8 \<le> 8 * n" using assms(2) by simp
  have "disjoint_blocks (arr + of_nat (8 * i)) 8 b k" if "disjoint_blocks arr (8 * n) b k" for b k
    by (rule disjoint_sub [OF that i]) (use assms(2) in simp)
  then show "disjoint_blocks (arr + 8 * of_nat i) 8 p len" "disjoint_blocks (arr + 8 * of_nat i) 8 cfg 16"
    "disjoint_blocks (arr + 8 * of_nat i) 8 intf 24"
    using assms(1) by (auto simp: parse_layout_def disjoint_blocks_sym)
qed

lemma U64_field_other:
  assumes "disjoint_blocks a 8 b n" and "i + 8 \<le> n"
  shows "U64 (set_U64 m a v) (b + of_nat i) = U64 m (b + of_nat i)"
  using disjoint_sub [of b n a 8 i 8] assms by (simp add: U64_set_U64_other disjoint_blocks_sym)

lemma holds_sub:
  assumes "disjoint_blocks a 8 p len" and "holds m (p + of_nat i) bs" and "i + length bs \<le> len"
  shows "holds (set_U64 m a v) (p + of_nat i) bs"
proof (cases "bs = []")
  case True
  then show ?thesis by (simp add: holds_def)
next
  case False
  then have "i < len" using assms(3) by (cases bs) auto
  then show ?thesis
    using disjoint_sub [of p len a 8 i "length bs"] assms
    by (simp add: holds_def load_set_U64_other disjoint_blocks_sym)
qed

lemma parse_inv_store:
  assumes "parse_layout cfg intf arr n p len" and "parse_inv cfg pc intf arr (p + of_nat q) n m"
    and "q + 5 \<le> len" and "i < n"
  shows "parse_inv cfg pc intf arr (p + of_nat q) n (set_U64 m (arr + 8 * of_nat i) v)"
proof -
  note st = arr_store [OF assms(1,4)]
  have "disjoint_blocks (p + of_nat (q + 4)) 1 (arr + 8 * of_nat i) 8"
    by (rule disjoint_sub [where m = len]) (use st(1) assms(3) in \<open>simp_all add: disjoint_blocks_sym\<close>)
  then have "set_U64 m (arr + 8 * of_nat i) v (p + of_nat (q + 4)) = m (p + of_nat (q + 4))"
    by (intro byte_other) (simp add: disjoint_blocks_sym)
  then show ?thesis
    using assms(2) U64_field_other [OF st(2), of 0 m v] U64_field_other [OF st(2), of 8 m v] U64_field_other [OF st(3), of 0 m v]
      U64_field_other [OF st(3), of 16 m v]
    by (simp add: parse_inv_def add.assoc)
qed

lemma U64_arr_other:
  assumes "parse_layout cfg intf arr n p len" and "i < n" and "k < n" and "k \<noteq> i"
  shows "U64 (set_U64 m (arr + 8 * of_nat i) v) (arr + 8 * of_nat k) = U64 m (arr + 8 * of_nat k)"
proof -
  have lim: "unat arr + 8 * n \<le> 2 ^ 64" using assms(1) by (simp add: parse_layout_def disjoint_blocks_def)
  have "unat (arr + 8 * of_nat j) = unat arr + 8 * j" if "j < n" for j
    using unat_add_of_nat [of arr "8 * j"] lim that by simp
  then show ?thesis
    using assms(2-4) lim by (intro U64_set_U64_other) (auto simp: disjoint_blocks_def)
qed

lemma endpoint_loop_collects:
  assumes "parse_layout cfg intf arr n p len" and "q + 5 \<le> len"
    and "parse_inv cfg pc intf arr (p + of_nat q) n m" and "i \<le> n"
    and "holds m (p + of_nat o1) (concat ds)" and "\<forall>d\<in>set ds. wf_desc d" and "o1 + length (concat ds) \<le> len"
    and "n - i \<le> length (endpoint_addrs (p + of_nat o1) ds)"
  shows "\<exists>m'. endpoint_loop cfg i (p + of_nat o1) m = Some m' \<and>
    (\<forall>k < n - i. U64 m' (arr + 8 * of_nat (i + k)) = endpoint_addrs (p + of_nat o1) ds ! k) \<and>
    (\<forall>k < i. U64 m' (arr + 8 * of_nat k) = U64 m (arr + 8 * of_nat k)) \<and>
    parse_inv cfg pc intf arr (p + of_nat q) n m'"
  using assms(3-8)
proof (induction "n - i" arbitrary: i o1 ds m)
  case 0
  then have "i = n" by simp
  moreover have "unat (intf_endpoints m cfg) = n" using "0.prems"(1) by (simp add: parse_inv_def intf_endpoints_def)
  ultimately show ?case using "0.prems" by (subst endpoint_loop.simps) simp
next
  case (Suc r)
  then have i: "i < n" by simp
  have inv: "unat (intf_endpoints m cfg) = n" "U64 m (U64 m (cfg + 8) + 16) = arr"
    using Suc.prems(1) by (simp_all add: parse_inv_def intf_endpoints_def)
  obtain e es where es: "endpoint_addrs (p + of_nat o1) ds = e # es"
    using Suc.prems(6) i by (cases "endpoint_addrs (p + of_nat o1) ds") auto
  from skip_to_endpoint_finds [OF Suc.prems(3,4) es Suc.prems(5)] obtain k d ds' where sk:
    "skip_to_endpoint m (p + of_nat o1) = Some e" "e = p + of_nat k" "wf_desc d" "holds m e d"
    "k + length d + length (concat ds') \<le> len" "holds m (p + of_nat (k + length d)) (concat ds')"
    "\<forall>d\<in>set ds'. wf_desc d" "endpoint_addrs (p + of_nat (k + length d)) ds' = es" by blast
  let ?m = "set_U64 m (arr + 8 * of_nat i) e"
  note st = arr_store [OF assms(1) i]
  have d': "holds ?m e d" using holds_sub [OF st(1), of m k d e] sk(2,4,5) by simp
  have next_p: "e + desc_len ?m e = p + of_nat (k + length d)"
    using holds_desc(2) [OF d' sk(3)] sk(2) by (simp add: add.assoc)
  have step: "endpoint_loop cfg i (p + of_nat o1) m = endpoint_loop cfg (Suc i) (p + of_nat (k + length d)) ?m"
    using i inv sk(1) next_p by (subst endpoint_loop.simps) (simp add: Let_def)
  have h: "holds ?m (p + of_nat (k + length d)) (concat ds')"
    by (rule holds_sub [OF st(1) sk(6)]) (use sk(5) in simp)
  have v: "parse_inv cfg pc intf arr (p + of_nat q) n ?m"
    by (rule parse_inv_store [OF assms(1) Suc.prems(1) assms(2) i])
  have l: "n - Suc i \<le> length (endpoint_addrs (p + of_nat (k + length d)) ds')"
    using Suc.prems(6) es sk(8) by simp
  have r: "r = n - Suc i" "Suc i \<le> n" using Suc.hyps(2) i by simp_all
  from Suc.hyps(1) [OF r(1) v r(2) h sk(7,5) l] obtain m' where m':
    "endpoint_loop cfg (Suc i) (p + of_nat (k + length d)) ?m = Some m'"
    "\<forall>j < n - Suc i. U64 m' (arr + 8 * of_nat (Suc i + j)) = es ! j"
    "\<forall>j < Suc i. U64 m' (arr + 8 * of_nat j) = U64 ?m (arr + 8 * of_nat j)"
    "parse_inv cfg pc intf arr (p + of_nat q) n m'"
    unfolding sk(8) by blast
  have "U64 m' (arr + 8 * of_nat (i + j)) = (e # es) ! j" if "j < n - i" for j
    using m'(2,3) that by (cases j) auto
  moreover have "U64 m' (arr + 8 * of_nat j) = U64 m (arr + 8 * of_nat j)" if "j < i" for j
    using m'(3) that i U64_arr_other [OF assms(1) i, of j m e] by simp
  ultimately show ?case using step m'(1,4) es by (intro exI [of _ m']) simp
qed

lemma parse_keep:
  assumes "parse_layout cfg intf arr n p (length bs)" and "holds m p bs"
  shows "holds (set_U64 m cfg v) p bs" "holds (set_U64 m (cfg + 8) v) p bs" "holds (set_U64 m intf v) p bs"
    "holds (set_U64 m (intf + 8) v) p bs" "holds (set_U64 m (intf + 16) v) p bs"
proof -
  have dj: "disjoint_blocks cfg 16 p (length bs)" "disjoint_blocks intf 24 p (length bs)"
    using assms(1) by (simp_all add: parse_layout_def)
  have sub: "disjoint_blocks cfg 8 p (length bs)" "disjoint_blocks (cfg + 8) 8 p (length bs)"
    "disjoint_blocks intf 8 p (length bs)" "disjoint_blocks (intf + 8) 8 p (length bs)" "disjoint_blocks (intf + 16) 8 p (length bs)"
    using disjoint_sub [OF dj(1), of 0 8] disjoint_sub [OF dj(1), of 8 8] disjoint_sub [OF dj(2), of 0 8]
      disjoint_sub [OF dj(2), of 8 8] disjoint_sub [OF dj(2), of 16 8] by simp_all
  show "holds (set_U64 m cfg v) p bs" "holds (set_U64 m (cfg + 8) v) p bs" "holds (set_U64 m intf v) p bs"
    "holds (set_U64 m (intf + 8) v) p bs" "holds (set_U64 m (intf + 16) v) p bs"
    using sub [THEN holds_sub, of m 0 bs v] assms(2) by simp_all
qed

lemma parse_words:
  assumes "parse_layout cfg intf arr n p len"
  shows "U64 (set_U64 m intf v) cfg = U64 m cfg" "U64 (set_U64 m (intf + 8) v) cfg = U64 m cfg"
    "U64 (set_U64 m (intf + 16) v) cfg = U64 m cfg" "U64 (set_U64 m intf v) (cfg + 8) = U64 m (cfg + 8)"
    "U64 (set_U64 m (intf + 8) v) (cfg + 8) = U64 m (cfg + 8)" "U64 (set_U64 m (intf + 16) v) (cfg + 8) = U64 m (cfg + 8)"
    "U64 (set_U64 m (cfg + 8) v) cfg = U64 m cfg"
    "U64 (set_U64 m (intf + 8) v) intf = U64 m intf" "U64 (set_U64 m (intf + 16) v) intf = U64 m intf"
proof -
  have dj: "disjoint_blocks cfg 16 intf 24" using assms by (simp add: parse_layout_def)
  then have lim: "unat intf + 24 \<le> 2 ^ 64" "unat cfg + 16 \<le> 2 ^ 64" by (auto simp: disjoint_blocks_def)
  have a: "unat (cfg + 8) = unat cfg + 8" "unat (intf + 8) = unat intf + 8" "unat (intf + 16) = unat intf + 16"
    using unat_add_of_nat [of cfg 8] unat_add_of_nat [of intf 8] unat_add_of_nat [of intf 16] lim by simp_all
  show "U64 (set_U64 m intf v) cfg = U64 m cfg" "U64 (set_U64 m (intf + 8) v) cfg = U64 m cfg"
    "U64 (set_U64 m (intf + 16) v) cfg = U64 m cfg" "U64 (set_U64 m intf v) (cfg + 8) = U64 m (cfg + 8)"
    "U64 (set_U64 m (intf + 8) v) (cfg + 8) = U64 m (cfg + 8)" "U64 (set_U64 m (intf + 16) v) (cfg + 8) = U64 m (cfg + 8)"
    "U64 (set_U64 m (cfg + 8) v) cfg = U64 m cfg"
    "U64 (set_U64 m (intf + 8) v) intf = U64 m intf" "U64 (set_U64 m (intf + 16) v) intf = U64 m intf"
    using dj lim a by (auto simp: disjoint_blocks_def intro!: U64_set_U64_other)
qed

lemma parse_parts:
  assumes "holds m p (c @ f @ rest)" and "wf_desc c" and "wf_desc f" and "5 \<le> length f"
  shows "p + desc_len m p = p + of_nat (length c)"
    and "p + of_nat (length c) + desc_len m (p + of_nat (length c)) = p + of_nat (length c + length f)"
    and "m (p + of_nat (length c) + 4) = f ! 4"
proof -
  have hc: "holds m p c" "holds m (p + of_nat (length c)) f" using assms(1) by (simp_all add: holds_append)
  show "p + desc_len m p = p + of_nat (length c)" by (rule holds_desc(2) [OF hc(1) assms(2)])
  show "p + of_nat (length c) + desc_len m (p + of_nat (length c)) = p + of_nat (length c + length f)"
    using holds_desc(2) [OF hc(2) assms(3)] by (simp add: add.assoc)
  show "m (p + of_nat (length c) + 4) = f ! 4"
    using hc(2) load_bytes_nth [of 4 "length f" m "p + of_nat (length c)"] assms(4) by (simp add: holds_def)
qed

text \<open>
  C23: Parsing a configuration: given its descriptor \<open>c\<close>, the interface descriptor \<open>f\<close> and further descriptors \<open>ds\<close> in
  memory, among them as many endpoint descriptors as the interface announces, the parser returns and the
  array it allocates holds the addresses of the endpoint descriptors in order.
\<close>

theorem USB_PARSE_CONFIG_endpoints:
  assumes "holds (kmem s) p (c @ f @ concat ds)" and "wf_desc c" and "wf_desc f" and "\<forall>d\<in>set ds. wf_desc d"
    and "5 \<le> length f" and "unat (f ! 4) = n"
    and "n \<le> length (endpoint_addrs (p + of_nat (length c + length f)) ds)"
    and "parse_layout cfg (malloc_start s) (malloc_start s + 24) n p (length (c @ f @ concat ds))"
  shows "\<exists>s'. USB_PARSE_CONFIG cfg p s = Inr s' \<and>
    U64 (kmem s') cfg = p \<and> U64 (kmem s') (U64 (kmem s') (cfg + 8)) = p + of_nat (length c) \<and>
    (\<forall>i < n. U64 (kmem s') (U64 (kmem s') (U64 (kmem s') (cfg + 8) + 16) + 8 * of_nat i) =
       endpoint_addrs (p + of_nat (length c + length f)) ds ! i)"
proof -
  let ?bs = "c @ f @ concat ds"
  define intf arr where "intf = malloc_start s" and "arr = malloc_start s + 24"
  have lay: "parse_layout cfg intf arr n p (length ?bs)" using assms(8) by (simp add: intf_def arr_def)
  note words = parse_words [OF lay] and keep = parse_keep [OF lay]
  note parts = parse_parts [OF _ assms(2,3,5), of _ p "concat ds"]
  define m1 where "m1 = set_U64 (kmem s) cfg p"
  define m2 where "m2 = set_U64 (set_U64 m1 (cfg + 8) intf) intf (p + of_nat (length c))"
  define m3 where "m3 = set_U64 m2 (intf + 8) (p + of_nat (length c + length f))"
  define m4 where "m4 = set_U64 m3 (intf + 16) arr"
  have h: "holds m1 p ?bs" "holds m2 p ?bs" "holds m3 p ?bs" "holds m4 p ?bs"
    using assms(1) by (simp_all only: m1_def m2_def m3_def m4_def keep)
  have inv: "parse_inv cfg p intf arr (p + of_nat (length c)) n m4"
    using parts(3) [OF h(4)] assms(6) by (simp add: parse_inv_def m4_def m3_def m2_def m1_def words)
  have rest: "holds m4 (p + of_nat (length c + length f)) (concat ds)"
    using h(4) by (simp add: holds_append add.assoc)
  from endpoint_loop_collects [where i = 0, OF lay _ inv _ rest assms(4)] assms(5,7) obtain m' where m':
    "endpoint_loop cfg 0 (p + of_nat (length c + length f)) m4 = Some m'"
    "\<forall>k < n. U64 m' (arr + 8 * of_nat k) = endpoint_addrs (p + of_nat (length c + length f)) ds ! k"
    "parse_inv cfg p intf arr (p + of_nat (length c)) n m'" by auto
  have "\<exists>s'. USB_PARSE_CONFIG cfg p s = Inr s' \<and> kmem s' = m'"
    using m'(1) parts(1) [OF h(1)] parts(2) [OF h(2)]
    unfolding m4_def m3_def m2_def m1_def intf_def arr_def
    by (simp add: USB_PARSE_CONFIG_def malloc_def Let_def words [unfolded intf_def] add.assoc)
  then show ?thesis using m'(2,3) by (auto simp: parse_inv_def)
qed

text \<open>A keyboard: a configuration and interface descriptor of 9 bytes, a HID descriptor and one endpoint.\<close>

definition keyboard_descs :: "u8 list list" where
  "keyboard_descs = [[9, 2, 34, 0, 1, 1, 0, 0xA0, 50], [9, 4, 0, 0, 1, 3, 1, 1, 0],
     [9, 0x21, 0x11, 1, 0, 1, 0x22, 63, 0], [7, 5, 0x81, 3, 8, 0, 10]]"

definition keyboard_heap :: kheap where
  "keyboard_heap = \<lparr>kmem = store_bytes (\<lambda>_. 0) 0x2000 (concat keyboard_descs), malloc_start = 0x5000, malloc_end = 0x10000,
     ms = 0, me = 0\<rparr>"

theorem USB_PARSE_CONFIG_endpoints_witness:
  "\<exists>s'. USB_PARSE_CONFIG 0x1000 0x2000 keyboard_heap = Inr s' \<and>
    U64 (kmem s') 0x1000 = 0x2000 \<and> U64 (kmem s') (U64 (kmem s') 0x1008) = 0x2009 \<and>
    U64 (kmem s') (U64 (kmem s') (U64 (kmem s') 0x1008 + 16)) = 0x201B"
proof -
  let ?c = "keyboard_descs ! 0" and ?f = "keyboard_descs ! 1" and ?ds = "drop 2 keyboard_descs"
  have split: "?c @ ?f @ concat ?ds = concat keyboard_descs" by (simp add: keyboard_descs_def)
  have "holds (kmem keyboard_heap) 0x2000 (?c @ ?f @ concat ?ds)"
    using load_store_bytes [of "concat keyboard_descs" "\<lambda>_. 0" "0x2000"]
    unfolding split holds_def keyboard_heap_def by (simp add: keyboard_descs_def)
  moreover have "wf_desc ?c" "wf_desc ?f" "\<forall>d\<in>set ?ds. wf_desc d" "5 \<le> length ?f" "unat (?f ! 4) = 1"
    by (simp_all add: keyboard_descs_def wf_desc_def)
  moreover have "endpoint_addrs (0x2000 + of_nat (length ?c + length ?f)) ?ds = [0x201B]"
    by (simp add: keyboard_descs_def)
  moreover have "parse_layout 0x1000 (malloc_start keyboard_heap) (malloc_start keyboard_heap + 24) 1 0x2000
      (length (?c @ ?f @ concat ?ds))"
    by (simp add: parse_layout_def disjoint_blocks_def keyboard_heap_def keyboard_descs_def)
  ultimately show ?thesis
    using USB_PARSE_CONFIG_endpoints [of keyboard_heap "0x2000" ?c ?f ?ds 1 "0x1000"]
    by (auto simp: keyboard_descs_def)
qed

section \<open>Keys\<close>

text \<open>
  A key report queues one byte: letters in lower case unless exactly one shift key is down, and every report,
  the empty one of a released key included, queues a byte, which is then 0.
\<close>

theorem report_char_letter:
  assumes "length r = 8" and "4 \<le> unat (r ! 2)" and "unat (r ! 2) \<le> 0x1d"
  shows "report_char r =
    of_nat (unat (r ! 2) - 4 + (if bit (r ! 0) 1 \<noteq> bit (r ! 0) 5 then 0x41 else 0x61)) \<and>
    report_char (replicate 8 0) = 0"
proof -
  obtain k where k: "k < 26" "r ! 2 = of_nat (k + 4)"
    using assms(2,3) by (intro that [of "unat (r ! 2) - 4"]) (auto simp: word_unat_eq_iff unat_of_nat)
  have "list_all (\<lambda>k. fromScanCode (of_nat (k + 4)) = of_nat (k + 0x41) \<and> 0x41 \<le> sint (of_nat (k + 0x41) :: u8) \<and>
      sint (of_nat (k + 0x41) :: u8) \<le> 0x5A \<and> (of_nat (k + 0x41) :: u8) OR 32 = of_nat (k + 0x61)) [0..<26]"
    by code_simp
  then have all: "\<forall>k \<in> set [0..<26]. fromScanCode (of_nat (k + 4)) = of_nat (k + 0x41) \<and>
      0x41 \<le> sint (of_nat (k + 0x41) :: u8) \<and> sint (of_nat (k + 0x41) :: u8) \<le> 0x5A \<and>
      (of_nat (k + 0x41) :: u8) OR 32 = of_nat (k + 0x61)"
    unfolding list_all_iff .
  have "k \<in> set [0..<26]" unfolding set_upt using k(1) by simp
  note lk = bspec [OF all this]
  have "report_char (replicate 8 0) = 0" by code_simp
  moreover have "unat (r ! 2) - 4 = k" unfolding k(2) using k(1) by (simp del: of_nat_add)
  moreover have "report_char r = of_nat (k + (if bit (r ! 0) 1 \<noteq> bit (r ! 0) 5 then 0x41 else 0x61))"
    using lk by (simp add: report_char_def k(2) Let_def del: of_nat_add)
  ultimately show ?thesis by simp
qed

theorem report_char_letter_witness:
  "report_char [0x02, 0, 0x04, 0, 0, 0, 0, 0] = 0x41 \<and> report_char [0x22, 0, 0x1d, 0, 0, 0, 0, 0] = 0x7A"
  using report_char_letter [of "[0x02, 0, 0x04, 0, 0, 0, 0, 0]"] report_char_letter [of "[0x22, 0, 0x1d, 0, 0, 0, 0, 0]"]
  by simp

end
