(* ===== verification/Xhci.thy ===== *)
theory Xhci
  imports XhciRing Usb Isr
begin

text \<open>
  The USB 3 host controller driver \<open>src/src/drivers/xhci/xhci.c\<close>: device contexts, the enumeration of a
  device from the port reset to the running keyboard, the two interrupt handlers and the initialisation of the
  controller. The controller changes the shared memory only between two calls of a handler; registers are
  read through the parameter \<open>hw\<close>. The log and hex dump calls are left out.
\<close>

section \<open>Contexts\<close>

text \<open>Assigning to a bit field of the word at \<open>a\<close> keeps the other bits.\<close>

definition set_bits :: "nat \<Rightarrow> nat \<Rightarrow> u32 \<Rightarrow> u32 \<Rightarrow> u32" where
  "set_bits off w v x = (x AND NOT (push_bit off (mask w))) OR push_bit off (take_bit w v)"

definition put_bits :: "u64 \<Rightarrow> nat \<Rightarrow> nat \<Rightarrow> u32 \<Rightarrow> mem \<Rightarrow> mem" where
  "put_bits a off w v m = set_U32 m a (set_bits off w v (U32 m a))"

definition get_bits :: "mem \<Rightarrow> u64 \<Rightarrow> nat \<Rightarrow> nat \<Rightarrow> u32" where
  "get_bits m a off w = take_bit w (drop_bit off (U32 m a))"

text \<open>\<open>32<<XHCI_CONTEXT_SIZE(config)\<close>\<close>

definition context_size :: "kxhci \<Rightarrow> u64" where
  "context_size s = (if bit (HCCParams1 (config s)) 2 then 64 else 32)"

definition alloc_physical :: "u64 \<Rightarrow> u64 \<Rightarrow> u64 \<Rightarrow> kxhci \<Rightarrow> (u64 \<times> kxhci) outcome" where
  "alloc_physical sz align boundary s =
     andthen (mallocAB sz align boundary s) (\<lambda>(p, s). Inr (MemoryPhysical p s, s))"

definition malloc_physical :: "u64 \<Rightarrow> kxhci \<Rightarrow> u64 \<times> kxhci" where
  "malloc_physical sz s = (let (p, s) = malloc sz s in (MemoryPhysical p s, s))"

definition XHCI_DEQUEUE_PTR :: "u64 \<Rightarrow> u64 \<Rightarrow> u64" where
  "XHCI_DEQUEUE_PTR p c = (p AND NOT 0xF) OR (c AND 1)"

definition XHCI_GetEndpoint :: "u64 \<Rightarrow> u32 \<Rightarrow> kxhci \<Rightarrow> u64" where
  "XHCI_GetEndpoint b n s = b + context_size s * scast n"

definition XHCI_InitializeEndpoint :: "XHCI_Endpoint_Data \<Rightarrow> kxhci \<Rightarrow> (XHCI_Endpoint_Data \<times> kxhci) outcome" where
  "XHCI_InitializeEndpoint d s = andthen (XHCI_getTransferTRBs s) (\<lambda>(p, s). Inr (d\<lparr>trbs := p\<rparr>, s))"

text \<open>Give endpoint \<open>num\<close> of a slot a new ring.\<close>

definition set_trbs :: "nat \<Rightarrow> nat \<Rightarrow> u64 \<Rightarrow> kxhci \<Rightarrow> kxhci outcome" where
  "set_trbs slot num p s =
     andthen (get_slot slot s) (\<lambda>e. andthen (get_data e num) (\<lambda>d.
       Inr (set_slot slot (e\<lparr>ep_endpoints := (ep_endpoints e)[num := d\<lparr>trbs := p\<rparr>]\<rparr>) s)))"

text \<open>
  The input context of \<open>XHCI_SLOT_INITIALIZE\<close>: the control context adds slot and endpoint 0, the slot context names
  the port, the endpoint context is a control endpoint with packets of 8 bytes on the given ring.
\<close>

definition slot_context :: "u64 \<Rightarrow> u64 \<Rightarrow> u32 \<Rightarrow> u64 \<Rightarrow> mem \<Rightarrow> mem" where
  "slot_context ic cz port transfer m =
     (let m = set_U32 m (ic + 4) 3;
          m = put_bits (ic + cz) 27 5 1 m;
          m = put_bits (ic + cz) 0 20 0 m;
          m = put_bits (ic + cz) 20 4 0 m;
          m = put_bits (ic + cz + 4) 16 8 port m;
          e = ic + 2 * cz;
          m = put_bits (e + 4) 3 3 4 m;
          m = put_bits (e + 4) 16 16 8 m;
          m = put_bits (e + 4) 8 8 0 m;
          m = set_U64 m (e + 8) (XHCI_DEQUEUE_PTR transfer 1);
          m = put_bits e 16 8 0 m;
          m = put_bits e 10 5 0 m;
          m = put_bits e 8 2 0 m;
          m = put_bits (e + 4) 1 2 3 m;
          m = put_bits e 0 3 0 m;
          m = put_bits e 15 1 0 m;
          m = put_bits e 24 8 0 m;
          m = put_bits (e + 16) 16 16 8 m
      in put_bits (e + 16) 0 16 8 m)"

definition XHCI_SLOT_INITIALIZE :: "hardware \<Rightarrow> nat \<Rightarrow> u32 \<Rightarrow> kxhci \<Rightarrow> kxhci outcome" where
  "XHCI_SLOT_INITIALIZE hw slot port s =
     andthen (get_slot slot s) (\<lambda>e. andthen (get_data e 0) (\<lambda>d.
     andthen (XHCI_getTransferTRBs s) (\<lambda>(transfer, s).
     andthen (set_trbs slot 0 transfer s) (\<lambda>s.
     let cz = context_size s in
     andthen (alloc_physical (cz * 33) 64 (hub_pagesize s) s) (\<lambda>(ic, s).
     let s = s\<lparr>kmem := memset (kmem s) ic 0 (sint cz * 33)\<rparr>;
         (portsc, s) = reg_read hw (ports s + 16 * scast (port - 1)) s;
         s = s\<lparr>kmem := slot_context ic cz port transfer (kmem s)\<rparr>
     in andthen (get_slot slot s) (\<lambda>e.
     let s = set_slot slot (e\<lparr>contexts := ic\<rparr>) s in
     andthen (alloc_physical (cz * 32) 64 (hub_pagesize s) s) (\<lambda>(oc, s).
     let s = s\<lparr>kmem := memset (kmem s) oc 0 (sint cz * 32)\<rparr>;
         s = s\<lparr>kmem := set_U64 (kmem s) (dcbaa s + 8 * of_nat slot) oc\<rparr>
     in Inr (XHCI_COMMAND (XHCI_CMD_ADDRESS_DEVICE ic (of_nat slot) 0 1) s))))))))"

definition XHCI_CONTEXT_LOAD :: "u64 \<Rightarrow> u64 \<Rightarrow> mem \<Rightarrow> mem" where
  "XHCI_CONTEXT_LOAD dest src m =
     fold (\<lambda>i m. set_U32 m (dest + 4 * of_nat i) (U32 m (src + 4 * of_nat i))) [0..<8] m"

text \<open>\<open>device->intf[0].interface\<close>, with class, protocol and endpoint count at 5, 7 and 4.\<close>

definition device_interface :: "mem \<Rightarrow> u64 \<Rightarrow> u64" where
  "device_interface m device = U64 m (U64 m (device + 8))"

text \<open>One endpoint of \<open>XHCI_CONFIGURE_ENDPOINT0\<close>.\<close>

definition configure_endpoint :: "nat \<Rightarrow> u64 \<Rightarrow> u64 \<Rightarrow> u64 \<Rightarrow> nat \<Rightarrow> kxhci \<Rightarrow> kxhci outcome" where
  "configure_endpoint slot ic cz device i s =
     (let endpoint = U64 (kmem s) (U64 (kmem s) (U64 (kmem s) (device + 8) + 16) + 8 * of_nat i);
          ind = XHCI_GET_INDEX_DESC (kmem s) endpoint;
          e = ic + (2 + of_int ind) * cz;
          type = XHCI_GET_TYPE_DESC (kmem s) endpoint;
          packet = U16 (kmem s) (endpoint + 4)
      in andthen (XHCI_getTransferTRBs s) (\<lambda>(transfer, s).
         if ind < 0 then Inl OutOfBounds else
         andthen (set_trbs slot (nat ind) transfer s) (\<lambda>s.
         let m = kmem s;
             m = put_bits (e + 4) 3 3 type m;
             m = put_bits (e + 4) 16 16 (ucast packet) m;
             m = put_bits (e + 4) 8 8 0 m;
             m = set_U64 m (e + 8) (XHCI_DEQUEUE_PTR transfer 1);
             m = put_bits e 16 8 (ucast (m (endpoint + 6))) m;
             m = put_bits e 10 5 0 m;
             m = put_bits e 8 2 0 m;
             m = put_bits (e + 4) 1 2 3 m;
             m = put_bits (e + 16) 0 16 1024 m;
             m = put_bits e 24 8 (ucast (byte_of packet 1)) m;
             m = put_bits (e + 16) 16 16 (ucast (byte_of packet 0)) m;
             m = put_bits (ic + cz) 27 5 (of_int (max (uint (get_bits m (ic + cz) 27 5)) (ind + 1))) m;
             m = set_U32 m (ic + 4) (U32 m (ic + 4) OR push_bit (nat (ind + 1)) 1)
         in Inr (s\<lparr>kmem := m\<rparr>))))"

definition XHCI_CONFIGURE_ENDPOINT0 :: "nat \<Rightarrow> u32 \<Rightarrow> kxhci \<Rightarrow> kxhci outcome" where
  "XHCI_CONFIGURE_ENDPOINT0 slot conf s =
     andthen (get_slot slot s) (\<lambda>e.
     let device = conf_device e;
         interface = device_interface (kmem s) device
     in if kmem s (interface + 5) \<noteq> 3 then Inr s
     else let cz = context_size s in
     andthen (alloc_physical (cz * 33) 64 (hub_pagesize s) s) (\<lambda>(ic, s).
     let readonly = contexts e;
         s = s\<lparr>kmem := memset (kmem s) ic 0 (33 * sint cz)\<rparr>;
         m = set_U32 (kmem s) ic 0;
         m = set_U32 m (ic + 28) 0;
         m = set_U32 m (ic + 4) 1;
         m = put_bits (ic + cz) 27 5 1 m;
         m = set_U32 m (ic + 28) 1;
         s = s\<lparr>kmem := m\<rparr>
     in andthen (for_each (configure_endpoint slot ic cz device) [0..<unat (kmem s (device_interface (kmem s) device + 4))] s) (\<lambda>s.
     let m = XHCI_CONTEXT_LOAD (ic + cz) (readonly + cz) (kmem s);
         m = put_bits (ic + cz) 27 5 3 m;
         s = s\<lparr>kmem := m\<rparr>
     in andthen (get_slot slot s) (\<lambda>e.
     let s = set_slot slot (e\<lparr>contexts := ic\<rparr>) s
     in andthen (XHCI_TRANSFERS slot 0
          [setup_trb (zero_setup\<lparr>s_TRBType := 2, TransferType := 0, s_TRBTransferLength := 8, s_IOC := 0, s_IDT := 1,
             bmRequestType := 0, bRequest := 9, wValue := ucast conf, wIndex := 0, wLength := 0, s_C := 1\<rparr>),
           status_trb (zero_status\<lparr>t_TRBType := 4, t_D := 0, t_CH := 0, t_IOC := 1, t_C := 1\<rparr>)] s) (\<lambda>s.
     let s = XHCI_DOORBELL (of_nat slot) 1 s;
         s = XHCI_COMMAND (XHCI_CMD_CONFIGURE_CONTEXT ic (of_nat slot) 0 1) s
     in Inr (XHCI_DOORBELL 0 0 s))))))"

definition XHCI_CONFIGURE_SLOT :: "nat \<Rightarrow> kxhci \<Rightarrow> kxhci outcome" where
  "XHCI_CONFIGURE_SLOT slot s =
     andthen (get_slot slot s) (\<lambda>e.
       let ic = contexts e;
           s = s\<lparr>kmem := set_U32 (kmem s) (ic + 4) 1\<rparr>;
           s = XHCI_COMMAND (XHCI_CMD_CONFIGURE_CONTEXT ic (of_nat slot) 0 1) s
       in Inr (XHCI_DOORBELL 0 0 s))"

section \<open>Events\<close>

definition XHCI_PORT_RESET :: "hardware \<Rightarrow> int \<Rightarrow> kxhci \<Rightarrow> kxhci" where
  "XHCI_PORT_RESET hw port s =
     (let a = ports s + 16 * of_int port;
          (v, s) = reg_read hw a s
      in reg_write a ((v AND NOT 2) OR 0x10) s)"

definition XHCI_WRITE_ERDP :: "u64 \<Rightarrow> u64 \<Rightarrow> u32 \<Rightarrow> kxhci \<Rightarrow> kxhci" where
  "XHCI_WRITE_ERDP erdp address flags s =
     reg_write (erdp + 28) (DWORD_hi address) (reg_write (erdp + 24) ((DWORD_lo address AND NOT 0xF) OR flags) s)"

text \<open>The number of accesses of \<open>PORTSC\<close> before the change bit is tested depends on the enabled bit.\<close>

definition read_times :: "hardware \<Rightarrow> nat \<Rightarrow> u64 \<Rightarrow> kxhci \<Rightarrow> kxhci" where
  "read_times hw n a s = ((\<lambda>s. snd (reg_read hw a s)) ^^ n) s"

definition XHCI_ON_PORT_RESET :: "hardware \<Rightarrow> XHCI_TRB \<Rightarrow> kxhci \<Rightarrow> kxhci outcome" where
  "XHCI_ON_PORT_RESET hw t s =
     (let portid = drop_bit 24 (int1 t) AND 0xFF;
          a = ports s + 16 * scast (portid - 1);
          s = read_times hw 3 a s;
          (en, s) = reg_read hw a s;
          s = read_times hw 1 a s;
          s = (if bit en 1 then read_times hw 1 a s else s);
          (v, s) = reg_read hw a s
      in if bit v 21
         then if 0 \<le> portptr s
              then andthen (array_set (portlist s) (nat (portptr s)) portid) (\<lambda>l.
                Inr (XHCI_COMMAND (XHCI_CMD_ENABLE_SLOT 0 1) (s\<lparr>portlist := l, portptr := portptr s + 1\<rparr>)))
              else Inl OutOfBounds
         else Inr (XHCI_PORT_RESET hw (sint portid) s))"

text \<open>The data of the 32 endpoints of a new slot; the ring pointers are what the heap block holds.\<close>

definition new_endpoints :: "mem \<Rightarrow> u64 \<Rightarrow> XHCI_Endpoint_Data list" where
  "new_endpoints m p = map (\<lambda>i. \<lparr>trbs = U64 m (p + 24 * of_nat i), ep_c = 0, ep_sz = 128, CY = 1\<rparr>) [0..<32]"

definition slot_desc :: "nat \<Rightarrow> kxhci \<Rightarrow> u64" where
  "slot_desc slot s = endpoint_base s + 80 * of_nat slot"

definition XHCI_ON_COMMAND_COMPLETE :: "hardware \<Rightarrow> XHCI_TRB \<Rightarrow> kxhci \<Rightarrow> kxhci outcome" where
  "XHCI_ON_COMMAND_COMPLETE hw t s =
     (let code = XHCI_TRB_TYPE (U32 (kmem s) (XHCI_GET_TRB_PTR t + 12));
          status = drop_bit 24 (int3 t) AND 0xFF;
          slot = unat (XHCI_TRB_SLOT (trb_def t))
      in if code = 9
         then if 0 < portptr s
              then andthen (array_get (portlist s) (nat (portptr s - 1))) (\<lambda>port.
                andthen (get_slot slot (s\<lparr>portptr := portptr s - 1\<rparr>)) (\<lambda>e.
                  let (p, s) = malloc_physical (24 * 32) (s\<lparr>portptr := portptr s - 1\<rparr>);
                      s = set_slot slot (e\<lparr>ep_port := port, ep_endpoints := new_endpoints (kmem s) p\<rparr>) s
                  in XHCI_SLOT_INITIALIZE hw slot port s))
              else Inl OutOfBounds
         else if code = 11
         then if status \<noteq> 1 then Inr s
              else andthen (XHCI_GetDescriptor slot (slot_desc slot s) 1 0 8 s) (\<lambda>s.
                Inr (XHCI_DOORBELL (of_nat slot) 1 s))
         else if code = 13
         then if status \<noteq> 1 then Inr s else XHCI_CONFIGURE_SLOT slot s
         else if code = 12
         then andthen (get_slot slot s) (\<lambda>e.
                if ep_done e \<ge> 6
                then andthen (XHCI_SETIDLE slot 2 2 s) (\<lambda>s.
                  Inr ((XHCI_DOORBELL (of_nat slot) 3 s)\<lparr>keyboard_endpoint := Some slot, keyboard_slot := of_nat slot\<rparr>))
                else Inr s)
         else Inr s)"

subsection \<open>Enumeration\<close>

definition bump_done :: "nat \<Rightarrow> kxhci \<Rightarrow> kxhci outcome" where
  "bump_done slot s =
     andthen (get_slot slot s) (\<lambda>e. Inr (set_slot slot (e\<lparr>ep_done := int32 (ep_done e + 1)\<rparr>) s))"

definition numConfigs :: "nat \<Rightarrow> kxhci \<Rightarrow> nat" where
  "numConfigs slot s = unat (kmem s (slot_desc slot s + 17))"

definition get_config :: "u64 \<Rightarrow> nat \<Rightarrow> kxhci \<Rightarrow> u64" where
  "get_config cs i s = U64 (kmem s) (cs + 16 * of_nat i)"

text \<open>Step 0: the packet size is known from the first 8 bytes; ask for the whole device descriptor.\<close>

definition transfer_0 :: "nat \<Rightarrow> kxhci \<Rightarrow> kxhci outcome" where
  "transfer_0 slot s =
     andthen (get_slot slot s) (\<lambda>e.
     let ic = contexts e;
         d = slot_desc slot s;
         m = set_U32 (kmem s) (ic + 4) 3;
         m = put_bits (ic + 2 * context_size s + 4) 16 16 (XHCI_MAX_PACKETS (ucast (U16 m (d + 2))) (ucast (m (d + 7)))) m;
         s = XHCI_COMMAND (XHCI_CMD_EVALUATE_CONTEXT ic (of_nat slot) 0 1) (s\<lparr>kmem := m\<rparr>);
         s = XHCI_DOORBELL 0 0 s
     in andthen (XHCI_GetDescriptor slot d 1 0 18 s) (\<lambda>s.
        bump_done slot (XHCI_DOORBELL (of_nat slot) 1 s)))"

text \<open>Step 1: ask for the header of every configuration descriptor.\<close>

definition ask_config :: "nat \<Rightarrow> u64 \<Rightarrow> u64 \<Rightarrow> nat \<Rightarrow> kxhci \<Rightarrow> kxhci outcome" where
  "ask_config slot cs len i s =
     (let (p, s) = malloc_physical len s;
          s = s\<lparr>kmem := set_U64 (kmem s) (cs + 16 * of_nat i) p\<rparr>
      in XHCI_GetDescriptor slot (get_config cs i s) 2 (of_nat i) (ucast len) s)"

definition transfer_1 :: "nat \<Rightarrow> kxhci \<Rightarrow> kxhci outcome" where
  "transfer_1 slot s =
     andthen (get_slot slot s) (\<lambda>e.
     let n = numConfigs slot s;
         (cs, s) = malloc_physical (16 * of_nat n) s;
         s = set_slot slot (e\<lparr>configs := cs\<rparr>) s
     in andthen (for_each (ask_config slot cs 9) [0..<n] s) (\<lambda>s.
        bump_done slot (XHCI_DOORBELL (of_nat slot) 1 s)))"

text \<open>Step 2: ask for every configuration at its full length, which the header gives at offset 2.\<close>

definition transfer_2 :: "nat \<Rightarrow> kxhci \<Rightarrow> kxhci outcome" where
  "transfer_2 slot s =
     andthen (get_slot slot s) (\<lambda>e.
     let cs = configs e
     in andthen (for_each (\<lambda>i s. ask_config slot cs (ucast (U16 (kmem s) (get_config cs i s + 2))) i s)
          [0..<numConfigs slot s] s) (\<lambda>s.
        bump_done slot (XHCI_DOORBELL (of_nat slot) 1 s)))"

text \<open>Steps 3 and 4: the product name, first its length and then all of it.\<close>

definition ask_product :: "nat \<Rightarrow> u64 \<Rightarrow> kxhci \<Rightarrow> kxhci outcome" where
  "ask_product slot len s =
     andthen (get_slot slot s) (\<lambda>e.
     let (p, s) = malloc_physical len s;
         s = set_slot slot (e\<lparr>desc_product := p\<rparr>) s
     in andthen (XHCI_GetDescriptor slot p 3 (ucast (kmem s (slot_desc slot s + 15))) (ucast len) s) (\<lambda>s.
        bump_done slot (XHCI_DOORBELL (of_nat slot) 1 s)))"

definition transfer_3 :: "nat \<Rightarrow> kxhci \<Rightarrow> kxhci outcome" where
  "transfer_3 slot s = ask_product slot 8 s"

definition transfer_4 :: "nat \<Rightarrow> kxhci \<Rightarrow> kxhci outcome" where
  "transfer_4 slot s =
     andthen (get_slot slot s) (\<lambda>e. ask_product slot (ucast (kmem s (desc_product e))) s)"

text \<open>
  Step 5: parse the configurations; the first interface that is not of the HID class ends the step (\<open>True\<close>, and the
  handler returns at once). A keyboard is configured.
\<close>

fun parse_configs :: "u64 \<Rightarrow> u64 \<Rightarrow> nat list \<Rightarrow> kxhci \<Rightarrow> (bool \<times> kxhci) outcome" where
  "parse_configs device cs [] s = Inr (False, s)"
| "parse_configs device cs (i # is') s =
     andthen (USB_PARSE_CONFIG device (get_config cs i s) s) (\<lambda>s.
       if kmem s (device_interface (kmem s) device + 5) \<noteq> 3 then Inr (True, s)
       else parse_configs device cs is' s)"

definition transfer_5 :: "nat \<Rightarrow> kxhci \<Rightarrow> (bool \<times> kxhci) outcome" where
  "transfer_5 slot s =
     andthen (get_slot slot s) (\<lambda>e.
     let device = conf_device e
     in andthen (parse_configs device (configs e) [0..<numConfigs slot s] s) (\<lambda>(early, s).
        if early then andthen (bump_done slot s) (\<lambda>s. Inr (True, s))
        else andthen (if kmem s (device_interface (kmem s) device + 7) = 1
                      then XHCI_CONFIGURE_ENDPOINT0 slot (ucast (kmem s (U64 (kmem s) device + 5))) s
                      else Inr s) (\<lambda>s.
             andthen (bump_done slot s) (\<lambda>s. Inr (False, s)))))"

text \<open>After step 6 the handler skips all events that are ready and queues a transfer to the keyboard buffer.\<close>

definition event_ready :: "mem \<Rightarrow> u64 \<Rightarrow> bool" where
  "event_ready m a \<longleftrightarrow> XHCI_TRB_TYPE (U32 m (a + 12)) \<noteq> 0 \<and> XHCI_TRB_CYCLE (U32 m (a + 12)) = 1"

partial_function (option) skip_events :: "mem \<Rightarrow> u64 \<Rightarrow> u64 option" where
  "skip_events m a = (if event_ready m a then skip_events m (a + 16) else Some a)"

definition transfer_running :: "nat \<Rightarrow> u64 \<Rightarrow> kxhci \<Rightarrow> (u64 \<times> kxhci) outcome" where
  "transfer_running slot a s =
     (case skip_events (kmem s) a of
        None \<Rightarrow> Inl Hangs
      | Some a \<Rightarrow> andthen (XHCI_NORMAL slot (keyboard_buf s) 8 0 0 s) (\<lambda>s. Inr (a, XHCI_DOORBELL (of_nat slot) 1 s)))"

text \<open>The chain of tests on \<open>done\<close>, each followed by the update of the dequeue pointer.\<close>

definition finish :: "u64 \<Rightarrow> kxhci \<Rightarrow> kxhci outcome" where
  "finish a s = Inr (XHCI_WRITE_ERDP (ints s) a 8 s)"

definition transfer_dispatch :: "nat \<Rightarrow> u64 \<Rightarrow> int \<Rightarrow> kxhci \<Rightarrow> kxhci outcome" where
  "transfer_dispatch slot a n s =
     (if n = 0 then andthen (transfer_0 slot s) (finish a)
      else if n = 1 then andthen (transfer_1 slot s) (finish a)
      else if n = 2 then andthen (transfer_2 slot s) (finish a)
      else if n = 3 then andthen (transfer_3 slot s) (finish a)
      else if n = 4 then andthen (transfer_4 slot s) (finish a)
      else if n = 5 then andthen (transfer_5 slot s) (\<lambda>(early, s). if early then Inr s else finish a s)
      else if n = 6 then andthen (bump_done slot s) (finish a)
      else andthen (transfer_running slot a s) (\<lambda>(a, s). finish a s))"

definition XHCI_ON_TRANSFER_COMPLETE :: "u64 \<Rightarrow> kxhci \<Rightarrow> kxhci outcome" where
  "XHCI_ON_TRANSFER_COMPLETE a s =
     (let t = trb_at (kmem s) a;
          status = drop_bit 24 (int3 t) AND 0xFF;
          slot = unat (XHCI_TRB_SLOT (trb_def t))
      in if status \<noteq> 1 then Inr s
         else andthen (get_slot slot s) (\<lambda>e. transfer_dispatch slot a (ep_done e) s))"

definition XHCI_PROC_EVENT :: "hardware \<Rightarrow> u64 \<Rightarrow> kxhci \<Rightarrow> kxhci outcome" where
  "XHCI_PROC_EVENT hw a s =
     (let t = trb_at (kmem s) a; code = XHCI_TRB_TYPE (trb_def t)
      in if code = 0x22 then XHCI_ON_PORT_RESET hw t s
         else if code = 0x21 then XHCI_ON_COMMAND_COMPLETE hw t s
         else if code = 0x20 then XHCI_ON_TRANSFER_COMPLETE a s
         else Inr s)"

partial_function (option) event_loop :: "hardware \<Rightarrow> u64 \<Rightarrow> kxhci \<Rightarrow> (u64 \<times> kxhci) outcome option" where
  "event_loop hw a s =
     (if event_ready (kmem s) a
      then case XHCI_PROC_EVENT hw a s of
             Inl e \<Rightarrow> Some (Inl e)
           | Inr s \<Rightarrow> event_loop hw (a + 16) s
      else Some (Inr (a, s)))"

text \<open>
  \<open>COMBINE_DWORD(ERDP_high, ERDP_low)\<close> shifts a 32-bit value by 32; it has a meaning for a high word of 0 only.
\<close>

definition read_erdp :: "hardware \<Rightarrow> u64 \<Rightarrow> kxhci \<Rightarrow> (u64 \<times> kxhci) outcome" where
  "read_erdp hw erdp s =
     (let (hi, s) = reg_read hw (erdp + 28) s;
          (lo, s) = reg_read hw (erdp + 24) s
      in if hi \<noteq> 0 then Inl Undefined else Inr (ucast (lo AND NOT 0xF), s))"

definition XHCI_INT :: "hardware \<Rightarrow> kxhci \<Rightarrow> kxhci outcome" where
  "XHCI_INT hw s =
     andthen (read_erdp hw (ints s) s) (\<lambda>(a, s).
     let code = XHCI_TRB_TYPE (U32 (kmem s) (a + 12))
     in case event_loop hw a s of
          None \<Rightarrow> Inl Hangs
        | Some r \<Rightarrow> andthen r (\<lambda>(a, s).
            let s = XHCI_WRITE_ERDP (ints s) a 8 s
            in Inr (XHCI_DOORBELL 0 0 (s\<lparr>hub_flag := code\<rparr>))))"

text \<open>The second interrupter: one key report, and transfers for every event that is ready.\<close>

partial_function (option) report_loop :: "nat \<Rightarrow> u64 \<Rightarrow> kxhci \<Rightarrow> (u64 \<times> kxhci) outcome option" where
  "report_loop slot a s =
     (if event_ready (kmem s) a
      then case XHCI_NORMAL slot (keyboard_buf s) 8 2 2 s of
             Inl e \<Rightarrow> Some (Inl e)
           | Inr s \<Rightarrow> report_loop slot (a + 16) (XHCI_DOORBELL (of_nat slot) 3 s)
      else Some (Inr (a, s)))"

definition XHCI_IRQ8 :: "hardware \<Rightarrow> CharacterDevice \<times> kxhci \<Rightarrow> (CharacterDevice \<times> kxhci) outcome" where
  "XHCI_IRQ8 hw = (\<lambda>(dev, s).
     andthen (USB_KEYBOARD_HANDLER (load_bytes (kmem s) (keyboard_buf s) 8) dev) (\<lambda>dev.
     andthen (read_erdp hw (ints s + 32) s) (\<lambda>(a, s).
     let slot = unat (drop_bit 24 (U32 (kmem s) (a + 12)))
     in case report_loop slot a s of
          None \<Rightarrow> Inl Hangs
        | Some r \<Rightarrow> andthen r (\<lambda>(a, s).
            andthen (XHCI_NORMAL slot (keyboard_buf s) 8 0 0 s) (\<lambda>s.
            let s = XHCI_DOORBELL (of_nat slot) 1 s
            in Inr (dev, XHCI_WRITE_ERDP (ints s + 32) a 8 s))))))"

definition XHCI_KEYBOARD_LOOP :: "kxhci \<Rightarrow> kxhci outcome" where
  "XHCI_KEYBOARD_LOOP s =
     (case keyboard_endpoint s of
        None \<Rightarrow> Inl NullDeref
      | Some slot \<Rightarrow> andthen (XHCI_GetReport slot (report_buf s) s) (\<lambda>s.
          Inr (XHCI_DOORBELL (keyboard_slot s) 1 s)))"

end
