(* ===== verification/XhciEnum.thy ===== *)
theory XhciEnum
  imports Xhci
begin

text \<open>
  Enumeration as a state machine: what the event handlers of \<open>xhci.c\<close> keep of the slot table, the step counter
  \<open>done\<close> of each slot, and the invariant of all states that the handlers reach while the controller
  changes the shared memory at will.
\<close>

section \<open>What every operation keeps\<close>

definition dones :: "kxhci \<Rightarrow> int list" where
  "dones s = map ep_done (endpoints s)"

definition data_ok :: "XHCI_Endpoint_Data \<Rightarrow> bool" where
  "data_ok d \<longleftrightarrow> 0 \<le> ep_c d \<and> ep_c d \<le> 127 \<and> CY d = 1"

definition slot_ok :: "XHCI_Endpoint \<Rightarrow> bool" where
  "slot_ok e \<longleftrightarrow> (ep_endpoints e = [] \<or> length (ep_endpoints e) = 32) \<and> list_all data_ok (ep_endpoints e)"

definition rings_ok :: "kxhci \<Rightarrow> bool" where
  "rings_ok s \<longleftrightarrow> list_all slot_ok (endpoints s)"

definition ports_ok :: "kxhci \<Rightarrow> bool" where
  "ports_ok s \<longleftrightarrow> length (portlist s) = 32 \<and> 0 \<le> portptr s \<and> portptr s \<le> 32"

definition keeps :: "kxhci \<Rightarrow> kxhci \<Rightarrow> bool" where
  "keeps s s' \<longleftrightarrow> dones s' = dones s \<and> (rings_ok s \<longrightarrow> rings_ok s') \<and> (ports_ok s \<longrightarrow> ports_ok s')"

named_theorems hub_keeps \<open>operations that keep the slot table\<close>

lemma keeps_refl [simp]: "keeps s s"
  by (simp add: keeps_def)

lemma keeps_trans: "keeps s t \<Longrightarrow> keeps t u \<Longrightarrow> keeps s u"
  by (auto simp: keeps_def)

lemma keeps_other:
  "endpoints s' = endpoints s \<Longrightarrow> portlist s' = portlist s \<Longrightarrow> portptr s' = portptr s \<Longrightarrow> keeps s s'"
  by (simp add: keeps_def dones_def rings_ok_def ports_ok_def)

lemma keeps_slot:
  assumes "get_slot slot s = Inr e" and "ep_done e' = ep_done e" and "slot_ok e \<Longrightarrow> slot_ok e'"
    and "endpoints t = endpoints s" and "portlist t = portlist s" and "portptr t = portptr s"
  shows "keeps s (set_slot slot e' t)"
proof -
  have "slot < length (endpoints s)" "e = endpoints s ! slot"
    using assms(1) by (auto simp: get_slot_def array_get_def split: if_splits)
  then show ?thesis
    using assms(2-6) by (auto simp: keeps_def set_slot_def dones_def rings_ok_def ports_ok_def map_update list_all_length
        nth_list_update list_update_same_conv)
qed

lemma slot_ok_update:
  assumes "get_data e num = Inr d" and "data_ok d \<Longrightarrow> data_ok d'"
  shows "slot_ok e \<Longrightarrow> slot_ok (e\<lparr>ep_endpoints := (ep_endpoints e)[num := d']\<rparr>)"
proof -
  have "num < length (ep_endpoints e)" "d = ep_endpoints e ! num"
    using assms(1) by (auto simp: get_data_def array_get_def split: if_splits)
  then show "slot_ok e \<Longrightarrow> slot_ok (e\<lparr>ep_endpoints := (ep_endpoints e)[num := d']\<rparr>)"
    using assms(2) by (auto simp: slot_ok_def list_all_length nth_list_update)
qed

lemma keeps_XHCI_COMMAND [hub_keeps]: "keeps s (XHCI_COMMAND t s)"
  by (rule keeps_other) (simp_all add: XHCI_COMMAND_def)

lemma keeps_reg_write [hub_keeps]: "keeps s (reg_write a v s)"
  by (rule keeps_other) (simp_all add: reg_write_def)

lemma keeps_XHCI_DOORBELL [hub_keeps]: "keeps s (XHCI_DOORBELL n v s)"
  by (simp add: XHCI_DOORBELL_def keeps_reg_write)

lemma keeps_reg_read: "reg_read hw a s = (v, s') \<Longrightarrow> keeps s s'"
  by (rule keeps_other) (auto simp: reg_read_def mmio_read_def Let_def)

lemma keeps_read_times [hub_keeps]: "keeps s (read_times hw n a s)"
proof (induction n)
  case 0
  then show ?case by (simp add: read_times_def)
next
  case (Suc n)
  obtain v s' where "reg_read hw a (read_times hw n a s) = (v, s')" by fastforce
  then have "keeps (read_times hw n a s) (read_times hw (Suc n) a s)"
    using keeps_reg_read by (fastforce simp: read_times_def)
  with Suc show ?case by (rule keeps_trans)
qed

lemma keeps_XHCI_TRANSFER: "XHCI_TRANSFER slot num t s = Inr s' \<Longrightarrow> keeps s s'"
proof -
  assume t: "XHCI_TRANSFER slot num t s = Inr s'"
  then obtain e d where ed: "get_slot slot s = Inr e" "get_data e num = Inr d"
    by (auto simp: XHCI_TRANSFER_def andthen_Inr_iff)
  let ?d = "d\<lparr>ep_c := int32 (ring_next (ep_c d) + 1)\<rparr>"
  have "data_ok d \<Longrightarrow> data_ok ?d"
    by (auto simp: data_ok_def ring_next_def)
  from slot_ok_update [OF ed(2) this]
  show ?thesis using t ed by (auto simp: XHCI_TRANSFER_def Let_def intro!: keeps_slot)
qed

lemma keeps_XHCI_TRANSFERS: "XHCI_TRANSFERS slot num ts s = Inr s' \<Longrightarrow> keeps s s'"
proof (induction ts arbitrary: s)
  case Nil
  then show ?case by simp
next
  case (Cons t ts)
  then obtain s1 where "XHCI_TRANSFER slot num t s = Inr s1" "XHCI_TRANSFERS slot num ts s1 = Inr s'"
    by (auto simp: andthen_Inr_iff)
  then show ?case using Cons.IH keeps_XHCI_TRANSFER keeps_trans by blast
qed

declare XHCI_TRANSFERS.simps [simp del]

lemma keeps_requests:
  "XHCI_GetDescriptor slot b t i l s = Inr s' \<Longrightarrow> keeps s s'"
  "XHCI_GetReport slot b s = Inr s' \<Longrightarrow> keeps s s'"
  "XHCI_SETIDLE slot n x s = Inr s' \<Longrightarrow> keeps s s'"
  "XHCI_NORMAL slot b l2 n x s = Inr s' \<Longrightarrow> keeps s s'"
  unfolding XHCI_GetDescriptor_def XHCI_GetReport_def XHCI_SETIDLE_def XHCI_NORMAL_def
  by (erule keeps_XHCI_TRANSFERS)+

lemma keeps_heap:
  "malloc n s = (p, s') \<Longrightarrow> keeps s s'"
  "malloc_physical n s = (p, s') \<Longrightarrow> keeps s s'"
  "mallocAB n a b s = Inr (p, s') \<Longrightarrow> keeps s s'"
  "alloc_physical n a b s = Inr (p, s') \<Longrightarrow> keeps s s'"
  "XHCI_getTransferTRBs s = Inr (p, s') \<Longrightarrow> keeps s s'"
  by (auto simp: malloc_def malloc_physical_def mallocAB_def alloc_physical_def XHCI_getTransferTRBs_def Let_def andthen_Inr_iff
      intro!: keeps_other split: if_splits)

lemma keeps_USB_PARSE_CONFIG: "USB_PARSE_CONFIG c p s = Inr s' \<Longrightarrow> keeps s s'"
  by (auto simp: USB_PARSE_CONFIG_def malloc_def Let_def intro!: keeps_other split: option.splits)

lemma keeps_set_trbs: "set_trbs slot num p s = Inr s' \<Longrightarrow> keeps s s'"
proof -
  assume t: "set_trbs slot num p s = Inr s'"
  then obtain e d where ed: "get_slot slot s = Inr e" "get_data e num = Inr d"
    by (auto simp: set_trbs_def andthen_Inr_iff)
  have "data_ok d \<Longrightarrow> data_ok (d\<lparr>trbs := p\<rparr>)" by (simp add: data_ok_def)
  from slot_ok_update [OF ed(2) this]
  show ?thesis using t ed by (auto simp: set_trbs_def intro!: keeps_slot)
qed

lemma keeps_for_each:
  assumes "\<And>i s s'. f i s = Inr s' \<Longrightarrow> keeps s s'"
  shows "for_each f xs s = Inr s' \<Longrightarrow> keeps s s'"
proof (induction xs arbitrary: s)
  case Nil
  then show ?case by simp
next
  case (Cons x xs)
  then obtain s1 where "f x s = Inr s1" "for_each f xs s1 = Inr s'" by (auto simp: andthen_Inr_iff)
  then show ?case using Cons.IH assms keeps_trans by blast
qed

lemma keeps_mem [hub_keeps]: "keeps s (s\<lparr>kmem := m\<rparr>)"
  by (rule keeps_other) simp_all

lemma keeps_mem_eq: "keeps s (t\<lparr>kmem := m\<rparr>) \<longleftrightarrow> keeps s t"
  by (simp add: keeps_def dones_def rings_ok_def ports_ok_def)

lemma keeps_command_eq: "keeps s (XHCI_COMMAND x t) \<longleftrightarrow> keeps s t"
  by (simp add: keeps_def dones_def rings_ok_def ports_ok_def XHCI_COMMAND_def)

lemma keeps_write_eq: "keeps s (reg_write a v t) \<longleftrightarrow> keeps s t"
  by (simp add: keeps_def dones_def rings_ok_def ports_ok_def reg_write_def)

lemma keeps_doorbell_eq: "keeps s (XHCI_DOORBELL n v t) \<longleftrightarrow> keeps s t"
  by (simp add: XHCI_DOORBELL_def keeps_write_eq)

lemma keeps_flag_eq: "keeps s (t\<lparr>hub_flag := f\<rparr>) \<longleftrightarrow> keeps s t"
  by (simp add: keeps_def dones_def rings_ok_def ports_ok_def)

lemma keeps_keyboard_eq: "keeps s (t\<lparr>keyboard_endpoint := x, keyboard_slot := y\<rparr>) \<longleftrightarrow> keeps s t"
  by (simp add: keeps_def dones_def rings_ok_def ports_ok_def)

lemmas keeps_eqs = keeps_mem_eq keeps_command_eq keeps_write_eq keeps_doorbell_eq keeps_flag_eq keeps_keyboard_eq

lemma keeps_read_eq: "keeps s (snd (reg_read hw a t)) \<longleftrightarrow> keeps s t"
  by (simp add: keeps_def dones_def rings_ok_def ports_ok_def reg_read_def mmio_read_def Let_def)

lemma keeps_malloc_eq: "keeps s (snd (malloc_physical n t)) \<longleftrightarrow> keeps s t"
  by (simp add: keeps_def dones_def rings_ok_def ports_ok_def malloc_physical_def malloc_def Let_def)

lemma get_slot_eqs:
  "get_slot slot (s\<lparr>kmem := m\<rparr>) = get_slot slot s"
  "get_slot slot (snd (reg_read hw a s)) = get_slot slot s"
  "get_slot slot (snd (malloc_physical n s)) = get_slot slot s"
  by (simp_all add: get_slot_def reg_read_def mmio_read_def malloc_physical_def malloc_def Let_def)

text \<open>
  A result that, where it is a state, is kept from \<open>s\<close>. Sequencing goes through the intermediate states, for which
  the operations give the facts below.
\<close>

definition kept :: "kxhci \<Rightarrow> kxhci outcome \<Rightarrow> bool" where
  "kept s x \<longleftrightarrow> (\<forall>s'. x = Inr s' \<longrightarrow> keeps s s')"

lemma kept_andthen: "(\<And>a. x = Inr a \<Longrightarrow> kept s (f a)) \<Longrightarrow> kept s (andthen x f)"
  by (auto simp: kept_def andthen_Inr_iff)

lemma kept_Inr: "keeps s t \<Longrightarrow> kept s (Inr t)"
  by (simp add: kept_def)

lemma kept_Inl [simp]: "kept s (Inl e)"
  by (simp add: kept_def)

lemma keptD: "kept s x \<Longrightarrow> x = Inr s' \<Longrightarrow> keeps s s'"
  by (simp add: kept_def)

lemma keeps_fields:
  assumes "get_slot slot s = Inr e"
  shows "keeps s0 s \<Longrightarrow> keeps s0 (set_slot slot (e\<lparr>contexts := x\<rparr>) s)"
    "keeps s0 s \<Longrightarrow> keeps s0 (set_slot slot (e\<lparr>configs := x\<rparr>) s)"
    "keeps s0 s \<Longrightarrow> keeps s0 (set_slot slot (e\<lparr>desc_product := x\<rparr>) s)"
  by (erule keeps_trans, rule keeps_slot [OF assms]; simp add: slot_ok_def)+

lemma kept_steps:
  "alloc_physical n a b s = Inr (p, s') \<Longrightarrow> keeps s0 s \<Longrightarrow> keeps s0 s'"
  "XHCI_getTransferTRBs s = Inr (p, s') \<Longrightarrow> keeps s0 s \<Longrightarrow> keeps s0 s'"
  "set_trbs slot num q s = Inr s' \<Longrightarrow> keeps s0 s \<Longrightarrow> keeps s0 s'"
  "XHCI_TRANSFERS slot num ts s = Inr s' \<Longrightarrow> keeps s0 s \<Longrightarrow> keeps s0 s'"
  "XHCI_GetDescriptor slot q2 t i l s = Inr s' \<Longrightarrow> keeps s0 s \<Longrightarrow> keeps s0 s'"
  "XHCI_GetReport slot q s = Inr s' \<Longrightarrow> keeps s0 s \<Longrightarrow> keeps s0 s'"
  "XHCI_SETIDLE slot num x s = Inr s' \<Longrightarrow> keeps s0 s \<Longrightarrow> keeps s0 s'"
  "XHCI_NORMAL slot q l2 num x s = Inr s' \<Longrightarrow> keeps s0 s \<Longrightarrow> keeps s0 s'"
  "USB_PARSE_CONFIG q q3 s = Inr s' \<Longrightarrow> keeps s0 s \<Longrightarrow> keeps s0 s'"
  by (blast intro: keeps_trans keeps_heap keeps_set_trbs keeps_XHCI_TRANSFERS keeps_requests keeps_USB_PARSE_CONFIG)+

lemmas keeps_simps = keeps_eqs keeps_read_eq keeps_malloc_eq get_slot_eqs
lemmas kept_intros = kept_andthen kept_Inr

lemma kept_XHCI_SLOT_INITIALIZE: "keeps s0 s \<Longrightarrow> kept s0 (XHCI_SLOT_INITIALIZE hw slot port s)"
  unfolding XHCI_SLOT_INITIALIZE_def Let_def split_beta
  by (intro kept_intros) (auto simp: keeps_simps elim!: kept_steps intro!: keeps_fields)

lemma kept_configure_endpoint: "keeps s0 s \<Longrightarrow> kept s0 (configure_endpoint slot ic cz device i s)"
  unfolding configure_endpoint_def Let_def split_beta
  by (intro kept_intros) (auto simp: keeps_simps elim!: kept_steps intro!: kept_intros)

lemma keeps_for_each_from:
  assumes "\<And>i t. keeps s0 t \<Longrightarrow> kept s0 (f i t)"
  shows "for_each f xs s = Inr s' \<Longrightarrow> keeps s0 s \<Longrightarrow> keeps s0 s'"
proof (induction xs arbitrary: s)
  case Nil
  then show ?case by simp
next
  case (Cons x xs)
  then obtain s1 where "f x s = Inr s1" "for_each f xs s1 = Inr s'" by (auto simp: andthen_Inr_iff)
  then show ?case using Cons assms keptD by blast
qed

lemma kept_configure_loop:
  "for_each (configure_endpoint slot ic cz device) xs s = Inr s' \<Longrightarrow> keeps s0 s \<Longrightarrow> keeps s0 s'"
  by (rule keeps_for_each_from [OF kept_configure_endpoint])

lemma kept_XHCI_CONFIGURE_ENDPOINT0: "keeps s0 s \<Longrightarrow> kept s0 (XHCI_CONFIGURE_ENDPOINT0 slot conf s)"
  unfolding XHCI_CONFIGURE_ENDPOINT0_def Let_def split_beta
  by (intro kept_intros) (auto simp: keeps_simps elim!: kept_steps kept_configure_loop intro!: kept_intros keeps_fields)

lemma kept_XHCI_CONFIGURE_SLOT: "keeps s0 s \<Longrightarrow> kept s0 (XHCI_CONFIGURE_SLOT slot s)"
  unfolding XHCI_CONFIGURE_SLOT_def Let_def
  by (intro kept_intros) (auto simp: keeps_simps)

lemma keeps_portptr:
  "keeps s (t\<lparr>portlist := l, portptr := n\<rparr>) \<longleftrightarrow>
     dones t = dones s \<and> (rings_ok s \<longrightarrow> rings_ok t) \<and> (ports_ok s \<longrightarrow> length l = 32 \<and> 0 \<le> n \<and> n \<le> 32)"
  by (auto simp: keeps_def dones_def rings_ok_def ports_ok_def)

lemma kept_XHCI_ON_PORT_RESET: "kept s (XHCI_ON_PORT_RESET hw t s)"
proof -
  have eq: "portlist (snd (reg_read hw a u)) = portlist u" "portptr (snd (reg_read hw a u)) = portptr u" for a u
    by (simp_all add: reg_read_def mmio_read_def Let_def)
  have rd: "portlist (read_times hw n a u) = portlist u \<and> portptr (read_times hw n a u) = portptr u" for n a u
    by (induction n) (simp_all add: read_times_def eq)
  have step: "keeps s (u\<lparr>portlist := (portlist s)[nat (portptr s) := x], portptr := portptr s + 1\<rparr>)"
    if "keeps s u" "nat (portptr s) < length (portlist s)" for u x
    unfolding keeps_portptr using that by (auto simp: keeps_def ports_ok_def)
  note rt = keeps_trans [OF _ keeps_read_times]
  show ?thesis
    unfolding XHCI_ON_PORT_RESET_def XHCI_PORT_RESET_def Let_def split_beta
    by (auto simp: keeps_simps array_set_def eq rd intro!: kept_intros step rt split: if_splits)
qed

text \<open>A newly enabled slot gets 32 fresh endpoints.\<close>

lemma keeps_new_slot:
  assumes "get_slot slot s = Inr e" and "keeps s0 s"
  shows "keeps s0 (set_slot slot (e\<lparr>ep_port := port, ep_endpoints := new_endpoints m p\<rparr>) s)"
proof (rule keeps_trans [OF assms(2)], rule keeps_slot [OF assms(1)])
  show "slot_ok (e\<lparr>ep_port := port, ep_endpoints := new_endpoints m p\<rparr>)"
    by (simp add: slot_ok_def new_endpoints_def list_all_iff data_ok_def)
qed simp_all

lemma keeps_portptr_down:
  "0 < portptr s \<Longrightarrow> keeps s (s\<lparr>portptr := portptr s - 1\<rparr>)"
  by (auto simp: keeps_def dones_def rings_ok_def ports_ok_def)

lemma kept_XHCI_ON_COMMAND_COMPLETE: "kept s (XHCI_ON_COMMAND_COMPLETE hw t s)"
proof -
  note down = keeps_portptr_down [of s]
  show ?thesis
    unfolding XHCI_ON_COMMAND_COMPLETE_def Let_def split_beta
    by (auto simp: keeps_simps intro!: kept_intros kept_XHCI_SLOT_INITIALIZE kept_XHCI_CONFIGURE_SLOT keeps_new_slot down
        elim!: kept_steps)
qed

section \<open>The step counter\<close>

text \<open>The steps of the enumeration, each up to its increment of \<open>done\<close>.\<close>

definition bumped :: "kxhci \<Rightarrow> nat \<Rightarrow> kxhci outcome \<Rightarrow> bool" where
  "bumped s slot x \<longleftrightarrow> (\<forall>s'. x = Inr s' \<longrightarrow> (\<exists>t. keeps s t \<and> bump_done slot t = Inr s'))"

lemma bumped_andthen: "(\<And>a. x = Inr a \<Longrightarrow> bumped s slot (f a)) \<Longrightarrow> bumped s slot (andthen x f)"
  by (auto simp: bumped_def andthen_Inr_iff)

lemma bumped_done: "keeps s t \<Longrightarrow> bumped s slot (bump_done slot t)"
  by (auto simp: bumped_def)

lemma kept_ask_config: "keeps s0 s \<Longrightarrow> kept s0 (ask_config slot cs len i s)"
  unfolding ask_config_def Let_def split_beta
  by (auto simp: kept_def keeps_simps elim!: kept_steps)

lemma kept_ask_loop:
  "for_each (ask_config slot cs len) xs s = Inr s' \<Longrightarrow> keeps s0 s \<Longrightarrow> keeps s0 s'"
  "for_each (\<lambda>i s. ask_config slot cs (g i s) i s) xs s = Inr s' \<Longrightarrow> keeps s0 s \<Longrightarrow> keeps s0 s'"
  by (rule keeps_for_each_from [OF kept_ask_config], assumption+)+

lemma transfers_bump:
  "bumped s slot (transfer_0 slot s)" "bumped s slot (transfer_1 slot s)" "bumped s slot (transfer_2 slot s)"
  "bumped s slot (transfer_3 slot s)" "bumped s slot (transfer_4 slot s)"
  unfolding transfer_0_def transfer_1_def transfer_2_def transfer_3_def transfer_4_def ask_product_def Let_def split_beta
  by (auto simp: keeps_simps intro!: bumped_andthen bumped_done keeps_fields elim!: kept_steps kept_ask_loop)

lemma keeps_parse_configs:
  "parse_configs device cs xs s = Inr (b, s') \<Longrightarrow> keeps s0 s \<Longrightarrow> keeps s0 s'"
proof (induction xs arbitrary: s)
  case Nil
  then show ?case by simp
next
  case (Cons x xs)
  from Cons.prems(1) obtain s1 where s1: "USB_PARSE_CONFIG device (get_config cs x s) s = Inr s1"
    "(if kmem s1 (device_interface (kmem s1) device + 5) \<noteq> 3 then Inr (True, s1) else parse_configs device cs xs s1) = Inr (b, s')"
    by (auto simp: andthen_Inr_iff)
  have "keeps s0 s1" using kept_steps(9) [OF s1(1) Cons.prems(2)] .
  with s1(2) Cons.IH show ?case by (auto split: if_splits)
qed

lemma transfer_5_bump:
  assumes "transfer_5 slot s = Inr (b, s')"
  shows "\<exists>t. keeps s t \<and> bump_done slot t = Inr s'"
proof -
  from assms obtain e early s1 where e: "get_slot slot s = Inr e"
    "parse_configs (conf_device e) (configs e) [0..<numConfigs slot s] s = Inr (early, s1)"
    by (auto simp: transfer_5_def andthen_Inr_iff Let_def)
  have k: "keeps s s1" using keeps_parse_configs [OF e(2)] by simp
  show ?thesis
  proof (cases early)
    case True
    then show ?thesis using assms e k by (auto simp: transfer_5_def andthen_Inr_iff Let_def)
  next
    case False
    let ?c = "if kmem s1 (device_interface (kmem s1) (conf_device e) + 7) = 1
      then XHCI_CONFIGURE_ENDPOINT0 slot (ucast (kmem s1 (U64 (kmem s1) (conf_device e) + 5))) s1 else Inr s1"
    from assms e False obtain t where t: "?c = Inr t" "bump_done slot t = Inr s'"
      by (auto simp: transfer_5_def andthen_Inr_iff Let_def)
    have "keeps s t"
      using t(1) k keptD [OF kept_XHCI_CONFIGURE_ENDPOINT0 [OF k]] by (auto split: if_splits)
    with t(2) show ?thesis by blast
  qed
qed

lemma bump_done_dones:
  assumes "bump_done slot t = Inr s'" and "0 \<le> dones t ! slot" and "dones t ! slot < 7"
  shows "dones s' = (dones t)[slot := dones t ! slot + 1]" and "rings_ok t \<Longrightarrow> rings_ok s'" and "ports_ok t \<Longrightarrow> ports_ok s'"
proof -
  from assms(1) have b: "slot < length (endpoints t)"
    "s' = set_slot slot ((endpoints t ! slot)\<lparr>ep_done := int32 (ep_done (endpoints t ! slot) + 1)\<rparr>) t"
    by (auto simp: bump_done_def get_slot_def array_get_def split: if_splits)
  then have d: "dones t ! slot = ep_done (endpoints t ! slot)" by (simp add: dones_def)
  show "dones s' = (dones t)[slot := dones t ! slot + 1]"
    using assms(2,3) b d by (simp add: dones_def set_slot_def map_update)
  show "rings_ok t \<Longrightarrow> rings_ok s'"
    using b by (auto simp: rings_ok_def set_slot_def list_all_length nth_list_update slot_ok_def)
  show "ports_ok t \<Longrightarrow> ports_ok s'" using b by (simp add: ports_ok_def set_slot_def)
qed

lemma finish_same:
  assumes "finish a t = Inr s'"
  shows "dones s' = dones t" "rings_ok s' = rings_ok t" "ports_ok s' = ports_ok t" "keeps s t \<Longrightarrow> keeps s s'"
  using assms by (auto simp: finish_def XHCI_WRITE_ERDP_def reg_write_def dones_def rings_ok_def ports_ok_def keeps_def)

lemma keeps_transfer_running: "transfer_running slot a s = Inr (a', s') \<Longrightarrow> keeps s s'"
  by (auto simp: transfer_running_def andthen_Inr_iff keeps_simps split: option.splits elim!: kept_steps)

text \<open>Each of the first seven states makes one step: a result that differs from an incremented one in the registers only.\<close>

definition stepped :: "kxhci \<Rightarrow> nat \<Rightarrow> kxhci \<Rightarrow> bool" where
  "stepped s slot s' \<longleftrightarrow> (\<exists>t u. keeps s t \<and> bump_done slot t = Inr u \<and>
     dones s' = dones u \<and> rings_ok s' = rings_ok u \<and> ports_ok s' = ports_ok u)"

lemma bumped_finish:
  assumes "bumped s slot x" and "andthen x (finish a) = Inr s'"
  shows "stepped s slot s'"
proof -
  from assms(2) obtain u where u: "x = Inr u" "finish a u = Inr s'" by (auto simp: andthen_Inr_iff)
  with assms(1) obtain t where "keeps s t" "bump_done slot t = Inr u" by (auto simp: bumped_def)
  then show ?thesis using finish_same [OF u(2)] by (auto simp: stepped_def)
qed

lemma transfer_5_stepped:
  assumes "andthen (transfer_5 slot s) (\<lambda>(early, s). if early then Inr s else finish a s) = Inr s'"
  shows "stepped s slot s'"
proof -
  from assms obtain b u where u: "transfer_5 slot s = Inr (b, u)" "(if b then Inr u else finish a u) = Inr s'"
    by (auto simp: andthen_Inr_iff)
  from transfer_5_bump [OF u(1)] obtain t where "keeps s t" "bump_done slot t = Inr u" by blast
  then show ?thesis using u(2) finish_same [of a u s'] by (auto simp: stepped_def split: if_splits)
qed

lemma transfer_dispatch_cases:
  assumes "transfer_dispatch slot a n s = Inr s'"
  shows "if 0 \<le> n \<and> n < 7 then stepped s slot s' else keeps s s'"
proof -
  consider (low) "n \<in> {0, 1, 2, 3, 4}" | (five) "n = 5" | (six) "n = 6" | (out) "n < 0 \<or> 6 < n" by force
  then show ?thesis
  proof cases
    case low
    then show ?thesis
      using assms transfers_bump [of s slot, THEN bumped_finish, of a s'] by (auto simp: transfer_dispatch_def)
  next
    case five
    then show ?thesis using assms transfer_5_stepped by (simp add: transfer_dispatch_def)
  next
    case six
    then show ?thesis
      using assms bumped_finish [OF bumped_done, of s s] by (simp add: transfer_dispatch_def)
  next
    case out
    then obtain a' u where "transfer_running slot a s = Inr (a', u)" "finish a' u = Inr s'"
      using assms by (auto simp: transfer_dispatch_def andthen_Inr_iff)
    then show ?thesis using out keeps_transfer_running finish_same(4) by auto
  qed
qed

lemma keeps_ok: "keeps s t \<Longrightarrow> dones t = dones s" "keeps s t \<Longrightarrow> rings_ok s \<Longrightarrow> rings_ok t" "keeps s t \<Longrightarrow> ports_ok s \<Longrightarrow> ports_ok t"
  by (simp_all add: keeps_def)

lemma length_dones [simp]: "length (dones s) = length (endpoints s)"
  by (simp add: dones_def)

lemma stepped_dones:
  assumes "stepped s slot s'" and "0 \<le> dones s ! slot" and "dones s ! slot < 7"
  shows "dones s' = (dones s)[slot := dones s ! slot + 1]" and "rings_ok s \<Longrightarrow> rings_ok s'" and "ports_ok s \<Longrightarrow> ports_ok s'"
proof -
  from assms(1) obtain t u where tu: "keeps s t" "bump_done slot t = Inr u"
    "dones s' = dones u" "rings_ok s' = rings_ok u" "ports_ok s' = ports_ok u" by (auto simp: stepped_def)
  note k = keeps_ok [OF tu(1)]
  note b = bump_done_dones [OF tu(2)]
  show "dones s' = (dones s)[slot := dones s ! slot + 1]" using b(1) k(1) tu(3) assms(2,3) by simp
  show "rings_ok s \<Longrightarrow> rings_ok s'" "ports_ok s \<Longrightarrow> ports_ok s'" using b(2,3) k tu(4,5) assms(2,3) by simp_all
qed

definition hub_inv :: "kxhci \<Rightarrow> bool" where
  "hub_inv s \<longleftrightarrow> rings_ok s \<and> ports_ok s \<and> (\<forall>d \<in> set (dones s). 0 \<le> d \<and> d \<le> 7)"

text \<open>The slots only move forward.\<close>

definition forward :: "kxhci \<Rightarrow> kxhci \<Rightarrow> bool" where
  "forward s s' \<longleftrightarrow> hub_inv s' \<and> length (endpoints s') = length (endpoints s) \<and>
     (\<forall>i < length (endpoints s). dones s ! i \<le> dones s' ! i)"

lemma forward_refl: "hub_inv s \<Longrightarrow> forward s s"
  by (simp add: forward_def)

lemma forward_trans: "forward s t \<Longrightarrow> forward t u \<Longrightarrow> forward s u"
  by (fastforce simp: forward_def)

lemma forward_step: "forward s0 s \<Longrightarrow> (hub_inv s \<Longrightarrow> forward s s') \<Longrightarrow> forward s0 s'"
  using forward_trans by (simp add: forward_def)

lemma keeps_forward: "keeps s s' \<Longrightarrow> hub_inv s \<Longrightarrow> forward s s'"
  using length_dones [of s] length_dones [of s'] by (auto simp: forward_def hub_inv_def keeps_def simp del: length_dones)

lemma transfer_complete_effect:
  assumes "XHCI_ON_TRANSFER_COMPLETE a s = Inr s'" and "hub_inv s"
  defines "t \<equiv> trb_at (kmem s) a"
  defines "slot \<equiv> unat (XHCI_TRB_SLOT (trb_def t))"
  shows "rings_ok s' \<and> ports_ok s' \<and>
    (if drop_bit 24 (int3 t) AND 0xFF = 1
     then slot < length (endpoints s) \<and> dones s' = (dones s)[slot := min 7 (dones s ! slot + 1)] else s' = s)"
proof (cases "drop_bit 24 (int3 t) AND 0xFF = 1")
  case False
  then show ?thesis using assms(1,2) by (simp add: XHCI_ON_TRANSFER_COMPLETE_def Let_def hub_inv_def flip: t_def)
next
  case True
  then obtain e where e: "get_slot slot s = Inr e" "transfer_dispatch slot a (ep_done e) s = Inr s'"
    using assms(1) by (auto simp: XHCI_ON_TRANSFER_COMPLETE_def Let_def andthen_Inr_iff simp flip: t_def slot_def)
  then have i: "slot < length (endpoints s)" "ep_done e = dones s ! slot"
    by (auto simp: get_slot_def array_get_def dones_def split: if_splits)
  have d: "0 \<le> dones s ! slot" "dones s ! slot \<le> 7" "rings_ok s" "ports_ok s"
    using assms(2) i(1) nth_mem [of slot "dones s"] by (auto simp: hub_inv_def)
  note c = transfer_dispatch_cases [OF e(2), unfolded i(2)]
  show ?thesis
  proof (cases "dones s ! slot < 7")
    case True
    with c d have "stepped s slot s'" by simp
    from stepped_dones [OF this d(1) True] d True i(1) \<open>drop_bit 24 (int3 t) AND 0xFF = 1\<close> show ?thesis by simp
  next
    case False
    with c have "keeps s s'" by simp
    moreover have "(dones s)[slot := 7] = dones s" using False d(2) i(1) by (simp add: list_update_same_conv)
    ultimately show ?thesis
      using keeps_ok [of s s'] d False i(1) \<open>drop_bit 24 (int3 t) AND 0xFF = 1\<close> by simp
  qed
qed

text \<open>
  C20: A transfer event advances the enumeration of its slot by exactly one of the seven steps and leaves a running slot and all
  other slots where they are; a failed transfer changes nothing at all.
\<close>

theorem XHCI_ON_TRANSFER_COMPLETE_advances:
  assumes "XHCI_ON_TRANSFER_COMPLETE a s = Inr s'" and "hub_inv s"
  shows "(drop_bit 24 (int3 (trb_at (kmem s) a)) AND 0xFF = 1 \<longrightarrow>
      dones s' = (let slot = unat (XHCI_TRB_SLOT (trb_def (trb_at (kmem s) a)))
                  in (dones s)[slot := min 7 (dones s ! slot + 1)])) \<and>
    (drop_bit 24 (int3 (trb_at (kmem s) a)) AND 0xFF \<noteq> 1 \<longrightarrow> s' = s)"
  using transfer_complete_effect [OF assms] by (auto simp: Let_def)

text \<open>A completed transfer on slot 0 at address 0x9000, in the last step of the enumeration.\<close>

definition demo_step6 :: kxhci where
  "demo_step6 = demo_hub\<lparr>kmem := put_trb (\<lambda>_. 0) 0x9000 \<lparr>int1 = 0, int2 = 0, int3 = 0x01000000, trb_def = 0x8001\<rparr>,
     endpoints := [demo_endpoint\<lparr>ep_done := 6\<rparr>]\<rparr>"

lemma demo_step6_trb: "trb_at (kmem demo_step6) 0x9000 = \<lparr>int1 = 0, int2 = 0, int3 = 0x01000000, trb_def = 0x8001\<rparr>"
  by (simp add: demo_step6_def)

theorem XHCI_ON_TRANSFER_COMPLETE_advances_witness:
  "\<exists>s'. XHCI_ON_TRANSFER_COMPLETE 0x9000 demo_step6 = Inr s' \<and> dones s' = [7]"
proof -
  have d: "dones demo_step6 = [6]" by (simp add: demo_step6_def dones_def)
  have "hub_inv demo_step6"
    by (simp add: hub_inv_def rings_ok_def ports_ok_def d)
       (simp add: demo_step6_def demo_hub_def demo_endpoint_def slot_ok_def list_all_iff data_ok_def)
  moreover have "\<exists>s'. XHCI_ON_TRANSFER_COMPLETE 0x9000 demo_step6 = Inr s'"
    by (simp add: XHCI_ON_TRANSFER_COMPLETE_def Let_def demo_step6_trb XHCI_TRB_SLOT_def get_slot_def array_get_def
        transfer_dispatch_def bump_done_def finish_def)
       (simp add: demo_step6_def)
  ultimately show ?thesis
    using XHCI_ON_TRANSFER_COMPLETE_advances [of "0x9000" demo_step6] d
    by (auto simp: demo_step6_trb XHCI_TRB_SLOT_def)
qed

section \<open>Reachable states\<close>

lemma forward_transfer_complete:
  assumes "XHCI_ON_TRANSFER_COMPLETE a s = Inr s'" and "hub_inv s"
  shows "forward s s'"
proof (cases "drop_bit 24 (int3 (trb_at (kmem s) a)) AND 0xFF = 1")
  case False
  then show ?thesis using transfer_complete_effect [OF assms] assms(2) forward_refl by simp
next
  case True
  let ?slot = "unat (XHCI_TRB_SLOT (trb_def (trb_at (kmem s) a)))"
  have eff: "rings_ok s'" "ports_ok s'" "?slot < length (endpoints s)"
    "dones s' = (dones s)[?slot := min 7 (dones s ! ?slot + 1)]"
    using transfer_complete_effect [OF assms] True by simp_all
  have d: "0 \<le> dones s ! i \<and> dones s ! i \<le> 7" if "i < length (endpoints s)" for i
    using assms(2) that nth_mem [of i "dones s"] by (auto simp: hub_inv_def)
  have "0 \<le> x \<and> x \<le> 7" if "x \<in> set (dones s')" for x
    using that d eff(3) by (auto simp: in_set_conv_nth eff(4) nth_list_update split: if_splits)
  moreover have "length (endpoints s') = length (endpoints s)"
    using arg_cong [OF eff(4), of length] by simp
  moreover have "dones s ! i \<le> dones s' ! i" if "i < length (endpoints s)" for i
    using d [OF that] that by (cases "i = ?slot") (auto simp: eff(4))
  ultimately show ?thesis using eff by (auto simp: forward_def hub_inv_def)
qed

lemma forward_XHCI_PROC_EVENT:
  assumes "XHCI_PROC_EVENT hw a s = Inr s'" and "hub_inv s"
  shows "forward s s'"
  using assms forward_transfer_complete [of a s s'] keeps_forward [of s s'] forward_refl
    keptD [OF kept_XHCI_ON_PORT_RESET] keptD [OF kept_XHCI_ON_COMMAND_COMPLETE]
  by (auto simp: XHCI_PROC_EVENT_def Let_def split: if_splits)

lemma forward_event_loop:
  assumes "event_loop hw a s = Some (Inr (a', s'))" and "hub_inv s"
  shows "forward s s'"
proof -
  let ?P = "\<lambda>(hw :: hardware) (a :: u64) s (r :: (u64 \<times> kxhci) outcome). \<forall>a' s'. r = Inr (a', s') \<longrightarrow> hub_inv s \<longrightarrow> forward s s'"
  have "?P hw a s (Inr (a', s'))"
    using assms(1)
  proof (rule event_loop.raw_induct [where P = ?P, rotated])
    fix f hw a s r
    assume ih: "\<And>hw a s r. f hw a s = Some r \<Longrightarrow> ?P hw a s r"
      and r: "(if event_ready (kmem s) a
        then case XHCI_PROC_EVENT hw a s of Inl e \<Rightarrow> Some (Inl e) | Inr s \<Rightarrow> f hw (a + 16) s
        else Some (Inr (a, s))) = Some r"
    show "?P hw a s r"
    proof (intro allI impI)
      fix a' s' assume r': "r = Inr (a', s')" and inv: "hub_inv s"
      show "forward s s'"
      proof (cases "event_ready (kmem s) a")
        case False
        then show ?thesis using r r' inv forward_refl by simp
      next
        case True
        then obtain t where t: "XHCI_PROC_EVENT hw a s = Inr t" "f hw (a + 16) t = Some r"
          using r r' by (auto split: sum.splits)
        have "forward s t" by (rule forward_XHCI_PROC_EVENT [OF t(1) inv])
        moreover from this have "forward t s'" using ih [OF t(2)] r' by (auto simp: forward_def)
        ultimately show ?thesis by (rule forward_trans)
      qed
    qed
  qed
  with assms(2) show ?thesis by blast
qed

lemma forward_XHCI_INT:
  assumes "XHCI_INT hw s = Inr s'" and "hub_inv s"
  shows "forward s s'"
proof -
  from assms(1) obtain a t a' u where t: "read_erdp hw (ints s) s = Inr (a, t)" "event_loop hw a t = Some (Inr (a', u))"
    "s' = XHCI_DOORBELL 0 0 ((XHCI_WRITE_ERDP (ints u) a' 8 u)\<lparr>hub_flag := XHCI_TRB_TYPE (U32 (kmem t) (a + 12))\<rparr>)"
    by (auto simp: XHCI_INT_def andthen_Inr_iff Let_def split: option.splits)
  have "keeps s t"
    using t(1) by (auto simp: read_erdp_def Let_def split_beta keeps_simps split: if_splits)
  then have "forward s t" by (rule keeps_forward [OF _ assms(2)])
  moreover from this have "forward t u" using forward_event_loop [OF t(2)] by (simp add: forward_def)
  moreover have "keeps u s'" by (simp add: t(3) XHCI_WRITE_ERDP_def keeps_simps)
  moreover from \<open>forward t u\<close> have "hub_inv u" by (simp add: forward_def)
  ultimately show ?thesis using keeps_forward forward_trans by blast
qed

lemma keeps_report_loop:
  assumes "report_loop slot a s = Some (Inr (a', s'))"
  shows "keeps s s'"
proof -
  let ?P = "\<lambda>(slot :: nat) (a :: u64) s (r :: (u64 \<times> kxhci) outcome). \<forall>a' s'. r = Inr (a', s') \<longrightarrow> keeps s s'"
  have "?P slot a s (Inr (a', s'))"
    using assms
  proof (rule report_loop.raw_induct [where P = ?P, rotated])
    fix f slot a s r
    assume ih: "\<And>slot a s r. f slot a s = Some r \<Longrightarrow> ?P slot a s r"
      and r: "(if event_ready (kmem s) a
        then case XHCI_NORMAL slot (keyboard_buf s) 8 2 2 s of Inl e \<Rightarrow> Some (Inl e)
             | Inr s \<Rightarrow> f slot (a + 16) (XHCI_DOORBELL (of_nat slot) 3 s)
        else Some (Inr (a, s))) = Some r"
    show "?P slot a s r"
    proof (intro allI impI)
      fix a' s' assume r': "r = Inr (a', s')"
      show "keeps s s'"
      proof (cases "event_ready (kmem s) a")
        case False
        then show ?thesis using r r' by simp
      next
        case True
        then obtain t where t: "XHCI_NORMAL slot (keyboard_buf s) 8 2 2 s = Inr t"
          "f slot (a + 16) (XHCI_DOORBELL (of_nat slot) 3 t) = Some r"
          using r r' by (auto split: sum.splits)
        have "keeps s (XHCI_DOORBELL (of_nat slot) 3 t)" using keeps_requests(4) [OF t(1)] by (simp add: keeps_simps)
        moreover have "keeps (XHCI_DOORBELL (of_nat slot) 3 t) s'" using ih [OF t(2)] r' by blast
        ultimately show ?thesis by (rule keeps_trans)
      qed
    qed
  qed
  then show ?thesis by blast
qed

lemma keeps_XHCI_IRQ8:
  assumes "XHCI_IRQ8 hw (dev, s) = Inr (dev', s')"
  shows "keeps s s'"
proof -
  from assms obtain a t slot a' u v where t: "read_erdp hw (ints s + 32) s = Inr (a, t)"
    "report_loop slot a t = Some (Inr (a', u))" "XHCI_NORMAL slot (keyboard_buf u) 8 0 0 u = Inr v"
    "s' = XHCI_WRITE_ERDP (ints (XHCI_DOORBELL (of_nat slot) 1 v) + 32) a' 8 (XHCI_DOORBELL (of_nat slot) 1 v)"
    by (auto simp: XHCI_IRQ8_def andthen_Inr_iff Let_def split: option.splits)
  have "keeps s t"
    using t(1) by (auto simp: read_erdp_def Let_def split_beta keeps_simps split: if_splits)
  moreover have "keeps t u" by (rule keeps_report_loop [OF t(2)])
  moreover have "keeps u v" by (rule keeps_requests(4) [OF t(3)])
  moreover have "keeps v s'" by (simp add: t(4) XHCI_WRITE_ERDP_def keeps_simps)
  ultimately show ?thesis by (blast intro: keeps_trans)
qed

lemma keeps_XHCI_KEYBOARD_LOOP: "XHCI_KEYBOARD_LOOP s = Inr s' \<Longrightarrow> keeps s s'"
  by (auto simp: XHCI_KEYBOARD_LOOP_def andthen_Inr_iff keeps_simps split: option.splits elim!: kept_steps)

text \<open>
  The states reached from \<open>s0\<close>: the controller writes to memory, and interrupts of either kind and polls of the keyboard
  come in any order, each with its own answers of the registers.
\<close>

inductive reachable :: "kxhci \<Rightarrow> kxhci \<Rightarrow> bool" for s0 where
  start: "reachable s0 s0"
| dma: "reachable s0 s \<Longrightarrow> reachable s0 (s\<lparr>kmem := m\<rparr>)"
| interrupt: "reachable s0 s \<Longrightarrow> XHCI_INT hw s = Inr s' \<Longrightarrow> reachable s0 s'"
| keyboard: "reachable s0 s \<Longrightarrow> XHCI_IRQ8 hw (dev, s) = Inr (dev', s') \<Longrightarrow> reachable s0 s'"
| poll: "reachable s0 s \<Longrightarrow> XHCI_KEYBOARD_LOOP s = Inr s' \<Longrightarrow> reachable s0 s'"

inductive_cases reachableE: "reachable s0 s"

lemma reachable_imp_forward:
  assumes "reachable s0 s" and "hub_inv s0"
  shows "forward s0 s"
  using assms(1)
proof (induction rule: reachable.induct)
  case start
  show ?case by (rule forward_refl [OF assms(2)])
next
  case (dma s m)
  show ?case by (rule forward_step [OF dma.IH]) (rule keeps_forward [OF keeps_mem])
next
  case (interrupt s hw s')
  show ?case by (rule forward_step [OF interrupt.IH]) (rule forward_XHCI_INT [OF interrupt.hyps(2)])
next
  case (keyboard s hw dev dev' s')
  show ?case by (rule forward_step [OF keyboard.IH]) (rule keeps_forward [OF keeps_XHCI_IRQ8 [OF keyboard.hyps(2)]])
next
  case (poll s s')
  show ?case by (rule forward_step [OF poll.IH]) (rule keeps_forward [OF keeps_XHCI_KEYBOARD_LOOP [OF poll.hyps(2)]])
qed

text \<open>
  C21: In every reachable state the ring positions are within their rings with the cycle bit they started with, the list of
  ports being reset is within its array, every slot is in one of the eight states of the enumeration, and no slot has
  moved back, whatever the controller writes and however the interrupts interleave.
\<close>

theorem reachable_forward:
  assumes "reachable s0 s" and "hub_inv s0"
  shows "hub_inv s \<and> length (endpoints s) = length (endpoints s0) \<and>
    (\<forall>i < length (endpoints s0). dones s0 ! i \<le> dones s ! i)"
  using reachable_imp_forward [OF assms] by (simp add: forward_def)

lemma hub_inv_demo: "hub_inv demo_hub"
  by (simp add: hub_inv_def rings_ok_def ports_ok_def dones_def demo_hub_def demo_endpoint_def slot_ok_def list_all_iff data_ok_def)

theorem reachable_forward_witness:
  "hub_inv (demo_hub\<lparr>kmem := (\<lambda>_. 0xFF)\<rparr>)"
  using reachable_forward [OF reachable.dma [OF reachable.start] hub_inv_demo, of "\<lambda>_. 0xFF"] by blast

end
