(* ===== verification/XhciInit.thy ===== *)
theory XhciInit
  imports XhciEnum
begin

text \<open>
  Bringing up the USB 3 host controller: the capability registers, the reset, the walks over the PCI and the extended
  capability lists, the tables in memory and the start of the controller (\<open>XHCI_INIT\<close> of
  \<open>src/src/drivers/xhci/xhci.c\<close>).
\<close>

section \<open>Registers\<close>

definition reg_or :: "hardware \<Rightarrow> u64 \<Rightarrow> u32 \<Rightarrow> kxhci \<Rightarrow> kxhci" where
  "reg_or hw a v s = (let (x, s) = reg_read hw a s in reg_write a (x OR v) s)"

definition XHCI_READ_CAP :: "hardware \<Rightarrow> u64 \<Rightarrow> kxhci \<Rightarrow> XHCI_CAP_REG \<times> kxhci" where
  "XHCI_READ_CAP hw address s =
     (let (line, s) = reg_read hw address s;
          (p1, s) = reg_read hw (address + 0x4) s;
          (p2, s) = reg_read hw (address + 0x8) s;
          (p3, s) = reg_read hw (address + 0xC) s;
          (c1, s) = reg_read hw (address + 0x10) s;
          (db, s) = reg_read hw (address + 0x14) s;
          (rt, s) = reg_read hw (address + 0x18) s;
          (c2, s) = reg_read hw (address + 0x1C) s
      in (\<lparr>CAPLENGTH = ucast line, HCIVersion = ucast (drop_bit 16 line), HCSParams1 = p1, HCSParams2 = p2,
           HCSParams3 = p3, HCCParams1 = c1, DBOFF = db, RTSOFF = rt, HCCParams2 = c2\<rparr>, s))"

partial_function (option) wait_bit :: "hardware \<Rightarrow> u64 \<Rightarrow> nat \<Rightarrow> kxhci \<Rightarrow> kxhci option" where
  "wait_bit hw a n s = (let (v, s) = reg_read hw a s in if bit v n then wait_bit hw a n s else Some s)"

definition XHCI_RESET :: "hardware \<Rightarrow> u64 \<Rightarrow> kxhci \<Rightarrow> kxhci outcome" where
  "XHCI_RESET hw usbcmd s =
     (case wait_bit hw usbcmd 1 (reg_or hw usbcmd 2 s) of None \<Rightarrow> Inl Hangs | Some s \<Rightarrow> Inr s)"

definition XHCI_LOAD_CRCR :: "u64 \<Rightarrow> u32 \<Rightarrow> kxhci \<Rightarrow> kxhci" where
  "XHCI_LOAD_CRCR crcr flags s =
     (let s = reg_write (op_registers s + 0x18) (DWORD_lo ((crcr AND NOT 0x3F) OR ucast flags)) s
      in reg_write (op_registers s + 0x1C) (DWORD_hi crcr) s)"

section \<open>Tables\<close>

definition XHCI_SetUpDCBAA :: "u32 \<Rightarrow> u32 \<Rightarrow> XHCI_CAP_REG \<Rightarrow> kxhci \<Rightarrow> (u64 \<times> kxhci) outcome" where
  "XHCI_SetUpDCBAA maxslots pagesize cap s =
     andthen (alloc_physical (ucast ((maxslots + 1) * 8)) 64 (ucast pagesize) s) (\<lambda>(d, s).
     let s = s\<lparr>kmem := fold (\<lambda>i m. set_U64 m (d + 8 * of_nat i) 0) [0..<unat maxslots] (kmem s)\<rparr>
     in if drop_bit 21 (HCSParams2 cap) AND 0x1f \<noteq> 0
        then andthen (alloc_physical (ucast pagesize) (ucast pagesize) (ucast pagesize) s) (\<lambda>(sp, s).
          let m = set_U64 (kmem s) d sp
          in Inr (d, s\<lparr>kmem := fold (\<lambda>i m. m(sp + of_nat i := 0)) [0..<unat pagesize] m\<rparr>))
        else Inr (d, s\<lparr>kmem := set_U64 (kmem s) d 0\<rparr>))"

text \<open>One of the two event rings: a table of one segment and the registers of interrupter \<open>i\<close>.\<close>

definition event_ring :: "u64 \<Rightarrow> nat \<Rightarrow> kxhci \<Rightarrow> kxhci outcome" where
  "event_ring reg_int i s =
     andthen (alloc_physical 4096 4096 4096 s) (\<lambda>(table, s).
     let (ring, s) = malloc_physical (16 * 128) s;
         m = memset (kmem s) ring 0 (16 * 128);
         m = set_U64 m table ring;
         m = set_U64 m (table + 8) 4096;
         s = s\<lparr>kmem := m\<rparr>;
         r = reg_int + 32 * of_nat i;
         s = reg_write r 2 s;
         s = reg_write (r + 4) 4000 s;
         s = reg_write (r + 8) 1 s;
         s = reg_write (r + 16) ((DWORD_lo table AND NOT 0x3F) OR 8) s;
         s = reg_write (r + 20) (DWORD_hi table) s
     in Inr (XHCI_WRITE_ERDP r ring 0 s))"

section \<open>Capability lists\<close>

definition next_cap :: "u64 \<Rightarrow> u32 \<Rightarrow> u64" where
  "next_cap p off = (p AND NOT 0xFF) OR ucast off"

text \<open>The PCI capabilities: the last MSI-X and the last MSI structure found, or \<open>None\<close> when the list is empty.\<close>

partial_function (option) cap_loop ::
    "hardware \<Rightarrow> u64 \<Rightarrow> u64 option \<times> u64 option \<Rightarrow> kxhci \<Rightarrow> ((u64 option \<times> u64 option) option \<times> kxhci) option" where
  "cap_loop hw p caps s =
     (let (d, s) = reg_read hw p s;
          sig = d AND 0xFF;
          off = drop_bit 8 d AND 0xFF
      in if sig = 0 \<or> sig = 0xFF then Some (None, s)
         else let caps = (if sig = 0x11 then (Some p, snd caps) else if sig = 0x05 then (fst caps, Some p) else caps)
              in if off = 0 then Some (Some caps, s) else cap_loop hw (next_cap p off) caps s)"

definition with_io :: "(history \<Rightarrow> history outcome) \<Rightarrow> kxhci \<Rightarrow> kxhci outcome" where
  "with_io f s = andthen (f (xio s)) (\<lambda>h. Inr (s\<lparr>xio := h\<rparr>))"

definition XHCI_HANDLE_CAPABILITIES :: "hardware \<Rightarrow> u64 \<Rightarrow> PCIGeneralDevice \<Rightarrow> u32 \<Rightarrow> kxhci \<Rightarrow> kxhci outcome" where
  "XHCI_HANDLE_CAPABILITIES hw p device maxintrs s =
     (case cap_loop hw p (None, None) s of
        None \<Rightarrow> Inl Hangs
      | Some (None, s) \<Rightarrow> Inr s
      | Some (Some (msix, Some msi), s) \<Rightarrow> with_io (\<lambda>h. Inr (MSI_HANDLE_CAPABILITY hw msi h)) s
      | Some (Some (Some msix, None), s) \<Rightarrow> with_io (MSIX_HANDLE_CAPABILITY hw msix device maxintrs) s
      | Some (Some (None, None), s) \<Rightarrow> Inr s)"

text \<open>
  The extended capabilities: protocol structures are collected in an array of 10 pointers, the legacy structure
  gets the ownership bit. An end marker before the list ends returns without a result.
\<close>

partial_function (option) ext_loop ::
    "hardware \<Rightarrow> u64 \<Rightarrow> u64 list \<Rightarrow> kxhci \<Rightarrow> (u64 list option \<times> kxhci) outcome option" where
  "ext_loop hw p protos s =
     (let (d, s) = reg_read hw p s;
          sig = d AND 0xFF;
          off = drop_bit 8 d AND 0xFF
      in if sig = 0 \<or> sig = 0xFF then Some (Inr (None, s))
         else if sig = 2 \<and> length protos = 10 then Some (Inl OutOfBounds)
         else let (protos, s) = (if sig = 2 then (protos @ [p], snd (reg_read hw (p + 12) s)) else (protos, s));
                  s = (if sig = 1 then reg_or hw p 0x01000000 s else s)
              in if off = 0 then Some (Inr (Some protos, s)) else ext_loop hw (next_cap p (push_bit 2 off)) protos s)"

definition XHCI_HANDLE_EXTENDED_CAPABILITIES :: "hardware \<Rightarrow> u64 \<Rightarrow> kxhci \<Rightarrow> kxhci outcome" where
  "XHCI_HANDLE_EXTENDED_CAPABILITIES hw p s =
     (case ext_loop hw p [] s of
        None \<Rightarrow> Inl Hangs
      | Some r \<Rightarrow> andthen r (\<lambda>(ps, s).
          case ps of
            None \<Rightarrow> Inr s
          | Some ps \<Rightarrow>
              let (a, s) = malloc_physical (8 * of_nat (length ps)) s;
                  m = fold (\<lambda>i m. set_U64 m (a + 8 * of_nat i) (ps ! i)) [0..<length ps] (kmem s)
              in Inr (s\<lparr>kmem := m, protocols := Some ps\<rparr>)))"

section \<open>Initialisation\<close>

definition XHCI_MAX_PORTS :: "XHCI_CAP_REG \<Rightarrow> u32" where "XHCI_MAX_PORTS c = drop_bit 24 (HCSParams1 c) AND 0xFF"
definition XHCI_MAX_SLOTS :: "XHCI_CAP_REG \<Rightarrow> u32" where "XHCI_MAX_SLOTS c = HCSParams1 c AND 0xFF"
definition XHCI_MAX_INTRS :: "XHCI_CAP_REG \<Rightarrow> u32" where "XHCI_MAX_INTRS c = drop_bit 8 (HCSParams1 c) AND 0x3FF"
definition XHCI_EXTENDED_CAP_PTR :: "XHCI_CAP_REG \<Rightarrow> u32" where
  "XHCI_EXTENDED_CAP_PTR c = drop_bit 16 (HCCParams1 c) AND 0xFFFF"

text \<open>The command ring: 128 cleared blocks, the last one a link back to the first.\<close>

definition command_ring_setup :: "u64 \<Rightarrow> mem \<Rightarrow> mem" where
  "command_ring_setup r m =
     put_trb (clear_trbs r 128 m) (r + 16 * 127)
       \<lparr>int1 = DWORD_lo r AND NOT 0xF, int2 = DWORD_hi r, int3 = 0, trb_def = push_bit 10 6 OR push_bit 5 1 OR 1\<rparr>"

definition empty_endpoint :: XHCI_Endpoint where
  "empty_endpoint = \<lparr>ep_port = 0, contexts = 0, desc_product = 0, ep_done = 0, configs = 0, conf_device = 0, ep_endpoints = []\<rparr>"

definition XHCI_INIT ::
    "hardware \<Rightarrow> PCI_device \<Rightarrow> u64 \<Rightarrow> interrupts \<times> kxhci \<Rightarrow> (int \<times> interrupts \<times> kxhci) outcome" where
  "XHCI_INIT hw device pcibase = (\<lambda>(irqs, s).
     let (usb, h) = PCI_GetGeneralDevice hw device (xio s);
         s = s\<lparr>xio := h\<rparr>;
         address = push_bit 32 (ucast (BAR usb ! 1 AND NOT 0xf)) OR ucast (BAR usb ! 0 AND NOT 0xf);
         (cap, s) = XHCI_READ_CAP hw address s;
         op = address + ucast (CAPLENGTH cap);
         reg_int = address + ucast (RTSOFF cap AND NOT 0xF) + 0x20;
         s = s\<lparr>config := cap, op_registers := op\<rparr>
     in andthen (XHCI_RESET hw op s) (\<lambda>s.
     let db = address + ucast (DBOFF cap);
         (_, s) = reg_read hw (op + 0x38) s
     in case wait_bit hw (op + 4) 11 s of None \<Rightarrow> Inl Hangs | Some s \<Rightarrow>
     let (ps, s) = reg_read hw (op + 8) s;
         pagesize = push_bit 12 ps;
         maxslots = XHCI_MAX_SLOTS cap;
         maxintrs = XHCI_MAX_INTRS cap;
         maxports = XHCI_MAX_PORTS cap;
         s = reg_write (op + 0x38) maxslots s;
         (_, s) = reg_read hw (op + 0x38) s
     in andthen (XHCI_SetUpDCBAA maxslots pagesize cap s) (\<lambda>(d, s).
     let s = reg_write (op + 0x30) (DWORD_lo (d AND NOT 0x3F)) s
     in andthen (alloc_physical (64 * 1024) (64 * 1024) (64 * 1024) s) (\<lambda>(ring, s).
     let s = s\<lparr>kmem := command_ring_setup ring (kmem s), command_ring := ring\<rparr>;
         s = XHCI_LOAD_CRCR ring 1 s
     in andthen (for_each (event_ring reg_int) [0..<2] s) (\<lambda>s.
     let mmio = PCI_GetMMIO device pcibase + ucast (capabilities_pointer usb);
         ext = ucast ((BAR usb ! 0 AND NOT 0xF) + push_bit 2 (XHCI_EXTENDED_CAP_PTR cap))
     in andthen (XHCI_HANDLE_CAPABILITIES hw mmio usb maxintrs s) (\<lambda>s.
     andthen (XHCI_HANDLE_EXTENDED_CAPABILITIES hw ext s) (\<lambda>s.
     case protocols s of None \<Rightarrow> Inl NullDeref | Some _ \<Rightarrow>
     let s = s\<lparr>config := cap, ports := op + 0x400, ints := reg_int, dcbaa := d, doorbell := db, hub_flag := 0\<rparr>;
         (tr, s) = malloc_physical (8 * ucast maxslots) s;
         s = s\<lparr>kmem := memset (kmem s) tr 0 (8 * uint maxslots), hub_pagesize := ucast pagesize\<rparr>;
         (eb, s) = malloc_physical (80 * ucast maxslots) s;
         s = s\<lparr>kmem := memset (kmem s) eb 0 (80 * uint maxslots), endpoint_base := eb,
               endpoints := replicate (unat maxslots) empty_endpoint\<rparr>
     in andthen (IRQ_RegisterHandler 0xA XHCI_INT_ptr irqs) (\<lambda>irqs.
     andthen (IRQ_RegisterHandler 0xB XHCI_IRQ8_ptr irqs) (\<lambda>irqs.
     let s = reg_write (op + 0x14) 0xFFFF s;
         s = reg_or hw (op + 4) 8 s;
         s = reg_or hw op 4 s;
         s = reg_or hw op 1 s;
         s = XHCI_DOORBELL 0 0 s;
         s = fold (\<lambda>i. XHCI_PORT_RESET hw (int i)) [0..<unat maxports] s
     in Inr (1, irqs, s))))))))))"

section \<open>What initialisation keeps\<close>

lemma keeps_malloc_from: "malloc_physical n s = (p, s') \<Longrightarrow> keeps s0 s \<Longrightarrow> keeps s0 s'"
  using keeps_heap(2) keeps_trans by blast

lemma keeps_read_from: "reg_read hw a s = (v, s') \<Longrightarrow> keeps s0 s \<Longrightarrow> keeps s0 s'"
  using keeps_reg_read keeps_trans by blast

lemma keeps_reg_or_eq: "keeps s0 (reg_or hw a v s) \<longleftrightarrow> keeps s0 s"
  by (simp add: reg_or_def split_beta Let_def keeps_simps)

lemma keeps_xio_eq: "keeps s0 (s\<lparr>xio := h\<rparr>) \<longleftrightarrow> keeps s0 s"
  by (simp add: keeps_def dones_def rings_ok_def ports_ok_def)

lemma keeps_READ_CAP: "XHCI_READ_CAP hw a s = (c, s') \<Longrightarrow> keeps s0 s \<Longrightarrow> keeps s0 s'"
  by (auto simp: XHCI_READ_CAP_def Let_def split_beta keeps_simps)

lemma keeps_wait_bit:
  assumes "wait_bit hw a n s = Some s'" and "keeps s0 s"
  shows "keeps s0 s'"
proof -
  let ?P = "\<lambda>(hw :: hardware) (a :: u64) (n :: nat) s s'. keeps s0 s \<longrightarrow> keeps s0 s'"
  have "?P hw a n s s'"
    using assms(1)
  proof (rule wait_bit.raw_induct [where P = ?P, rotated])
    fix f hw a n s s'
    assume "\<And>hw a n s s'. f hw a n s = Some s' \<Longrightarrow> ?P hw a n s s'"
      and "(let (v, s) = reg_read hw a s in if bit v n then f hw a n s else Some s) = Some s'"
    then show "?P hw a n s s'" by (auto simp: Let_def split: prod.splits if_splits dest: keeps_read_from)
  qed
  with assms(2) show ?thesis by blast
qed

lemma keeps_XHCI_RESET: "XHCI_RESET hw a s = Inr s' \<Longrightarrow> keeps s0 s \<Longrightarrow> keeps s0 s'"
  by (auto simp: XHCI_RESET_def keeps_reg_or_eq split: option.splits dest: keeps_wait_bit)

lemma keeps_tables:
  "XHCI_SetUpDCBAA n sz cap s = Inr (d, s') \<Longrightarrow> keeps s0 s \<Longrightarrow> keeps s0 s'"
  "event_ring r i s = Inr s' \<Longrightarrow> keeps s0 s \<Longrightarrow> keeps s0 s'"
  by (auto simp: XHCI_SetUpDCBAA_def event_ring_def XHCI_WRITE_ERDP_def Let_def split_beta andthen_Inr_iff keeps_simps
      split: if_splits elim!: kept_steps)

lemma keeps_event_rings: "for_each (event_ring r) xs s = Inr s' \<Longrightarrow> keeps s s'"
  by (erule keeps_for_each [rotated]) (erule keeps_tables(2), simp)

lemma keeps_with_io: "with_io f s = Inr s' \<Longrightarrow> keeps s0 s \<Longrightarrow> keeps s0 s'"
  by (auto simp: with_io_def andthen_Inr_iff keeps_xio_eq)

lemma keeps_cap_loop:
  assumes "cap_loop hw p c s = Some (r, s')" and "keeps s0 s"
  shows "keeps s0 s'"
proof -
  let ?P = "\<lambda>(hw :: hardware) (p :: u64) (c :: u64 option \<times> u64 option) s
    (x :: (u64 option \<times> u64 option) option \<times> kxhci). keeps s0 s \<longrightarrow> keeps s0 (snd x)"
  have "?P hw p c s (r, s')"
    using assms(1)
  proof (rule cap_loop.raw_induct [where P = ?P, rotated])
    fix f hw p c s x
    assume "\<And>hw p c s x. f hw p c s = Some x \<Longrightarrow> ?P hw p c s x"
      and "(let (d, s) = reg_read hw p s; sig = d AND 0xFF; off = drop_bit 8 d AND 0xFF
        in if sig = 0 \<or> sig = 0xFF then Some (None, s)
           else let c = (if sig = 0x11 then (Some p, snd c) else if sig = 0x05 then (fst c, Some p) else c)
                in if off = 0 then Some (Some c, s) else f hw (next_cap p off) c s) = Some x"
    then show "?P hw p c s x"
      by (cases x, cases c) (fastforce simp: Let_def split: prod.splits if_splits dest: keeps_read_from)
  qed
  with assms(2) show ?thesis by simp
qed

lemma keeps_XHCI_HANDLE_CAPABILITIES:
  "XHCI_HANDLE_CAPABILITIES hw p device n s = Inr s' \<Longrightarrow> keeps s0 s \<Longrightarrow> keeps s0 s'"
  by (auto simp: XHCI_HANDLE_CAPABILITIES_def split: option.splits elim!: keeps_with_io keeps_cap_loop)

lemma keeps_ext_loop:
  assumes "ext_loop hw p ps s = Some (Inr (r, s'))" and "keeps s0 s"
  shows "keeps s0 s'"
proof -
  let ?P = "\<lambda>(hw :: hardware) (p :: u64) (ps :: u64 list) s (x :: (u64 list option \<times> kxhci) outcome).
    \<forall>r s'. x = Inr (r, s') \<longrightarrow> keeps s0 s \<longrightarrow> keeps s0 s'"
  have "?P hw p ps s (Inr (r, s'))"
    using assms(1)
  proof (rule ext_loop.raw_induct [where P = ?P, rotated])
    fix f hw p ps s x
    assume "\<And>hw p ps s x. f hw p ps s = Some x \<Longrightarrow> ?P hw p ps s x"
      and "(let (d, s) = reg_read hw p s; sig = d AND 0xFF; off = drop_bit 8 d AND 0xFF
        in if sig = 0 \<or> sig = 0xFF then Some (Inr (None, s))
           else if sig = 2 \<and> length ps = 10 then Some (Inl OutOfBounds)
           else let (ps, s) = (if sig = 2 then (ps @ [p], snd (reg_read hw (p + 12) s)) else (ps, s));
                    s = (if sig = 1 then reg_or hw p 0x01000000 s else s)
                in if off = 0 then Some (Inr (Some ps, s)) else f hw (next_cap p (push_bit 2 off)) ps s) = Some x"
    then show "?P hw p ps s x"
      by (fastforce simp: Let_def keeps_reg_or_eq keeps_read_eq split: prod.splits if_splits dest: keeps_read_from)
  qed
  with assms(2) show ?thesis by blast
qed

lemma keeps_protocols_eq: "keeps s0 (s\<lparr>kmem := m, protocols := q\<rparr>) \<longleftrightarrow> keeps s0 s"
  by (simp add: keeps_def dones_def rings_ok_def ports_ok_def)

lemma keeps_XHCI_HANDLE_EXTENDED_CAPABILITIES:
  "XHCI_HANDLE_EXTENDED_CAPABILITIES hw p s = Inr s' \<Longrightarrow> keeps s0 s \<Longrightarrow> keeps s0 s'"
  by (auto simp: XHCI_HANDLE_EXTENDED_CAPABILITIES_def andthen_Inr_iff Let_def split_beta keeps_protocols_eq keeps_malloc_eq
      split: option.splits elim!: keeps_ext_loop)

section \<open>The state after initialisation\<close>

lemma config_eqs:
  "config (reg_write a v s) = config s" "config (reg_or hw a v s) = config s" "config (XHCI_DOORBELL n v s) = config s"
  "config (XHCI_PORT_RESET hw i s) = config s" "malloc_physical sz s = (p, s') \<Longrightarrow> config s' = config s"
  by (auto simp: reg_write_def reg_or_def reg_read_def mmio_read_def XHCI_DOORBELL_def XHCI_PORT_RESET_def malloc_physical_def
      malloc_def Let_def split_beta)

lemma endpoints_eqs:
  "endpoints (reg_write a v s) = endpoints s" "endpoints (reg_or hw a v s) = endpoints s"
  "endpoints (XHCI_DOORBELL n v s) = endpoints s" "endpoints (XHCI_PORT_RESET hw i s) = endpoints s"
  by (auto simp: reg_write_def reg_or_def reg_read_def mmio_read_def XHCI_DOORBELL_def XHCI_PORT_RESET_def Let_def split_beta)

lemma keeps_ports: "keeps s s' \<Longrightarrow> ports_ok s \<Longrightarrow> ports_ok s'"
  by (simp add: keeps_def)

lemma ports_record_eqs:
  "ports_ok (s\<lparr>xio := h\<rparr>) = ports_ok s" "ports_ok (s\<lparr>config := c, op_registers := r\<rparr>) = ports_ok s"
  "ports_ok (s\<lparr>kmem := m, command_ring := r\<rparr>) = ports_ok s"
  "ports_ok (s\<lparr>config := c, ports := r, ints := i, dcbaa := d, doorbell := b, hub_flag := f\<rparr>) = ports_ok s"
  "ports_ok (s\<lparr>kmem := m, hub_pagesize := z\<rparr>) = ports_ok s"
  "ports_ok (s\<lparr>kmem := m, endpoint_base := b, endpoints := es\<rparr>) = ports_ok s"
  by (simp_all add: ports_ok_def)

lemma ports_write_eqs:
  "ports_ok (reg_write a v s) = ports_ok s" "ports_ok (reg_or hw a v s) = ports_ok s" "ports_ok (XHCI_DOORBELL n v s) = ports_ok s"
  "ports_ok (XHCI_PORT_RESET hw i s) = ports_ok s" "ports_ok (XHCI_LOAD_CRCR r f s) = ports_ok s"
  by (simp_all add: ports_ok_def reg_write_def reg_or_def reg_read_def mmio_read_def XHCI_DOORBELL_def XHCI_PORT_RESET_def
      XHCI_LOAD_CRCR_def Let_def split_beta)

lemma fold_eq: "(\<And>x t. g (f x t) = g t) \<Longrightarrow> g (fold f xs t) = g t"
  by (induction xs arbitrary: t) simp_all

lemmas ports_steps =
  keeps_READ_CAP [OF _ keeps_refl, THEN keeps_ports] keeps_XHCI_RESET [OF _ keeps_refl, THEN keeps_ports]
  keeps_wait_bit [OF _ keeps_refl, THEN keeps_ports] keeps_reg_read [THEN keeps_ports] keeps_heap [THEN keeps_ports]
  keeps_tables(1) [OF _ keeps_refl, THEN keeps_ports]
  keeps_event_rings [THEN keeps_ports]
  keeps_XHCI_HANDLE_CAPABILITIES [OF _ keeps_refl, THEN keeps_ports]
  keeps_XHCI_HANDLE_EXTENDED_CAPABILITIES [OF _ keeps_refl, THEN keeps_ports]

lemma XHCI_INIT_ports:
  "ports_ok s \<Longrightarrow> every (\<lambda>(r, irqs', s'). ports_ok s') (XHCI_INIT hw device pcibase (irqs, s))"
  unfolding XHCI_INIT_def prod.case
  by (intro every_intros)
     ((simp (no_asm_simp) add: ports_record_eqs ports_write_eqs fold_eq [of ports_ok] | erule ports_steps)+)

lemma XHCI_INIT_slots:
  "every (\<lambda>(r, irqs', s'). r = 1 \<and> endpoints s' = replicate (unat (XHCI_MAX_SLOTS (config s'))) empty_endpoint \<and>
     g_IRQHandlers irqs' = (g_IRQHandlers irqs)[10 := Some XHCI_INT_ptr, 11 := Some XHCI_IRQ8_ptr] \<and>
     11 < length (g_IRQHandlers irqs)) (XHCI_INIT hw device pcibase (irqs, s))"
  unfolding XHCI_INIT_def prod.case
  by (intro every_intros)
     (auto simp: config_eqs endpoints_eqs fold_eq [of config] fold_eq [of endpoints] IRQ_RegisterHandler_def array_set_def
       split: if_splits)

lemma hub_inv_fresh:
  "ports_ok s \<Longrightarrow> endpoints s = replicate n empty_endpoint \<Longrightarrow> hub_inv s \<and> dones s = replicate n 0"
  by (simp add: hub_inv_def rings_ok_def dones_def slot_ok_def empty_endpoint_def list_all_iff)

text \<open>
  C19: Initialisation, when it returns, leaves one slot record per slot of the controller, all at the start of the enumeration, and the
  two interrupt handlers installed. From there on every interleaving of interrupts, polls and writes of the controller
  keeps the driver state well formed: the number of slots, the ring positions and cycle bits, the list of ports and
  the range of the enumeration steps.
\<close>

theorem XHCI_INIT_well_formed:
  assumes "XHCI_INIT hw device pcibase (irqs, s) = Inr (r, irqs', s')" and "ports_ok s" and "reachable s' t"
  shows "hub_inv t \<and> length (endpoints t) = unat (XHCI_MAX_SLOTS (config s')) \<and> dones s' = replicate (length (endpoints t)) 0 \<and>
    g_IRQHandlers irqs' = (g_IRQHandlers irqs)[10 := Some XHCI_INT_ptr, 11 := Some XHCI_IRQ8_ptr]"
proof -
  have p: "ports_ok s'" using everyD [OF XHCI_INIT_ports [OF assms(2)] assms(1)] by simp
  have e: "endpoints s' = replicate (unat (XHCI_MAX_SLOTS (config s'))) empty_endpoint"
    "g_IRQHandlers irqs' = (g_IRQHandlers irqs)[10 := Some XHCI_INT_ptr, 11 := Some XHCI_IRQ8_ptr]"
    using everyD [OF XHCI_INIT_slots assms(1)] by simp_all
  from hub_inv_fresh [OF p e(1)] reachable_imp_forward [OF assms(3)] e(2)
  show ?thesis by (auto simp: forward_def e(1))
qed

text \<open>A controller with one slot and no port, whose registers start at address 0, and a driver before its start.\<close>

definition demo_registers :: "u64 \<Rightarrow> u32" where
  "demo_registers a =
     (if a = 4 \<or> a = 8 then 1 else if a = 0x10 then 0x04000000 else if a = 0x1000 then 2 else 0)"

definition demo_controller :: hardware where
  "demo_controller = \<lparr>port_b = \<lambda>_ _. 0, port_w = \<lambda>_ _. 0, port_l = \<lambda>_ _. 0, mmio_l = \<lambda>_. demo_registers, msr_q = \<lambda>_ _. 0\<rparr>"

definition returns :: "'a outcome \<Rightarrow> bool" where
  "returns x \<longleftrightarrow> (\<exists>r. x = Inr r)"

lemma demo_read: "reg_read demo_controller a s = (demo_registers a, s\<lparr>xio := xio s @ [MmioR a (demo_registers a)]\<rparr>)"
  by (simp add: reg_read_def mmio_read_def demo_controller_def Let_def)

lemma demo_bars: "\<exists>usb h. PCI_GetGeneralDevice demo_controller zero_device h0 = (usb, h) \<and> BAR usb = replicate 6 0 \<and>
    capabilities_pointer usb = 0"
  by (simp add: PCI_GetGeneralDevice_def PCI_ConfigReadWord_def inportl_def demo_controller_def zero_device_def
      Let_def split_beta eval_nat_numeral COMBINE_WORD_def EXPORT_BYTE_def)

lemma demo_cap:
  "\<exists>s'. XHCI_READ_CAP demo_controller 0 s = (\<lparr>CAPLENGTH = 0, HCIVersion = 0, HCSParams1 = 1, HCSParams2 = 1, HCSParams3 = 0,
     HCCParams1 = 0x04000000, DBOFF = 0, RTSOFF = 0, HCCParams2 = 0\<rparr>, s')"
  by (simp add: XHCI_READ_CAP_def demo_read demo_registers_def Let_def)

lemma demo_wait: "\<not> bit (demo_registers a) n \<Longrightarrow> \<exists>s'. wait_bit demo_controller a n s = Some s'"
  by (simp add: wait_bit.simps [of _ a] demo_read)

lemma demo_reset: "\<exists>s'. XHCI_RESET demo_controller 0 s = Inr s'"
  using demo_wait [of 0 1 "reg_or demo_controller 0 2 s"] by (auto simp: XHCI_RESET_def demo_registers_def)

lemma alloc_physical_returns: "0 < l \<Longrightarrow> l \<le> b \<Longrightarrow> \<exists>p s'. alloc_physical n l b s = Inr (p, s')"
  by (simp add: alloc_physical_def mallocAB_def Let_def)

lemma demo_dcbaa: "\<exists>d s'. XHCI_SetUpDCBAA 1 0x1000 \<lparr>CAPLENGTH = 0, HCIVersion = 0, HCSParams1 = 1, HCSParams2 = 1, HCSParams3 = 0,
     HCCParams1 = 0x04000000, DBOFF = 0, RTSOFF = 0, HCCParams2 = 0\<rparr> s = Inr (d, s')"
  using alloc_physical_returns [of 64 "0x1000" 16 s] by (auto simp: XHCI_SetUpDCBAA_def Let_def)

lemma event_ring_returns: "\<exists>s'. event_ring r i s = Inr s'"
  using alloc_physical_returns [of "0x1000" "0x1000" "0x1000" s] by (auto simp: event_ring_def Let_def split_beta)

lemma event_rings_return: "\<exists>s'. for_each (event_ring r) xs s = Inr s'"
proof (induction xs arbitrary: s)
  case Nil
  then show ?case by simp
next
  case (Cons i xs)
  then show ?case using event_ring_returns [of r i s] by auto
qed

lemma demo_capabilities: "XHCI_HANDLE_CAPABILITIES demo_controller 0x2000 d n s = Inr (snd (reg_read demo_controller 0x2000 s))"
  by (simp add: XHCI_HANDLE_CAPABILITIES_def cap_loop.simps [of _ "0x2000"] demo_read demo_registers_def)

lemma demo_extended: "\<exists>s'. XHCI_HANDLE_EXTENDED_CAPABILITIES demo_controller 0x1000 s = Inr s' \<and> protocols s' = Some [0x1000]"
  by (simp add: XHCI_HANDLE_EXTENDED_CAPABILITIES_def ext_loop.simps [of _ "0x1000"] demo_read demo_registers_def Let_def split_beta)

abbreviation demo_capreg :: XHCI_CAP_REG where
  "demo_capreg \<equiv> \<lparr>CAPLENGTH = 0, HCIVersion = 0, HCSParams1 = 1, HCSParams2 = 1, HCSParams3 = 0,
     HCCParams1 = 0x04000000, DBOFF = 0, RTSOFF = 0, HCCParams2 = 0\<rparr>"

lemma returns_bars:
  "(\<And>usb h. BAR usb = replicate 6 0 \<Longrightarrow> capabilities_pointer usb = 0 \<Longrightarrow> returns (f usb h)) \<Longrightarrow>
   returns (let (usb, h) = PCI_GetGeneralDevice demo_controller zero_device h0 in f usb h)"
  using demo_bars [of h0] by auto

lemma returns_cap:
  "a = 0 \<Longrightarrow> (\<And>s. returns (f demo_capreg s)) \<Longrightarrow> returns (let (cap, s) = XHCI_READ_CAP demo_controller a t in f cap s)"
  using demo_cap [of t] by auto

lemma returns_read:
  "(\<And>s. returns (f (demo_registers a) s)) \<Longrightarrow> returns (let (v, s) = reg_read demo_controller a t in f v s)"
  by (simp add: demo_read)

lemma returns_pair: "(\<And>p s. returns (f p s)) \<Longrightarrow> returns (let (p, s) = (t :: u64 \<times> kxhci) in f p s)"
  by (simp split: prod.split)

lemma returns_state: "(\<And>s. returns (f s)) \<Longrightarrow> returns (let s = (t :: kxhci) in f s)"
  by simp

lemma returns_let: "returns (f e) \<Longrightarrow> returns (let x = e in f x)"
  by simp

lemma returns_step2: "\<exists>p s'. x = Inr (p, s') \<Longrightarrow> (\<And>p s. returns (f p s)) \<Longrightarrow> returns (andthen x (\<lambda>(p, s). f p s))"
  by auto

lemma returns_extended:
  "a = 0x1000 \<Longrightarrow> (\<And>s. protocols s = Some [0x1000] \<Longrightarrow> returns (f s)) \<Longrightarrow>
   returns (andthen (XHCI_HANDLE_EXTENDED_CAPABILITIES demo_controller a t) f)"
  using demo_extended [of t] by auto

lemma returns_step: "\<exists>s'. x = Inr s' \<Longrightarrow> (\<And>s :: kxhci. returns (f s)) \<Longrightarrow> returns (andthen x f)"
  by auto

lemma returns_wait:
  "\<exists>s'. x = Some s' \<Longrightarrow> (\<And>s. returns (f s)) \<Longrightarrow> returns (case x of None \<Rightarrow> Inl e | Some (s :: kxhci) \<Rightarrow> f s)"
  by auto

lemma returns_protocols:
  "x = Some y \<Longrightarrow> returns (f y) \<Longrightarrow> returns (case x of None \<Rightarrow> Inl e | Some (ps :: u64 list) \<Rightarrow> f ps)"
  by auto

lemmas returns_intros = returns_bars returns_cap returns_read returns_pair returns_state returns_let returns_step2 returns_extended
  returns_step returns_wait returns_protocols

lemma demo_init:
  "returns (XHCI_INIT demo_controller zero_device 0x2000 (\<lparr>g_ISRHandlers = [], g_IRQHandlers = replicate 16 None\<rparr>, s))"
  unfolding XHCI_INIT_def prod.case
  by (intro returns_intros)
     (simp_all add: demo_reset demo_wait demo_registers_def XHCI_MAX_SLOTS_def XHCI_EXTENDED_CAP_PTR_def demo_dcbaa
      alloc_physical_returns event_rings_return demo_capabilities PCI_GetMMIO_def zero_device_def,
      simp add: returns_def IRQ_RegisterHandler_def array_set_def)

theorem XHCI_INIT_well_formed_witness:
  "\<exists>r irqs s. XHCI_INIT demo_controller zero_device 0x2000
      (\<lparr>g_ISRHandlers = [], g_IRQHandlers = replicate 16 None\<rparr>, demo_hub) = Inr (r, irqs, s) \<and>
    g_IRQHandlers irqs ! 10 = Some XHCI_INT_ptr \<and> hub_inv (s\<lparr>kmem := (\<lambda>_. 0xFF)\<rparr>)"
proof -
  obtain r irqs s where i: "XHCI_INIT demo_controller zero_device 0x2000
      (\<lparr>g_ISRHandlers = [], g_IRQHandlers = replicate 16 None\<rparr>, demo_hub) = Inr (r, irqs, s)"
    using demo_init [of demo_hub] by (auto simp: returns_def)
  have "ports_ok demo_hub" using hub_inv_demo by (simp add: hub_inv_def)
  from XHCI_INIT_well_formed [OF i this reachable.dma [OF reachable.start], of "\<lambda>_. 0xFF"] i
  show ?thesis by auto
qed

end
