(* ===== verification/Printf.thy ===== *)
theory Printf
  imports CString Io
begin

text \<open>
  Formatted output, \<open>src/src/printf/printf.c\<close>; \<open>src/src/SerialPrintf/printf.c\<close> is a second copy of the same file whose
  characters go to the serial line. The format and the strings are read from memory while the output is produced, character by
  character, through one of four output functions. A variable argument list is the list of the general-purpose argument
  slots and the list of the floating-point ones; asking for more arguments than there are is undefined. The
  arithmetic of the type \<open>double\<close> is a parameter: values are 64-bit patterns, and literals appear as their IEEE patterns.
\<close>

section \<open>Output functions\<close>

datatype out_fct = Out_buffer | Out_null | Out_char | Out_fct

text \<open>The characters handed to \<open>_putchar\<close>, \<open>_putSerial\<close> or the callback, in order.\<close>

record pstate =
  pmem :: mem
  console :: "u8 list"

fun emit :: "out_fct \<Rightarrow> u8 \<Rightarrow> u64 \<Rightarrow> u64 \<Rightarrow> u64 \<Rightarrow> pstate \<Rightarrow> pstate" where
  "emit Out_buffer c buffer idx maxlen s = (if idx < maxlen then s\<lparr>pmem := (pmem s)(buffer + idx := c)\<rparr> else s)"
| "emit Out_null c buffer idx maxlen s = s"
| "emit Out_char c buffer idx maxlen s = (if c \<noteq> 0 then s\<lparr>console := console s @ [c]\<rparr> else s)"
| "emit Out_fct c buffer idx maxlen s = (if c \<noteq> 0 then s\<lparr>console := console s @ [c]\<rparr> else s)"

text \<open>The three arguments that every routine passes on.\<close>

record sink =
  s_out :: out_fct
  s_buffer :: u64
  s_maxlen :: u64

text \<open>\<open>out(c, buffer, idx++, maxlen)\<close>, and a sequence of such calls\<close>

definition out1 :: "sink \<Rightarrow> u8 \<Rightarrow> u64 \<times> pstate \<Rightarrow> u64 \<times> pstate" where
  "out1 k c = (\<lambda>(idx, s). (idx + 1, emit (s_out k) c (s_buffer k) idx (s_maxlen k) s))"

definition outs :: "sink \<Rightarrow> u8 list \<Rightarrow> u64 \<times> pstate \<Rightarrow> u64 \<times> pstate" where
  "outs k cs st = fold (out1 k) cs st"

section \<open>Flags\<close>

abbreviation (input) "ZEROPAD \<equiv> 0 :: nat"
abbreviation (input) "LEFT \<equiv> 1 :: nat"
abbreviation (input) "PLUS \<equiv> 2 :: nat"
abbreviation (input) "SPACE \<equiv> 3 :: nat"
abbreviation (input) "HASH \<equiv> 4 :: nat"
abbreviation (input) "UPPERCASE \<equiv> 5 :: nat"
abbreviation (input) "FCHAR \<equiv> 6 :: nat"
abbreviation (input) "SHORT \<equiv> 7 :: nat"
abbreviation (input) "LONG \<equiv> 8 :: nat"
abbreviation (input) "LONG_LONG \<equiv> 9 :: nat"
abbreviation (input) "PRECISION \<equiv> 10 :: nat"
abbreviation (input) "ADAPT_EXP \<equiv> 11 :: nat"

definition chr :: "char \<Rightarrow> u8" where
  "chr c = of_nat (of_char c)"

section \<open>Scanning\<close>

function strnlen_loop :: "mem \<Rightarrow> u64 \<Rightarrow> u64 \<Rightarrow> u64" where
  "strnlen_loop m s maxsize = (if m s = 0 \<or> maxsize = 0 then s else strnlen_loop m (s + 1) (maxsize - 1))"
  by pat_completeness auto
termination
  by (relation "measure (\<lambda>(m, s, n). unat n)") (auto simp: unat_minus_one word_neq_0_conv unat_gt_0)

definition strnlen_s :: "mem \<Rightarrow> u64 \<Rightarrow> u64 \<Rightarrow> u32" where
  "strnlen_s m str maxsize = ucast (strnlen_loop m str maxsize - str)"

definition is_digit :: "u8 \<Rightarrow> bool" where
  "is_digit ch \<longleftrightarrow> chr CHR ''0'' \<le> ch \<and> ch \<le> chr CHR ''9''"

partial_function (option) atoi :: "mem \<Rightarrow> u64 \<Rightarrow> u32 \<Rightarrow> (u32 \<times> u64) option" where
  "atoi m str i =
     (if is_digit (m str) then atoi m (str + 1) (i * 10 + ucast (m str - chr CHR ''0'')) else Some (i, str))"

section \<open>Integers\<close>

text \<open>The loop that pads on the right: until the field has its width.\<close>

function pad_right :: "sink \<Rightarrow> u64 \<Rightarrow> u32 \<Rightarrow> u64 \<times> pstate \<Rightarrow> u64 \<times> pstate" where
  "pad_right k start width st =
     (if fst st - start < ucast width then pad_right k start width (out1 k (chr CHR '' '') st) else st)"
  by pat_completeness auto
termination
proof (relation "measure (\<lambda>(k, start, width, st). 2 ^ 32 - unat (fst st - start))", simp)
  fix k :: sink and start :: u64 and width :: u32 and st :: "u64 \<times> pstate"
  assume lt: "fst st - start < ucast width"
  have "unat (ucast width :: u64) < 2 ^ 32"
    using unsigned_less [of width, where ?'a = nat] by (simp add: unsigned_ucast_eq)
  with lt have b: "unat (fst st - start) < 2 ^ 32" by (simp add: word_less_nat_alt)
  then have "unat (fst st - start + 1) = Suc (unat (fst st - start))"
    by (subst unat_add_lem [THEN iffD1]) simp_all
  moreover have "fst (out1 k (chr CHR '' '') st) - start = fst st - start + 1"
    by (simp add: out1_def split_beta)
  ultimately have "unat (fst (out1 k (chr CHR '' '') st) - start) = Suc (unat (fst st - start))" by (simp only:)
  then show "((k, start, width, out1 k (chr CHR '' '') st), (k, start, width, st))
      \<in> measure (\<lambda>(k, start, width, st). 2 ^ 32 - unat (fst st - start))"
    using b by simp
qed

definition out_rev :: "sink \<Rightarrow> u8 list \<Rightarrow> u32 \<Rightarrow> u32 \<Rightarrow> u64 \<times> pstate \<Rightarrow> u64 \<times> pstate" where
  "out_rev k buf width flags st =
     (let start = fst st;
          st = (if \<not> bit flags LEFT \<and> \<not> bit flags ZEROPAD
                then outs k (replicate (unat width - length buf) (chr CHR '' '')) st else st);
          st = outs k (rev buf) st
      in if bit flags LEFT then pad_right k start width st else st)"

text \<open>
  \<open>buf\<close> is the filled part of the array of 32 characters, in the reverse order of the output. The loops that append zeros stop
  at the given length or at the end of the array.
\<close>

definition zero_fill :: "nat \<Rightarrow> u8 list \<Rightarrow> u8 list" where
  "zero_fill n buf = buf @ replicate (min n 32 - length buf) (chr CHR ''0'')"

definition push :: "u8 \<Rightarrow> u8 list \<Rightarrow> u8 list" where
  "push c buf = (if length buf < 32 then buf @ [c] else buf)"

definition put_sign :: "bool \<Rightarrow> u32 \<Rightarrow> u8 list \<Rightarrow> u8 list" where
  "put_sign negative flags buf =
     (if negative then push (chr CHR ''-'') buf
      else if bit flags PLUS then push (chr CHR ''+'') buf
      else if bit flags SPACE then push (chr CHR '' '') buf else buf)"

definition put_hash :: "u64 \<Rightarrow> u32 \<Rightarrow> u32 \<Rightarrow> u32 \<Rightarrow> u8 list \<Rightarrow> u8 list" where
  "put_hash base prec width flags buf =
     (let buf = (if \<not> bit flags PRECISION \<and> buf \<noteq> [] \<and> (length buf = unat prec \<or> length buf = unat width)
                 then let buf = butlast buf in if buf \<noteq> [] \<and> base = 16 then butlast buf else buf
                 else buf);
          buf = (if base = 16 \<and> \<not> bit flags UPPERCASE then push (chr CHR ''x'') buf
                 else if base = 16 \<and> bit flags UPPERCASE then push (chr CHR ''X'') buf
                 else if base = 2 then push (chr CHR ''b'') buf else buf)
      in push (chr CHR ''0'') buf)"

definition ntoa_buf :: "u8 list \<Rightarrow> bool \<Rightarrow> u64 \<Rightarrow> u32 \<Rightarrow> u32 \<Rightarrow> u32 \<Rightarrow> u8 list \<times> u32" where
  "ntoa_buf buf negative base prec width flags =
     (let (buf, width) =
        (if \<not> bit flags LEFT
         then let width = (if width \<noteq> 0 \<and> bit flags ZEROPAD \<and> (negative \<or> bit flags PLUS \<or> bit flags SPACE)
                           then width - 1 else width);
                  buf = zero_fill (unat prec) buf;
                  buf = (if bit flags ZEROPAD then zero_fill (unat width) buf else buf)
              in (buf, width)
         else (buf, width));
          buf = (if bit flags HASH then put_hash base prec width flags buf else buf)
      in (put_sign negative flags buf, width))"

definition ntoa_format ::
    "sink \<Rightarrow> u8 list \<Rightarrow> bool \<Rightarrow> u64 \<Rightarrow> u32 \<Rightarrow> u32 \<Rightarrow> u32 \<Rightarrow> u64 \<times> pstate \<Rightarrow> u64 \<times> pstate" where
  "ntoa_format k buf negative base prec width flags st =
     (let (buf, width) = ntoa_buf buf negative base prec width flags in out_rev k buf width flags st)"

definition digit_char :: "bool \<Rightarrow> u8 \<Rightarrow> u8" where
  "digit_char upper d =
     (if sint d < 10 then chr CHR ''0'' + d else (if upper then chr CHR ''A'' else chr CHR ''a'') + d - 10)"

function ntoa_digits :: "u64 \<Rightarrow> bool \<Rightarrow> u64 \<Rightarrow> u8 list \<Rightarrow> u8 list" where
  "ntoa_digits base upper v buf =
     (let buf = buf @ [digit_char upper (ucast (v mod base))];
          v = v div base
      in if v \<noteq> 0 \<and> length buf < 32 then ntoa_digits base upper v buf else buf)"
  by pat_completeness auto
termination by (relation "measure (\<lambda>(base, upper, v, buf). 32 - length buf)") auto

definition ntoa_long ::
    "sink \<Rightarrow> u64 \<Rightarrow> bool \<Rightarrow> u64 \<Rightarrow> u32 \<Rightarrow> u32 \<Rightarrow> u32 \<Rightarrow> u64 \<times> pstate \<Rightarrow> u64 \<times> pstate" where
  "ntoa_long k v negative base prec width flags st =
     (let flags = (if v = 0 then unset_bit HASH flags else flags);
          buf = (if \<not> bit flags PRECISION \<or> v \<noteq> 0 then ntoa_digits base (bit flags UPPERCASE) v [] else [])
      in ntoa_format k buf negative base prec width flags st)"

definition ntoa_long_long ::
    "sink \<Rightarrow> u64 \<Rightarrow> bool \<Rightarrow> u64 \<Rightarrow> u32 \<Rightarrow> u32 \<Rightarrow> u32 \<Rightarrow> u64 \<times> pstate \<Rightarrow> u64 \<times> pstate" where
  "ntoa_long_long k v negative base prec width flags st =
     (let flags = (if v = 0 then unset_bit HASH flags else flags);
          buf = (if \<not> bit flags PRECISION \<or> v \<noteq> 0 then ntoa_digits base (bit flags UPPERCASE) v [] else [])
      in ntoa_format k buf negative base prec width flags st)"

declare strnlen_loop.simps [simp del] pad_right.simps [simp del] ntoa_digits.simps [simp del]

section \<open>Floating point\<close>

text \<open>The operations of the processor on values of type \<open>double\<close>, and its conversions.\<close>

record fpu =
  f_add :: "u64 \<Rightarrow> u64 \<Rightarrow> u64"
  f_sub :: "u64 \<Rightarrow> u64 \<Rightarrow> u64"
  f_mul :: "u64 \<Rightarrow> u64 \<Rightarrow> u64"
  f_div :: "u64 \<Rightarrow> u64 \<Rightarrow> u64"
  f_less :: "u64 \<Rightarrow> u64 \<Rightarrow> bool"
  f_equal :: "u64 \<Rightarrow> u64 \<Rightarrow> bool"
  f_of_int :: "int \<Rightarrow> u64"
  f_of_long :: "u64 \<Rightarrow> u64"
  f_to_int :: "u64 \<Rightarrow> int"
  f_to_long :: "u64 \<Rightarrow> u64"

abbreviation (input) "DBL_MAX \<equiv> 0x7FEFFFFFFFFFFFFF :: u64"
abbreviation (input) "MINUS_DBL_MAX \<equiv> 0xFFEFFFFFFFFFFFFF :: u64"
abbreviation (input) "MAX_FLOAT \<equiv> 0x41CDCD6500000000 :: u64"
abbreviation (input) "MINUS_MAX_FLOAT \<equiv> 0xC1CDCD6500000000 :: u64"
abbreviation (input) "HALF \<equiv> 0x3FE0000000000000 :: u64"

definition pow10 :: "u64 list" where
  "pow10 = [0x3FF0000000000000, 0x4024000000000000, 0x4059000000000000, 0x408F400000000000, 0x40C3880000000000,
            0x40F86A0000000000, 0x412E848000000000, 0x416312D000000000, 0x4197D78400000000, 0x41CDCD6500000000]"

text \<open>The two loops over decimal digits; the first one counts the digits down in an unsigned counter.\<close>

function frac_digits :: "u64 \<Rightarrow> u32 \<Rightarrow> u8 list \<Rightarrow> u32 \<times> u8 list" where
  "frac_digits frac count buf =
     (if length buf < 32
      then let count = count - 1;
               buf = buf @ [ucast (48 + frac mod 10)];
               frac = frac div 10
           in if frac = 0 then (count, buf) else frac_digits frac count buf
      else (count, buf))"
  by pat_completeness auto
termination by (relation "measure (\<lambda>(frac, count, buf). 32 - length buf)") auto

function whole_digits :: "int \<Rightarrow> u8 list \<Rightarrow> u8 list" where
  "whole_digits whole buf =
     (if length buf < 32
      then let buf = buf @ [of_int (48 + sgn whole * (\<bar>whole\<bar> mod 10))];
               whole = sgn whole * (\<bar>whole\<bar> div 10)
           in if whole = 0 then buf else whole_digits whole buf
      else buf)"
  by pat_completeness auto
termination by (relation "measure (\<lambda>(whole, buf). 32 - length buf)") auto

text \<open>The digits of \<open>_ftoa\<close> for a value in range: rounding, the two parts, padding and sign. The table of powers has 10 entries.\<close>

definition ftoa_buf :: "fpu \<Rightarrow> u64 \<Rightarrow> u32 \<Rightarrow> u32 \<Rightarrow> u32 \<Rightarrow> (u8 list \<times> u32) outcome" where
  "ftoa_buf fp v prec width flags =
     (let negative = f_less fp v 0;
          v = (if negative then f_sub fp 0 v else v);
          prec = (if \<not> bit flags PRECISION then 6 else prec);
          n = min 32 (unat prec - 9);
          buf = replicate n (chr CHR ''0'');
          prec = prec - of_nat n;
          whole = f_to_int fp v
      in andthen (array_get pow10 (unat prec)) (\<lambda>p.
         let tmp = f_mul fp (f_sub fp v (f_of_int fp whole)) p;
             frac = f_to_long fp tmp;
             diff = f_sub fp tmp (f_of_long fp frac);
             (frac, whole) =
               (if f_less fp HALF diff
                then if \<not> f_less fp (f_of_long fp (frac + 1)) p then (0, int32 (whole + 1)) else (frac + 1, whole)
                else if f_less fp diff HALF then (frac, whole)
                else if frac = 0 \<or> bit frac 0 then (frac + 1, whole) else (frac, whole));
             (whole, buf) =
               (if prec = 0
                then let diff = f_sub fp v (f_of_int fp whole)
                     in (if (\<not> f_less fp diff HALF \<or> f_less fp HALF diff) \<and> odd whole then int32 (whole + 1) else whole, buf)
                else let (count, buf) = frac_digits frac prec buf;
                         buf = buf @ replicate (min (32 - length buf) (unat count)) (chr CHR ''0'')
                     in (whole, push (chr CHR ''.'') buf));
             buf = whole_digits whole buf;
             (buf, width) =
               (if \<not> bit flags LEFT \<and> bit flags ZEROPAD
                then let width = (if width \<noteq> 0 \<and> (negative \<or> bit flags PLUS \<or> bit flags SPACE) then width - 1 else width)
                     in (zero_fill (unat width) buf, width)
                else (buf, width))
         in Inr (put_sign negative flags buf, width)))"

text \<open>
  What \<open>_etoa\<close> computes before it prints: the decimal exponent, the width of the exponent field, and the arguments of the call
  that prints the rescaled value.
\<close>

record etoa_plan =
  e_expval :: int
  e_minwidth :: u32
  e_value :: u64
  e_prec :: u32
  e_fwidth :: u32
  e_flags :: u32

definition etoa_exponent :: "fpu \<Rightarrow> u64 \<Rightarrow> int \<times> u64" where
  "etoa_exponent fp v =
     (let exp2 = int (unat (drop_bit 52 v AND 0x7FF)) - 1023;
          conv = (v AND mask 52) OR push_bit 52 1023;
          expval = f_to_int fp (f_add fp (f_add fp 0x3FC68A288B60C8B3 (f_mul fp (f_of_int fp exp2) 0x3FD34413509F79FB))
                     (f_mul fp (f_sub fp conv 0x3FF8000000000000) 0x3FD287A7636F4361));
          exp2 = f_to_int fp (f_add fp (f_mul fp (f_of_int fp expval) 0x400A934F0979A371) HALF);
          z = f_sub fp (f_mul fp (f_of_int fp expval) 0x40026BB1BBB55516) (f_mul fp (f_of_int fp exp2) 0x3FE62E42FEFA39EF);
          z2 = f_mul fp z z;
          conv = push_bit 52 (of_int (int32 (exp2 + 1023)));
          conv = f_mul fp conv (f_add fp 0x3FF0000000000000 (f_div fp (f_mul fp 0x4000000000000000 z)
                   (f_add fp (f_sub fp 0x4000000000000000 z)
                     (f_div fp z2 (f_add fp 0x4018000000000000 (f_div fp z2 (f_add fp 0x4024000000000000 (f_div fp z2 0x402C000000000000))))))))
      in if f_less fp v conv then (int32 (expval - 1), f_div fp conv 0x4024000000000000) else (expval, conv))"

definition etoa_prepare :: "fpu \<Rightarrow> u64 \<Rightarrow> u32 \<Rightarrow> u32 \<Rightarrow> u32 \<Rightarrow> etoa_plan" where
  "etoa_prepare fp v prec width flags =
     (let negative = f_less fp v 0;
          v = (if negative then v XOR 0x8000000000000000 else v);
          prec = (if \<not> bit flags PRECISION then 6 else prec);
          (expval, conv) = etoa_exponent fp v;
          minwidth = (if expval < 100 \<and> -100 < expval then 4 else 5);
          (prec, flags, minwidth, expval) =
            (if bit flags ADAPT_EXP
             then if \<not> f_less fp v 0x3F1A36E2EB1C432D \<and> f_less fp v 0x412E848000000000
                  then (if sint prec > expval then of_int (sint prec - expval - 1) else 0, set_bit PRECISION flags, 0, 0)
                  else (if prec > 0 \<and> bit flags PRECISION then prec - 1 else prec, flags, minwidth, expval)
             else (prec, flags, minwidth, expval));
          fwidth = (if width > minwidth then width - minwidth else 0);
          fwidth = (if bit flags LEFT \<and> minwidth \<noteq> 0 then 0 else fwidth);
          v = (if expval \<noteq> 0 then f_div fp v conv else v)
      in \<lparr>e_expval = expval, e_minwidth = minwidth, e_value = (if negative then v XOR 0x8000000000000000 else v),
          e_prec = prec, e_fwidth = fwidth, e_flags = flags\<rparr>)"

definition etoa_finish :: "sink \<Rightarrow> u64 \<Rightarrow> u32 \<Rightarrow> etoa_plan \<Rightarrow> u64 \<times> pstate \<Rightarrow> u64 \<times> pstate" where
  "etoa_finish k start width p st =
     (if e_minwidth p \<noteq> 0
      then let st = out1 k (if bit (e_flags p) UPPERCASE then chr CHR ''E'' else chr CHR ''e'') st;
               st = ntoa_long k (of_int (int32 \<bar>e_expval p\<bar>)) (e_expval p < 0) 10 0 (e_minwidth p - 1) (set_bit ZEROPAD (set_bit PLUS 0)) st
           in if bit (e_flags p) LEFT then pad_right k start width st else st
      else st)"

text \<open>
  \<open>_ftoa\<close> and \<open>_etoa\<close> call each other: large values are printed with an exponent, and the exponent form prints the rescaled value
  and the special ones in fixed form.
\<close>

partial_function (option) float_conv ::
    "fpu \<Rightarrow> bool \<Rightarrow> sink \<Rightarrow> u64 \<Rightarrow> u32 \<Rightarrow> u32 \<Rightarrow> u32 \<Rightarrow> u64 \<times> pstate \<Rightarrow> (u64 \<times> pstate) outcome option" where
  "float_conv fp expo k v prec width flags st =
     (if expo
      then if \<not> f_equal fp v v \<or> f_less fp DBL_MAX v \<or> f_less fp v MINUS_DBL_MAX
           then float_conv fp False k v prec width flags st
           else let p = etoa_prepare fp v prec width flags
                in Option.bind (float_conv fp False k (e_value p) (e_prec p) (e_fwidth p) (unset_bit ADAPT_EXP (e_flags p)) st)
                     (\<lambda>r. Some (andthen r (\<lambda>st'. Inr (etoa_finish k (fst st) width p st'))))
      else if \<not> f_equal fp v v then Some (Inr (out_rev k (map chr ''nan'') width flags st))
      else if f_less fp v MINUS_DBL_MAX then Some (Inr (out_rev k (map chr ''fni-'') width flags st))
      else if f_less fp DBL_MAX v
      then Some (Inr (out_rev k (if bit flags PLUS then map chr ''fni+'' else map chr ''fni'') width flags st))
      else if f_less fp MAX_FLOAT v \<or> f_less fp v MINUS_MAX_FLOAT
      then float_conv fp True k v prec width flags st
      else Some (andthen (ftoa_buf fp v prec width flags) (\<lambda>(buf, width). Inr (out_rev k buf width flags st))))"

definition ftoa :: "fpu \<Rightarrow> sink \<Rightarrow> u64 \<Rightarrow> u32 \<Rightarrow> u32 \<Rightarrow> u32 \<Rightarrow> u64 \<times> pstate \<Rightarrow> (u64 \<times> pstate) outcome" where
  "ftoa fp k v prec width flags st = (case float_conv fp False k v prec width flags st of None \<Rightarrow> Inl Hangs | Some r \<Rightarrow> r)"

definition etoa :: "fpu \<Rightarrow> sink \<Rightarrow> u64 \<Rightarrow> u32 \<Rightarrow> u32 \<Rightarrow> u32 \<Rightarrow> u64 \<times> pstate \<Rightarrow> (u64 \<times> pstate) outcome" where
  "etoa fp k v prec width flags st = (case float_conv fp True k v prec width flags st of None \<Rightarrow> Inl Hangs | Some r \<Rightarrow> r)"

declare frac_digits.simps [simp del] whole_digits.simps [simp del]

section \<open>Directives\<close>

record va_list =
  gp :: "u64 list"
  fpargs :: "u64 list"

definition va_arg :: "va_list \<Rightarrow> (u64 \<times> va_list) outcome" where
  "va_arg va = (case gp va of [] \<Rightarrow> Inl Undefined | a # as \<Rightarrow> Inr (a, va\<lparr>gp := as\<rparr>))"

definition va_arg_double :: "va_list \<Rightarrow> (u64 \<times> va_list) outcome" where
  "va_arg_double va = (case fpargs va of [] \<Rightarrow> Inl Undefined | a # as \<Rightarrow> Inr (a, va\<lparr>fpargs := as\<rparr>))"

definition returned :: "'a option \<Rightarrow> 'a outcome" where
  "returned x = (case x of None \<Rightarrow> Inl Hangs | Some a \<Rightarrow> Inr a)"

definition flag_of :: "u8 \<Rightarrow> nat option" where
  "flag_of c =
     (if c = chr CHR ''0'' then Some ZEROPAD
      else if c = chr CHR ''-'' then Some LEFT
      else if c = chr CHR ''+'' then Some PLUS
      else if c = chr CHR '' '' then Some SPACE
      else if c = chr CHR ''#'' then Some HASH else None)"

partial_function (option) scan_flags :: "mem \<Rightarrow> u64 \<Rightarrow> u32 \<Rightarrow> (u32 \<times> u64) option" where
  "scan_flags m f flags =
     (case flag_of (m f) of
        Some n \<Rightarrow> scan_flags m (f + 1) (set_bit n flags)
      | None \<Rightarrow> Some (flags, f))"

definition scan_width :: "mem \<Rightarrow> u64 \<Rightarrow> u32 \<Rightarrow> va_list \<Rightarrow> (u32 \<times> u32 \<times> u64 \<times> va_list) outcome" where
  "scan_width m f flags va =
     (if is_digit (m f) then andthen (returned (atoi m f 0)) (\<lambda>(w, f). Inr (w, flags, f, va))
      else if m f = chr CHR ''*''
      then andthen (va_arg va) (\<lambda>(a, va).
        let w = (ucast a :: u32)
        in if sint w < 0 then Inr (- w, set_bit LEFT flags, f + 1, va) else Inr (w, flags, f + 1, va))
      else Inr (0, flags, f, va))"

definition scan_precision :: "mem \<Rightarrow> u64 \<Rightarrow> u32 \<Rightarrow> va_list \<Rightarrow> (u32 \<times> u32 \<times> u64 \<times> va_list) outcome" where
  "scan_precision m f flags va =
     (if m f = chr CHR ''.''
      then let flags = set_bit PRECISION flags; f = f + 1
           in if is_digit (m f) then andthen (returned (atoi m f 0)) (\<lambda>(p, f). Inr (p, flags, f, va))
              else if m f = chr CHR ''*''
              then andthen (va_arg va) (\<lambda>(a, va).
                let p = (ucast a :: u32) in Inr (if sint p > 0 then p else 0, flags, f + 1, va))
              else Inr (0, flags, f, va)
      else Inr (0, flags, f, va))"

text \<open>\<open>ptrdiff_t\<close>, \<open>intmax_t\<close> and \<open>size_t\<close> have the size of \<open>long\<close>.\<close>

definition scan_length :: "mem \<Rightarrow> u64 \<Rightarrow> u32 \<Rightarrow> u32 \<times> u64" where
  "scan_length m f flags =
     (if m f = chr CHR ''l''
      then if m (f + 1) = chr CHR ''l'' then (set_bit LONG_LONG (set_bit LONG flags), f + 2) else (set_bit LONG flags, f + 1)
      else if m f = chr CHR ''h''
      then if m (f + 1) = chr CHR ''h'' then (set_bit FCHAR (set_bit SHORT flags), f + 2) else (set_bit SHORT flags, f + 1)
      else if m f = chr CHR ''t'' \<or> m f = chr CHR ''j'' \<or> m f = chr CHR ''z'' then (set_bit LONG flags, f + 1)
      else (flags, f))"

section \<open>Conversions\<close>

definition int_base :: "u8 \<Rightarrow> u64" where
  "int_base c =
     (if c = chr CHR ''x'' \<or> c = chr CHR ''X'' then 16
      else if c = chr CHR ''o'' then 8 else if c = chr CHR ''b'' then 2 else 10)"

definition is_signed :: "u8 \<Rightarrow> bool" where
  "is_signed c \<longleftrightarrow> c = chr CHR ''i'' \<or> c = chr CHR ''d''"

definition int_flags :: "u8 \<Rightarrow> u32 \<Rightarrow> u32" where
  "int_flags c flags =
     (let flags = (if int_base c = 10 then unset_bit HASH flags else flags);
          flags = (if c = chr CHR ''X'' then set_bit UPPERCASE flags else flags);
          flags = (if \<not> is_signed c then unset_bit PLUS (unset_bit SPACE flags) else flags)
      in if bit flags PRECISION then unset_bit ZEROPAD flags else flags)"

text \<open>The magnitude of the argument at its width, and whether it is negative.\<close>

definition signed_value :: "u32 \<Rightarrow> u64 \<Rightarrow> u64 \<times> bool" where
  "signed_value flags a =
     (if bit flags LONG_LONG \<or> bit flags LONG then (if sint a > 0 then a else 0 - a, sint a < 0)
      else let v = (if bit flags FCHAR then scast (ucast a :: u8)
                    else if bit flags SHORT then scast (ucast a :: u16) else ucast a :: u32)
           in (ucast (if sint v > 0 then v else 0 - v), sint v < 0))"

definition unsigned_value :: "u32 \<Rightarrow> u64 \<Rightarrow> u64" where
  "unsigned_value flags a =
     (if bit flags LONG_LONG \<or> bit flags LONG then a
      else if bit flags FCHAR then ucast (ucast a :: u8)
      else if bit flags SHORT then ucast (ucast a :: u16) else ucast (ucast a :: u32))"

definition conv_int ::
    "sink \<Rightarrow> u8 \<Rightarrow> u32 \<Rightarrow> u32 \<Rightarrow> u32 \<Rightarrow> u64 \<Rightarrow> u64 \<times> pstate \<Rightarrow> u64 \<times> pstate" where
  "conv_int k c flags width precision a st =
     (let flags = int_flags c flags;
          (v, negative) = (if is_signed c then signed_value flags a else (unsigned_value flags a, False))
      in if bit flags LONG_LONG then ntoa_long_long k v negative (int_base c) precision width flags st
         else ntoa_long k v negative (int_base c) precision width flags st)"

text \<open>The loops \<open>while (l++ < width)\<close> with a 32-bit counter\<close>

definition pad_from :: "u32 \<Rightarrow> u32 \<Rightarrow> u8 list" where
  "pad_from l width = replicate (unat width - unat l) (chr CHR '' '')"

definition conv_char :: "sink \<Rightarrow> u32 \<Rightarrow> u32 \<Rightarrow> u64 \<Rightarrow> u64 \<times> pstate \<Rightarrow> u64 \<times> pstate" where
  "conv_char k flags width a st =
     (let st = (if \<not> bit flags LEFT then outs k (pad_from 1 width) st else st);
          st = out1 k (ucast a) st
      in if bit flags LEFT then outs k (pad_from 1 width) st else st)"

partial_function (option) string_loop :: "sink \<Rightarrow> bool \<Rightarrow> u64 \<Rightarrow> u32 \<Rightarrow> u64 \<times> pstate \<Rightarrow> (u64 \<times> pstate) option" where
  "string_loop k limited p precision st =
     (if pmem (snd st) p \<noteq> 0 \<and> (\<not> limited \<or> precision \<noteq> 0)
      then string_loop k limited (p + 1) (if limited then precision - 1 else precision) (out1 k (pmem (snd st) p) st)
      else Some st)"

definition conv_string :: "sink \<Rightarrow> u32 \<Rightarrow> u32 \<Rightarrow> u32 \<Rightarrow> u64 \<Rightarrow> u64 \<times> pstate \<Rightarrow> (u64 \<times> pstate) outcome" where
  "conv_string k flags width precision p st =
     (let l = strnlen_s (pmem (snd st)) p (if precision \<noteq> 0 then ucast precision else - 1);
          l = (if bit flags PRECISION then (if l < precision then l else precision) else l);
          st = (if \<not> bit flags LEFT then outs k (pad_from l width) st else st)
      in andthen (returned (string_loop k (bit flags PRECISION) p precision st)) (\<lambda>st.
         Inr (if bit flags LEFT then outs k (pad_from l width) st else st)))"

definition conv_pointer :: "sink \<Rightarrow> u32 \<Rightarrow> u32 \<Rightarrow> u64 \<Rightarrow> u64 \<times> pstate \<Rightarrow> u64 \<times> pstate" where
  "conv_pointer k flags precision a st =
     ntoa_long_long k a False 16 precision 16 (set_bit ZEROPAD (set_bit UPPERCASE flags)) st"

text \<open>The specifiers of the integer conversions and of the exponent form\<close>

definition is_int_conv :: "u8 \<Rightarrow> bool" where
  "is_int_conv c \<longleftrightarrow> c \<in> set (map chr ''diuxXob'')"

definition is_exp_conv :: "u8 \<Rightarrow> bool" where
  "is_exp_conv c \<longleftrightarrow> c \<in> set (map chr ''eEgG'')"

definition conversion ::
    "fpu \<Rightarrow> sink \<Rightarrow> u8 \<Rightarrow> u32 \<Rightarrow> u32 \<Rightarrow> u32 \<Rightarrow> va_list \<Rightarrow> u64 \<times> pstate \<Rightarrow> (va_list \<times> u64 \<times> pstate) outcome" where
  "conversion fp k c flags width precision va st =
     (if is_int_conv c
      then andthen (va_arg va) (\<lambda>(a, va). Inr (va, conv_int k c flags width precision a st))
      else if c = chr CHR ''f'' \<or> c = chr CHR ''F''
      then andthen (va_arg_double va) (\<lambda>(d, va).
        let flags = (if c = chr CHR ''F'' then set_bit UPPERCASE flags else flags)
        in andthen (ftoa fp k d precision width flags st) (\<lambda>st. Inr (va, st)))
      else if is_exp_conv c
      then andthen (va_arg_double va) (\<lambda>(d, va).
        let flags = (if c = chr CHR ''g'' \<or> c = chr CHR ''G'' then set_bit ADAPT_EXP flags else flags);
            flags = (if c = chr CHR ''E'' \<or> c = chr CHR ''G'' then set_bit UPPERCASE flags else flags)
        in andthen (etoa fp k d precision width flags st) (\<lambda>st. Inr (va, st)))
      else if c = chr CHR ''c''
      then andthen (va_arg va) (\<lambda>(a, va). Inr (va, conv_char k flags width a st))
      else if c = chr CHR ''s''
      then andthen (va_arg va) (\<lambda>(a, va). andthen (conv_string k flags width precision a st) (\<lambda>st. Inr (va, st)))
      else if c = chr CHR ''p''
      then andthen (va_arg va) (\<lambda>(a, va). Inr (va, conv_pointer k flags precision a st))
      else Inr (va, out1 k c st))"

section \<open>The interpreter\<close>

text \<open>One directive, with the format pointer behind the percent sign.\<close>

definition directive ::
    "fpu \<Rightarrow> sink \<Rightarrow> u64 \<Rightarrow> va_list \<Rightarrow> u64 \<times> pstate \<Rightarrow> (u64 \<times> va_list \<times> u64 \<times> pstate) outcome" where
  "directive fp k f va st =
     (let m = pmem (snd st) in
      andthen (returned (scan_flags m f 0)) (\<lambda>(flags, f).
      andthen (scan_width m f flags va) (\<lambda>(width, flags, f, va).
      andthen (scan_precision m f flags va) (\<lambda>(precision, flags, f, va).
      let (flags, f) = scan_length m f flags
      in andthen (conversion fp k (m f) flags width precision va st) (\<lambda>(va, st). Inr (f + 1, va, st))))))"

partial_function (option) format_loop ::
    "fpu \<Rightarrow> sink \<Rightarrow> u64 \<Rightarrow> va_list \<Rightarrow> u64 \<times> pstate \<Rightarrow> (u64 \<times> pstate) outcome option" where
  "format_loop fp k f va st =
     (let c = pmem (snd st) f
      in if c = 0 then Some (Inr st)
         else if c \<noteq> chr CHR ''%'' then format_loop fp k (f + 1) va (out1 k c st)
         else case directive fp k (f + 1) va st of
                Inl e \<Rightarrow> Some (Inl e)
              | Inr (f, va, st) \<Rightarrow> format_loop fp k f va st)"

definition vsnprintf_impl ::
    "fpu \<Rightarrow> out_fct \<Rightarrow> u64 \<Rightarrow> u64 \<Rightarrow> u64 \<Rightarrow> va_list \<Rightarrow> pstate \<Rightarrow> (int \<times> pstate) outcome" where
  "vsnprintf_impl fp out buffer maxlen f va s =
     (let out = (if buffer = 0 then Out_null else out);
          k = \<lparr>s_out = out, s_buffer = buffer, s_maxlen = maxlen\<rparr>
      in andthen (returned (format_loop fp k f va (0, s))) (\<lambda>r. andthen r (\<lambda>(idx, s).
           Inr (long_to_int idx, emit out 0 buffer (if idx < maxlen then idx else maxlen - 1) maxlen s))))"

section \<open>Entry points\<close>

text \<open>The address of the local array of one character is irrelevant to the output functions that call back.\<close>

definition printf :: "fpu \<Rightarrow> u64 \<Rightarrow> u64 \<Rightarrow> va_list \<Rightarrow> pstate \<Rightarrow> (int \<times> pstate) outcome" where
  "printf fp local f va s = vsnprintf_impl fp Out_char local (- 1) f va s"

definition sprintf :: "fpu \<Rightarrow> u64 \<Rightarrow> u64 \<Rightarrow> va_list \<Rightarrow> pstate \<Rightarrow> (int \<times> pstate) outcome" where
  "sprintf fp buffer f va s = vsnprintf_impl fp Out_buffer buffer (- 1) f va s"

definition snprintf :: "fpu \<Rightarrow> u64 \<Rightarrow> u64 \<Rightarrow> u64 \<Rightarrow> va_list \<Rightarrow> pstate \<Rightarrow> (int \<times> pstate) outcome" where
  "snprintf fp buffer count f va s = vsnprintf_impl fp Out_buffer buffer count f va s"

definition vprintf :: "fpu \<Rightarrow> u64 \<Rightarrow> u64 \<Rightarrow> va_list \<Rightarrow> pstate \<Rightarrow> (int \<times> pstate) outcome" where
  "vprintf fp local f va s = vsnprintf_impl fp Out_char local (- 1) f va s"

definition vsnprintf :: "fpu \<Rightarrow> u64 \<Rightarrow> u64 \<Rightarrow> u64 \<Rightarrow> va_list \<Rightarrow> pstate \<Rightarrow> (int \<times> pstate) outcome" where
  "vsnprintf fp buffer count f va s = vsnprintf_impl fp Out_buffer buffer count f va s"

definition fctprintf :: "fpu \<Rightarrow> u64 \<Rightarrow> u64 \<Rightarrow> va_list \<Rightarrow> pstate \<Rightarrow> (int \<times> pstate) outcome" where
  "fctprintf fp wrap f va s = vsnprintf_impl fp Out_fct wrap (- 1) f va s"

text \<open>\<open>kprintf_\<close> of the second copy: the characters go to the serial line.\<close>

definition kprintf ::
    "fpu \<Rightarrow> hardware \<Rightarrow> u64 \<Rightarrow> u64 \<Rightarrow> va_list \<Rightarrow> mem \<times> history \<Rightarrow> (int \<times> history) outcome" where
  "kprintf fp hw local f va = (\<lambda>(m, h).
     andthen (vsnprintf_impl fp Out_char local (- 1) f va \<lparr>pmem = m, console = []\<rparr>) (\<lambda>(n, s).
     andthen (putSerials hw (console s) h) (\<lambda>h. Inr (n, h))))"

section \<open>Every routine is a sequence of output calls\<close>

lemma outs_Nil [simp]: "outs k [] st = st"
  by (simp add: outs_def)

lemma outs_Cons: "outs k (c # cs) st = outs k cs (out1 k c st)"
  by (simp add: outs_def)

lemma outs_append: "outs k (as @ bs) st = outs k bs (outs k as st)"
  by (simp add: outs_def)

text \<open>The state \<open>st'\<close> results from \<open>st\<close> by calls of the output function.\<close>

definition written :: "sink \<Rightarrow> u64 \<times> pstate \<Rightarrow> u64 \<times> pstate \<Rightarrow> bool" where
  "written k st st' \<longleftrightarrow> (\<exists>cs. st' = outs k cs st)"

lemma written_refl [simp]: "written k st st"
  by (auto simp: written_def intro: exI [of _ "[]"])

lemma written_outs: "written k st0 st \<Longrightarrow> written k st0 (outs k cs st)"
  by (auto simp: written_def simp flip: outs_append)

lemma written_out1: "written k st0 st \<Longrightarrow> written k st0 (out1 k c st)"
  using written_outs [of k st0 st "[c]"] by (simp add: outs_Cons)

lemma written_pad_right: "written k st0 st \<Longrightarrow> written k st0 (pad_right k start width st)"
proof (induction k start width st rule: pad_right.induct)
  case (1 k start width st)
  then show ?case by (subst pad_right.simps) (simp add: written_out1)
qed

lemma written_out_rev: "written k st0 st \<Longrightarrow> written k st0 (out_rev k buf width flags st)"
  by (simp add: out_rev_def Let_def written_outs written_pad_right)

lemma written_ntoa:
  "written k st0 st \<Longrightarrow> written k st0 (ntoa_long k v negative base prec width flags st)"
  "written k st0 st \<Longrightarrow> written k st0 (ntoa_long_long k v negative base prec width flags st)"
  by (simp_all add: ntoa_long_def ntoa_long_long_def ntoa_format_def Let_def split_beta written_out_rev)

lemma written_etoa_finish: "written k st0 st \<Longrightarrow> written k st0 (etoa_finish k start width p st)"
  by (simp add: etoa_finish_def Let_def written_out1 written_ntoa written_pad_right)

lemmas written_intros = written_outs written_out1 written_pad_right written_out_rev written_ntoa written_etoa_finish

lemma written_trans: "written k s t \<Longrightarrow> written k t u \<Longrightarrow> written k s u"
  by (auto simp: written_def simp flip: outs_append)

lemma every_written_from: "written k s t \<Longrightarrow> every (written k t) x \<Longrightarrow> every (written k s) x"
  unfolding every_def using written_trans by blast

lemma written_float_conv:
  assumes "float_conv fp expo k v prec width flags st = Some r"
  shows "every (written k st) r"
  using assms
proof (rule float_conv.raw_induct [where P = "\<lambda>fp expo k v prec width flags st r. every (written k st) r", rotated])
  fix g fp expo k v prec width flags st r
  assume ih: "\<And>fp expo k v prec width flags st r. g fp expo k v prec width flags st = Some r \<Longrightarrow> every (written k st) r"
    and r: "(if expo
      then if \<not> f_equal fp v v \<or> f_less fp DBL_MAX v \<or> f_less fp v MINUS_DBL_MAX
           then g fp False k v prec width flags st
           else let p = etoa_prepare fp v prec width flags
                in Option.bind (g fp False k (e_value p) (e_prec p) (e_fwidth p) (unset_bit ADAPT_EXP (e_flags p)) st)
                     (\<lambda>r. Some (andthen r (\<lambda>st'. Inr (etoa_finish k (fst st) width p st'))))
      else if \<not> f_equal fp v v then Some (Inr (out_rev k (map chr ''nan'') width flags st))
      else if f_less fp v MINUS_DBL_MAX then Some (Inr (out_rev k (map chr ''fni-'') width flags st))
      else if f_less fp DBL_MAX v
      then Some (Inr (out_rev k (if bit flags PLUS then map chr ''fni+'' else map chr ''fni'') width flags st))
      else if f_less fp MAX_FLOAT v \<or> f_less fp v MINUS_MAX_FLOAT
      then g fp True k v prec width flags st
      else Some (andthen (ftoa_buf fp v prec width flags) (\<lambda>(buf, width). Inr (out_rev k buf width flags st)))) = Some r"
  show "every (written k st) r"
  proof (cases "expo \<and> f_equal fp v v \<and> \<not> f_less fp DBL_MAX v \<and> \<not> f_less fp v MINUS_DBL_MAX")
    case True
    let ?p = "etoa_prepare fp v prec width flags"
    from True r obtain r' where r': "g fp False k (e_value ?p) (e_prec ?p) (e_fwidth ?p) (unset_bit ADAPT_EXP (e_flags ?p)) st = Some r'"
      "r = andthen r' (\<lambda>st'. Inr (etoa_finish k (fst st) width ?p st'))"
      by (simp add: Let_def) (auto simp: bind_eq_Some_conv)
    show ?thesis
      unfolding r'(2) by (intro every_andthen every_Inr written_etoa_finish) (rule everyD [OF ih [OF r'(1)]])
  next
    case False
    then show ?thesis
      using r by (auto simp del: split_paired_All split: if_splits intro!: every_intros written_intros elim!: ih)
  qed
qed

lemma written_string_loop:
  assumes "string_loop k l p n st = Some st'"
  shows "written k st st'"
  using assms
proof (rule string_loop.raw_induct [where P = "\<lambda>k l p n st st'. written k st st'", rotated])
  fix g k l p n st st'
  assume ih: "\<And>k l p n st st'. g k l p n st = Some st' \<Longrightarrow> written k st st'"
    and eq: "(if pmem (snd st) p \<noteq> 0 \<and> (\<not> l \<or> n \<noteq> 0)
      then g k l (p + 1) (if l then n - 1 else n) (out1 k (pmem (snd st) p) st)
      else Some st) = Some st'"
  show "written k st st'"
  proof (cases "pmem (snd st) p \<noteq> 0 \<and> (\<not> l \<or> n \<noteq> 0)")
    case True
    then have "g k l (p + 1) (if l then n - 1 else n) (out1 k (pmem (snd st) p) st) = Some st'"
      using eq by auto
    then have "written k (out1 k (pmem (snd st) p) st) st'" by (rule ih)
    with written_out1 [OF written_refl] show ?thesis by (rule written_trans)
  next
    case False
    with eq have "st' = st" by auto
    then show ?thesis by simp
  qed
qed

lemma every_returned: "(\<And>a. x = Some a \<Longrightarrow> P a) \<Longrightarrow> every P (returned x)"
  by (simp add: every_def returned_def split: option.split)

lemma every_returned_andthen: "(\<And>a. x = Some a \<Longrightarrow> every P (f a)) \<Longrightarrow> every P (andthen (returned x) f)"
  by (simp add: every_def returned_def split: option.split)

lemma written_string: "written k st0 st \<Longrightarrow> every (written k st0) (conv_string k flags width precision p st)"
  unfolding conv_string_def Let_def
  by (intro every_returned_andthen every_Inr) (auto intro!: written_intros elim!: written_trans [OF _ written_string_loop, rotated])

lemma written_float:
  "written k st0 st \<Longrightarrow> every (written k st0) (ftoa fp k d prec width flags st)"
  "written k st0 st \<Longrightarrow> every (written k st0) (etoa fp k d prec width flags st)"
  by (auto simp: ftoa_def etoa_def intro!: every_Inl split: option.splits elim!: every_written_from dest: written_float_conv)

lemma written_conversion:
  "written k st0 st \<Longrightarrow> every (\<lambda>(va', st'). written k st0 st') (conversion fp k c flags width precision va st)"
  unfolding conversion_def conv_int_def conv_char_def conv_pointer_def Let_def split_beta
  by (intro every_intros)
     (auto intro!: written_intros dest: everyD [OF written_string] everyD [OF written_float(1)] everyD [OF written_float(2)])

lemma written_directive:
  "directive fp k f va st = Inr (f', va', st') \<Longrightarrow> written k st0 st \<Longrightarrow> written k st0 st'"
  by (auto simp: directive_def Let_def andthen_Inr_iff split_beta dest: everyD [OF written_conversion])

lemma written_format_loop:
  assumes "format_loop fp k f va st = Some r"
  shows "every (written k st) r"
  using assms
proof (rule format_loop.raw_induct [where P = "\<lambda>fp k f va st r. every (written k st) r", rotated])
  fix g fp k f va st r
  assume ih: "\<And>fp k f va st r. g fp k f va st = Some r \<Longrightarrow> every (written k st) r"
    and eq: "(let c = pmem (snd st) f
      in if c = 0 then Some (Inr st)
         else if c \<noteq> chr CHR ''%'' then g fp k (f + 1) va (out1 k c st)
         else case directive fp k (f + 1) va st of
                Inl e \<Rightarrow> Some (Inl e)
              | Inr (f, va, st) \<Rightarrow> g fp k f va st) = Some r"
  let ?c = "pmem (snd st) f"
  consider "?c = 0" | "?c \<noteq> 0" "?c \<noteq> chr CHR ''%''" | "?c \<noteq> 0" "?c = chr CHR ''%''" by blast
  then show "every (written k st) r"
  proof cases
    case 1
    with eq show ?thesis by (auto simp: Let_def intro: every_Inr)
  next
    case 2
    then have "g fp k (f + 1) va (out1 k ?c st) = Some r" using eq by (simp add: Let_def)
    from ih [OF this] show ?thesis by (rule every_written_from [OF written_out1 [OF written_refl]])
  next
    case 3
    show ?thesis
    proof (cases "directive fp k (f + 1) va st")
      case (Inl e)
      with 3 eq have "r = Inl e" by (simp add: Let_def)
      then show ?thesis by (simp add: every_Inl)
    next
      case (Inr x)
      obtain f' va' st' where x: "x = (f', va', st')" by (cases x)
      have "g fp k f' va' st' = Some r" using 3 eq Inr x by (simp add: Let_def)
      from ih [OF this] show ?thesis
        by (rule every_written_from [OF written_directive [OF Inr [unfolded x] written_refl]])
    qed
  qed
qed

section \<open>Bounds\<close>

lemma outs_snoc: "outs k (cs @ [c]) st = out1 k c (outs k cs st)"
  by (simp add: outs_def)

lemma fst_outs: "fst (outs k cs st) = fst st + of_nat (length cs)"
  by (induction cs arbitrary: st) (simp_all add: outs_Cons out1_def split_beta)

lemma emit_buffer_frame:
  "\<not> in_block b (unat n) x \<Longrightarrow> pmem (emit Out_buffer c b i n s) x = pmem s x"
  "console (emit Out_buffer c b i n s) = console s"
  by (auto simp: in_block_def word_less_nat_alt)

lemma outs_buffer_frame:
  assumes "s_out k = Out_buffer"
  shows "\<not> in_block (s_buffer k) (unat (s_maxlen k)) x \<Longrightarrow> pmem (snd (outs k cs st)) x = pmem (snd st) x"
    and "console (snd (outs k cs st)) = console (snd st)"
  by (induction cs arbitrary: st) (simp_all add: outs_Cons out1_def split_beta assms emit_buffer_frame del: emit.simps)

lemma outs_char:
  assumes "s_out k = Out_char"
  shows "snd (outs k cs st) = (snd st)\<lparr>console := console (snd st) @ filter (\<lambda>c. c \<noteq> 0) cs\<rparr>"
  by (induction cs arbitrary: st) (simp_all add: outs_Cons out1_def split_beta assms)

lemma vsnprintf_written:
  assumes "vsnprintf_impl fp out buffer maxlen f va s = Inr (n, s')"
  defines "k \<equiv> \<lparr>s_out = (if buffer = 0 then Out_null else out), s_buffer = buffer, s_maxlen = maxlen\<rparr>"
  shows "\<exists>cs. n = long_to_int (of_nat (length cs)) \<and>
    s' = emit (s_out k) 0 buffer (if of_nat (length cs) < maxlen then of_nat (length cs) else maxlen - 1) maxlen (snd (outs k cs (0, s)))"
proof -
  from assms(1) obtain idx t where t: "format_loop fp k f va (0, s) = Some (Inr (idx, t))" "n = long_to_int idx"
    "s' = emit (s_out k) 0 buffer (if idx < maxlen then idx else maxlen - 1) maxlen t"
    by (auto simp: vsnprintf_impl_def k_def returned_def Let_def andthen_Inr_iff split: option.splits)
  from everyD [OF written_format_loop [OF t(1)]] obtain cs where "(idx, t) = outs k cs (0, s)" by (auto simp: written_def)
  with fst_outs [of k cs "(0, s)"] t show ?thesis by (metis add_0 fst_conv snd_conv)
qed

text \<open>An arithmetic to run the examples with, which reads the bits of a value as an integer.\<close>

definition word_fpu :: fpu where
  "word_fpu = \<lparr>f_add = (+), f_sub = (-), f_mul = (*), f_div = (div), f_less = (\<lambda>a b. sint a < sint b), f_equal = (=),
     f_of_int = of_int, f_of_long = id, f_to_int = sint, f_to_long = id\<rparr>"

text \<open>
  C14: Whatever the format, the arguments and the arithmetic of the processor, \<open>snprintf\<close> changes no byte outside the given buffer
  and prints nothing, and a buffer of at least one byte ends up with a terminating NUL inside it.
\<close>

theorem snprintf_in_bounds:
  assumes "snprintf fp buffer count f va s = Inr (n, s')"
  shows "console s' = console s \<and> (\<forall>x. \<not> in_block buffer (unat count) x \<longrightarrow> pmem s' x = pmem s x) \<and>
    (buffer \<noteq> 0 \<and> count \<noteq> 0 \<longrightarrow> (\<exists>i. i < count \<and> pmem s' (buffer + i) = 0))"
proof (cases "buffer = 0")
  case True
  let ?k = "\<lparr>s_out = Out_null, s_buffer = 0, s_maxlen = count\<rparr>"
  have null: "snd (outs ?k cs st) = snd st" for cs st
    by (induction cs arbitrary: st) (simp_all add: outs_Cons out1_def split_beta)
  from vsnprintf_written [OF assms [unfolded snprintf_def]] True show ?thesis by (auto simp: null)
next
  case False
  let ?k = "\<lparr>s_out = Out_buffer, s_buffer = buffer, s_maxlen = count\<rparr>"
  from vsnprintf_written [OF assms [unfolded snprintf_def]] False obtain cs where
    s': "s' = emit Out_buffer 0 buffer (if of_nat (length cs) < count then of_nat (length cs) else count - 1) count (snd (outs ?k cs (0, s)))"
    by auto
  let ?i = "if of_nat (length cs) < count then of_nat (length cs) else count - 1"
  have "console s' = console s" "\<And>x. \<not> in_block buffer (unat count) x \<Longrightarrow> pmem s' x = pmem s x"
    unfolding s' using outs_buffer_frame [of ?k] by (simp_all add: emit_buffer_frame del: emit.simps)
  moreover have "?i < count \<and> pmem s' (buffer + ?i) = 0" if "count \<noteq> 0"
  proof -
    have "count - 1 < count" using that by (simp add: word_less_nat_alt unat_minus_one unat_gt_0)
    then show ?thesis unfolding s' by simp
  qed
  ultimately show ?thesis by blast
qed

theorem snprintf_in_bounds_witness:
  "\<exists>s'. snprintf word_fpu 64 4 16 \<lparr>gp = [], fpargs = []\<rparr>
      \<lparr>pmem = store_bytes (\<lambda>_. 0) 16 [104, 105, 0], console = []\<rparr> = Inr (2, s') \<and> console s' = [] \<and> pmem s' 16 = 104 \<and> pmem s' 68 = 0"
proof -
  let ?s = "\<lparr>pmem = store_bytes (\<lambda>_. 0) 16 [104, 105, 0], console = []\<rparr> :: pstate"
  have "\<exists>s'. snprintf word_fpu 64 4 16 \<lparr>gp = [], fpargs = []\<rparr> ?s = Inr (2, s')"
    by (simp add: snprintf_def vsnprintf_impl_def format_loop.simps returned_def chr_def out1_def long_to_int_def Let_def)
  then obtain s' where s': "snprintf word_fpu 64 4 16 \<lparr>gp = [], fpargs = []\<rparr> ?s = Inr (2, s')" by blast
  with snprintf_in_bounds [OF this] show ?thesis by (auto simp: in_block_def)
qed

section \<open>Digits\<close>

text \<open>The reference: the digits of a natural number in base \<open>b\<close>, least significant first, and the number they stand for.\<close>

function radix :: "nat \<Rightarrow> nat \<Rightarrow> nat list" where
  "radix b n = (if b \<le> 1 \<or> n < b then [n] else n mod b # radix b (n div b))"
  by pat_completeness auto
termination by (relation "measure snd") (auto intro: div_less_dividend)

declare radix.simps [simp del]

fun radix_value :: "nat \<Rightarrow> nat list \<Rightarrow> nat" where
  "radix_value b [] = 0"
| "radix_value b (d # ds) = d + b * radix_value b ds"

lemma radix_value_radix: "radix_value b (radix b n) = n"
proof (induction b n rule: radix.induct)
  case (1 b n)
  then show ?case by (cases "b \<le> 1 \<or> n < b") (simp_all add: radix.simps [of b n])
qed

lemma radix_not_Nil [simp]: "radix b n \<noteq> []"
  by (subst radix.simps) simp

lemma radix_less: "1 < b \<Longrightarrow> d \<in> set (radix b n) \<Longrightarrow> d < b"
proof (induction b n rule: radix.induct)
  case (1 b n)
  then show ?case by (cases "n < b") (auto simp: radix.simps [of b n])
qed

lemma length_radix: "1 < b \<Longrightarrow> n < b ^ k \<Longrightarrow> 0 < k \<Longrightarrow> length (radix b n) \<le> k"
proof (induction k arbitrary: n)
  case 0
  then show ?case by simp
next
  case (Suc k)
  show ?case
  proof (cases "n < b")
    case True
    then show ?thesis by (simp add: radix.simps [of b n])
  next
    case False
    with Suc.prems have "0 < k" by (cases k) auto
    have "n div b < b ^ k" using Suc.prems by (simp add: less_mult_imp_div_less mult.commute)
    with Suc.IH Suc.prems(1) \<open>0 < k\<close> False show ?thesis by (simp add: radix.simps [of b n])
  qed
qed

definition digit_of :: "bool \<Rightarrow> nat \<Rightarrow> u8" where
  "digit_of upper d = (if d < 10 then chr CHR ''0'' + of_nat d else (if upper then chr CHR ''A'' else chr CHR ''a'') + of_nat d - 10)"

lemma digit_char_small: "d < 16 \<Longrightarrow> digit_char upper (of_nat d) = digit_of upper d"
proof -
  assume d: "d < 16"
  then have u: "uint (of_nat d :: u8) = int d" by (simp add: unsigned_of_nat take_bit_nat_eq_self)
  have "sint (of_nat d :: u8) = int d"
    using d by (simp add: sint_uint u signed_take_bit_int_eq_self)
  then show ?thesis by (simp add: digit_char_def digit_of_def)
qed

lemma ntoa_digits_radix:
  assumes "1 < unat base" and "unat base \<le> 16" and "length buf < 32"
  shows "ntoa_digits base upper v buf = buf @ take (32 - length buf) (map (digit_of upper) (radix (unat base) (unat v)))"
  using assms
proof (induction base upper v buf rule: ntoa_digits.induct)
  case (1 base upper v buf)
  let ?d = "unat v mod unat base"
  have nz: "base \<noteq> 0" using "1.prems"(1) by auto
  have "ucast (v mod base) = (of_nat ?d :: u8)"
    by (simp add: unsigned_word_eqI flip: unat_mod)
  moreover have "?d < 16" using "1.prems" mod_less_divisor [of "unat base" "unat v"] by linarith
  ultimately have dc: "digit_char upper (ucast (v mod base)) = digit_of upper ?d" by (simp add: digit_char_small)
  show ?case
  proof (cases "v div base = 0")
    case True
    then have "unat v < unat base" using nz by (metis div_eq_0_iff unat_div unat_eq_zero)
    then show ?thesis
      using True "1.prems"(3) dc by (subst ntoa_digits.simps) (simp add: Let_def radix.simps [of "unat base" "unat v"] take_Cons')
  next
    case False
    then have ge: "\<not> unat v < unat base" by (metis div_less unat_div unat_eq_zero)
    have r: "radix (unat base) (unat v) = ?d # radix (unat base) (unat (v div base))"
      using ge "1.prems"(1) by (subst radix.simps) (simp add: unat_div)
    show ?thesis
    proof (cases "length buf < 31")
      case True
      have "ntoa_digits base upper (v div base) (buf @ [digit_of upper ?d]) =
          (buf @ [digit_of upper ?d]) @ take (31 - length buf) (map (digit_of upper) (radix (unat base) (unat (v div base))))"
        using "1.IH" [OF refl refl] False True "1.prems" by (simp add: dc)
      moreover have "32 - length buf = Suc (31 - length buf)" using True by simp
      ultimately show ?thesis
        using False True by (subst ntoa_digits.simps) (simp add: Let_def dc r)
    next
      case f: False
      then have "length buf = 31" using "1.prems"(3) by simp
      then show ?thesis by (subst ntoa_digits.simps) (simp add: Let_def dc r)
    qed
  qed
qed

text \<open>
  C12: The conversion loop computes the positional representation: the digits it stores are those of the reference, least
  significant first, cut off at the 32 places of its buffer. Up to 32 digits nothing is lost, and the digits give
  back the number; so every 64-bit value is printed completely in base 8, 10 and 16, and in base 2 exactly the values below \<open>2^32\<close>.
\<close>

theorem ntoa_digits_reference:
  assumes "1 < unat base" and "unat base \<le> 16"
  shows "ntoa_digits base upper v [] = take 32 (map (digit_of upper) (radix (unat base) (unat v))) \<and>
    radix_value (unat base) (radix (unat base) (unat v)) = unat v \<and>
    (unat v < unat base ^ 32 \<longrightarrow> ntoa_digits base upper v [] = map (digit_of upper) (radix (unat base) (unat v)))"
  using ntoa_digits_radix [of base "[]" upper v] length_radix [of "unat base" "unat v" 32] assms
  by (simp add: radix_value_radix)

theorem ntoa_digits_reference_witness:
  "ntoa_digits 16 True 3054 [] = take 32 (map (digit_of True) (radix 16 3054)) \<and> rev (ntoa_digits 16 True 3054 []) = map chr ''BEE''"
proof -
  have "rev (ntoa_digits 16 True 3054 []) = map chr ''BEE''" by code_simp
  with ntoa_digits_reference [of 16 True 3054] show ?thesis by simp
qed

end
