(* ===== verification/PrintfSpec.thy ===== *)
theory PrintfSpec
  imports Printf
begin

text \<open>
  What formatted output means: a specification that expands a format, given as a list of characters, and its arguments to a
  list of characters, and the proof that the interpreter of \<open>src/src/printf/printf.c\<close>, which walks over pointers and
  writes character by character, implements it. Conversions of floating-point values are left to the parameters
  of the model and have no expansion here.
\<close>

section \<open>Closed forms of the integer routines\<close>

lemma pad_right_outs:
  "pad_right k start width st = outs k (replicate (unat width - unat (fst st - start)) (chr CHR '' '')) st"
proof (induction k start width st rule: pad_right.induct)
  case (1 k start width st)
  show ?case
  proof (cases "fst st - start < ucast width")
    case True
    then have lt: "unat (fst st - start) < unat width" by (simp add: word_less_nat_alt unat_ucast_32)
    have "unat (fst st - start + 1) = Suc (unat (fst st - start))"
      using lt unsigned_less [of width, where ?'a = nat] by (subst unat_add_lem [THEN iffD1]) simp_all
    moreover have "fst (out1 k (chr CHR '' '') st) - start = fst st - start + 1" by (simp add: out1_def split_beta)
    ultimately have "unat (fst (out1 k (chr CHR '' '') st) - start) = Suc (unat (fst st - start))" by (simp only:)
    moreover have "unat width - unat (fst st - start) = Suc (unat width - Suc (unat (fst st - start)))" using lt by simp
    ultimately show ?thesis using 1 True by (subst pad_right.simps) (simp add: outs_Cons)
  next
    case False
    then show ?thesis by (subst pad_right.simps) (simp add: word_less_nat_alt unat_ucast_32)
  qed
qed

definition field :: "u8 list \<Rightarrow> u32 \<Rightarrow> u32 \<Rightarrow> u8 list" where
  "field buf width flags =
     (let pad = replicate (unat width - length buf) (chr CHR '' '')
      in if bit flags LEFT then rev buf @ pad else if bit flags ZEROPAD then rev buf else pad @ rev buf)"

lemma out_rev_outs: "length buf < 2 ^ 64 \<Longrightarrow> out_rev k buf width flags st = outs k (field buf width flags) st"
  by (simp add: out_rev_def field_def Let_def pad_right_outs outs_append fst_outs unsigned_of_nat take_bit_nat_eq_self)

lemma length_push: "length buf \<le> 32 \<Longrightarrow> length (push c buf) \<le> 32"
  by (simp add: push_def)

lemma length_zero_fill: "length buf \<le> 32 \<Longrightarrow> length (zero_fill n buf) \<le> 32"
  by (auto simp: zero_fill_def)

lemma length_put_hash: "length buf \<le> 32 \<Longrightarrow> length (put_hash base prec width flags buf) \<le> 32"
  by (auto simp: put_hash_def Let_def intro!: length_push)

lemma length_put_sign: "length buf \<le> 32 \<Longrightarrow> length (put_sign negative flags buf) \<le> 32"
  by (auto simp: put_sign_def intro!: length_push)

lemma length_ntoa_buf: "length buf \<le> 32 \<Longrightarrow> length (fst (ntoa_buf buf negative base prec width flags)) \<le> 32"
  by (auto simp: ntoa_buf_def Let_def intro!: length_put_sign length_put_hash length_zero_fill)

lemma length_ntoa_digits: "length buf < 32 \<Longrightarrow> length (ntoa_digits base upper v buf) \<le> 32"
proof (induction base upper v buf rule: ntoa_digits.induct)
  case (1 base upper v buf)
  then show ?case by (subst ntoa_digits.simps) (simp add: Let_def)
qed

definition int_field :: "u64 \<Rightarrow> bool \<Rightarrow> u64 \<Rightarrow> u32 \<Rightarrow> u32 \<Rightarrow> u32 \<Rightarrow> u8 list" where
  "int_field v negative base prec width flags =
     (let flags = (if v = 0 then unset_bit HASH flags else flags);
          buf = (if \<not> bit flags PRECISION \<or> v \<noteq> 0 then ntoa_digits base (bit flags UPPERCASE) v [] else []);
          (buf, width) = ntoa_buf buf negative base prec width flags
      in field buf width flags)"

lemma ntoa_outs:
  "ntoa_long k v negative base prec width flags st = outs k (int_field v negative base prec width flags) st"
  "ntoa_long_long k v negative base prec width flags st = outs k (int_field v negative base prec width flags) st"
proof -
  have len: "length (fst (ntoa_buf (if c then ntoa_digits base up v [] else []) negative base prec width fl)) < 2 ^ 64" for c up fl
    using length_ntoa_buf [of "if c then ntoa_digits base up v [] else []" negative base prec width fl]
      length_ntoa_digits [of "[]" base up v] by (cases c) simp_all
  show "ntoa_long k v negative base prec width flags st = outs k (int_field v negative base prec width flags) st"
    "ntoa_long_long k v negative base prec width flags st = outs k (int_field v negative base prec width flags) st"
    unfolding ntoa_long_def ntoa_long_long_def ntoa_format_def int_field_def Let_def split_beta
    by (rule out_rev_outs [OF len])+
qed

section \<open>The specification\<close>

fun next_char :: "u8 list \<Rightarrow> u8" where
  "next_char [] = 0"
| "next_char (c # cs) = c"

fun spec_flags :: "u8 list \<Rightarrow> u32 \<Rightarrow> u32 \<times> u8 list" where
  "spec_flags [] flags = (flags, [])"
| "spec_flags (c # cs) flags =
     (case flag_of c of Some n \<Rightarrow> spec_flags cs (set_bit n flags) | None \<Rightarrow> (flags, c # cs))"

fun spec_number :: "u8 list \<Rightarrow> u32 \<Rightarrow> u32 \<times> u8 list" where
  "spec_number [] i = (i, [])"
| "spec_number (c # cs) i = (if is_digit c then spec_number cs (i * 10 + ucast (c - chr CHR ''0'')) else (i, c # cs))"

definition spec_width :: "u8 list \<Rightarrow> u32 \<Rightarrow> u64 list \<Rightarrow> (u32 \<times> u32 \<times> u8 list \<times> u64 list) option" where
  "spec_width cs flags as =
     (if is_digit (next_char cs) then let (w, cs) = spec_number cs 0 in Some (w, flags, cs, as)
      else if next_char cs = chr CHR ''*''
      then (case as of
              [] \<Rightarrow> None
            | a # as \<Rightarrow> let w = (ucast a :: u32)
                       in Some (if sint w < 0 then (- w, set_bit LEFT flags, tl cs, as) else (w, flags, tl cs, as)))
      else Some (0, flags, cs, as))"

definition spec_precision :: "u8 list \<Rightarrow> u32 \<Rightarrow> u64 list \<Rightarrow> (u32 \<times> u32 \<times> u8 list \<times> u64 list) option" where
  "spec_precision cs flags as =
     (if next_char cs = chr CHR ''.''
      then let flags = set_bit PRECISION flags; cs = tl cs
           in if is_digit (next_char cs) then let (p, cs) = spec_number cs 0 in Some (p, flags, cs, as)
              else if next_char cs = chr CHR ''*''
              then (case as of
                      [] \<Rightarrow> None
                    | a # as \<Rightarrow> let p = (ucast a :: u32) in Some (if sint p > 0 then p else 0, flags, tl cs, as))
              else Some (0, flags, cs, as)
      else Some (0, flags, cs, as))"

definition spec_length :: "u8 list \<Rightarrow> u32 \<Rightarrow> u32 \<times> u8 list" where
  "spec_length cs flags =
     (let c = next_char cs; d = next_char (tl cs)
      in if c = chr CHR ''l''
         then if d = chr CHR ''l'' then (set_bit LONG_LONG (set_bit LONG flags), tl (tl cs)) else (set_bit LONG flags, tl cs)
         else if c = chr CHR ''h''
         then if d = chr CHR ''h'' then (set_bit FCHAR (set_bit SHORT flags), tl (tl cs)) else (set_bit SHORT flags, tl cs)
         else if c = chr CHR ''t'' \<or> c = chr CHR ''j'' \<or> c = chr CHR ''z'' then (set_bit LONG flags, tl cs)
         else (flags, cs))"

definition spec_int :: "u8 \<Rightarrow> u32 \<Rightarrow> u32 \<Rightarrow> u32 \<Rightarrow> u64 \<Rightarrow> u8 list" where
  "spec_int c flags width precision a =
     (let flags = int_flags c flags;
          (v, negative) = (if is_signed c then signed_value flags a else (unsigned_value flags a, False))
      in int_field v negative (int_base c) precision width flags)"

text \<open>A string is cut to the precision, if there is one, and padded to the width.\<close>

definition spec_string :: "u8 list \<Rightarrow> u32 \<Rightarrow> u32 \<Rightarrow> u32 \<Rightarrow> u8 list" where
  "spec_string xs flags width precision =
     (let ys = (if bit flags PRECISION then take (unat precision) xs else xs);
          pad = replicate (unat width - length ys) (chr CHR '' '')
      in if bit flags LEFT then ys @ pad else pad @ ys)"

definition string_at :: "mem \<Rightarrow> u64 \<Rightarrow> u8 list option" where
  "string_at m a = map_option (\<lambda>n. load_bytes m a (nat n)) (strlen m a)"

text \<open>One conversion: its characters, the strings it reads, and the arguments that are left.\<close>

definition spec_conversion ::
    "mem \<Rightarrow> u8 \<Rightarrow> u32 \<Rightarrow> u32 \<Rightarrow> u32 \<Rightarrow> u64 list \<Rightarrow> (u8 list \<times> (u64 \<times> u8 list) list \<times> u64 list) option" where
  "spec_conversion m c flags width precision as =
     (if is_int_conv c
      then (case as of [] \<Rightarrow> None | a # as \<Rightarrow> Some (spec_int c flags width precision a, [], as))
      else if c = chr CHR ''f'' \<or> c = chr CHR ''F'' \<or> is_exp_conv c \<or> c = 0 then None
      else if c = chr CHR ''c''
      then (case as of [] \<Rightarrow> None | a # as \<Rightarrow>
        let pad = pad_from 1 width in Some (if bit flags LEFT then ucast a # pad else pad @ [ucast a], [], as))
      else if c = chr CHR ''s''
      then (case as of [] \<Rightarrow> None | a # as \<Rightarrow>
        (case string_at m a of None \<Rightarrow> None | Some xs \<Rightarrow>
          if length xs < 2 ^ 32 then Some (spec_string xs flags width precision, [(a, xs)], as) else None))
      else if c = chr CHR ''p''
      then (case as of [] \<Rightarrow> None | a # as \<Rightarrow>
        Some (int_field a False 16 precision 16 (set_bit ZEROPAD (set_bit UPPERCASE flags)), [], as))
      else Some ([c], [], as))"

definition spec_directive ::
    "mem \<Rightarrow> u8 list \<Rightarrow> u64 list \<Rightarrow> (u8 list \<times> (u64 \<times> u8 list) list \<times> u8 list \<times> u64 list) option" where
  "spec_directive m cs as =
     (let (flags, cs) = spec_flags cs 0 in
      case spec_width cs flags as of None \<Rightarrow> None | Some (width, flags, cs, as) \<Rightarrow>
      case spec_precision cs flags as of None \<Rightarrow> None | Some (precision, flags, cs, as) \<Rightarrow>
      let (flags, cs) = spec_length cs flags in
      case spec_conversion m (next_char cs) flags width precision as of None \<Rightarrow> None | Some (out, strs, as) \<Rightarrow>
      Some (out, strs, tl cs, as))"

lemma spec_flags_length: "length (snd (spec_flags cs flags)) \<le> length cs"
  by (induction cs flags rule: spec_flags.induct) (auto split: option.splits intro: le_SucI)

lemma spec_number_length: "length (snd (spec_number cs i)) \<le> length cs"
  by (induction cs i rule: spec_number.induct) (auto intro: le_SucI)

lemma spec_width_length: "spec_width cs flags as = Some (w, flags', cs', as') \<Longrightarrow> length cs' \<le> length cs"
  using spec_number_length [of cs 0]
  by (auto simp: spec_width_def Let_def split_beta split: if_splits list.splits)

lemma spec_precision_length: "spec_precision cs flags as = Some (p, flags', cs', as') \<Longrightarrow> length cs' \<le> length cs"
  using spec_number_length [of "tl cs" 0]
  by (auto simp: spec_precision_def Let_def split_beta split: if_splits list.splits)

lemma spec_length_length: "length (snd (spec_length cs flags)) \<le> length cs"
  by (auto simp: spec_length_def Let_def)

lemma spec_directiveE:
  assumes "spec_directive m cs as = Some (out, strs, cs', as')"
  obtains fl1 cs1 w fl2 cs2 as2 p fl3 cs3 as3 fl4 cs4 where
    "spec_flags cs 0 = (fl1, cs1)" "spec_width cs1 fl1 as = Some (w, fl2, cs2, as2)"
    "spec_precision cs2 fl2 as2 = Some (p, fl3, cs3, as3)" "spec_length cs3 fl3 = (fl4, cs4)"
    "spec_conversion m (next_char cs4) fl4 w p as3 = Some (out, strs, as')" "cs' = tl cs4"
proof -
  obtain fl1 cs1 where 1: "spec_flags cs 0 = (fl1, cs1)" by fastforce
  with assms obtain w fl2 cs2 as2 where 2: "spec_width cs1 fl1 as = Some (w, fl2, cs2, as2)"
    by (cases "spec_width cs1 fl1 as") (auto simp: spec_directive_def)
  with 1 assms obtain p fl3 cs3 as3 where 3: "spec_precision cs2 fl2 as2 = Some (p, fl3, cs3, as3)"
    by (cases "spec_precision cs2 fl2 as2") (auto simp: spec_directive_def)
  obtain fl4 cs4 where 4: "spec_length cs3 fl3 = (fl4, cs4)" by fastforce
  show thesis
    using assms 1 2 3 4 by (cases "spec_conversion m (next_char cs4) fl4 w p as3") (auto simp: spec_directive_def intro: that)
qed

lemma spec_directive_length: "spec_directive m cs as = Some (out, strs, cs', as') \<Longrightarrow> length cs' \<le> length cs"
proof (erule spec_directiveE)
  fix fl1 cs1 w fl2 cs2 as2 p fl3 cs3 as3 fl4 cs4
  assume *: "spec_flags cs 0 = (fl1, cs1)" "spec_width cs1 fl1 as = Some (w, fl2, cs2, as2)"
    "spec_precision cs2 fl2 as2 = Some (p, fl3, cs3, as3)" "spec_length cs3 fl3 = (fl4, cs4)" "cs' = tl cs4"
  show "length cs' \<le> length cs"
    using spec_flags_length [of cs 0] spec_width_length [OF *(2)] spec_precision_length [OF *(3)]
      spec_length_length [of cs3 fl3] by (simp add: *(1,4,5))
qed

function expand :: "mem \<Rightarrow> u8 list \<Rightarrow> u64 list \<Rightarrow> (u8 list \<times> (u64 \<times> u8 list) list) option" where
  "expand m [] as = Some ([], [])"
| "expand m (c # cs) as =
     (if c \<noteq> chr CHR ''%'' then map_option (\<lambda>(out, strs). (c # out, strs)) (expand m cs as)
      else case spec_directive m cs as of
             None \<Rightarrow> None
           | Some (out, strs, cs', as') \<Rightarrow> map_option (\<lambda>(out', strs'). (out @ out', strs @ strs')) (expand m cs' as'))"
  by pat_completeness auto
termination
  by (relation "measure (\<lambda>(m, cs, as). length cs)") (auto dest!: spec_directive_length)

section \<open>Reading the format\<close>

text \<open>The characters \<open>cs\<close> stand at \<open>f\<close>, NUL-terminated, and none of these bytes is in \<open>B\<close>, the bytes that output may change.\<close>

definition reads :: "(u64 \<Rightarrow> bool) \<Rightarrow> mem \<Rightarrow> u64 \<Rightarrow> u8 list \<Rightarrow> bool" where
  "reads B m f cs \<longleftrightarrow> cstring m f cs \<and> (\<forall>i \<le> length cs. \<not> B (f + of_nat i))"

lemma reads_Nil [simp]: "reads B m f [] \<longleftrightarrow> m f = 0 \<and> \<not> B f"
  by (simp add: reads_def)

lemma all_le_Suc_shift: "(\<forall>i \<le> Suc n. P i) \<longleftrightarrow> P 0 \<and> (\<forall>i \<le> n. P (Suc i))"
  by (metis Suc_le_mono le0 not0_implies_Suc)

lemma reads_Cons [simp]: "reads B m f (c # cs) \<longleftrightarrow> c \<noteq> 0 \<and> m f = c \<and> \<not> B f \<and> reads B m (f + 1) cs"
  by (auto simp: reads_def all_le_Suc_shift add.assoc)

lemma reads_next: "reads B m f cs \<Longrightarrow> m f = next_char cs"
  by (cases cs) simp_all

lemma reads_tl: "reads B m f cs \<Longrightarrow> next_char cs \<noteq> 0 \<Longrightarrow> reads B m (f + 1) (tl cs)"
  by (cases cs) simp_all

lemma reads_agree:
  "reads B m f cs \<Longrightarrow> (\<And>x. \<not> B x \<Longrightarrow> m' x = m x) \<Longrightarrow> reads B m' f cs"
  by (induction cs arbitrary: f) simp_all

section \<open>The interpreter implements the specification\<close>

lemma scan_flags_spec:
  "reads B m f cs \<Longrightarrow> spec_flags cs fl = (fl', cs') \<Longrightarrow> \<exists>f'. scan_flags m f fl = Some (fl', f') \<and> reads B m f' cs'"
proof (induction cs fl arbitrary: f rule: spec_flags.induct)
  case (1 fl)
  have "flag_of 0 = None" by (simp add: flag_of_def chr_def)
  with 1 show ?case by (subst scan_flags.simps) simp
next
  case (2 c cs fl)
  then show ?case by (subst scan_flags.simps) (auto split: option.splits)
qed

lemma is_digit_0 [simp]: "\<not> is_digit 0"
  by (simp add: is_digit_def chr_def)

lemma atoi_spec:
  "reads B m f cs \<Longrightarrow> spec_number cs i = (n, cs') \<Longrightarrow> \<exists>f'. atoi m f i = Some (n, f') \<and> reads B m f' cs'"
proof (induction cs i arbitrary: f rule: spec_number.induct)
  case (1 i)
  then show ?case by (subst atoi.simps) simp
next
  case (2 c cs i)
  then show ?case by (subst atoi.simps) (auto split: if_splits)
qed

lemma chr_neq_0 [simp]: "chr CHR ''*'' \<noteq> 0" "chr CHR ''.'' \<noteq> 0" "chr CHR ''l'' \<noteq> 0" "chr CHR ''h'' \<noteq> 0"
  "chr CHR ''t'' \<noteq> 0" "chr CHR ''j'' \<noteq> 0" "chr CHR ''z'' \<noteq> 0"
  by (simp_all add: chr_def)

lemma scan_width_spec:
  assumes "reads B m f cs" and "spec_width cs fl (gp va) = Some (w, fl', cs', as')"
  shows "\<exists>f'. scan_width m f fl va = Inr (w, fl', f', va\<lparr>gp := as'\<rparr>) \<and> reads B m f' cs'"
proof (cases "is_digit (next_char cs)")
  case True
  with assms(2) have "spec_number cs 0 = (w, cs')" "fl' = fl" "as' = gp va"
    by (auto simp: spec_width_def split_beta)
  with True atoi_spec [OF assms(1)] reads_next [OF assms(1)] show ?thesis by (fastforce simp: scan_width_def returned_def)
next
  case False
  with assms reads_next [OF assms(1)] reads_tl [OF assms(1)] show ?thesis
    by (auto simp: spec_width_def scan_width_def va_arg_def Let_def split: if_splits list.splits)
qed

lemma scan_precision_spec:
  assumes "reads B m f cs" and "spec_precision cs fl (gp va) = Some (w, fl', cs', as')"
  shows "\<exists>f'. scan_precision m f fl va = Inr (w, fl', f', va\<lparr>gp := as'\<rparr>) \<and> reads B m f' cs'"
proof (cases "next_char cs = chr CHR ''.''")
  case True
  then have r: "reads B m (f + 1) (tl cs)" using reads_tl [OF assms(1)] by simp
  show ?thesis
  proof (cases "is_digit (next_char (tl cs))")
    case d: True
    with True assms(2) have "spec_number (tl cs) 0 = (w, cs')" "fl' = set_bit PRECISION fl" "as' = gp va"
      by (auto simp: spec_precision_def split_beta Let_def)
    with True d atoi_spec [OF r] reads_next [OF assms(1)] reads_next [OF r] show ?thesis
      by (fastforce simp: scan_precision_def returned_def Let_def)
  next
    case False
    with True assms(2) reads_next [OF assms(1)] reads_next [OF r] reads_tl [OF r] r show ?thesis
      by (auto simp: spec_precision_def scan_precision_def va_arg_def Let_def split: if_splits list.splits)
  qed
next
  case False
  with assms reads_next [OF assms(1)] show ?thesis by (auto simp: spec_precision_def scan_precision_def)
qed

lemma scan_length_spec:
  assumes "reads B m f cs" and "spec_length cs fl = (fl', cs')"
  shows "\<exists>f'. scan_length m f fl = (fl', f') \<and> reads B m f' cs'"
proof -
  have two: "f + 2 = f + 1 + 1" by simp
  show ?thesis
  proof (cases "next_char cs = 0")
    case True
    with assms reads_next [OF assms(1)] show ?thesis by (auto simp: spec_length_def scan_length_def Let_def)
  next
    case False
    note r = reads_tl [OF assms(1) False]
    from assms r reads_next [OF assms(1)] reads_next [OF r] reads_tl [OF r]
    show ?thesis unfolding two scan_length_def by (auto simp: spec_length_def Let_def split: if_splits)
  qed
qed

subsection \<open>Strings\<close>

lemma load_bytes_cstring: "cstring m a ys \<Longrightarrow> load_bytes m a (length ys) = ys"
  by (induction ys arbitrary: a) simp_all

lemma string_at_cstring: "string_at m a = Some xs \<Longrightarrow> cstring m a xs"
proof -
  assume s: "string_at m a = Some xs"
  then obtain n where "strlen m a = Some n" by (auto simp: string_at_def)
  then obtain x where "m x = 0" using strlen_loop_zero [of m a 0 n] by (auto simp: strlen_def)
  then obtain ys where ys: "cstring m a ys" using cstring_exists by blast
  then have "xs = load_bytes m a (length ys)" using s strlen_cstring [OF ys] by (simp add: string_at_def)
  also have "\<dots> = ys" by (rule load_bytes_cstring [OF ys])
  finally show ?thesis using ys by simp
qed

lemma strnlen_loop_cstring:
  "cstring m p xs \<Longrightarrow> strnlen_loop m p n = p + of_nat (min (length xs) (unat n))"
proof (induction xs arbitrary: p n)
  case Nil
  then show ?case by (subst strnlen_loop.simps) simp
next
  case (Cons x xs)
  show ?case
  proof (cases "n = 0")
    case True
    then show ?thesis by (subst strnlen_loop.simps) simp
  next
    case False
    then have "unat n = Suc (unat (n - 1))" by (simp add: unat_minus_one unat_gt_0)
    with Cons False show ?thesis by (subst strnlen_loop.simps) simp
  qed
qed

lemma strnlen_s_cstring:
  assumes "cstring m p xs" and "length xs < 2 ^ 32"
  shows "unat (strnlen_s m p n) = min (length xs) (unat n)"
  using assms by (simp add: strnlen_s_def strnlen_loop_cstring unsigned_ucast_eq unsigned_of_nat take_bit_nat_eq_self
      min_def take_bit_tightened_less_eq_nat)

text \<open>Output through \<open>k\<close> changes memory only in \<open>B\<close>.\<close>

definition confined :: "(u64 \<Rightarrow> bool) \<Rightarrow> sink \<Rightarrow> bool" where
  "confined B k \<longleftrightarrow> (\<forall>c i s x. \<not> B x \<longrightarrow> pmem (snd (out1 k c (i, s))) x = pmem s x)"

lemma confined_out1: "confined B k \<Longrightarrow> \<not> B x \<Longrightarrow> pmem (snd (out1 k c st)) x = pmem (snd st) x"
  by (cases st) (simp add: confined_def)

lemma confined_outs: "confined B k \<Longrightarrow> \<not> B x \<Longrightarrow> pmem (snd (outs k cs st)) x = pmem (snd st) x"
  by (induction cs arbitrary: st) (simp_all add: outs_Cons confined_out1)

lemma reads_outs: "confined B k \<Longrightarrow> reads B (pmem (snd st)) f cs \<Longrightarrow> reads B (pmem (snd (outs k out st))) f cs"
  by (erule reads_agree) (rule confined_outs)

lemma string_loop_spec:
  assumes "confined B k" and "reads B (pmem (snd st)) p xs"
  shows "string_loop k l p n st = Some (outs k (if l then take (unat n) xs else xs) st)"
  using assms(2)
proof (induction xs arbitrary: p n st)
  case Nil
  then show ?case by (subst string_loop.simps) simp
next
  case (Cons x xs)
  have r: "reads B (pmem (snd (out1 k x st))) (p + 1) xs"
    using reads_outs [OF assms(1), of st "p + 1" xs "[x]"] Cons.prems by (simp add: outs_Cons)
  show ?case
  proof (cases "l \<and> n = 0")
    case True
    then show ?thesis by (subst string_loop.simps) simp
  next
    case False
    have "unat n = Suc (unat (n - 1))" if "l" using False that by (simp add: unat_minus_one unat_gt_0)
    then have "outs k (if l then take (unat n) (x # xs) else x # xs) st =
        outs k (if l then take (unat (if l then n - 1 else n)) xs else xs) (out1 k x st)"
      by (cases l) (simp_all add: outs_Cons)
    with Cons.IH [OF r, of "if l then n - 1 else n"] Cons.prems False show ?thesis
      by (subst string_loop.simps) auto
  qed
qed

lemma conv_string_spec:
  assumes "confined B k" and "reads B (pmem (snd st)) p xs" and "length xs < 2 ^ 32" and "bit flags PRECISION \<or> precision = 0"
  shows "conv_string k flags width precision p st = Inr (outs k (spec_string xs flags width precision) st)"
proof -
  have c: "cstring (pmem (snd st)) p xs" using assms(2) by (simp add: reads_def)
  let ?l = "strnlen_s (pmem (snd st)) p (if precision \<noteq> 0 then ucast precision else - 1)"
  let ?l' = "if bit flags PRECISION then (if ?l < precision then ?l else precision) else ?l"
  let ?ys = "if bit flags PRECISION then take (unat precision) xs else xs"
  have "unat (- 1 :: u64) = 2 ^ 64 - 1" by (simp add: unsigned_minus_1_eq_mask mask_eq_exp_minus_1)
  then have l: "unat ?l = min (length xs) (if precision \<noteq> 0 then unat precision else 2 ^ 64 - 1)"
    using strnlen_s_cstring [OF c assms(3)] by (simp add: unat_ucast_32)
  have ys: "unat ?l' = length ?ys"
    using assms(4) l assms(3) by (auto simp: word_less_nat_alt min_def)
  have loop: "string_loop k (bit flags PRECISION) p precision (outs k out st) = Some (outs k ?ys (outs k out st))" for out
    by (rule string_loop_spec [OF assms(1) reads_outs [OF assms(1,2)]])
  have pad: "pad_from ?l' width = replicate (unat width - length ?ys) (chr CHR '' '')"
    by (simp only: pad_from_def ys)
  show ?thesis
    unfolding conv_string_def spec_string_def Let_def pad
    using loop [of "[]"] loop [of "replicate (unat width - length ?ys) (chr CHR '' '')"]
    by (cases "bit flags LEFT") (simp_all add: returned_def outs_append split del: if_split)
qed

subsection \<open>Directives and the whole format\<close>

lemma conv_outs:
  "conv_int k c flags width precision a st = outs k (spec_int c flags width precision a) st"
  "conv_char k flags width a st =
     outs k (if bit flags LEFT then ucast a # pad_from 1 width else pad_from 1 width @ [ucast a]) st"
  "conv_pointer k flags precision a st =
     outs k (int_field a False 16 precision 16 (set_bit ZEROPAD (set_bit UPPERCASE flags))) st"
  by (simp_all add: conv_int_def spec_int_def conv_char_def conv_pointer_def ntoa_outs outs_append outs_Cons Let_def split_beta)

lemma string_specifier:
  "\<not> is_int_conv (chr CHR ''s'')" "\<not> is_exp_conv (chr CHR ''s'')" "chr CHR ''s'' \<noteq> chr CHR ''f''" "chr CHR ''s'' \<noteq> chr CHR ''F''"
  "chr CHR ''s'' \<noteq> chr CHR ''c''" "chr CHR ''s'' \<noteq> chr CHR ''p''" "chr CHR ''s'' \<noteq> 0"
  by (simp_all add: is_int_conv_def is_exp_conv_def chr_def)

lemma conversion_spec:
  assumes "spec_conversion m c flags width precision (gp va) = Some (out, strs, as')"
    and "confined B k" and "\<And>x. \<not> B x \<Longrightarrow> pmem (snd st) x = m x"
    and "\<forall>(a, xs) \<in> set strs. \<forall>i \<le> length xs. \<not> B (a + of_nat i)"
    and "bit flags PRECISION \<or> precision = 0"
  shows "conversion fp k c flags width precision va st = Inr (va\<lparr>gp := as'\<rparr>, outs k out st)"
proof (cases "c = chr CHR ''s''")
  case True
  with assms(1) obtain a xs where a: "gp va = a # as'" "string_at m a = Some xs" "length xs < 2 ^ 32"
    "strs = [(a, xs)]" "out = spec_string xs flags width precision"
    by (auto simp: spec_conversion_def string_specifier split: list.splits option.splits if_splits)
  have "reads B m a xs" using assms(4) a string_at_cstring [OF a(2)] by (simp add: reads_def)
  then have r: "reads B (pmem (snd st)) a xs" by (rule reads_agree) (rule assms(3))
  show ?thesis
    using True a conv_string_spec [OF assms(2) r a(3) assms(5)]
    by (simp add: conversion_def va_arg_def string_specifier)
next
  case False
  have single: "outs k [c] st = out1 k c st" by (simp add: outs_Cons)
  have other: "c \<noteq> chr CHR ''f'' \<and> c \<noteq> chr CHR ''F'' \<and> \<not> is_exp_conv c" if "\<not> is_int_conv c"
    using assms(1) that by (auto simp: spec_conversion_def)
  consider "is_int_conv c" | "\<not> is_int_conv c" "c = chr CHR ''c''" | "\<not> is_int_conv c" "c \<noteq> chr CHR ''c''" "c = chr CHR ''p''"
    | "\<not> is_int_conv c" "c \<noteq> chr CHR ''c''" "c \<noteq> chr CHR ''p''" by blast
  then show ?thesis
    using assms(1) False other
    by cases (cases "gp va"; auto simp: spec_conversion_def conversion_def va_arg_def conv_outs single Let_def
        split: if_split_asm)+
qed

lemma spec_precision_flag:
  "spec_precision cs fl as = Some (p, fl', cs', as') \<Longrightarrow> bit fl' PRECISION \<or> p = 0"
  by (auto simp: spec_precision_def Let_def split_beta bit_simps split: if_splits list.splits)

lemma spec_length_flag: "spec_length cs fl = (fl', cs') \<Longrightarrow> bit fl PRECISION \<Longrightarrow> bit fl' PRECISION"
  by (auto simp: spec_length_def Let_def bit_simps split: if_splits)

lemma conversion_0: "spec_conversion m 0 flags width precision as = None"
  by (simp add: spec_conversion_def is_int_conv_def chr_def)

lemma directive_spec:
  assumes "spec_directive m cs (gp va) = Some (out, strs, cs', as')"
    and "confined B k" and "\<And>x. \<not> B x \<Longrightarrow> pmem (snd st) x = m x"
    and "\<forall>(a, xs) \<in> set strs. \<forall>i \<le> length xs. \<not> B (a + of_nat i)"
    and "reads B (pmem (snd st)) f cs"
  shows "\<exists>f'. directive fp k f va st = Inr (f', va\<lparr>gp := as'\<rparr>, outs k out st) \<and> reads B (pmem (snd st)) f' cs'"
proof -
  from assms(1) obtain fl1 cs1 w fl2 cs2 as2 p fl3 cs3 as3 fl4 cs4 where *:
    "spec_flags cs 0 = (fl1, cs1)" "spec_width cs1 fl1 (gp va) = Some (w, fl2, cs2, as2)"
    "spec_precision cs2 fl2 as2 = Some (p, fl3, cs3, as3)" "spec_length cs3 fl3 = (fl4, cs4)"
    "spec_conversion m (next_char cs4) fl4 w p as3 = Some (out, strs, as')" "cs' = tl cs4"
    by (rule spec_directiveE)
  let ?m = "pmem (snd st)"
  obtain f1 where 1: "scan_flags ?m f 0 = Some (fl1, f1)" "reads B ?m f1 cs1"
    using scan_flags_spec [OF assms(5) *(1)] by blast
  obtain f2 where 2: "scan_width ?m f1 fl1 va = Inr (w, fl2, f2, va\<lparr>gp := as2\<rparr>)" "reads B ?m f2 cs2"
    using scan_width_spec [OF 1(2) *(2)] by blast
  obtain f3 where 3: "scan_precision ?m f2 fl2 (va\<lparr>gp := as2\<rparr>) = Inr (p, fl3, f3, va\<lparr>gp := as3\<rparr>)" "reads B ?m f3 cs3"
    using scan_precision_spec [OF 2(2), of fl2 "va\<lparr>gp := as2\<rparr>"] *(3) by auto
  obtain f4 where 4: "scan_length ?m f3 fl3 = (fl4, f4)" "reads B ?m f4 cs4"
    using scan_length_spec [OF 3(2) *(4)] by blast
  have ok: "bit fl4 PRECISION \<or> p = 0" using spec_precision_flag [OF *(3)] spec_length_flag [OF *(4)] by blast
  have "next_char cs4 \<noteq> 0" using *(5) by (auto simp: conversion_0)
  from reads_tl [OF 4(2) this] have 5: "reads B ?m (f4 + 1) cs'" by (simp add: *(6))
  have "conversion fp k (?m f4) fl4 w p (va\<lparr>gp := as3\<rparr>) st = Inr (va\<lparr>gp := as'\<rparr>, outs k out st)"
    using conversion_spec [of m "next_char cs4" fl4 w p "va\<lparr>gp := as3\<rparr>" out strs as', OF _ assms(2,3,4) ok] *(5) reads_next [OF 4(2)]
    by simp
  with 1 2 3 4 5 show ?thesis by (simp add: directive_def returned_def)
qed

lemma format_loop_spec:
  assumes "expand m cs as = Some (out, strs)" and "confined B k"
    and "\<And>x. \<not> B x \<Longrightarrow> pmem (snd st) x = m x"
    and "\<forall>(a, xs) \<in> set strs. \<forall>i \<le> length xs. \<not> B (a + of_nat i)"
    and "reads B (pmem (snd st)) f cs" and "gp va = as"
  shows "format_loop fp k f va st = Some (Inr (outs k out st))"
  using assms
proof (induction m cs as arbitrary: out strs f va st rule: expand.induct)
  case (1 m as)
  then show ?case by (subst format_loop.simps) simp
next
  case (2 m c cs as)
  note agree = "2.prems"(3) and confined = "2.prems"(2)
  have c: "c \<noteq> 0" "pmem (snd st) f = c" "reads B (pmem (snd st)) (f + 1) cs" using "2.prems"(5) by simp_all
  show ?case
  proof (cases "c = chr CHR ''%''")
    case False
    then obtain out' where o: "expand m cs as = Some (out', strs)" "out = c # out'" using "2.prems"(1) by auto
    have "reads B (pmem (snd (out1 k c st))) (f + 1) cs"
      using reads_outs [OF confined c(3), of "[c]"] by (simp add: outs_Cons)
    with "2.IH"(1) [OF False o(1) confined _ "2.prems"(4) _ "2.prems"(6)] agree confined_out1 [OF confined]
    have "format_loop fp k (f + 1) va (out1 k c st) = Some (Inr (outs k out' (out1 k c st)))" by simp
    then show ?thesis using False c o by (subst format_loop.simps) (simp add: outs_Cons)
  next
    case True
    with "2.prems"(1) obtain o1 s1 cs1 as1 o2 s2 where o: "spec_directive m cs as = Some (o1, s1, cs1, as1)"
      "expand m cs1 as1 = Some (o2, s2)" "out = o1 @ o2" "strs = s1 @ s2"
      by (auto split: option.splits)
    obtain f1 where f1: "directive fp k (f + 1) va st = Inr (f1, va\<lparr>gp := as1\<rparr>, outs k o1 st)" "reads B (pmem (snd st)) f1 cs1"
      using directive_spec [of m cs va o1 s1 cs1 as1 B k st "f + 1" fp] o(1,4) "2.prems"(2,3,4,6) c(3) by auto
    have "format_loop fp k f1 (va\<lparr>gp := as1\<rparr>) (outs k o1 st) = Some (Inr (outs k o2 (outs k o1 st)))"
    proof (rule "2.IH"(2) [OF _ o(1)])
      show "\<not> c \<noteq> chr CHR ''%''" using True by simp
      show "\<And>x. \<not> B x \<Longrightarrow> pmem (snd (outs k o1 st)) x = m x" using agree confined_outs [OF confined] by simp
      show "reads B (pmem (snd (outs k o1 st))) f1 cs1" by (rule reads_outs [OF confined f1(2)])
    qed (use o "2.prems"(2,4) in auto)
    then show ?thesis using True c f1(1) o(3) by (subst format_loop.simps) (simp add: outs_append)
  qed
qed

section \<open>Refinement\<close>

lemma unat_of_nat_u64: "n < 2 ^ 64 \<Longrightarrow> unat (of_nat n :: u64) = n"
  by (simp add: unsigned_of_nat take_bit_nat_eq_self)

lemma of_nat_u64_inject: "m < 2 ^ 64 \<Longrightarrow> n < 2 ^ 64 \<Longrightarrow> (of_nat m :: u64) = of_nat n \<longleftrightarrow> m = n"
  by (metis unat_of_nat_u64)

lemma outs_buffer_content:
  assumes "s_out k = Out_buffer" and "length cs \<le> 2 ^ 64" and "i < length cs" and "i < unat (s_maxlen k)"
  shows "pmem (snd (outs k cs (0, s))) (s_buffer k + of_nat i) = cs ! i"
  using assms(2,3)
proof (induction cs rule: rev_induct)
  case Nil
  then show ?case by simp
next
  case (snoc c cs)
  have n: "length cs < 2 ^ 64" using snoc.prems(1) by simp
  have at: "fst (outs k cs (0, s)) = of_nat (length cs)" by (simp add: fst_outs)
  have snd1: "snd (outs k (cs @ [c]) (0, s)) = emit Out_buffer c (s_buffer k) (of_nat (length cs)) (s_maxlen k) (snd (outs k cs (0, s)))"
    by (simp add: outs_snoc out1_def split_beta assms(1) at)
  show ?case
  proof (cases "i = length cs")
    case True
    have "(of_nat (length cs) :: u64) < s_maxlen k"
      using assms(4) True n by (simp add: word_less_nat_alt unat_of_nat_u64)
    with True show ?thesis by (simp add: snd1)
  next
    case False
    with snoc.prems have i: "i < length cs" by simp
    have "(of_nat i :: u64) \<noteq> of_nat (length cs)"
      using i n of_nat_u64_inject [of i "length cs"] by simp
    with i snoc n show ?thesis by (simp add: snd1 nth_append)
  qed
qed

lemma confined_buffer: "s_out k = Out_buffer \<Longrightarrow> confined (in_block (s_buffer k) (unat (s_maxlen k))) k"
  by (simp add: confined_def out1_def emit_buffer_frame del: emit.simps)

lemma confined_char: "s_out k = Out_char \<Longrightarrow> confined (\<lambda>_. False) k"
  by (simp add: confined_def out1_def)

text \<open>The NUL-terminated strings lie outside the block of \<open>n\<close> bytes at \<open>b\<close>.\<close>

definition avoid :: "u64 \<Rightarrow> nat \<Rightarrow> (u64 \<times> u8 list) list \<Rightarrow> bool" where
  "avoid b n strs \<longleftrightarrow> (\<forall>(a, xs) \<in> set strs. \<forall>i \<le> length xs. \<not> in_block b n (a + of_nat i))"

lemma snprintf_expand:
  assumes "expand (pmem s) cs (gp va) = Some (out, strs)" and "cstring (pmem s) f cs"
    and "avoid buffer (unat count) ((f, cs) # strs)" and "length out < 2 ^ 64" and "buffer \<noteq> 0" and "count \<noteq> 0"
  shows "\<exists>s'. snprintf fp buffer count f va s = Inr (long_to_int (of_nat (length out)), s') \<and>
    (let n = min (length out) (unat count - 1) in load_bytes (pmem s') buffer (Suc n) = take n out @ [0])"
proof -
  let ?k = "\<lparr>s_out = Out_buffer, s_buffer = buffer, s_maxlen = count\<rparr>"
  let ?t = "outs ?k out (0, s)" and ?n = "min (length out) (unat count - 1)"
  let ?s = "emit Out_buffer 0 buffer (if of_nat (length out) < count then of_nat (length out) else count - 1) count (snd ?t)"
  have "format_loop fp ?k f va (0, s) = Some (Inr ?t)"
    using assms(1-3) confined_buffer [of ?k]
    by (intro format_loop_spec [where m = "pmem s" and cs = cs and as = "gp va" and strs = strs and B = "in_block buffer (unat count)"])
       (auto simp: avoid_def reads_def)
  then have "snprintf fp buffer count f va s = Inr (long_to_int (fst ?t), ?s)"
    using assms(5) by (simp add: snprintf_def vsnprintf_impl_def returned_def split_beta fst_outs del: emit.simps)
  moreover have "load_bytes (pmem ?s) buffer (Suc ?n) = take ?n out @ [0]"
  proof -
    have c: "0 < unat count" using assms(6) by (simp add: unat_gt_0)
    have inv: "of_nat (unat (count - 1)) = count - 1" by simp
    have len: "unat (of_nat (length out) :: u64) = length out" using assms(4) by (rule unat_of_nat_u64)
    have e: "(if of_nat (length out) < count then of_nat (length out) else count - 1) = (of_nat ?n :: u64)"
      using c len unat_minus_one [OF assms(6)] inv
      by (auto simp: word_less_nat_alt min_def)
    have lt: "(of_nat ?n :: u64) < count"
      using c unat_u64_less [of count] unat_minus_one [OF assms(6)] by (simp add: word_less_nat_alt unat_of_nat_u64 min_def) linarith
    have "load_bytes (pmem ?s) buffer (Suc ?n) ! i = (take ?n out @ [0]) ! i" if "i < Suc ?n" for i
    proof (cases "i = ?n")
      case True
      then show ?thesis using lt by (simp add: e load_bytes_nth nth_append del: load_bytes.simps)
    next
      case False
      with that have i: "i < ?n" by linarith
      then have "(of_nat i :: u64) \<noteq> of_nat ?n"
        using assms(4) False by (subst of_nat_u64_inject) simp_all
      moreover have "pmem (snd ?t) (buffer + of_nat i) = out ! i"
        using outs_buffer_content [of ?k out i s] i assms(4) by fastforce
      ultimately show ?thesis using i lt by (subst load_bytes_nth [OF that]) (simp add: e nth_append)
    qed
    then show ?thesis by (intro nth_equalityI) simp_all
  qed
  ultimately show ?thesis by (simp add: fst_outs Let_def)
qed

lemma avoid_upt:
  "avoid b n strs = list_all (\<lambda>(a, xs). list_all (\<lambda>i. \<not> in_block b n (a + of_nat i)) [0..<Suc (length xs)]) strs"
  by (simp add: avoid_def list_all_iff less_Suc_eq_le atLeastLessThan_iff Ball_def del: upt_Suc)

text \<open>
  C9: \<open>snprintf\<close> implements the specification. If the format at \<open>f\<close> expands to \<open>out\<close>, and neither the format nor a string argument
  lies in the buffer, the call returns, whatever the floating-point unit does; its result is the length of the whole
  expansion even when the buffer is shorter, and the buffer holds as much of the expansion as fits before a terminating NUL.
\<close>

theorem snprintf_refines:
  assumes "expand (pmem s) cs (gp va) = Some (out, strs)" and "cstring (pmem s) f cs"
    and "avoid buffer (unat count) ((f, cs) # strs)" and "length out < 2 ^ 64" and "buffer \<noteq> 0" and "count \<noteq> 0"
  shows "\<exists>s'. snprintf fp buffer count f va s = Inr (long_to_int (of_nat (length out)), s') \<and>
    (let n = min (length out) (unat count - 1) in load_bytes (pmem s') buffer (Suc n) = take n out @ [0])"
  using snprintf_expand [OF assms] .

theorem snprintf_refines_witness:
  "let s = \<lparr>pmem = store_bytes (\<lambda>_. 0) 16 [110, 61, 37, 117, 0], console = []\<rparr>; va = \<lparr>gp = [42], fpargs = []\<rparr>
   in expand (pmem s) [110, 61, 37, 117] (gp va) = Some ([110, 61, 52, 50], []) \<and>
      (\<exists>s'. snprintf word_fpu 64 4 16 va s = Inr (4, s') \<and> load_bytes (pmem s') 64 4 = [110, 61, 52, 0])"
proof -
  let ?m = "store_bytes (\<lambda>_. 0) 16 [110, 61, 37, 117, 0] :: mem"
  have e: "expand ?m [110, 61, 37, 117] [42] = Some ([110, 61, 52, 50], [])" by code_simp
  have "avoid 64 4 [(16, [110, 61, 37, 117])]" by (simp add: avoid_upt in_block_def upt_rec)
  with snprintf_refines [of "\<lparr>pmem = ?m, console = []\<rparr>" "[110, 61, 37, 117]" "\<lparr>gp = [42], fpargs = []\<rparr>"
      "[110, 61, 52, 50]" "[]" 16 64 4 word_fpu] e
  show ?thesis by (simp add: Let_def long_to_int_def bytes_numeral del: expand.simps)
qed

text \<open>
  \<open>printf\<close> implements the same specification: it prints the expansion, less the NUL characters that a \<open>%c\<close> may produce,
  returns its length and leaves memory alone.
\<close>

theorem printf_refines:
  assumes "expand (pmem s) cs (gp va) = Some (out, strs)" and "cstring (pmem s) f cs" and "local \<noteq> 0"
  shows "printf fp local f va s =
    Inr (long_to_int (of_nat (length out)), s\<lparr>console := console s @ filter (\<lambda>c. c \<noteq> 0) out\<rparr>)"
proof -
  let ?k = "\<lparr>s_out = Out_char, s_buffer = local, s_maxlen = - 1\<rparr>"
  have "format_loop fp ?k f va (0, s) = Some (Inr (outs ?k out (0, s)))"
    using assms(1,2) confined_char [of ?k]
    by (intro format_loop_spec [where m = "pmem s" and cs = cs and as = "gp va" and strs = strs and B = "\<lambda>_. False"])
       (auto simp: reads_def)
  then show ?thesis
    using assms(3) outs_char [of ?k out "(0, s)"] by (simp add: printf_def vsnprintf_impl_def returned_def split_beta fst_outs)
qed

theorem printf_refines_witness:
  "printf word_fpu 64 16 \<lparr>gp = [32, 7], fpargs = []\<rparr>
     \<lparr>pmem = store_bytes (store_bytes (\<lambda>_. 0) 16 [37, 115, 61, 37, 100, 0]) 32 [111, 107, 0], console = [62]\<rparr> =
   Inr (4, \<lparr>pmem = store_bytes (store_bytes (\<lambda>_. 0) 16 [37, 115, 61, 37, 100, 0]) 32 [111, 107, 0],
            console = [62, 111, 107, 61, 55]\<rparr>)"
proof -
  let ?m = "store_bytes (store_bytes (\<lambda>_. 0) 16 [37, 115, 61, 37, 100, 0]) 32 [111, 107, 0] :: mem"
  have "string_at ?m 32 = Some [111, 107]"
    using strlen_cstring [of ?m 32 "[111, 107]"] by (simp add: string_at_def bytes_numeral)
  moreover have "spec_int 100 0 0 0 7 = [55]" by code_simp
  ultimately have "expand ?m [37, 115, 61, 37, 100] [32, 7] = Some ([111, 107, 61, 55], [(32, [111, 107])])"
    by (simp add: spec_directive_def flag_of_def chr_def spec_width_def is_digit_def spec_precision_def spec_length_def
        spec_conversion_def is_int_conv_def is_exp_conv_def Let_def spec_string_def)
  then show ?thesis
    using printf_refines [of "\<lparr>pmem = ?m, console = [62]\<rparr>" "[37, 115, 61, 37, 100]" "\<lparr>gp = [32, 7], fpargs = []\<rparr>"
      "[111, 107, 61, 55]" "[(32, [111, 107])]" 16 64 word_fpu]
    by (simp add: long_to_int_def del: expand.simps)
qed

section \<open>Printing and reading back\<close>

lemma spec_number_append:
  "\<forall>c \<in> set xs. is_digit c \<Longrightarrow> spec_number (xs @ ys) i = spec_number ys (fst (spec_number xs i))"
  by (induction xs i rule: spec_number.induct) auto

lemma digit_of_decimal: "d < 10 \<Longrightarrow> is_digit (digit_of upper d) \<and> digit_of upper d \<noteq> 0 \<and> ucast (digit_of upper d - chr CHR ''0'') = (of_nat d :: u32)"
proof -
  assume d: "d < 10"
  then have "d \<in> {0, 1, 2, 3, 4, 5, 6, 7, 8, 9}" by auto
  then show ?thesis by (auto simp: is_digit_def digit_of_def chr_def)
qed

lemma spec_number_radix:
  "\<forall>d \<in> set ds. d < 10 \<Longrightarrow>
   spec_number (map (digit_of upper) (rev ds)) i = (i * 10 ^ length ds + of_nat (radix_value 10 ds), [])"
proof (induction ds arbitrary: i)
  case Nil
  then show ?case by simp
next
  case (Cons d ds)
  have "\<forall>c \<in> set (map (digit_of upper) (rev ds)). is_digit c" using Cons.prems digit_of_decimal by auto
  with Cons digit_of_decimal [of d upper] show ?case
    by (simp add: spec_number_append algebra_simps)
qed

lemma expand_u:
  "expand m (map chr ''%u'') [a] = Some (map (digit_of False) (rev (radix 10 (unat (ucast a :: u32)))), [])"
proof -
  let ?v = "ucast (ucast a :: u32) :: u64" and ?ds = "radix 10 (unat (ucast a :: u32))"
  have "length ?ds \<le> 10" using length_radix [of 10 "unat (ucast a :: u32)" 10] unsigned_less [of "ucast a :: u32", where ?'a = nat] by simp
  then have d: "ntoa_digits 10 False ?v [] = map (digit_of False) ?ds"
    using ntoa_digits_radix [of 10 "[]" False ?v] by (simp add: unat_ucast_32)
  have "ntoa_buf buf False 10 0 0 0 = (buf, 0)" for buf
    by (simp add: ntoa_buf_def zero_fill_def put_sign_def)
  then have "int_field ?v False 10 0 0 0 = rev (ntoa_digits 10 False ?v [])"
    by (simp add: int_field_def Let_def field_def)
  then show ?thesis
    by (simp add: spec_directive_def flag_of_def chr_def spec_width_def is_digit_def spec_precision_def spec_length_def
        spec_conversion_def is_int_conv_def Let_def spec_int_def int_flags_def is_signed_def int_base_def unsigned_value_def d rev_map)
qed

text \<open>
  C15: Round trip: an unsigned value printed with \<open>%u\<close> into a buffer of at least 11 bytes is read back by \<open>_atoi\<close>, which stops at the
  terminating NUL.
\<close>

theorem print_atoi_roundtrip:
  assumes "cstring (pmem s) f (map chr ''%u'')" and "gp va = [a]" and "avoid buffer (unat count) [(f, map chr ''%u'')]"
    and "buffer \<noteq> 0" and "10 < unat count"
  shows "\<exists>n s' end. snprintf fp buffer count f va s = Inr (n, s') \<and>
    atoi (pmem s') buffer 0 = Some (ucast a, end) \<and> pmem s' end = 0"
proof -
  let ?ds = "radix 10 (unat (ucast a :: u32))"
  let ?out = "map (digit_of False) (rev ?ds)"
  have len: "length ?out \<le> 10"
    using length_radix [of 10 "unat (ucast a :: u32)" 10] unsigned_less [of "ucast a :: u32", where ?'a = nat] by simp
  have fits: "min (length ?out) (unat count - 1) = length ?out" using len assms(5) by simp
  have ds: "\<forall>d \<in> set ?ds. d < 10" using radix_less by simp
  have "expand (pmem s) (map chr ''%u'') (gp va) = Some (?out, [])" unfolding assms(2) by (rule expand_u)
  moreover have "count \<noteq> 0" using assms(5) by auto
  ultimately obtain s' where s': "snprintf fp buffer count f va s = Inr (long_to_int (of_nat (length ?out)), s')"
    "load_bytes (pmem s') buffer (Suc (length ?out)) = ?out @ [0]"
    using snprintf_expand [of s "map chr ''%u''" va ?out "[]" f buffer count fp] assms(1,3,4) fits len
    by (auto simp: Let_def simp del: load_bytes.simps)
  have "0 \<notin> set ?out" using ds digit_of_decimal by fastforce
  with s'(2) have "reads (\<lambda>_. False) (pmem s') buffer ?out" by (simp add: reads_def cstring_def del: load_bytes.simps)
  from atoi_spec [OF this spec_number_radix [OF ds, where i = 0]] s'(1) show ?thesis by (auto simp: radix_value_radix)
qed

theorem print_atoi_roundtrip_witness:
  "\<exists>n s' end. snprintf word_fpu 64 11 16 \<lparr>gp = [4294967295], fpargs = []\<rparr>
      \<lparr>pmem = store_bytes (\<lambda>_. 0) 16 [37, 117, 0], console = []\<rparr> = Inr (n, s') \<and>
    atoi (pmem s') 64 0 = Some (4294967295, end) \<and> pmem s' end = 0"
  using print_atoi_roundtrip [of "\<lparr>pmem = store_bytes (\<lambda>_. 0) 16 [37, 117, 0], console = []\<rparr>" 16
      "\<lparr>gp = [4294967295], fpargs = []\<rparr>" 4294967295 64 11 word_fpu]
  by (simp add: chr_def avoid_upt in_block_def upt_rec)

text \<open>
  C37: The fixed form indexes its table of ten powers with the precision: a precision of more than 41 digits, which the format can ask
  for, is still above 9 after the 32 zeros the array takes, and the access is out of bounds for every finite value below the limit
  where the exponent form takes over.
\<close>

theorem ftoa_precision_overrun:
  assumes "bit flags PRECISION" and "41 < unat prec" and "f_equal fp v v"
    and "\<not> f_less fp v MINUS_MAX_FLOAT" and "\<not> f_less fp MAX_FLOAT v"
    and "\<not> f_less fp v MINUS_DBL_MAX" and "\<not> f_less fp DBL_MAX v"
  shows "ftoa fp k v prec width flags st = Inl OutOfBounds"
proof -
  have "min 32 (unat prec - 9) = 32" using assms(2) by simp
  moreover have "\<not> unat (prec - 32) < length pow10"
    using assms(2) by (simp add: pow10_def unat_sub word_le_nat_alt)
  ultimately have "ftoa_buf fp v prec width flags = Inl OutOfBounds"
    using assms(1) by (simp add: ftoa_buf_def Let_def array_get_def)
  then show ?thesis using assms by (simp add: ftoa_def float_conv.simps returned_def)
qed

theorem ftoa_precision_overrun_witness:
  "ftoa word_fpu \<lparr>s_out = Out_char, s_buffer = 64, s_maxlen = - 1\<rparr> 3 42 0 1024 (0, \<lparr>pmem = (\<lambda>_. 0), console = []\<rparr>) = Inl OutOfBounds"
  by (rule ftoa_precision_overrun) (simp_all add: word_fpu_def)

end
