(* ===== verification/Firmware.thy ===== *)
theory Firmware
  imports CString
begin

text \<open>
  The tables that firmware and boot loader leave in memory: the tags of the multiboot information
  (\<open>src/src/grub/multibootutils.c\<close>) and the ACPI tables (\<open>src/src/drivers/acpi/acpi.c\<close>). Both are walks over
  records that give their own length. The walk is a partial function, since a record of length 0 stops it from moving on.
\<close>

section \<open>Walks over records\<close>

partial_function (option) walk ::
    "(u64 \<Rightarrow> bool) \<Rightarrow> (u64 \<Rightarrow> u64) \<Rightarrow> (u64 \<Rightarrow> 's \<Rightarrow> 's) \<Rightarrow> u64 \<Rightarrow> 's \<Rightarrow> 's option" where
  "walk stop after visit a s = (if stop a then Some s else walk stop after visit (after a) (visit a s))"

text \<open>The records that a walk from \<open>a\<close> meets.\<close>

fun chain :: "(u64 \<Rightarrow> bool) \<Rightarrow> (u64 \<Rightarrow> u64) \<Rightarrow> u64 \<Rightarrow> u64 list \<Rightarrow> bool" where
  "chain stop after a [] \<longleftrightarrow> stop a"
| "chain stop after a (x # xs) \<longleftrightarrow> x = a \<and> \<not> stop a \<and> chain stop after (after a) xs"

lemma walk_chain: "chain stop after a xs \<Longrightarrow> walk stop after visit a s = Some (fold visit xs s)"
proof (induction xs arbitrary: a s)
  case Nil
  then show ?case by (subst walk.simps) simp
next
  case (Cons x xs)
  then show ?case by (subst walk.simps) simp
qed

lemma walk_SomeE:
  assumes "walk stop after visit a s = Some r"
  shows "\<exists>xs. chain stop after a xs \<and> r = fold visit xs s"
  using assms
proof (rule walk.raw_induct [where P = "\<lambda>stop after visit a s r. \<exists>xs. chain stop after a xs \<and> r = fold visit xs s", rotated])
  fix g and stop :: "u64 \<Rightarrow> bool" and after :: "u64 \<Rightarrow> u64" and visit :: "u64 \<Rightarrow> 's \<Rightarrow> 's" and a s r
  assume ih: "\<And>stop after visit a s r. g stop after visit a s = Some r \<Longrightarrow> \<exists>xs. chain stop after a xs \<and> r = fold visit xs s"
    and eq: "(if stop a then Some s else g stop after visit (after a) (visit a s)) = Some r"
  show "\<exists>xs. chain stop after a xs \<and> r = fold visit xs s"
  proof (cases "stop a")
    case True
    then have "chain stop after a [] \<and> r = fold visit [] s" using eq by simp
    then show ?thesis by blast
  next
    case False
    then have "g stop after visit (after a) (visit a s) = Some r" using eq by simp
    from ih [OF this] obtain xs where "chain stop after (after a) xs" "r = fold visit xs (visit a s)" by blast
    with False have "chain stop after a (a # xs) \<and> r = fold visit (a # xs) s" by simp
    then show ?thesis by blast
  qed
qed

text \<open>A walk returns exactly when its records end, and then it has visited each of them in order.\<close>

lemma walk_iff: "walk stop after visit a s = Some r \<longleftrightarrow> (\<exists>xs. chain stop after a xs \<and> r = fold visit xs s)"
  using walk_SomeE walk_chain by metis

lemma walk_stuck:
  assumes "after a = a" and "\<not> stop a"
  shows "walk stop after visit a s = None"
proof -
  have "\<not> chain stop after a xs" for xs by (induction xs) (use assms in auto)
  then show ?thesis by (metis option.exhaust walk_iff)
qed

text \<open>The last record with a property, or 0.\<close>

definition last_such :: "(u64 \<Rightarrow> bool) \<Rightarrow> u64 list \<Rightarrow> u64" where
  "last_such P xs = (case rev (filter P xs) of [] \<Rightarrow> 0 | x # _ \<Rightarrow> x)"

lemma last_such_Nil [simp]: "last_such P [] = 0"
  by (simp add: last_such_def)

lemma last_such_snoc [simp]: "last_such P (xs @ [x]) = (if P x then x else last_such P xs)"
  by (simp add: last_such_def)

section \<open>Multiboot information\<close>

record MULTIBOOT_HEADERS =
  mb_fb :: u64
  mb_mmap :: u64
  mb_acpi :: u64

definition tag_type :: "mem \<Rightarrow> u64 \<Rightarrow> u32" where
  "tag_type m tag = U32 m tag"

definition next_tag :: "mem \<Rightarrow> u64 \<Rightarrow> u64" where
  "next_tag m tag = tag + ucast ((U32 m (tag + 4) + 7) AND NOT 7)"

definition note_tag :: "mem \<Rightarrow> u64 \<Rightarrow> MULTIBOOT_HEADERS \<Rightarrow> MULTIBOOT_HEADERS" where
  "note_tag m tag h =
     (if tag_type m tag = 8 then h\<lparr>mb_fb := tag\<rparr>
      else if tag_type m tag = 6 then h\<lparr>mb_mmap := tag\<rparr>
      else if tag_type m tag = 14 then h\<lparr>mb_acpi := tag\<rparr> else h)"

definition MultibootProcessHeaders :: "mem \<Rightarrow> u64 \<Rightarrow> MULTIBOOT_HEADERS option" where
  "MultibootProcessHeaders m addr =
     walk (\<lambda>tag. tag_type m tag = 0) (next_tag m) (note_tag m) (addr + 8) \<lparr>mb_fb = 0, mb_mmap = 0, mb_acpi = 0\<rparr>"

lemma note_tags:
  "fold (note_tag m) ts \<lparr>mb_fb = 0, mb_mmap = 0, mb_acpi = 0\<rparr> =
   \<lparr>mb_fb = last_such (\<lambda>t. tag_type m t = 8) ts, mb_mmap = last_such (\<lambda>t. tag_type m t = 6) ts,
    mb_acpi = last_such (\<lambda>t. tag_type m t = 14) ts\<rparr>"
  by (induction ts rule: rev_induct) (simp_all add: note_tag_def)

text \<open>
  The boot information as the multiboot 2 specification lays it out: eight bytes, then the tags, each at a multiple of
  8 from the first one. A tag is its type, its size without the padding, its data, and bytes up to the next
  multiple of 8; the last one has type 0 and size 8. \<open>tags_at\<close> lists the tags with their addresses.
\<close>

record mb_tag =
  mt_type :: u32
  mt_data :: "u8 list"
  mt_pad :: "u8 list"

definition tag_ok :: "mb_tag \<Rightarrow> bool" where
  "tag_ok t \<longleftrightarrow> mt_type t \<noteq> 0 \<and> length (mt_data t) + 16 < 2 ^ 32 \<and> length (mt_pad t) < 8 \<and>
     (length (mt_data t) + length (mt_pad t)) mod 8 = 0"

definition tag_bytes :: "mb_tag \<Rightarrow> u8 list" where
  "tag_bytes t = le_bytes 4 (unat (mt_type t)) @ le_bytes 4 (8 + length (mt_data t)) @ mt_data t @ mt_pad t"

fun info_bytes :: "mb_tag list \<Rightarrow> u8 list" where
  "info_bytes [] = le_bytes 4 0 @ le_bytes 4 8"
| "info_bytes (t # ts) = tag_bytes t @ info_bytes ts"

fun tags_at :: "u64 \<Rightarrow> mb_tag list \<Rightarrow> (u64 \<times> mb_tag) list" where
  "tags_at a [] = []"
| "tags_at a (t # ts) = (a, t) # tags_at (a + of_nat (length (tag_bytes t))) ts"

definition last_tag :: "u32 \<Rightarrow> (u64 \<times> mb_tag) list \<Rightarrow> u64" where
  "last_tag ty ts = (case rev (filter (\<lambda>(a, t). mt_type t = ty) ts) of [] \<Rightarrow> 0 | (a, t) # _ \<Rightarrow> a)"

lemma round_up_8: "unat ((w + 7) AND NOT 7) = (unat w + 7) div 8 * 8" if "unat w + 7 < 2 ^ 32" for w :: u32
proof -
  have m: "(7 :: u32) = mask 3" by (simp add: mask_eq_exp_minus_1)
  have "(w + 7) AND NOT 7 = push_bit 3 (drop_bit 3 (w + 7))"
    unfolding m by (rule bit_word_eqI) (auto simp: bit_simps)
  then have e: "(w + 7) AND NOT 7 = (w + 7) div 8 * 8" by (simp add: drop_bit_eq_div push_bit_eq_mult)
  have "unat (w + 7) = unat w + 7" using that by (simp add: unat_plus_if_size word_size)
  then have d: "unat ((w + 7) div 8) = (unat w + 7) div 8" by (simp add: unat_div)
  have "(unat w + 7) div 8 * 8 < 2 ^ 32" using that by (intro le_less_trans [OF _ that]) simp
  then show ?thesis unfolding e using d by (subst unat_mult_lem [THEN iffD1]) simp_all
qed

lemma tag_in_memory:
  assumes t: "tag_ok t" and ld: "load_bytes m a (length (tag_bytes t @ rest)) = tag_bytes t @ rest"
  shows "tag_type m a = mt_type t" "next_tag m a = a + of_nat (length (tag_bytes t))"
    "load_bytes m (a + of_nat (length (tag_bytes t))) (length rest) = rest"
proof -
  let ?d = "length (mt_data t)" and ?p = "length (mt_pad t)"
  have len: "length (tag_bytes t) = 8 + ?d + ?p" by (simp add: tag_bytes_def)
  have sl: "load_bytes m (a + of_nat off) n = take n (drop off (tag_bytes t @ rest))"
    if "off + n \<le> length (tag_bytes t @ rest)" for off n
    using load_bytes_slice [OF that, of m a] ld by simp
  have l0: "length (le_bytes 4 (unat (mt_type t))) = 4" "length (le_bytes 4 (8 + ?d)) = 4" by simp_all
  show "tag_type m a = mt_type t"
    unfolding tag_type_def using sl [of 0 4] len by (intro U32_bytes) (simp add: tag_bytes_def)
  have sz: "unat (of_nat (8 + ?d) :: u32) = 8 + ?d" using t by (intro unat_of_nat32) (simp add: tag_ok_def)
  have u: "U32 m (a + 4) = of_nat (8 + ?d)"
    using sl [of 4 4] len sz by (intro U32_bytes) (simp add: tag_bytes_def del: of_nat_add)
  have "(8 + ?d + 7) div 8 * 8 = 8 + ?d + ?p"
  proof -
    have "(?d + ?p) mod 8 = 0" "?p < 8" using t by (simp_all add: tag_ok_def)
    then show ?thesis by presburger
  qed
  moreover have "unat (of_nat (8 + ?d) :: u32) + 7 < 2 ^ 32" using t sz by (simp add: tag_ok_def)
  ultimately have "unat ((U32 m (a + 4) + 7) AND NOT 7) = length (tag_bytes t)"
    unfolding u len by (simp only: round_up_8 sz)
  then have "(ucast ((U32 m (a + 4) + 7) AND NOT 7) :: u64) = of_nat (length (tag_bytes t))"
    by (metis of_nat_unat)
  then show "next_tag m a = a + of_nat (length (tag_bytes t))" by (simp add: next_tag_def)
  show "load_bytes m (a + of_nat (length (tag_bytes t))) (length rest) = rest"
    using sl [of "length (tag_bytes t)" "length rest"] by simp
qed

lemma tags_walked:
  assumes "list_all tag_ok ts" "load_bytes m a (length (info_bytes ts)) = info_bytes ts"
  shows "chain (\<lambda>t. tag_type m t = 0) (next_tag m) a (map fst (tags_at a ts)) \<and>
    list_all (\<lambda>(x, t). tag_type m x = mt_type t) (tags_at a ts)"
  using assms
proof (induction ts arbitrary: a)
  case Nil
  then have "load_bytes m a 4 = le_bytes 4 (unat (0 :: u32))" using load_bytes_append [of m a 4 4] by simp
  then have "U32 m a = 0" by (rule U32_bytes)
  then show ?case by (simp add: tag_type_def)
next
  case (Cons t ts)
  have t: "tag_ok t" "mt_type t \<noteq> 0" using Cons.prems(1) by (simp_all add: tag_ok_def)
  note tm = tag_in_memory [OF t(1) Cons.prems(2) [simplified info_bytes.simps]]
  from Cons.IH [OF _ tm(3)] Cons.prems(1) tm(1,2) t(2) show ?case by simp
qed

lemma last_such_tags:
  assumes "list_all (\<lambda>(x, t). tag_type m x = mt_type t) ats"
  shows "last_such (\<lambda>x. tag_type m x = ty) (map fst ats) = last_tag ty ats"
proof -
  have "filter (\<lambda>x. tag_type m x = ty) (map fst ats) = map fst (filter (\<lambda>(x, t). mt_type t = ty) ats)"
    using assms by (induction ats) auto
  then show ?thesis
    unfolding last_such_def last_tag_def
    by (cases "rev (filter (\<lambda>(x, t). mt_type t = ty) ats)") (auto simp flip: rev_map)
qed

text \<open>
  C26: on boot information laid out as the multiboot 2 specification says, the scan returns, and its three pointers are
  the addresses of the last framebuffer tag (type 8), the last memory map (type 6) and the last ACPI tag (type 14), or NULL.
\<close>

theorem MultibootProcessHeaders_finds:
  assumes "list_all tag_ok ts" and "load_bytes m (addr + 8) (length (info_bytes ts)) = info_bytes ts"
  shows "MultibootProcessHeaders m addr =
    Some \<lparr>mb_fb = last_tag 8 (tags_at (addr + 8) ts), mb_mmap = last_tag 6 (tags_at (addr + 8) ts),
      mb_acpi = last_tag 14 (tags_at (addr + 8) ts)\<rparr>"
proof -
  have w: "chain (\<lambda>t. tag_type m t = 0) (next_tag m) (addr + 8) (map fst (tags_at (addr + 8) ts))"
    "list_all (\<lambda>(x, t). tag_type m x = mt_type t) (tags_at (addr + 8) ts)"
    using tags_walked [OF assms] by simp_all
  show ?thesis
    unfolding MultibootProcessHeaders_def walk_chain [OF w(1)] note_tags last_such_tags [OF w(2)] ..
qed

text \<open>Two tags: a memory map with five bytes of data, padded by three, and a framebuffer with eight.\<close>

definition demo_tags :: "mb_tag list" where
  "demo_tags = [\<lparr>mt_type = 6, mt_data = [1, 2, 3, 4, 5], mt_pad = [0, 0, 0]\<rparr>,
     \<lparr>mt_type = 8, mt_data = replicate 8 7, mt_pad = []\<rparr>]"

theorem MultibootProcessHeaders_finds_witness:
  "MultibootProcessHeaders (store_bytes (\<lambda>_. 0) 0x1008 (info_bytes demo_tags)) 0x1000 =
   Some \<lparr>mb_fb = 0x1018, mb_mmap = 0x1008, mb_acpi = 0\<rparr>"
proof -
  have "length (info_bytes demo_tags) \<le> 2 ^ 64" by (simp add: demo_tags_def tag_bytes_def)
  then have l: "load_bytes (store_bytes (\<lambda>_. 0) 0x1008 (info_bytes demo_tags)) (0x1000 + 8) (length (info_bytes demo_tags)) = info_bytes demo_tags"
    using load_store_bytes [of "info_bytes demo_tags" "\<lambda>_. 0" "0x1008"] by simp
  have ok: "list_all tag_ok demo_tags" by (simp add: demo_tags_def tag_ok_def)
  show ?thesis using MultibootProcessHeaders_finds [OF ok l] by (simp add: demo_tags_def last_tag_def tag_bytes_def)
qed

text \<open>A tag that gives its size as 0 and is not the end tag makes the scan run forever.\<close>

theorem MultibootProcessHeaders_zero_size:
  assumes "tag_type m (addr + 8) \<noteq> 0" and "U32 m (addr + 12) = 0"
  shows "MultibootProcessHeaders m addr = None"
proof -
  have "next_tag m (addr + 8) = addr + 8" using assms(2) by (simp add: next_tag_def add.assoc)
  then show ?thesis unfolding MultibootProcessHeaders_def using assms(1) by (intro walk_stuck) simp_all
qed

theorem MultibootProcessHeaders_zero_size_witness:
  "MultibootProcessHeaders ((\<lambda>_. 0)(24 := 6)) 16 = None"
  by (rule MultibootProcessHeaders_zero_size) (simp_all add: tag_type_def U32_def bytes_numeral)

section \<open>ACPI\<close>

definition ACPISDT_Checksum :: "mem \<Rightarrow> u64 \<Rightarrow> int" where
  "ACPISDT_Checksum m h =
     (if fold (\<lambda>i sum. sum + m (h + of_nat i)) [0..<unat (U32 m (h + 4))] 0 = 0 then 1 else 0)"

record ACPIHeaders =
  fadt :: u64
  rsdt :: u64
  apic :: u64
  mcfg :: u64

text \<open>\<open>strncmp(h->Signature, literal, 4) == 0\<close>\<close>

definition has_signature :: "mem \<Rightarrow> u8 list \<Rightarrow> u64 \<Rightarrow> bool" where
  "has_signature m sig h \<longleftrightarrow> load_bytes m h 4 = sig"

abbreviation (input) "FACP \<equiv> [0x46, 0x41, 0x43, 0x50] :: u8 list"
abbreviation (input) "MCFG \<equiv> [0x4D, 0x43, 0x46, 0x47] :: u8 list"
abbreviation (input) "APIC \<equiv> [0x41, 0x50, 0x49, 0x43] :: u8 list"

definition note_table :: "mem \<Rightarrow> u64 \<Rightarrow> ACPIHeaders \<Rightarrow> ACPIHeaders" where
  "note_table m h r =
     (let r = (if has_signature m FACP h then r\<lparr>fadt := h\<rparr> else r);
          r = (if has_signature m MCFG h then r\<lparr>mcfg := h\<rparr> else r)
      in if has_signature m APIC h then r\<lparr>apic := h\<rparr> else r)"

definition entry_count :: "mem \<Rightarrow> u64 \<Rightarrow> int" where
  "entry_count m t = long_to_int ((ucast (U32 m (t + 4)) - 36) div 4)"

text \<open>Revisions other than 0 leave the pointer to the root table NULL. A wrong checksum is only reported.\<close>

definition ACPI_INIT :: "mem \<Rightarrow> u64 \<Rightarrow> ACPIHeaders outcome" where
  "ACPI_INIT m rsdp =
     (let t = (if m (rsdp + 15) = 0 then ucast (U32 m (rsdp + 16)) else 0)
      in if t = 0 then Inl NullDeref
         else Inr (fold (\<lambda>i. note_table m (ucast (U32 m (t + 36 + of_nat (4 * i))))) [0..<nat (entry_count m t)]
                \<lparr>fadt = 0, rsdt = t, apic = 0, mcfg = 0\<rparr>))"

lemma has_signature_strncmp:
  "load_bytes m lit 4 = sig \<Longrightarrow> has_signature m sig h \<longleftrightarrow> strncmp m h lit 4 = 0"
  by (simp add: has_signature_def strncmp_zero_iff)

lemma fold_sum_bytes: "fold (\<lambda>i sum. sum + m (h + of_nat i)) [0..<n] 0 = of_nat (sum_list (map unat (load_bytes m h n)))"
  by (induction n) (simp_all add: load_bytes_conv add.commute)

text \<open>The table is accepted exactly when the sum of its bytes is a multiple of 256.\<close>

theorem ACPISDT_Checksum_sum:
  "ACPISDT_Checksum m h = 1 \<longleftrightarrow> sum_list (map unat (load_bytes m h (unat (U32 m (h + 4))))) mod 256 = 0"
  by (simp add: ACPISDT_Checksum_def fold_sum_bytes word_of_nat_eq_0_iff flip: dvd_eq_mod_eq_0)

lemma entry_count_eq:
  assumes "36 \<le> unat (U32 m (t + 4))"
  shows "entry_count m t = int ((unat (U32 m (t + 4)) - 36) div 4)"
proof -
  let ?l = "U32 m (t + 4)"
  have b: "unat ?l < 2 ^ 32" using unsigned_less [of ?l, where ?'a = nat] by simp
  have "unat (ucast ?l - 36 :: u64) = unat ?l - 36"
    using assms b by (subst unat_sub) (simp_all add: word_le_nat_alt unsigned_ucast_eq take_bit_nat_eq_self)
  then have "unat ((ucast ?l - 36 :: u64) div 4) = (unat ?l - 36) div 4" by (simp add: unat_div)
  moreover have "(unat ?l - 36) div 4 < 2 ^ 31" using b by simp
  ultimately show ?thesis using long_to_int_small [of "(ucast ?l - 36) div 4"] by (simp only: entry_count_def)
qed

definition tables :: "mem \<Rightarrow> u64 \<Rightarrow> u64 list" where
  "tables m t = map (\<lambda>i. ucast (U32 m (t + 36 + of_nat (4 * i)))) [0..<(unat (U32 m (t + 4)) - 36) div 4]"

lemma note_tables:
  "fold (note_table m) ts \<lparr>fadt = 0, rsdt = t, apic = 0, mcfg = 0\<rparr> =
   \<lparr>fadt = last_such (has_signature m FACP) ts, rsdt = t, apic = last_such (has_signature m APIC) ts,
    mcfg = last_such (has_signature m MCFG) ts\<rparr>"
  by (induction ts rule: rev_induct) (auto simp: note_table_def has_signature_def)

text \<open>
  With a root table of revision 0, \<open>ACPI_INIT\<close> looks at every entry of the table and returns for each of the three
  signatures the last table that has it, or NULL.
\<close>

theorem ACPI_INIT_finds:
  assumes "m (rsdp + 15) = 0" and "ucast (U32 m (rsdp + 16)) = t" and "t \<noteq> 0" and "36 \<le> unat (U32 m (t + 4))"
  shows "ACPI_INIT m rsdp = Inr \<lparr>fadt = last_such (has_signature m FACP) (tables m t), rsdt = t,
    apic = last_such (has_signature m APIC) (tables m t), mcfg = last_such (has_signature m MCFG) (tables m t)\<rparr>"
proof -
  have "nat (entry_count m t) = (unat (U32 m (t + 4)) - 36) div 4"
    by (simp add: entry_count_eq [OF assms(4)])
  then show ?thesis
    using assms(1-3) note_tables [of m "tables m t" t] by (simp add: ACPI_INIT_def tables_def fold_map comp_def)
qed

theorem ACPI_INIT_finds_witness:
  "ACPI_INIT (store_bytes (store_bytes ((\<lambda>_. 0)(32 := 64, 68 := 44)) 100 [112, 0, 0, 0, 128, 0, 0, 0]) 112 APIC) 16 =
   Inr \<lparr>fadt = 0, rsdt = 64, apic = 112, mcfg = 0\<rparr>"
  using ACPI_INIT_finds [of "store_bytes (store_bytes ((\<lambda>_. 0)(32 := 64, 68 := 44)) 100 [112, 0, 0, 0, 128, 0, 0, 0]) 112 APIC" 16 64]
  by (simp add: U32_def bytes_numeral tables_def has_signature_def last_such_def upt_rec)

end
