(* ===== verification/Apic.thy ===== *)
theory Apic
  imports Firmware Paging Isr Io
begin

text \<open>
  The local interrupt controller and the I/O interrupt controller (\<open>src/src/drivers/apic/apic.c\<close>) and the timer of the
  former (\<open>src/src/devices/apic/timer.c\<close>). Registers are memory mapped, so accesses extend the history of theory \<open>Io\<close>. A loop
  that waits for an interrupt asks a parameter which interrupt arrives next; \<open>None\<close> means that none arrives any more.
\<close>

section \<open>State and registers\<close>

record kapic = kpaging +
  aio :: history
  localAPICaddr :: u64
  ioapic_base :: u64
  LAPIC_TIMER_FREQUENCY :: u64
  apic_timer_c :: int

definition LAPIC :: "u32 \<Rightarrow> 'a kapic_scheme \<Rightarrow> u64" where
  "LAPIC x s = localAPICaddr s + ucast x"

definition apic_read :: "hardware \<Rightarrow> u64 \<Rightarrow> 'a kapic_scheme \<Rightarrow> u32 \<times> 'a kapic_scheme" where
  "apic_read hw a s = (let (v, h) = mmio_read hw a (aio s) in (v, s\<lparr>aio := h\<rparr>))"

definition apic_write :: "u64 \<Rightarrow> u32 \<Rightarrow> 'a kapic_scheme \<Rightarrow> 'a kapic_scheme" where
  "apic_write a v s = s\<lparr>aio := mmio_write a v (aio s)\<rparr>"

definition apic_modify :: "hardware \<Rightarrow> u64 \<Rightarrow> (u32 \<Rightarrow> u32) \<Rightarrow> 'a kapic_scheme \<Rightarrow> 'a kapic_scheme" where
  "apic_modify hw a f s = (let (v, s) = apic_read hw a s in apic_write a (f v) s)"

definition APIC_SEND_EOI :: "'a kapic_scheme \<Rightarrow> 'a kapic_scheme" where
  "APIC_SEND_EOI s = apic_write (LAPIC 0xB0 s) 0 s"

definition IOAPIC_WRITE :: "u8 \<Rightarrow> u32 \<Rightarrow> 'a kapic_scheme \<Rightarrow> 'a kapic_scheme" where
  "IOAPIC_WRITE offset val s = apic_write (ioapic_base s + 0x10) val (apic_write (ioapic_base s) (ucast offset) s)"

definition IOAPIC_READ :: "hardware \<Rightarrow> u8 \<Rightarrow> 'a kapic_scheme \<Rightarrow> u32 \<times> 'a kapic_scheme" where
  "IOAPIC_READ hw offset s = apic_read hw (ioapic_base s + 0x10) (apic_write (ioapic_base s) (ucast offset) s)"

definition IOAPIC_READIRQ :: "hardware \<Rightarrow> u8 \<Rightarrow> 'a kapic_scheme \<Rightarrow> u64 \<times> 'a kapic_scheme" where
  "IOAPIC_READIRQ hw offset s =
     (let (lo, s) = IOAPIC_READ hw (0x10 + offset * 2) s;
          (hi, s) = IOAPIC_READ hw (0x10 + offset * 2 + 1) s
      in (ucast lo OR push_bit 32 (ucast hi), s))"

definition IOAPIC_WRITEIRQ :: "u8 \<Rightarrow> u64 \<Rightarrow> 'a kapic_scheme \<Rightarrow> 'a kapic_scheme" where
  "IOAPIC_WRITEIRQ offset val s =
     (let low = ucast (val AND 0xffffffff);
          high = ucast (drop_bit 32 val AND 0xffffffff)
      in IOAPIC_WRITE (0x10 + offset * 2 + 1) high (IOAPIC_WRITE (0x10 + offset * 2) low s))"

definition IOAPIC_MASKIRQ :: "u8 \<Rightarrow> 'a kapic_scheme \<Rightarrow> 'a kapic_scheme" where
  "IOAPIC_MASKIRQ offset s = IOAPIC_WRITE (0x10 + offset * 2 + 1) 0 (IOAPIC_WRITE (0x10 + offset * 2) (push_bit 16 1) s)"

section \<open>Bringing up the controllers\<close>

text \<open>The records of the interrupt controller table: the last I/O controller, and the override of the local address.\<close>

definition next_record :: "mem \<Rightarrow> u64 \<Rightarrow> u64" where
  "next_record m r = r + ucast (m (r + 1))"

definition note_record :: "mem \<Rightarrow> u64 \<Rightarrow> u64 \<times> u64 \<Rightarrow> u64 \<times> u64" where
  "note_record m r = (\<lambda>(ioapic, lapic).
     let ioapic = (if m r = 1 then r else ioapic);
         lapic = (if m r = 5 then U64 m (r + 4) else lapic)
     in (ioapic, lapic))"

definition madt_end :: "mem \<Rightarrow> u64 \<Rightarrow> u64" where
  "madt_end m madt = madt + scast (U32 m (madt + 4))"

definition ioapic_setup :: "'a kapic_scheme \<Rightarrow> 'a kapic_scheme" where
  "ioapic_setup s =
     IOAPIC_WRITEIRQ 0xB 0x2B (IOAPIC_WRITEIRQ 0xA 0x2A (IOAPIC_WRITEIRQ 0x9 0x29
       (IOAPIC_WRITEIRQ 0x8 0x28 (IOAPIC_WRITEIRQ 0x1 0x21 s))))"

definition lapic_setup :: "hardware \<Rightarrow> u64 \<Rightarrow> 'a kapic_scheme \<Rightarrow> 'a kapic_scheme" where
  "lapic_setup hw memory s =
     (let (addr, h) = RDMSR hw 0x1B (aio s);
          s = s\<lparr>aio := h\<rparr>;
          s = MemoryRemap memory 0xfee00000 16 s;
          s = s\<lparr>localAPICaddr := memory\<rparr>;
          s = apic_modify hw (LAPIC 0xF0 s) (\<lambda>v. v OR push_bit 8 1) s
      in apic_modify hw (LAPIC 0xF0 s) (\<lambda>v. v AND NOT 0xf) s)"

definition APIC_INIT :: "hardware \<Rightarrow> u64 \<Rightarrow> 'a kapic_scheme \<Rightarrow> (int \<times> 'a kapic_scheme) outcome" where
  "APIC_INIT hw madt s =
     andthen (mallocA 0x200000 0x200000 s) (\<lambda>(memory, s).
     if madt = 0 then Inr (0, s)
     else let s = s\<lparr>localAPICaddr := ucast (U32 (kmem s) (madt + 36))\<rparr>;
              fin = madt_end (kmem s) madt;
              s = lapic_setup hw memory s
          in case walk (\<lambda>r. \<not> r < fin) (next_record (kmem s)) (note_record (kmem s)) (madt + 44) (0, localAPICaddr s) of
               None \<Rightarrow> Inl Hangs
             | Some (ioapic, lapic) \<Rightarrow>
                 let s = s\<lparr>localAPICaddr := lapic\<rparr>
                 in andthen (mallocA 0x200000 0x200000 s) (\<lambda>(lapic_memory, s).
                    if ioapic = 0 then Inl NullDeref
                    else let s = MemoryRemap lapic_memory (ucast (U32 (kmem s) (ioapic + 4))) 16 s;
                             s = s\<lparr>ioapic_base := lapic_memory\<rparr>
                         in Inr (1, ioapic_setup s)))"

section \<open>The timer\<close>

definition APIC_TIMER_INT :: "'a kapic_scheme \<Rightarrow> 'a kapic_scheme" where
  "APIC_TIMER_INT s = APIC_SEND_EOI s"

definition TIMER_WAIT_INT :: "'a kapic_scheme \<Rightarrow> 'a kapic_scheme" where
  "TIMER_WAIT_INT s = s\<lparr>apic_timer_c := 1\<rparr>"

text \<open>
  An interrupt that arrives during a wait: \<open>IRQ_Handler\<close> calls the registered handler and acknowledges. The other
  handlers do not touch the state of this component.
\<close>

definition take_irq :: "nat \<Rightarrow> interrupts \<times> 'a kapic_scheme \<Rightarrow> (interrupts \<times> 'a kapic_scheme) outcome" where
  "take_irq irq = (\<lambda>(irqs, s).
     andthen (array_get (g_IRQHandlers irqs) irq) (\<lambda>h.
       let s = (case h of
                  Some APIC_TIMER_INT_ptr \<Rightarrow> APIC_TIMER_INT s
                | Some TIMER_WAIT_INT_ptr \<Rightarrow> TIMER_WAIT_INT s
                | _ \<Rightarrow> s)
       in Inr (irqs, APIC_SEND_EOI s)))"

partial_function (option) wait_tick ::
    "(history \<Rightarrow> nat option) \<Rightarrow> interrupts \<times> 'a kapic_scheme \<Rightarrow> (interrupts \<times> 'a kapic_scheme) outcome option" where
  "wait_tick arrives x =
     (if apic_timer_c (snd x) \<noteq> 0 then Some (Inr x)
      else case arrives (aio (snd x)) of
             None \<Rightarrow> None
           | Some irq \<Rightarrow> (case take_irq irq x of Inl e \<Rightarrow> Some (Inl e) | Inr x \<Rightarrow> wait_tick arrives x))"

definition waited :: "'a outcome option \<Rightarrow> 'a outcome" where
  "waited x = (case x of None \<Rightarrow> Inl Hangs | Some r \<Rightarrow> r)"

definition APIC_TIMER_GETFREQ :: "'a kapic_scheme \<Rightarrow> u64" where
  "APIC_TIMER_GETFREQ s = LAPIC_TIMER_FREQUENCY s"

definition APIC_SET_TIMER_MODE :: "hardware \<Rightarrow> u32 \<Rightarrow> 'a kapic_scheme \<Rightarrow> 'a kapic_scheme" where
  "APIC_SET_TIMER_MODE hw mode s = apic_modify hw (LAPIC 0x320 s) (\<lambda>v. v OR push_bit 17 mode) s"

definition APIC_STOP :: "'a kapic_scheme \<Rightarrow> 'a kapic_scheme" where
  "APIC_STOP s = apic_write (LAPIC 0x380 s) 0 s"

definition APIC_PERIODIC :: "hardware \<Rightarrow> int \<Rightarrow> 'a kapic_scheme \<Rightarrow> 'a kapic_scheme" where
  "APIC_PERIODIC hw ticks s = APIC_SET_TIMER_MODE hw 1 (apic_write (LAPIC 0x380 s) (of_int ticks) s)"

definition clear_irq :: "nat \<Rightarrow> interrupts \<Rightarrow> interrupts outcome" where
  "clear_irq irq t = andthen (array_set (g_IRQHandlers t) irq None) (\<lambda>hs. Inr (t\<lparr>g_IRQHandlers := hs\<rparr>))"

definition start_timer :: "'a kapic_scheme \<Rightarrow> 'a kapic_scheme" where
  "start_timer s =
     (let s = apic_write (LAPIC 0x320 s) 32 s;
          s = apic_write (LAPIC 0x3E0 s) 0x1011 s;
          s = apic_write (LAPIC 0x380 s) 0x2000000 s
      in IOAPIC_MASKIRQ 2 s)"

definition APIC_TIMER_INIT ::
    "hardware \<Rightarrow> (history \<Rightarrow> nat option) \<Rightarrow> int \<Rightarrow> interrupts \<times> 'a kapic_scheme \<Rightarrow> (interrupts \<times> 'a kapic_scheme) outcome" where
  "APIC_TIMER_INIT hw arrives ticks = (\<lambda>(irqs, s).
     let s = start_timer s in
     andthen (IRQ_RegisterHandler 0 APIC_TIMER_INT_ptr irqs) (\<lambda>irqs.
     let (c1, s) = apic_read hw (LAPIC 0x390 s) s in
     andthen (IRQ_RegisterHandler 8 TIMER_WAIT_INT_ptr irqs) (\<lambda>irqs.
     let s = s\<lparr>aio := RTC_INTERRUPT_ENABLE hw 1 (RTC_SET_SPEED 12 (aio s))\<rparr> in
     andthen (waited (wait_tick arrives (irqs, s))) (\<lambda>(irqs, s).
     let (c2, s) = apic_read hw (LAPIC 0x390 s) s;
         count = (ucast c1 - ucast c2 :: u64);
         s = s\<lparr>LAPIC_TIMER_FREQUENCY := drop_bit 6 (count * 1024)\<rparr>;
         s = s\<lparr>aio := RTC_INTERRUPT_ENABLE hw 0 (aio s)\<rparr> in
     andthen (clear_irq 8 irqs) (\<lambda>irqs.
     andthen (IRQ_RegisterHandler 0 TIMER_WAIT_INT_ptr irqs) (\<lambda>irqs. Inr (irqs, s)))))))"

definition APIC_SLEEP_MICRO ::
    "(history \<Rightarrow> nat option) \<Rightarrow> u64 \<Rightarrow> interrupts \<times> 'a kapic_scheme \<Rightarrow> (interrupts \<times> 'a kapic_scheme) outcome" where
  "APIC_SLEEP_MICRO arrives d = (\<lambda>(irqs, s).
     let n = d * LAPIC_TIMER_FREQUENCY s div 1000000;
         s = s\<lparr>apic_timer_c := 0\<rparr>;
         s = apic_write (LAPIC 0x380 s) (ucast n) s
     in waited (wait_tick arrives (irqs, s)))"

section \<open>The I/O controller as a device\<close>

text \<open>
  What a history of accesses has told the controller at \<open>b\<close>: the selected register, and for each register the value last
  written to it, if any. \<open>redirection\<close> is the entry of the redirection table that was written.
\<close>

fun ioapic_step :: "u64 \<Rightarrow> io_event \<Rightarrow> u32 \<times> (u32 \<Rightarrow> u32 option) \<Rightarrow> u32 \<times> (u32 \<Rightarrow> u32 option)" where
  "ioapic_step b (MmioW a v) (sel, regs) =
     (if a = b then (v, regs) else if a = b + 0x10 then (sel, regs(sel := Some v)) else (sel, regs))"
| "ioapic_step b _ x = x"

definition ioapic_view :: "u64 \<Rightarrow> history \<Rightarrow> u32 \<times> (u32 \<Rightarrow> u32 option)" where
  "ioapic_view b h = fold (ioapic_step b) h (0, \<lambda>_. None)"

definition redirection :: "u64 \<Rightarrow> history \<Rightarrow> u8 \<Rightarrow> u64 option" where
  "redirection b h n =
     (let regs = snd (ioapic_view b h)
      in case (regs (ucast (0x10 + n * 2 :: u8)), regs (ucast (0x10 + n * 2 + 1 :: u8))) of
           (Some lo, Some hi) \<Rightarrow> Some (ucast lo OR push_bit 32 (ucast hi))
         | _ \<Rightarrow> None)"

text \<open>
  The documented behaviour of the data window (82093AA, sections 3.1 and 3.2.4): while a register of the redirection table
  (0x10 to 0x3F) is selected that has been written, its writable fields read as written. In the low half these are the
  vector, the modes, the polarity, the trigger mode and the mask bit, but not the delivery status (bit 12), the
  remote IRR (bit 14) or the reserved bits; in the high half it is the destination. Nothing is assumed of any other
  register, of an entry that was never written, or of the other bits.
\<close>

definition writable :: "u32 \<Rightarrow> u32" where
  "writable r = (if even r then 0x1AFFF else 0xFF000000)"

definition window_reads :: "hardware \<Rightarrow> u64 \<Rightarrow> bool" where
  "window_reads hw b \<longleftrightarrow> (\<forall>h sel regs v. ioapic_view b h = (sel, regs) \<longrightarrow> 0x10 \<le> sel \<longrightarrow> sel < 0x40 \<longrightarrow> regs sel = Some v \<longrightarrow>
     mmio_l hw h (b + 0x10) AND writable sel = v AND writable sel)"

lemma ioapic_base_write [simp]: "ioapic_base (IOAPIC_WRITE off v s) = ioapic_base s"
  by (simp add: IOAPIC_WRITE_def apic_write_def)

lemma ioapic_view_write:
  "ioapic_base s = b \<Longrightarrow> ioapic_view b (aio (IOAPIC_WRITE off v s)) =
     (ucast off, (snd (ioapic_view b (aio s)))(ucast off := Some v))"
  by (cases "fold (ioapic_step b) (aio s) (0, \<lambda>_. None)")
     (simp add: ioapic_view_def IOAPIC_WRITE_def apic_write_def mmio_write_def)

lemma redirection_index:
  assumes "unat (n :: u8) < 120"
  shows "unat (ucast (0x10 + n * 2 :: u8) :: u32) = 16 + 2 * unat n"
    and "unat (ucast (0x10 + n * 2 + 1 :: u8) :: u32) = 17 + 2 * unat n"
proof -
  have "n = of_nat (unat n)" by simp
  then obtain k where k: "n = of_nat k" "k < 120" using assms by blast
  have "0x10 + n * 2 = (of_nat (16 + 2 * k) :: u8)" "0x10 + n * 2 + 1 = (of_nat (17 + 2 * k) :: u8)"
    by (simp_all add: k(1))
  then have "unat (0x10 + n * 2) = 16 + 2 * k" "unat (0x10 + n * 2 + 1) = 17 + 2 * k"
    using k(2) unat_of_nat8 [of "16 + 2 * k"] unat_of_nat8 [of "17 + 2 * k"] by (simp_all only:)
  moreover have "unat n = k" using k by simp
  ultimately show "unat (ucast (0x10 + n * 2 :: u8) :: u32) = 16 + 2 * unat n"
    "unat (ucast (0x10 + n * 2 + 1 :: u8) :: u32) = 17 + 2 * unat n"
    using k(2) by (simp_all add: unsigned_ucast_eq take_bit_nat_eq_self)
qed

lemma unat_eq_iff: "unat a = unat b \<longleftrightarrow> a = (b :: u8)"
  using unsigned_word_eqI by blast

lemma redirection_neq:
  assumes "unat (n :: u8) < 120" and "unat (k :: u8) < 120"
  shows "(ucast (0x10 + n * 2 :: u8) :: u32) \<noteq> ucast (0x10 + k * 2 + 1 :: u8)"
    and "(ucast (0x10 + n * 2 :: u8) :: u32) = ucast (0x10 + k * 2 :: u8) \<longleftrightarrow> n = k"
    and "(ucast (0x10 + n * 2 + 1 :: u8) :: u32) = ucast (0x10 + k * 2 + 1 :: u8) \<longleftrightarrow> n = k"
proof -
  note n = redirection_index [OF assms(1)] and k = redirection_index [OF assms(2)]
  have "16 + 2 * unat n \<noteq> 17 + 2 * unat k" by presburger
  then show "(ucast (0x10 + n * 2 :: u8) :: u32) \<noteq> ucast (0x10 + k * 2 + 1 :: u8)" using n(1) k(2) by metis
  show "(ucast (0x10 + n * 2 :: u8) :: u32) = ucast (0x10 + k * 2 :: u8) \<longleftrightarrow> n = k"
    using n(1) k(1) by (metis add_left_cancel mult_left_cancel unat_eq_iff zero_neq_numeral)
  show "(ucast (0x10 + n * 2 + 1 :: u8) :: u32) = ucast (0x10 + k * 2 + 1 :: u8) \<longleftrightarrow> n = k"
    using n(2) k(2) by (metis add_left_cancel mult_left_cancel unat_eq_iff zero_neq_numeral)
qed

lemma split_64: "ucast (ucast (v AND 0xffffffff) :: u32) OR push_bit 32 (ucast (ucast (drop_bit 32 v AND 0xffffffff) :: u32)) = (v :: u64)"
proof -
  have m: "(0xffffffff :: u64) = mask 32" by (simp add: mask_eq_exp_minus_1)
  show ?thesis unfolding m by (rule bit_word_eqI) (auto simp: bit_simps)
qed

lemma redirection_write:
  assumes "unat n < 120" and "unat k < 120" and "ioapic_base s = b"
  shows "redirection b (aio (IOAPIC_WRITEIRQ n v s)) k = (if k = n then Some v else redirection b (aio s) k)"
proof -
  let ?lo = "\<lambda>n :: u8. ucast (0x10 + n * 2 :: u8) :: u32" and ?hi = "\<lambda>n :: u8. ucast (0x10 + n * 2 + 1 :: u8) :: u32"
  let ?l = "ucast (v AND 0xffffffff) :: u32" and ?h = "ucast (drop_bit 32 v AND 0xffffffff) :: u32"
  define regs where "regs = snd (ioapic_view b (aio s))"
  have view: "snd (ioapic_view b (aio (IOAPIC_WRITEIRQ n v s))) = regs(?lo n := Some ?l, ?hi n := Some ?h)"
    using assms(3) by (simp only: IOAPIC_WRITEIRQ_def Let_def ioapic_view_write ioapic_base_write snd_conv regs_def)
  have neq: "?lo n \<noteq> ?hi n" "?lo k \<noteq> ?hi n" "?hi k \<noteq> ?lo n" "k \<noteq> n \<Longrightarrow> ?lo k \<noteq> ?lo n" "k \<noteq> n \<Longrightarrow> ?hi k \<noteq> ?hi n"
    using redirection_neq(1) [OF assms(1,1)] redirection_neq [OF assms(2,1)] redirection_neq(1) [OF assms(1,2)] by metis+
  show ?thesis
  proof (cases "k = n")
    case True
    show ?thesis unfolding True redirection_def view Let_def
      by (simp only: fun_upd_same fun_upd_other [OF neq(1)] prod.case option.case split_64 if_True simp_thms)
  next
    case False
    show ?thesis unfolding redirection_def view Let_def
      by (simp only: fun_upd_other [OF neq(2)] fun_upd_other [OF neq(3)] fun_upd_other [OF neq(4) [OF False]]
          fun_upd_other [OF neq(5) [OF False]] False if_False regs_def)
  qed
qed

lemma IOAPIC_READ_window:
  assumes "window_reads hw b" "ioapic_base s = b" "unat off \<in> {16..<64}" "snd (ioapic_view b (aio s)) (ucast off) = Some v"
  shows "fst (IOAPIC_READ hw off s) AND writable (ucast off) = v AND writable (ucast off)"
proof -
  let ?h = "aio s @ [MmioW b (ucast off)]"
  have "ioapic_view b ?h = (ucast off, snd (ioapic_view b (aio s)))"
    by (cases "fold (ioapic_step b) (aio s) (0, \<lambda>_. None)") (simp add: ioapic_view_def)
  moreover have "unat (ucast off :: u32) = unat off"
    using unat_u8_less [of off] by (simp add: unsigned_ucast_eq take_bit_nat_eq_self)
  then have "0x10 \<le> (ucast off :: u32)" "(ucast off :: u32) < 0x40"
    using assms(3) by (simp_all add: word_le_nat_alt word_less_nat_alt)
  ultimately have "mmio_l hw ?h (b + 0x10) AND writable (ucast off) = v AND writable (ucast off)"
    using assms(1,4) unfolding window_reads_def by blast
  then show ?thesis
    using assms(2) by (simp add: IOAPIC_READ_def apic_write_def apic_read_def mmio_write_def mmio_read_def Let_def)
qed

lemma IOAPIC_READ_keeps:
  assumes "ioapic_base s = b"
  shows "snd (ioapic_view b (aio (snd (IOAPIC_READ hw off s)))) = snd (ioapic_view b (aio s))"
    and "ioapic_base (snd (IOAPIC_READ hw off s)) = b"
  using assms
  by (cases "fold (ioapic_step b) (aio s) (0, \<lambda>_. None)",
      simp add: ioapic_view_def IOAPIC_READ_def apic_write_def apic_read_def mmio_write_def mmio_read_def Let_def)+

lemma halves_and:
  "(ucast lo OR push_bit 32 (ucast hi)) AND (ucast ml OR push_bit 32 (ucast mh)) =
   (ucast (lo AND ml) OR push_bit 32 (ucast (hi AND mh)) :: u64)" for lo hi ml mh :: u32
proof (rule bit_word_eqI)
  fix n assume "n < LENGTH(64)"
  show "bit ((ucast lo OR push_bit 32 (ucast hi)) AND (ucast ml OR push_bit 32 (ucast mh)) :: u64) n \<longleftrightarrow>
    bit (ucast (lo AND ml) OR push_bit 32 (ucast (hi AND mh)) :: u64) n"
    using bit_imp_le_length [of lo n] bit_imp_le_length [of ml n] by (cases "n < 32") (auto simp: bit_simps)
qed

lemma join_and:
  "(ucast lo OR push_bit 32 (ucast hi)) AND 0xFF0000000001AFFF =
   (ucast (lo AND 0x1AFFF) OR push_bit 32 (ucast (hi AND 0xFF000000)) :: u64)" for lo hi :: u32
proof -
  have m: "(0xFF0000000001AFFF :: u64) = ucast (0x1AFFF :: u32) OR push_bit 32 (ucast (0xFF000000 :: u32))" by simp
  show ?thesis unfolding m by (rule halves_and)
qed

lemma even_word_unat: "even (w :: u32) \<longleftrightarrow> even (unat w)"
  using bit_unsigned_iff [of w 0, where ?'a = nat] by (simp add: bit_0)

lemma IOAPIC_READIRQ_written:
  assumes w: "window_reads hw b" and b: "ioapic_base s = b" and n: "unat n < 24" and r: "redirection b (aio s) n = Some v"
  shows "fst (IOAPIC_READIRQ hw n s) AND 0xFF0000000001AFFF = v AND 0xFF0000000001AFFF"
proof -
  let ?lo = "0x10 + n * 2 :: u8" and ?regs = "snd (ioapic_view b (aio s))"
  have n': "unat n < 120" using n by simp
  note ix = redirection_index [OF n']
  obtain lo hi where lh: "?regs (ucast ?lo) = Some lo" "?regs (ucast (?lo + 1)) = Some hi" "v = ucast lo OR push_bit 32 (ucast hi)"
    using r by (auto simp: redirection_def Let_def split: option.splits)
  have u: "unat (ucast x :: u32) = unat x" for x :: u8
    using unat_u8_less [of x] by (simp add: unsigned_ucast_eq take_bit_nat_eq_self)
  have rng: "unat ?lo \<in> {16..<64}" "unat (?lo + 1) \<in> {16..<64}" using ix n unfolding u by simp_all
  have par: "even (ucast ?lo :: u32)" "odd (ucast (?lo + 1) :: u32)"
    using ix by (simp_all only: even_word_unat) simp_all
  define s1 where "s1 = snd (IOAPIC_READ hw ?lo s)"
  note k = IOAPIC_READ_keeps [OF b, of hw ?lo, folded s1_def]
  have h: "fst (IOAPIC_READ hw ?lo s) AND 0x1AFFF = lo AND 0x1AFFF"
    using IOAPIC_READ_window [OF w b rng(1) lh(1)] par(1) by (simp add: writable_def)
  moreover have "snd (ioapic_view b (aio s1)) (ucast (?lo + 1)) = Some hi" using lh(2) k(1) by simp
  then have "fst (IOAPIC_READ hw (?lo + 1) s1) AND 0xFF000000 = hi AND 0xFF000000"
    using IOAPIC_READ_window [OF w k(2) rng(2)] par(2) by (simp add: writable_def)
  ultimately show ?thesis unfolding lh(3) by (simp add: IOAPIC_READIRQ_def Let_def split_beta join_and s1_def)
qed

text \<open>
  C29: Round trip through the select and data registers of a controller of 24 entries: reading an entry after it was
  written gives back every writable field (mask 0xFF0000000001AFFF), and an entry that was written before still
  reads back its own.
\<close>

theorem IOAPIC_roundtrip:
  assumes "window_reads hw (ioapic_base s)" and "unat n < 24"
  shows "fst (IOAPIC_READIRQ hw n (IOAPIC_WRITEIRQ n v s)) AND 0xFF0000000001AFFF = v AND 0xFF0000000001AFFF \<and>
    (\<forall>k w. unat k < 24 \<and> k \<noteq> n \<and> redirection (ioapic_base s) (aio s) k = Some w \<longrightarrow>
      fst (IOAPIC_READIRQ hw k (IOAPIC_WRITEIRQ n v s)) AND 0xFF0000000001AFFF = w AND 0xFF0000000001AFFF)"
proof -
  let ?s = "IOAPIC_WRITEIRQ n v s"
  have b: "ioapic_base ?s = ioapic_base s" by (simp add: IOAPIC_WRITEIRQ_def Let_def)
  have r: "redirection (ioapic_base s) (aio ?s) k = (if k = n then Some v else redirection (ioapic_base s) (aio s) k)"
    if "unat k < 24" for k
    using redirection_write [of n k s "ioapic_base s" v] assms(2) that by simp
  have "fst (IOAPIC_READIRQ hw k ?s) AND 0xFF0000000001AFFF = x AND 0xFF0000000001AFFF"
    if "unat k < 24" "(if k = n then Some v else redirection (ioapic_base s) (aio s) k) = Some x" for k x
    using IOAPIC_READIRQ_written [OF assms(1) b that(1)] r that by simp
  then show ?thesis using assms(2) by simp
qed

text \<open>A controller with a version register and entries that are masked at reset; the status bits read as 1.\<close>

definition ideal_ioapic :: "u64 \<Rightarrow> hardware" where
  "ideal_ioapic b = \<lparr>port_b = (\<lambda>_ _. 0), port_w = (\<lambda>_ _. 0), port_l = (\<lambda>_ _. 0),
     mmio_l = (\<lambda>h a. if a = b + 0x10 then let (sel, regs) = ioapic_view b h
       in if sel = 1 then 0x00170011
          else case regs sel of None \<Rightarrow> 0x10000 | Some v \<Rightarrow> (v AND writable sel) OR (0x5000 AND NOT (writable sel))
       else 0), msr_q = (\<lambda>_ _. 0)\<rparr>"

definition example_apic :: kapic where
  "example_apic = \<lparr>kmem = (\<lambda>_. 0), malloc_start = 0x1000, malloc_end = 0x10000000, ms = 0, me = 0, p3_table = 0x2000, p2_table = 0x3000,
     page_allocator = [], aio = [], localAPICaddr = 0xfee00000, ioapic_base = 0xfec00000, LAPIC_TIMER_FREQUENCY = 0, apic_timer_c = 0\<rparr>"

lemma ideal_ioapic_reads: "window_reads (ideal_ioapic b) b"
proof -
  have "((v AND w) OR (0x5000 AND NOT w)) AND w = v AND w" for v w :: u32
    by (rule bit_word_eqI) (auto simp: bit_simps)
  then show ?thesis by (auto simp: window_reads_def ideal_ioapic_def word_le_nat_alt)
qed

theorem IOAPIC_roundtrip_witness:
  "fst (IOAPIC_READIRQ (ideal_ioapic 0xfec00000) 9 (IOAPIC_WRITEIRQ 9 0xAB0000000000002B example_apic)) AND 0xFF0000000001AFFF =
     0xAB0000000000002B"
proof -
  have "ioapic_base example_apic = 0xfec00000" by (simp add: example_apic_def)
  then have "window_reads (ideal_ioapic 0xfec00000) (ioapic_base example_apic)" using ideal_ioapic_reads by simp
  from IOAPIC_roundtrip [OF this, of 9] show ?thesis by simp
qed

section \<open>Initialisation\<close>

lemma ioapic_base_writeirq [simp]: "ioapic_base (IOAPIC_WRITEIRQ n v s) = ioapic_base s"
  by (simp add: IOAPIC_WRITEIRQ_def Let_def)

lemma ioapic_setup_routes:
  assumes "ioapic_base s = b" and "unat k < 120"
  shows "redirection b (aio (ioapic_setup s)) k =
    (if k \<in> {1, 8, 9, 10, 11} then Some (0x20 + ucast k) else redirection b (aio s) k)"
  using assms by (auto simp: ioapic_setup_def redirection_write)

text \<open>The memory in which \<open>APIC_INIT\<close> reads the records: the first window is mapped before it does.\<close>

definition madt_memory :: "'a kapic_scheme \<Rightarrow> mem" where
  "madt_memory s = (let a = align_up (malloc_start s) 0x200000 in
     kmem (MemoryRemap a 0xfee00000 16 (s\<lparr>malloc_start := a + 0x200000\<rparr>)))"

lemma MemoryRemap_frame:
  "MemoryRemap to from flags (s\<lparr>aio := h\<rparr>) = (MemoryRemap to from flags s)\<lparr>aio := h\<rparr>"
  "MemoryRemap to from flags (s\<lparr>localAPICaddr := a\<rparr>) = (MemoryRemap to from flags s)\<lparr>localAPICaddr := a\<rparr>"
  "aio (MemoryRemap to from flags (s :: 'a kapic_scheme)) = aio s"
  "localAPICaddr (MemoryRemap to from flags s) = localAPICaddr s"
  "p3_table (MemoryRemap to from flags s) = p3_table s" "malloc_start (MemoryRemap to from flags s) = malloc_start s"
  by (simp_all add: MemoryRemap_def Let_def)

lemma apic_modify_frame: "kmem (apic_modify hw a f s) = kmem s" "localAPICaddr (apic_modify hw a f s) = localAPICaddr s"
  "p3_table (apic_modify hw a f s) = p3_table s" "malloc_start (apic_modify hw a f s) = malloc_start s"
  by (simp_all add: apic_modify_def apic_read_def apic_write_def Let_def split_beta)

lemma lapic_setup_frame:
  "kmem (lapic_setup hw a s) = kmem (MemoryRemap a 0xfee00000 16 s)" "localAPICaddr (lapic_setup hw a s) = a"
  "p3_table (lapic_setup hw a s) = p3_table s" "malloc_start (lapic_setup hw a s) = malloc_start s"
  by (simp_all add: lapic_setup_def Let_def split_beta apic_modify_frame MemoryRemap_frame)

lemma APIC_INIT_walk:
  fixes s :: "'a kapic_scheme"
  assumes "madt \<noteq> 0"
  defines "m \<equiv> madt_memory s" and "a \<equiv> align_up (malloc_start s) 0x200000"
  shows "\<exists>t. APIC_INIT hw madt s =
    (case walk (\<lambda>r. \<not> r < madt_end (kmem s) madt) (next_record m) (note_record m) (madt + 44) (0, a) of
       None \<Rightarrow> Inl Hangs
     | Some (ioapic, lapic) \<Rightarrow>
         if ioapic = 0 then Inl NullDeref else Inr (1, ioapic_setup (t lapic (U32 m (ioapic + 4))))) \<and>
    (\<exists>s1 b. b = align_up (a + 0x200000) 0x200000 \<and> kmem s1 = m \<and> p3_table s1 = p3_table s \<and>
      t = (\<lambda>lapic pa. (MemoryRemap b (ucast (pa :: u32)) 16 (s1\<lparr>localAPICaddr := lapic, malloc_start := b + 0x200000\<rparr>))\<lparr>ioapic_base := b\<rparr>))"
proof -
  define s0 where "s0 = s\<lparr>malloc_start := a + 0x200000, localAPICaddr := ucast (U32 (kmem s) (madt + 36))\<rparr>"
  define s1 where "s1 = lapic_setup hw a s0"
  define b where "b = align_up (malloc_start s1) 0x200000"
  define t where "t = (\<lambda>lapic pa. (MemoryRemap b (ucast (pa :: u32)) 16 (s1\<lparr>localAPICaddr := lapic, malloc_start := b + 0x200000\<rparr>))\<lparr>ioapic_base := b\<rparr>)"
  have m: "kmem s1 = m" "localAPICaddr s1 = a" "p3_table s1 = p3_table s" "malloc_start s1 = a + 0x200000"
    by (simp_all add: s1_def s0_def lapic_setup_frame MemoryRemap_frame m_def madt_memory_def a_def Let_def)
  have alloc: "mallocA 0x200000 0x200000 s = Inr (a, s\<lparr>malloc_start := a + 0x200000\<rparr>)"
    "mallocA 0x200000 0x200000 (s1\<lparr>localAPICaddr := lapic\<rparr>) = Inr (b, s1\<lparr>localAPICaddr := lapic, malloc_start := b + 0x200000\<rparr>)" for lapic
    by (simp_all add: mallocA_def a_def b_def Let_def)
  have s1: "lapic_setup hw a (s\<lparr>malloc_start := a + 0x200000, localAPICaddr := ucast (U32 (kmem s) (madt + 36))\<rparr>) = s1"
    by (simp add: s1_def s0_def)
  have "APIC_INIT hw madt s =
    (case walk (\<lambda>r. \<not> r < madt_end (kmem s) madt) (next_record m) (note_record m) (madt + 44) (0, a) of
       None \<Rightarrow> Inl Hangs
     | Some (ioapic, lapic) \<Rightarrow> if ioapic = 0 then Inl NullDeref else Inr (1, ioapic_setup (t lapic (U32 m (ioapic + 4)))))"
    by (simp add: APIC_INIT_def alloc assms(1) Let_def s1 m t_def cong: option.case_cong if_cong)
  moreover have "b = align_up (a + 0x200000) 0x200000" by (simp add: b_def m)
  ultimately show ?thesis using m(1,3) by (intro exI [of _ t] conjI exI [of _ s1] exI [of _ b]) (simp_all add: t_def)
qed

lemma fst_note_records: "fst (fold (note_record m) rs (0, a)) = last_such (\<lambda>r. m r = 1) rs"
  by (induction rs rule: rev_induct) (simp_all add: note_record_def split_beta Let_def)

lemma last_such_in: "\<exists>x \<in> set xs. P x \<Longrightarrow> last_such P xs \<in> set xs \<and> P (last_such P xs)"
  by (induction xs rule: rev_induct) auto

lemma last_such_none: "\<not> (\<exists>x \<in> set xs. P x) \<Longrightarrow> last_such P xs = 0"
  by (induction xs rule: rev_induct) auto

text \<open>
  The interrupt controller table as ACPI lays it out: the length at offset 4, the records from offset 44 on, each one a
  type, its own length and its body. The body of an I/O controller is its id, a reserved byte, its address and its first line.
\<close>

record madt_rec =
  mr_type :: u8
  mr_body :: "u8 list"

definition rec_bytes :: "madt_rec \<Rightarrow> u8 list" where
  "rec_bytes r = [mr_type r, of_nat (2 + length (mr_body r))] @ mr_body r"

definition recs_bytes :: "madt_rec list \<Rightarrow> u8 list" where
  "recs_bytes rs = concat (map rec_bytes rs)"

definition rec_ok :: "madt_rec \<Rightarrow> bool" where
  "rec_ok r \<longleftrightarrow> 2 + length (mr_body r) < 256"

definition io_record :: "u8 \<Rightarrow> u32 \<Rightarrow> u32 \<Rightarrow> madt_rec" where
  "io_record apic_id addr gsi = \<lparr>mr_type = 1, mr_body = [apic_id, 0] @ le_bytes 4 (unat addr) @ le_bytes 4 (unat gsi)\<rparr>"

definition madt_at :: "mem \<Rightarrow> u64 \<Rightarrow> madt_rec list \<Rightarrow> bool" where
  "madt_at m madt rs \<longleftrightarrow> madt \<noteq> 0 \<and> unat madt + 44 + length (recs_bytes rs) < 2 ^ 64 \<and> 44 + length (recs_bytes rs) < 2 ^ 31 \<and>
     list_all rec_ok rs \<and> load_bytes m (madt + 4) 4 = le_bytes 4 (44 + length (recs_bytes rs)) \<and>
     load_bytes m (madt + 44) (length (recs_bytes rs)) = recs_bytes rs"

fun recs_at :: "u64 \<Rightarrow> madt_rec list \<Rightarrow> (u64 \<times> madt_rec) list" where
  "recs_at a [] = []"
| "recs_at a (r # rs) = (a, r) # recs_at (a + of_nat (length (rec_bytes r))) rs"

lemma scast_small: "n < 2 ^ 31 \<Longrightarrow> (scast (of_nat n :: u32) :: u64) = of_nat n"
proof -
  assume n: "n < 2 ^ 31"
  have "sint (of_nat n :: u32) = signed_take_bit 31 (int n)" by (simp add: sint_sbintrunc' signed_of_nat)
  also have "\<dots> = int n" using n by (intro signed_take_bit_int_eq_self) simp_all
  finally have "sint (of_nat n :: u32) = int n" .
  then have "(of_int (sint (of_nat n :: u32)) :: u64) = of_int (int n)" by (rule arg_cong)
  then show ?thesis by simp
qed

lemma disjoint_blocks_sub:
  "disjoint_blocks e k a n \<Longrightarrow> off + l \<le> n \<Longrightarrow> unat a + n < 2 ^ 64 \<Longrightarrow> disjoint_blocks e k (a + of_nat off) l"
  using unat_add_of_nat [of a off] by (auto simp: disjoint_blocks_def)

lemma recs_at_append: "recs_at a (xs @ ys) = recs_at a xs @ recs_at (a + of_nat (length (recs_bytes xs))) ys"
  by (induction xs arbitrary: a) (simp_all add: recs_bytes_def add.assoc)

lemma recs_at_type: "(x, r) \<in> set (recs_at a rs) \<Longrightarrow> r \<in> set rs"
  by (induction rs arbitrary: a) auto

lemma recs_walked:
  assumes "list_all rec_ok rs" "load_bytes m a (length (recs_bytes rs)) = recs_bytes rs"
    and "unat a + length (recs_bytes rs) < 2 ^ 64" "0 < unat a"
  shows "chain (\<lambda>r. \<not> r < a + of_nat (length (recs_bytes rs))) (next_record m) a (map fst (recs_at a rs)) \<and>
    (\<forall>(x, r) \<in> set (recs_at a rs). x \<noteq> 0 \<and> load_bytes m x (length (rec_bytes r)) = rec_bytes r)"
  using assms
proof (induction rs arbitrary: a)
  case Nil
  then show ?case by (simp add: recs_bytes_def)
next
  case (Cons r rs)
  let ?L = "length (rec_bytes r)"
  have rb: "recs_bytes (r # rs) = rec_bytes r @ recs_bytes rs" by (simp add: recs_bytes_def)
  have L: "?L = 2 + length (mr_body r)" "?L < 256" using Cons.prems(1) by (simp_all add: rec_bytes_def rec_ok_def)
  have ld: "load_bytes m a ?L = rec_bytes r" "load_bytes m (a + of_nat ?L) (length (recs_bytes rs)) = recs_bytes rs"
    using Cons.prems(2) load_bytes_append [of m a ?L "length (recs_bytes rs)"] unfolding rb by simp_all
  have "m (a + 1) = of_nat ?L" using ld(1) by (simp add: rec_bytes_def)
  moreover have "unat (of_nat ?L :: u8) = ?L" using L(2) by (intro unat_of_nat8) simp
  ultimately have "(ucast (m (a + 1)) :: u64) = of_nat ?L" by (metis of_nat_unat)
  then have nx: "next_record m a = a + of_nat ?L" by (simp add: next_record_def)
  have ua: "unat (a + of_nat ?L) = unat a + ?L" "unat (a + of_nat (length (recs_bytes (r # rs)))) = unat a + length (recs_bytes (r # rs))"
    using Cons.prems(3) unfolding rb by (intro unat_add_of_nat; simp)+
  have e: "a + of_nat ?L + of_nat (length (recs_bytes rs)) = a + of_nat (length (recs_bytes (r # rs)))"
    by (simp add: rb add.assoc)
  have lt: "a < a + of_nat (length (recs_bytes (r # rs)))"
    using ua(2) L(1) by (simp add: word_less_nat_alt rb)
  have "chain (\<lambda>r. \<not> r < a + of_nat ?L + of_nat (length (recs_bytes rs))) (next_record m) (a + of_nat ?L) (map fst (recs_at (a + of_nat ?L) rs)) \<and>
    (\<forall>(x, r) \<in> set (recs_at (a + of_nat ?L) rs). x \<noteq> 0 \<and> load_bytes m x (length (rec_bytes r)) = rec_bytes r)"
    using Cons.prems(1,3,4) ua(1) ld(2) by (intro Cons.IH) (simp_all add: rb)
  then show ?case using nx lt ld(1) Cons.prems(4) unfolding e by auto
qed

lemma last_such_last: "P x \<Longrightarrow> \<forall>y \<in> set ys. \<not> P y \<Longrightarrow> last_such P (xs @ x # ys) = x"
  by (simp add: last_such_def filter_False)

lemma snd_note_records: "\<forall>r \<in> set rs. m r \<noteq> 5 \<Longrightarrow> snd (fold (note_record m) rs (x, a)) = a"
  by (induction rs arbitrary: x) (simp_all add: note_record_def Let_def)

lemma rec_type: "load_bytes m x (length (rec_bytes r)) = rec_bytes r \<Longrightarrow> m x = mr_type r"
  by (simp add: rec_bytes_def)

lemma io_record_address:
  assumes "load_bytes m x (length (rec_bytes (io_record i addr g))) = rec_bytes (io_record i addr g)"
  shows "U32 m (x + 4) = addr"
  using load_bytes_slice [of 4 4 12 m x] assms by (intro U32_bytes) (simp add: rec_bytes_def io_record_def)

text \<open>The walk over a table: it ends, and the pointer it keeps is the last record of an I/O controller.\<close>

lemma APIC_INIT_records:
  assumes t: "madt_at m madt rs" and rs: "rs = xs @ io_record i addr g # ys" "\<forall>y \<in> set ys. mr_type y \<noteq> 1"
  shows "\<exists>p lapic. walk (\<lambda>r. \<not> r < madt_end m madt) (next_record m) (note_record m) (madt + 44) (0, a) = Some (p, lapic) \<and>
    p \<noteq> 0 \<and> U32 m (p + 4) = addr \<and> ((\<forall>r \<in> set rs. mr_type r \<noteq> 5) \<longrightarrow> lapic = a)"
proof -
  let ?n = "length (recs_bytes rs)" and ?ats = "recs_at (madt + 44) rs"
  have tb: "madt \<noteq> 0" "unat madt + 44 + ?n < 2 ^ 64" "44 + ?n < 2 ^ 31" "list_all rec_ok rs"
    "load_bytes m (madt + 4) 4 = le_bytes 4 (44 + ?n)" "load_bytes m (madt + 44) ?n = recs_bytes rs"
    using t by (simp_all add: madt_at_def)
  have u32: "unat (of_nat (44 + ?n) :: u32) = 44 + ?n" using tb(3) by (intro unat_of_nat32) simp
  have "U32 m (madt + 4) = of_nat (44 + ?n)" using tb(5) u32 by (intro U32_bytes) (simp del: of_nat_add)
  moreover have "(scast (of_nat (44 + ?n) :: u32) :: u64) = of_nat (44 + ?n)" by (rule scast_small [OF tb(3)])
  ultimately have fin: "madt_end m madt = madt + 44 + of_nat ?n" by (simp add: madt_end_def add.assoc)
  have u44: "unat (madt + 44) = unat madt + 44" using tb(2) unat_add_of_nat [of madt 44] by simp
  have w: "chain (\<lambda>r. \<not> r < madt_end m madt) (next_record m) (madt + 44) (map fst ?ats)"
    "\<forall>(x, r) \<in> set ?ats. x \<noteq> 0 \<and> load_bytes m x (length (rec_bytes r)) = rec_bytes r"
    using recs_walked [OF tb(4,6)] tb(2) u44 unfolding fin by simp_all
  have ty: "m x = mr_type r" if "(x, r) \<in> set ?ats" for x r using w(2) that rec_type by blast
  define p where "p = madt + 44 + of_nat (length (recs_bytes xs))"
  define q where "q = p + of_nat (length (rec_bytes (io_record i addr g)))"
  have ats: "?ats = recs_at (madt + 44) xs @ (p, io_record i addr g) # recs_at q ys"
    by (simp add: rs(1) recs_at_append p_def q_def)
  have p: "m p = 1" "p \<noteq> 0" "U32 m (p + 4) = addr"
    using w(2) ty [of p "io_record i addr g"] io_record_address by (auto simp: ats io_record_def)
  have "\<forall>y \<in> set (map fst (recs_at q ys)). m y \<noteq> 1"
    using ty rs(2) recs_at_type [of _ _ q ys] by (fastforce simp: ats)
  then have ls: "last_such (\<lambda>r. m r = 1) (map fst ?ats) = p"
    unfolding ats list.map map_append using p(1) by (simp add: last_such_last)
  have wk: "walk (\<lambda>r. \<not> r < madt_end m madt) (next_record m) (note_record m) (madt + 44) (0, a) =
      Some (p, snd (fold (note_record m) (map fst ?ats) (0, a)))"
    using walk_chain [OF w(1), of "note_record m" "(0, a)"] fst_note_records [of m "map fst ?ats" a] ls
    by (metis prod.collapse)
  have "snd (fold (note_record m) (map fst ?ats) (0, a)) = a" if "\<forall>r \<in> set rs. mr_type r \<noteq> 5"
  proof (rule snd_note_records)
    show "\<forall>r \<in> set (map fst ?ats). m r \<noteq> 5" using ty that recs_at_type [of _ _ "madt + 44" rs] by fastforce
  qed
  then show ?thesis using wk p by blast
qed

text \<open>What the page tables say is determined by memory and the address of the top table.\<close>

lemma paging_cong:
  fixes s :: "'a kpaging_scheme" and s' :: "'b kpaging_scheme"
  assumes "kmem s = kmem s'" "p3_table s = p3_table s'"
  shows "MemoryPhysical va s = MemoryPhysical va s'" "paging_inv s = paging_inv s'" "present s q = present s' q" "p3_entry s q = p3_entry s' q"
  using assms by (simp_all add: MemoryPhysical_def paging_inv_def present_def p3_entry_def Let_def)

lemma ioapic_setup_keeps [simp]:
  "kmem (ioapic_setup s) = kmem s" "p3_table (ioapic_setup s) = p3_table s" "ioapic_base (ioapic_setup s) = ioapic_base s"
  "localAPICaddr (ioapic_setup s) = localAPICaddr s"
  by (simp_all add: ioapic_setup_def IOAPIC_WRITEIRQ_def IOAPIC_WRITE_def apic_write_def Let_def)

lemma align_up_next:
  assumes "unat a mod 0x200000 = 0" "unat a + 0x200000 < 2 ^ 63"
  shows "align_up (a + 0x200000) 0x200000 = a + 0x200000"
proof -
  have u: "unat (a + 0x200000) = unat a + 0x200000" using unat_add_of_nat [of a "0x200000"] assms(2) by simp
  obtain k where k: "unat a = 0x200000 * k" using assms(1) by auto
  have "unat (align_up (a + 0x200000) 0x200000) = ((unat (a + 0x200000) - 1) div 0x200000 + 1) * 0x200000"
    using unat_align_up [of "a + 0x200000" "0x200000"] u assms(2) by simp
  also have "\<dots> = unat (a + 0x200000)"
  proof -
    have "(0x200000 * k + 0x200000 - 1) div 0x200000 = k" by (intro div_nat_eqI) auto
    then show ?thesis by (simp add: u k)
  qed
  finally show ?thesis by (simp add: word_unat_eq_iff)
qed

text \<open>Mapping a window does not touch a table that lies apart from the page table it goes into.\<close>

lemma madt_at_remap:
  assumes pg: "paging_inv s" and a: "unat a < 2 ^ 39" and t: "madt_at (kmem s) madt rs"
    and pres: "present s (unat (a div PAGE_WIDTH))"
    and apart: "disjoint_blocks (TABLE (p3_entry s (unat (a div PAGE_WIDTH)))) 4096 madt (44 + length (recs_bytes rs))"
  shows "madt_at (kmem (MemoryRemap a x f s)) madt rs"
proof -
  let ?e = "entry (TABLE (p3_entry s (unat (a div PAGE_WIDTH)))) (of_nat (leaf_index a))"
  have k: "kmem (MemoryRemap a x f s) = set_U64 (kmem s) ?e (x OR 0x87 OR of_int f)"
    unfolding MemoryRemap_effect [OF pg a] by simp
  have "disjoint_blocks ?e 8 madt (44 + length (recs_bytes rs))"
    using entry_in_table [OF _ leaf_index_bound apart] paging_invD(3) [OF pg p3_index [OF a] pres] by simp
  then have d: "disjoint_blocks ?e 8 (madt + of_nat off) n" if "off + n \<le> 44 + length (recs_bytes rs)" for off n
    using that t disjoint_blocks_sub [of ?e 8 madt "44 + length (recs_bytes rs)" off n] by (simp add: madt_at_def)
  have "load_bytes (kmem (MemoryRemap a x f s)) (madt + of_nat off) n = load_bytes (kmem s) (madt + of_nat off) n"
    if "off + n \<le> 44 + length (recs_bytes rs)" for off n
    unfolding k using d [OF that] by (rule load_set_U64_other)
  from this [of 4 4] this [of 44 "length (recs_bytes rs)"] t show ?thesis by (simp add: madt_at_def)
qed

lemma next_block_page:
  fixes a :: u64
  assumes "unat a mod 0x200000 = 0" "unat (a + 0x200000) = unat a + 0x200000"
  shows "a mod PAGE_P2_SIZE = 0" "(a + 0x200000) mod PAGE_P2_SIZE = 0" "a div PAGE_P2_SIZE \<noteq> (a + 0x200000) div PAGE_P2_SIZE"
  using assms by (auto simp: word_unat_eq_iff unat_mod unat_div)

text \<open>
  C25: \<open>APIC_INIT\<close> on a table given by its bytes, whose last record of an I/O controller gives the address \<open>addr\<close>: it returns 1,
  the window \<open>ioapic_base\<close> shows the 2 MB page of \<open>addr\<close>, and through it the keyboard line and the lines 8 to 11 have been routed
  to the vectors from 0x20 on, which is where \<open>IRQ_Initialize\<close> installs the dispatcher. Without an address override record the
  window \<open>localAPICaddr\<close> shows the local controller at 0xfee00000. The table must lie apart from the page tables, and
  the gigabytes of the two windows, which are the next 2 MB blocks of the heap, must have second level tables.
\<close>

theorem APIC_INIT_routes:
  fixes s :: "'a kapic_scheme"
  assumes t: "madt_at (kmem s) madt rs" and rs: "rs = xs @ io_record i addr g # ys" "\<forall>y \<in> set ys. mr_type y \<noteq> 1"
    and pg: "paging_inv s" and a: "a = align_up (malloc_start s) 0x200000" "0 < unat (malloc_start s)" "unat (malloc_start s) + 0x600000 < 2 ^ 39"
    and pres: "present s (unat (a div PAGE_WIDTH))" "present s (unat ((a + 0x200000) div PAGE_WIDTH))"
    and apart: "disjoint_blocks (TABLE (p3_entry s (unat (a div PAGE_WIDTH)))) 4096 madt (44 + length (recs_bytes rs))"
  shows "\<exists>s'. APIC_INIT hw madt s = Inr (1, s') \<and> MemoryPhysical (ioapic_base s') s' = PAGE (ucast addr) \<and>
    (\<forall>k \<in> {1, 8, 9, 10, 11}. redirection (ioapic_base s') (aio s') k = Some (0x20 + ucast k)) \<and>
    ((\<forall>r \<in> set rs. mr_type r \<noteq> 5) \<longrightarrow> MemoryPhysical (localAPICaddr s') s' = 0xfee00000)"
proof -
  have nz: "madt \<noteq> 0" using t by (simp add: madt_at_def)
  define v where "v = s\<lparr>malloc_start := a + 0x200000\<rparr>"
  define w where "w = MemoryRemap a 0xfee00000 16 v"
  have m: "madt_memory s = kmem w" by (simp add: madt_memory_def w_def v_def a(1) Let_def)
  have ab: "unat a mod 0x200000 = 0" "unat a < unat (malloc_start s) + 0x200000"
    using align_up_bounds [of "malloc_start s" "0x200000"] a by simp_all
  have a39: "unat a < 2 ^ 39" "unat (a + 0x200000) < 2 ^ 39" "unat (a + 0x200000) = unat a + 0x200000"
    using ab(2) a(3) unat_add_of_nat [of a "0x200000"] by simp_all
  have pv: "paging_inv v" "present v q = present s q" "p3_entry v q = p3_entry s q" for q
    using pg by (simp_all add: v_def paging_inv_def present_def p3_entry_def)
  have tw: "paging_inv w" "\<And>r. r < 512 \<Longrightarrow> present w r = present s r"
    "\<And>va. unat va < 2 ^ 39 \<Longrightarrow> MemoryPhysical va w =
      (if va div PAGE_P2_SIZE = a div PAGE_P2_SIZE then PAGE 0xfee00000 + va mod PAGE_P2_SIZE else MemoryPhysical va v)"
    using MemoryRemap_translation [OF pv(1) a39(1), of 16 "0xfee00000"] pv(2) pres(1) by (simp_all add: w_def)
  have "kmem v = kmem s" by (simp add: v_def)
  then have tm: "madt_at (kmem w) madt rs"
    using madt_at_remap [OF pv(1) a39(1), of madt rs] pres(1) apart t pv(2,3) by (simp add: w_def)
  obtain p lapic where walked: "walk (\<lambda>r. \<not> r < madt_end (kmem w) madt) (next_record (kmem w)) (note_record (kmem w)) (madt + 44) (0, a) = Some (p, lapic)"
    "p \<noteq> 0" "U32 (kmem w) (p + 4) = addr" "(\<forall>r \<in> set rs. mr_type r \<noteq> 5) \<longrightarrow> lapic = a"
    using APIC_INIT_records [OF tm rs, of a] by blast
  have fin: "madt_end (kmem w) madt = madt_end (kmem s) madt"
    using t tm by (simp add: madt_end_def madt_at_def U32_def)
  obtain s1 where s1: "kmem s1 = kmem w" "p3_table s1 = p3_table s"
    and ini: "APIC_INIT hw madt s = Inr (1, ioapic_setup ((MemoryRemap (a + 0x200000) (ucast addr) 16
      (s1\<lparr>localAPICaddr := lapic, malloc_start := a + 0x200000 + 0x200000\<rparr>))\<lparr>ioapic_base := a + 0x200000\<rparr>))"
    using APIC_INIT_walk [OF nz, of hw s] walked align_up_next [OF ab(1)] a39(1) unfolding m a(1) [symmetric] fin by auto
  let ?b = "a + 0x200000" and ?u = "s1\<lparr>localAPICaddr := lapic, malloc_start := a + 0x200000 + 0x200000\<rparr>"
  have "p3_table w = p3_table s" by (simp add: w_def v_def MemoryRemap_def Let_def)
  then have u: "paging_inv ?u" "present ?u q = present w q" "MemoryPhysical va ?u = MemoryPhysical va w" for q va
    using paging_cong [of ?u w] tw(1) s1 by simp_all
  define z where "z = (MemoryRemap ?b (ucast addr) 16 ?u)\<lparr>ioapic_base := ?b\<rparr>"
  have "present ?u (unat (?b div PAGE_WIDTH))" using u(2) tw(2) [OF p3_index [OF a39(2)]] pres(2) by simp
  then have tr: "MemoryPhysical va (ioapic_setup z) =
      (if va div PAGE_P2_SIZE = ?b div PAGE_P2_SIZE then PAGE (ucast addr) + va mod PAGE_P2_SIZE else MemoryPhysical va w)"
    if "unat va < 2 ^ 39" for va
    using MemoryRemap_translation [OF u(1) a39(2), of 16 "ucast addr"] that u(3)
      paging_cong(1) [of "ioapic_setup z" "MemoryRemap ?b (ucast addr) 16 ?u" va] by (simp add: z_def)
  note md = next_block_page [OF ab(1) a39(3)]
  have zf: "localAPICaddr z = lapic" "ioapic_base z = ?b" by (simp_all add: z_def MemoryRemap_frame)
  have "MemoryPhysical ?b (ioapic_setup z) = PAGE (ucast addr)" using tr [OF a39(2)] md by simp
  moreover have "MemoryPhysical a (ioapic_setup z) = 0xfee00000" using tr [OF a39(1)] tw(3) [OF a39(1)] md by (simp add: PAGE_def)
  moreover have "\<forall>k \<in> {1, 8, 9, 10, 11}. redirection ?b (aio (ioapic_setup z)) k = Some (0x20 + ucast k)"
    using ioapic_setup_routes [OF zf(2)] by auto
  ultimately show ?thesis using ini walked(4) zf by (intro exI [of _ "ioapic_setup z"]) (auto simp: z_def)
qed

text \<open>A table at 0x10000 with one I/O controller; the first gigabyte has its second level table at 0x2000.\<close>

definition demo_madt :: "u8 list" where
  "demo_madt = replicate 4 0 @ le_bytes 4 56 @ replicate 36 0 @ recs_bytes [io_record 2 0xfec00000 0]"

definition demo_machine :: kapic where
  "demo_machine = example_apic\<lparr>kmem := store_bytes (set_U64 (\<lambda>_. 0) (entry 0x1000 0) 0x2007) 0x10000 demo_madt,
     malloc_start := 0x1000000, p3_table := 0x1000\<rparr>"

theorem APIC_INIT_routes_witness:
  "\<exists>s'. APIC_INIT (ideal_ioapic 0) 0x10000 demo_machine = Inr (1, s') \<and> MemoryPhysical (ioapic_base s') s' = 0xfec00000 \<and>
    redirection (ioapic_base s') (aio s') 1 = Some 0x21 \<and> MemoryPhysical (localAPICaddr s') s' = 0xfee00000"
proof -
  let ?s = demo_machine and ?rs = "[io_record 2 0xfec00000 0]"
  have len: "length (recs_bytes ?rs) = 12" "length demo_madt = 56" by (simp_all add: demo_madt_def recs_bytes_def rec_bytes_def io_record_def)
  have km: "kmem ?s = store_bytes (set_U64 (\<lambda>_. 0) (entry 0x1000 0) 0x2007) 0x10000 demo_madt"
    "p3_table ?s = 0x1000" "malloc_start ?s = 0x1000000" by (simp_all add: demo_machine_def)
  have "load_bytes (kmem ?s) 0x10000 56 = demo_madt"
    using load_store_bytes [of demo_madt "set_U64 (\<lambda>_. 0) (entry 0x1000 0) 0x2007" "0x10000"] by (simp add: km len)
  then have sl: "load_bytes (kmem ?s) (0x10000 + of_nat off) n = take n (drop off demo_madt)" if "off + n \<le> 56" for off n
    using load_bytes_slice [OF that, of "kmem ?s" "0x10000"] by simp
  have t: "madt_at (kmem ?s) 0x10000 ?rs"
  proof -
    have "list_all rec_ok ?rs" by (simp add: rec_ok_def io_record_def)
    moreover have "take 12 (drop 44 demo_madt) = recs_bytes ?rs" "take 4 (drop 4 demo_madt) = le_bytes 4 56"
      using len(1) by (simp_all add: demo_madt_def)
    ultimately show ?thesis using sl [of 4 4] sl [of 44 12] by (simp add: madt_at_def len)
  qed
  have z: "p3_entry ?s q = (if q = 0 then 0x2007 else 0)" if "q < 512" for q
  proof -
    have "disjoint_blocks 0x10000 56 (entry 0x1000 (of_nat q)) 8"
      using unat_entry [of "0x1000" q] that by (auto simp: disjoint_blocks_def)
    then have "p3_entry ?s q = U64 (set_U64 (\<lambda>_. 0) (entry 0x1000 0) 0x2007) (entry 0x1000 (of_nat q))"
      by (simp add: p3_entry_def km U64_def load_store_disjoint len)
    then show ?thesis using U64_set_entry [of "0x1000" 0 q "\<lambda>_. 0" "0x2007"] that
      by (simp add: U64_def [of "\<lambda>_. 0"] bytes_numeral)
  qed
  have pg: "paging_inv ?s" "present ?s 0" by (auto simp: paging_inv_def present_def z km TABLE_def disjoint_blocks_def)
  have a: "0x1000000 = align_up (malloc_start ?s) 0x200000" by (simp add: km align_up_def)
  have apart: "disjoint_blocks (TABLE (p3_entry ?s 0)) 4096 0x10000 (44 + length (recs_bytes ?rs))"
    by (simp add: z TABLE_def disjoint_blocks_def len)
  show ?thesis
    using APIC_INIT_routes [OF t, of "[]" 2 "0xfec00000" 0 "[]" "0x1000000" "ideal_ioapic 0", OF _ _ pg(1) a] pg(2) apart
    by (auto simp: km io_record_def PAGE_def)
qed

text \<open>A table without an I/O controller is dereferenced all the same: the pointer to its record is NULL.\<close>

theorem APIC_INIT_no_ioapic:
  assumes "madt \<noteq> 0"
    and "chain (\<lambda>r. \<not> r < madt_end (kmem s) madt) (next_record (madt_memory s)) (madt + 44) rs"
    and "\<forall>r \<in> set rs. madt_memory s r \<noteq> 1"
  shows "APIC_INIT hw madt s = Inl NullDeref"
proof -
  have "last_such (\<lambda>r. madt_memory s r = 1) rs = 0" using assms(3) by (intro last_such_none) blast
  then show ?thesis
    using APIC_INIT_walk [OF assms(1), of hw s] walk_chain [OF assms(2), of "note_record (madt_memory s)" "(0, align_up (malloc_start s) 0x200000)"]
      fst_note_records [of "madt_memory s" rs "align_up (malloc_start s) 0x200000"]
    by (auto simp: split_beta)
qed

theorem APIC_INIT_no_ioapic_witness:
  "APIC_INIT (ideal_ioapic 0) 65536 (example_apic\<lparr>kmem := (\<lambda>_. 0)(65540 := 44)\<rparr>) = Inl NullDeref"
  by (rule APIC_INIT_no_ioapic [where rs = "[]"]) (simp_all add: madt_end_def U32_def bytes_numeral)

text \<open>A record that gives its length as 0 is never left.\<close>

lemma APIC_INIT_stuck:
  assumes "madt \<noteq> 0" and "madt + 44 < madt_end (kmem s) madt" and "madt_memory s (madt + 45) = 0"
  shows "APIC_INIT hw madt s = Inl Hangs"
proof -
  have "walk (\<lambda>r. \<not> r < madt_end (kmem s) madt) (next_record (madt_memory s)) (note_record (madt_memory s)) (madt + 44) x = None" for x
    using assms by (intro walk_stuck) (simp_all add: next_record_def add.assoc)
  then show ?thesis using APIC_INIT_walk [OF assms(1), of hw s] by auto
qed

section \<open>Waiting\<close>

lemma wait_tick_done: "apic_timer_c s \<noteq> 0 \<Longrightarrow> wait_tick arrives (irqs, s) = Some (Inr (irqs, s))"
  by (subst wait_tick.simps) simp

lemma wait_tick_arrives:
  assumes "arrives (aio s) = Some irq" and "irq < length (g_IRQHandlers irqs)"
    and "g_IRQHandlers irqs ! irq = Some TIMER_WAIT_INT_ptr" and "apic_timer_c s = 0"
  shows "waited (wait_tick arrives (irqs, s)) = Inr (irqs, APIC_SEND_EOI (TIMER_WAIT_INT s))"
proof -
  have "take_irq irq (irqs, s) = Inr (irqs, APIC_SEND_EOI (TIMER_WAIT_INT s))"
    using assms(2,3) by (simp add: take_irq_def array_get_def)
  moreover have "apic_timer_c (APIC_SEND_EOI (TIMER_WAIT_INT s)) \<noteq> 0"
    by (simp add: APIC_SEND_EOI_def TIMER_WAIT_INT_def apic_write_def)
  ultimately show ?thesis
    using assms(1,4) by (subst wait_tick.simps) (simp add: waited_def wait_tick_done)
qed

text \<open>
  The sleep programs the counter with the number of ticks of the given microseconds and returns at the next timer
  interrupt, after which the interrupt is acknowledged.
\<close>

theorem APIC_SLEEP_MICRO_counts:
  assumes "\<forall>h. arrives h = Some 0" and "0 < length (g_IRQHandlers irqs)"
    and "g_IRQHandlers irqs ! 0 = Some TIMER_WAIT_INT_ptr" and "unat d * unat (LAPIC_TIMER_FREQUENCY s) < 2 ^ 64"
  shows "\<exists>s'. APIC_SLEEP_MICRO arrives d (irqs, s) = Inr (irqs, s') \<and> apic_timer_c s' = 1 \<and>
    aio s' = aio s @ [MmioW (LAPIC 0x380 s) (of_nat (unat d * unat (LAPIC_TIMER_FREQUENCY s) div 1000000)), MmioW (LAPIC 0xB0 s) 0]"
proof -
  let ?n = "d * LAPIC_TIMER_FREQUENCY s div 1000000"
  let ?s = "apic_write (LAPIC 0x380 s) (ucast ?n) (s\<lparr>apic_timer_c := 0\<rparr>)"
  have "unat ?n = unat d * unat (LAPIC_TIMER_FREQUENCY s) div 1000000"
    using assms(4) by (simp add: unat_div unat_mult_lem [THEN iffD1])
  then have n: "ucast ?n = (of_nat (unat d * unat (LAPIC_TIMER_FREQUENCY s) div 1000000) :: u32)"
    by (metis of_nat_unat)
  have "waited (wait_tick arrives (irqs, ?s)) = Inr (irqs, APIC_SEND_EOI (TIMER_WAIT_INT ?s))"
    using assms(1-3) by (intro wait_tick_arrives [where irq = 0]) (simp_all add: apic_write_def)
  then show ?thesis
    by (simp add: APIC_SLEEP_MICRO_def LAPIC_def n APIC_SEND_EOI_def TIMER_WAIT_INT_def apic_write_def mmio_write_def)
qed

theorem APIC_SLEEP_MICRO_counts_witness:
  "\<exists>s'. APIC_SLEEP_MICRO (\<lambda>_. Some 0) 1000 (\<lparr>g_ISRHandlers = [], g_IRQHandlers = [Some TIMER_WAIT_INT_ptr]\<rparr>,
      example_apic\<lparr>LAPIC_TIMER_FREQUENCY := 62500\<rparr>) =
      Inr (\<lparr>g_ISRHandlers = [], g_IRQHandlers = [Some TIMER_WAIT_INT_ptr]\<rparr>, s') \<and>
    aio s' = [MmioW 0xfee00380 62, MmioW 0xfee000B0 0]"
  using APIC_SLEEP_MICRO_counts [of "\<lambda>_. Some 0" "\<lparr>g_ISRHandlers = [], g_IRQHandlers = [Some TIMER_WAIT_INT_ptr]\<rparr>" 1000
      "example_apic\<lparr>LAPIC_TIMER_FREQUENCY := 62500\<rparr>"]
  by (auto simp: example_apic_def LAPIC_def)

lemma frequency_exact:
  assumes "c2 \<le> (c1 :: u32)"
  shows "unat (drop_bit 6 ((ucast c1 - ucast c2 :: u64) * 1024)) = 16 * (unat c1 - unat c2)"
proof -
  have b: "unat c1 < 2 ^ 32" using unsigned_less [of c1, where ?'a = nat] by simp
  have le: "(ucast c2 :: u64) \<le> ucast c1" using assms by (simp add: word_le_nat_alt unat_ucast_32)
  have d: "unat (ucast c1 - ucast c2 :: u64) = unat c1 - unat c2" using le by (simp add: unat_sub unat_ucast_32)
  then have "unat ((ucast c1 - ucast c2 :: u64) * 1024) = (unat c1 - unat c2) * 1024"
    using b by (subst unat_mult_lem [THEN iffD1]) (simp_all del: left_diff_distrib_numeral)
  then show ?thesis
    by (simp add: drop_bit_eq_div unat_div del: left_diff_distrib_numeral)
qed

text \<open>
  Calibration. If the counter of the timer shows \<open>c1\<close> before the clock interrupt and \<open>c2\<close> after it has been acknowledged, the
  frequency is 16 times the difference (the clock ticks 16 times a second); the clock's handler is removed again and
  the timer interrupt is left to the sleep.
\<close>

theorem APIC_TIMER_INIT_calibrates:
  assumes "length (g_IRQHandlers irqs) = 16" and "apic_timer_c s = 0" and "\<forall>h. arrives h = Some 8"
    and "\<forall>h. mmio_l hw h (LAPIC 0x390 s) = (if MmioW (LAPIC 0xB0 s) 0 \<in> set h then c2 else c1)"
    and "MmioW (LAPIC 0xB0 s) 0 \<notin> set (aio s)" and "ioapic_base s + 0x10 \<noteq> LAPIC 0xB0 s" and "c2 \<le> c1"
  shows "\<exists>irqs' s'. APIC_TIMER_INIT hw arrives ticks (irqs, s) = Inr (irqs', s') \<and>
    unat (LAPIC_TIMER_FREQUENCY s') = 16 * (unat c1 - unat c2) \<and>
    g_IRQHandlers irqs' = (g_IRQHandlers irqs)[0 := Some TIMER_WAIT_INT_ptr, 8 := None]"
proof -
  define i1 where "i1 = irqs\<lparr>g_IRQHandlers := (g_IRQHandlers irqs)[0 := Some APIC_TIMER_INT_ptr]\<rparr>"
  define i2 where "i2 = i1\<lparr>g_IRQHandlers := (g_IRQHandlers i1)[8 := Some TIMER_WAIT_INT_ptr]\<rparr>"
  define i3 where "i3 = i2\<lparr>g_IRQHandlers := (g_IRQHandlers i2)[8 := None]\<rparr>"
  define i4 where "i4 = i3\<lparr>g_IRQHandlers := (g_IRQHandlers i3)[0 := Some TIMER_WAIT_INT_ptr]\<rparr>"
  define s1 where "s1 = start_timer s"
  define s2 where "s2 = s1\<lparr>aio := RTC_INTERRUPT_ENABLE hw 1 (RTC_SET_SPEED 12 (aio s1 @ [MmioR (LAPIC 0x390 s) c1]))\<rparr>"
  define s3 where "s3 = APIC_SEND_EOI (TIMER_WAIT_INT s2)"
  have frame: "localAPICaddr s1 = localAPICaddr s" "apic_timer_c s1 = 0" "localAPICaddr s2 = localAPICaddr s" "localAPICaddr s3 = localAPICaddr s"
    by (simp_all add: s1_def s2_def s3_def start_timer_def IOAPIC_MASKIRQ_def IOAPIC_WRITE_def APIC_SEND_EOI_def TIMER_WAIT_INT_def
        apic_write_def Let_def assms(2))
  have "MmioW (LAPIC 0xB0 s) 0 \<notin> set (aio s1)"
    using assms(5,6) by (auto simp: s1_def start_timer_def IOAPIC_MASKIRQ_def IOAPIC_WRITE_def apic_write_def mmio_write_def LAPIC_def Let_def)
  then have r1: "apic_read hw (LAPIC 0x390 s1) s1 = (c1, s1\<lparr>aio := aio s1 @ [MmioR (LAPIC 0x390 s) c1]\<rparr>)"
    using assms(4) by (simp add: apic_read_def mmio_read_def LAPIC_def frame Let_def)
  have "waited (wait_tick arrives (i2, s2)) = Inr (i2, s3)"
    unfolding s3_def using assms(1,3) frame(2)
    by (intro wait_tick_arrives [where irq = 8]) (simp_all add: i2_def i1_def s2_def)
  moreover have "apic_read hw (LAPIC 0x390 s3) s3 = (c2, s3\<lparr>aio := aio s3 @ [MmioR (LAPIC 0x390 s) c2]\<rparr>)"
    using assms(4) by (simp add: apic_read_def mmio_read_def LAPIC_def frame Let_def)
       (simp add: s3_def APIC_SEND_EOI_def TIMER_WAIT_INT_def apic_write_def mmio_write_def LAPIC_def frame)
  moreover have "IRQ_RegisterHandler 0 APIC_TIMER_INT_ptr irqs = Inr i1" "IRQ_RegisterHandler 8 TIMER_WAIT_INT_ptr i1 = Inr i2"
    using assms(1) by (simp_all add: IRQ_RegisterHandler_def array_set_def i1_def i2_def)
  moreover have "clear_irq 8 i2 = Inr i3" "IRQ_RegisterHandler 0 TIMER_WAIT_INT_ptr i3 = Inr i4"
    using assms(1) by (simp_all add: clear_irq_def IRQ_RegisterHandler_def array_set_def i1_def i2_def i3_def i4_def)
  moreover have "g_IRQHandlers i4 = (g_IRQHandlers irqs)[0 := Some TIMER_WAIT_INT_ptr, 8 := None]"
    by (simp add: i1_def i2_def i3_def i4_def list_update_swap)
  moreover have "aio (s1\<lparr>aio := aio s1 @ [MmioR (LAPIC 0x390 s) c1]\<rparr>) = aio s1 @ [MmioR (LAPIC 0x390 s) c1]" by simp
  ultimately show ?thesis
    using r1 frequency_exact [OF assms(7)]
    by (simp add: APIC_TIMER_INIT_def Let_def flip: s1_def s2_def del: left_diff_distrib_numeral)
qed

theorem APIC_TIMER_INIT_calibrates_witness:
  "\<exists>irqs' s'. APIC_TIMER_INIT ((ideal_ioapic 0)\<lparr>mmio_l := \<lambda>h a. if MmioW 0xfee000B0 0 \<in> set h then 100 else 1000\<rparr>) (\<lambda>_. Some 8) 0
      (\<lparr>g_ISRHandlers = [], g_IRQHandlers = replicate 16 None\<rparr>, example_apic) = Inr (irqs', s') \<and>
    unat (LAPIC_TIMER_FREQUENCY s') = 14400 \<and> g_IRQHandlers irqs' ! 0 = Some TIMER_WAIT_INT_ptr"
proof -
  have "\<exists>irqs' s'. APIC_TIMER_INIT ((ideal_ioapic 0)\<lparr>mmio_l := \<lambda>h a. if MmioW 0xfee000B0 0 \<in> set h then 100 else 1000\<rparr>) (\<lambda>_. Some 8) 0
      (\<lparr>g_ISRHandlers = [], g_IRQHandlers = replicate 16 None\<rparr>, example_apic) = Inr (irqs', s') \<and>
    unat (LAPIC_TIMER_FREQUENCY s') = 16 * (unat (1000 :: u32) - unat (100 :: u32)) \<and>
    g_IRQHandlers irqs' = (replicate 16 None)[0 := Some TIMER_WAIT_INT_ptr, 8 := None]"
    using APIC_TIMER_INIT_calibrates [of "\<lparr>g_ISRHandlers = [], g_IRQHandlers = replicate 16 None\<rparr>" example_apic "\<lambda>_. Some 8"
        "(ideal_ioapic 0)\<lparr>mmio_l := \<lambda>h a. if MmioW 0xfee000B0 0 \<in> set h then 100 else 1000\<rparr>" 100 1000 0]
    by (simp add: example_apic_def LAPIC_def)
  then show ?thesis by fastforce
qed

end
