(* ===== verification/Graphics.thy ===== *)
theory Graphics
  imports Ext2
begin

text \<open>
  Drawing: the pixel operations of \<open>src/src/graphics/graphics.c\<close> with the font of \<open>graphics/font.h\<close>, the text cursor of
  \<open>graphics/graphicsterm.c\<close>, the text mode of \<open>vga/term.c\<close> and the pictures of \<open>windows/windows.c\<close> and
  \<open>specifications/tga/tga.c\<close>. The video memory is a map from addresses to 32-bit cells; double buffering is
  compiled out, so \<open>Flush\<close> and \<open>SwapBuffers\<close> do nothing.
\<close>

section \<open>Pixels\<close>

record screen =
  width :: u64
  height :: u64
  bpp :: u64
  video :: u64
  color :: u32
  cells :: "u64 \<Rightarrow> u32"

definition font8x8_basic :: "u8 list list" where
  "font8x8_basic =
   [[0, 0, 0, 0, 0, 0, 0, 0], [0, 0, 0, 0, 0, 0, 0, 0], [0, 0, 0, 0, 0, 0, 0, 0], [0, 0, 0, 0, 0, 0, 0, 0],
    [0, 0, 0, 0, 0, 0, 0, 0], [0, 0, 0, 0, 0, 0, 0, 0], [0, 0, 0, 0, 0, 0, 0, 0], [0, 0, 0, 0, 0, 0, 0, 0],
    [0, 0, 0, 0, 0, 0, 0, 0], [0, 0, 0, 0, 0, 0, 0, 0], [0, 0, 0, 0, 0, 0, 0, 0], [0, 0, 0, 0, 0, 0, 0, 0],
    [0, 0, 0, 0, 0, 0, 0, 0], [0, 0, 0, 0, 0, 0, 0, 0], [0, 0, 0, 0, 0, 0, 0, 0], [0, 0, 0, 0, 0, 0, 0, 0],
    [0, 0, 0, 0, 0, 0, 0, 0], [0, 0, 0, 0, 0, 0, 0, 0], [0, 0, 0, 0, 0, 0, 0, 0], [0, 0, 0, 0, 0, 0, 0, 0],
    [0, 0, 0, 0, 0, 0, 0, 0], [0, 0, 0, 0, 0, 0, 0, 0], [0, 0, 0, 0, 0, 0, 0, 0], [0, 0, 0, 0, 0, 0, 0, 0],
    [0, 0, 0, 0, 0, 0, 0, 0], [0, 0, 0, 0, 0, 0, 0, 0], [0, 0, 0, 0, 0, 0, 0, 0], [0, 0, 0, 0, 0, 0, 0, 0],
    [0, 0, 0, 0, 0, 0, 0, 0], [0, 0, 0, 0, 0, 0, 0, 0], [0, 0, 0, 0, 0, 0, 0, 0], [0, 0, 0, 0, 0, 0, 0, 0],
    [0, 0, 0, 0, 0, 0, 0, 0], [24, 60, 60, 24, 24, 0, 24, 0], [54, 54, 0, 0, 0, 0, 0, 0], [54, 54, 127, 54, 127, 54, 54, 0],
    [12, 62, 3, 30, 48, 31, 12, 0], [0, 99, 51, 24, 12, 102, 99, 0], [28, 54, 28, 110, 59, 51, 110, 0], [6, 6, 3, 0, 0, 0, 0, 0],
    [24, 12, 6, 6, 6, 12, 24, 0], [6, 12, 24, 24, 24, 12, 6, 0], [0, 102, 60, 255, 60, 102, 0, 0], [0, 12, 12, 63, 12, 12, 0, 0],
    [0, 0, 0, 0, 0, 12, 12, 6], [0, 0, 0, 63, 0, 0, 0, 0], [0, 0, 0, 0, 0, 12, 12, 0], [96, 48, 24, 12, 6, 3, 1, 0],
    [62, 99, 115, 123, 111, 103, 62, 0], [12, 14, 12, 12, 12, 12, 63, 0], [30, 51, 48, 28, 6, 51, 63, 0], [30, 51, 48, 28, 48, 51, 30, 0],
    [56, 60, 54, 51, 127, 48, 120, 0], [63, 3, 31, 48, 48, 51, 30, 0], [28, 6, 3, 31, 51, 51, 30, 0], [63, 51, 48, 24, 12, 12, 12, 0],
    [30, 51, 51, 30, 51, 51, 30, 0], [30, 51, 51, 62, 48, 24, 14, 0], [0, 12, 12, 0, 0, 12, 12, 0], [0, 12, 12, 0, 0, 12, 12, 6],
    [24, 12, 6, 3, 6, 12, 24, 0], [0, 0, 63, 0, 0, 63, 0, 0], [6, 12, 24, 48, 24, 12, 6, 0], [30, 51, 48, 24, 12, 0, 12, 0],
    [62, 99, 123, 123, 123, 3, 30, 0], [12, 30, 51, 51, 63, 51, 51, 0], [63, 102, 102, 62, 102, 102, 63, 0], [60, 102, 3, 3, 3, 102, 60, 0],
    [31, 54, 102, 102, 102, 54, 31, 0], [127, 70, 22, 30, 22, 70, 127, 0], [127, 70, 22, 30, 22, 6, 15, 0], [60, 102, 3, 3, 115, 102, 124, 0],
    [51, 51, 51, 63, 51, 51, 51, 0], [30, 12, 12, 12, 12, 12, 30, 0], [120, 48, 48, 48, 51, 51, 30, 0], [103, 102, 54, 30, 54, 102, 103, 0],
    [15, 6, 6, 6, 70, 102, 127, 0], [99, 119, 127, 127, 107, 99, 99, 0], [99, 103, 111, 123, 115, 99, 99, 0], [28, 54, 99, 99, 99, 54, 28, 0],
    [63, 102, 102, 62, 6, 6, 15, 0], [30, 51, 51, 51, 59, 30, 56, 0], [63, 102, 102, 62, 54, 102, 103, 0], [30, 51, 7, 14, 56, 51, 30, 0],
    [63, 45, 12, 12, 12, 12, 30, 0], [51, 51, 51, 51, 51, 51, 63, 0], [51, 51, 51, 51, 51, 30, 12, 0], [99, 99, 99, 107, 127, 119, 99, 0],
    [99, 99, 54, 28, 28, 54, 99, 0], [51, 51, 51, 30, 12, 12, 30, 0], [127, 99, 49, 24, 76, 102, 127, 0], [30, 6, 6, 6, 6, 6, 30, 0],
    [3, 6, 12, 24, 48, 96, 64, 0], [30, 24, 24, 24, 24, 24, 30, 0], [8, 28, 54, 99, 0, 0, 0, 0], [0, 0, 0, 0, 0, 0, 0, 255],
    [12, 12, 24, 0, 0, 0, 0, 0], [0, 0, 30, 48, 62, 51, 110, 0], [7, 6, 6, 62, 102, 102, 59, 0], [0, 0, 30, 51, 3, 51, 30, 0],
    [56, 48, 48, 62, 51, 51, 110, 0], [0, 0, 30, 51, 63, 3, 30, 0], [28, 54, 6, 15, 6, 6, 15, 0], [0, 0, 110, 51, 51, 62, 48, 31],
    [7, 6, 54, 110, 102, 102, 103, 0], [12, 0, 14, 12, 12, 12, 30, 0], [48, 0, 48, 48, 48, 51, 51, 30], [7, 6, 102, 54, 30, 54, 103, 0],
    [14, 12, 12, 12, 12, 12, 30, 0], [0, 0, 51, 127, 127, 107, 99, 0], [0, 0, 31, 51, 51, 51, 51, 0], [0, 0, 30, 51, 51, 51, 30, 0],
    [0, 0, 59, 102, 102, 62, 6, 15], [0, 0, 110, 51, 51, 62, 48, 120], [0, 0, 59, 110, 102, 6, 15, 0], [0, 0, 62, 3, 30, 48, 31, 0],
    [8, 12, 62, 12, 12, 44, 24, 0], [0, 0, 51, 51, 51, 51, 110, 0], [0, 0, 51, 51, 51, 30, 12, 0], [0, 0, 99, 107, 127, 127, 54, 0],
    [0, 0, 99, 54, 28, 54, 99, 0], [0, 0, 51, 51, 51, 62, 48, 31], [0, 0, 63, 25, 12, 38, 63, 0], [56, 12, 12, 7, 12, 12, 56, 0],
    [24, 24, 24, 0, 24, 24, 24, 0], [7, 12, 12, 56, 12, 12, 7, 0], [110, 59, 0, 0, 0, 0, 0, 0], [0, 0, 0, 0, 0, 0, 0, 0]]"

definition GraphicsInit :: "u64 \<Rightarrow> int \<Rightarrow> int \<Rightarrow> int \<Rightarrow> screen \<Rightarrow> int \<times> screen" where
  "GraphicsInit addr w h b g =
     (if b \<noteq> 32 then (1, g)
      else (0, g\<lparr>width := of_int w, height := of_int h, bpp := of_int b, video := addr\<rparr>))"

text \<open>\<open>video[y*width+x]\<close>\<close>

definition GET_PIXEL :: "screen \<Rightarrow> int \<Rightarrow> int \<Rightarrow> u64" where
  "GET_PIXEL g x y = video g + 4 * (of_int y * width g + of_int x)"

definition SetPixel :: "int \<Rightarrow> int \<Rightarrow> u32 \<Rightarrow> screen \<Rightarrow> screen" where
  "SetPixel x y r g = g\<lparr>cells := (cells g)(GET_PIXEL g x y := r)\<rparr>"

definition SetColor :: "u32 \<Rightarrow> screen \<Rightarrow> screen" where
  "SetColor val g = g\<lparr>color := val\<rparr>"

definition GetWidth :: "screen \<Rightarrow> int" where
  "GetWidth g = long_to_int (width g)"

definition GetHeight :: "screen \<Rightarrow> int" where
  "GetHeight g = long_to_int (height g)"

text \<open>The table of glyphs has 128 entries, the index is an \<open>unsigned char\<close>.\<close>

definition WriteChar :: "int \<Rightarrow> int \<Rightarrow> u8 \<Rightarrow> screen \<Rightarrow> screen outcome" where
  "WriteChar x y c g =
     andthen (array_get font8x8_basic (unat c)) (\<lambda>chars.
       Inr (fold (\<lambda>(i, j) g. SetPixel (x + int i) (y + int j) (color g * (if bit (chars ! j) i then 1 else 0)) g)
              (List.product [0..<8] [0..<8]) g))"

partial_function (option) write_loop :: "mem \<Rightarrow> int \<Rightarrow> int \<Rightarrow> u64 \<Rightarrow> int \<Rightarrow> screen \<Rightarrow> screen outcome option" where
  "write_loop m x y s i g =
     (if m (s + of_int i) = 0 then Some (Inr g)
      else case WriteChar (x + 8 * i) y (m (s + of_int i)) g of
             Inl e \<Rightarrow> Some (Inl e)
           | Inr g \<Rightarrow> write_loop m x y s (i + 1) g)"

definition WriteString :: "mem \<Rightarrow> int \<Rightarrow> int \<Rightarrow> u64 \<Rightarrow> screen \<Rightarrow> screen outcome" where
  "WriteString m x y s g = (case write_loop m x y s 0 g of None \<Rightarrow> Inl Hangs | Some r \<Rightarrow> r)"

definition FillRect :: "int \<Rightarrow> int \<Rightarrow> int \<Rightarrow> int \<Rightarrow> screen \<Rightarrow> screen" where
  "FillRect x y w h g =
     fold (\<lambda>(i, j) g. SetPixel i j (color g) g) (List.product [x..int32 (x + w) - 1] [y..int32 (y + h) - 1]) g"

text \<open>The counter is 32 bits wide and the bound 64.\<close>

definition ClearScreen :: "screen \<Rightarrow> screen outcome" where
  "ClearScreen g =
     (let n = width g * height g
      in if 2 ^ 32 \<le> unat n then Inl Hangs
         else Inr (fold (\<lambda>i g. g\<lparr>cells := (cells g)(video g + of_nat (4 * i) := 0)\<rparr>) [0..<unat n] g))"

section \<open>The terminal\<close>

record terminal =
  tx :: int
  ty :: int
  tg :: screen

definition TERM_SET_POS :: "int \<Rightarrow> int \<Rightarrow> terminal \<Rightarrow> terminal" where
  "TERM_SET_POS r c t = t\<lparr>tx := r, ty := c\<rparr>"

definition TERM_GET_X :: "terminal \<Rightarrow> int" where
  "TERM_GET_X t = tx t"

definition TERM_GET_Y :: "terminal \<Rightarrow> int" where
  "TERM_GET_Y t = ty t"

definition write_at_cursor :: "u8 \<Rightarrow> terminal \<Rightarrow> terminal outcome" where
  "write_at_cursor c t = andthen (WriteChar (tx t * 8 + 10) (ty t * 12 + 10) c (tg t)) (\<lambda>g. Inr (t\<lparr>tg := g\<rparr>))"

definition putCursor :: "terminal \<Rightarrow> terminal outcome" where
  "putCursor t = write_at_cursor 0x5F t"

text \<open>The remainder of C has the sign of the dividend.\<close>

definition putchar :: "u8 \<Rightarrow> terminal \<Rightarrow> terminal outcome" where
  "putchar c t =
     (if c = 10 then Inr (t\<lparr>tx := 0, ty := ty t + 1\<rparr>)
      else if c = 9 then Inr (t\<lparr>tx := tx t + 4 - sgn (tx t) * (\<bar>tx t\<bar> mod 4)\<rparr>)
      else if c = 8 then write_at_cursor 0x20 (t\<lparr>tx := tx t - 1\<rparr>)
      else andthen (write_at_cursor c t) (\<lambda>t. Inr (t\<lparr>tx := tx t + 1\<rparr>)))"

fun putchars :: "u8 list \<Rightarrow> terminal \<Rightarrow> terminal outcome" where
  "putchars [] t = Inr t"
| "putchars (c # cs) t = andthen (putchar c t) (putchars cs)"

definition strwrite :: "mem \<Rightarrow> u64 \<Rightarrow> int \<Rightarrow> terminal \<Rightarrow> terminal outcome" where
  "strwrite m s len t = andthen (putchars (load_bytes m s (nat len)) t) (putchar 10)"

section \<open>Text mode\<close>

record vga =
  vga_addr :: u64
  vga_col :: u16
  vr :: int
  vc :: int
  vcells :: "u64 \<Rightarrow> u16"

definition VGA_SetColor :: "u8 \<Rightarrow> u8 \<Rightarrow> vga \<Rightarrow> vga" where
  "VGA_SetColor fg bg v = v\<lparr>vga_col := ucast fg OR push_bit 4 (ucast bg)\<rparr>"

definition putch :: "u8 \<Rightarrow> vga \<Rightarrow> vga" where
  "putch ch v =
     (if ch = 10 then v
      else if ch = 9 then v\<lparr>vc := vc v + 8 - sgn (vc v) * (\<bar>vc v\<bar> mod 4)\<rparr>
      else let v = (if vc v \<ge> 80 then v\<lparr>vc := 0, vr := vr v + 1\<rparr> else v)
           in v\<lparr>vcells := (vcells v)(vga_addr v + of_int (2 * (vr v * 80 + vc v)) := scast ch OR push_bit 8 (vga_col v)),
                vc := vc v + 1\<rparr>)"

section \<open>Pictures\<close>

definition tga_h :: "mem \<Rightarrow> u64 \<Rightarrow> u16" where
  "tga_h m f = U16 m (f + 12)"

definition tga_w :: "mem \<Rightarrow> u64 \<Rightarrow> u16" where
  "tga_w m f = U16 m (f + 14)"

definition tga_bpp :: "mem \<Rightarrow> u64 \<Rightarrow> u8" where
  "tga_bpp m f = m (f + 16)"

definition sample32 :: "mem \<Rightarrow> u64 \<Rightarrow> int \<Rightarrow> int \<Rightarrow> u32" where
  "sample32 m f x y = U32 m (f + 18 + of_int (4 * int32 (x * int (unat (tga_w m f)) + y)))"

definition sample24 :: "mem \<Rightarrow> u64 \<Rightarrow> int \<Rightarrow> int \<Rightarrow> u32" where
  "sample24 m f x y =
     (let p = f + 18 + of_int (3 * (x * 1920 + y))
      in push_bit 16 (ucast (m (p + 2))) OR push_bit 8 (ucast (m (p + 1))) OR ucast (m p))"

definition setPixel :: "u64 \<Rightarrow> int \<Rightarrow> int \<Rightarrow> u32 \<Rightarrow> (u64 \<Rightarrow> u32) \<Rightarrow> u64 \<Rightarrow> u32" where
  "setPixel fb x y col fbuf =
     (if y \<ge> 1024 \<or> y \<le> 0 \<or> x \<ge> 768 \<or> x \<le> 0 then fbuf
      else fbuf(fb + of_int (4 * (x * 1024 + y)) := col))"

definition draw_samples :: "(int \<Rightarrow> int \<Rightarrow> u32) \<Rightarrow> u64 \<Rightarrow> nat \<Rightarrow> nat \<Rightarrow> (u64 \<Rightarrow> u32) \<Rightarrow> u64 \<Rightarrow> u32" where
  "draw_samples sample fb w h fbuf =
     fold (\<lambda>(i, j). setPixel fb (int (i div 2)) (int (j div 2)) (sample (int i) (int j))) (List.product [0..<w] [0..<h]) fbuf"

definition drawTexture ::
    "reader \<Rightarrow> u64 \<Rightarrow> u64 \<Rightarrow> (u64 \<Rightarrow> u32) \<times> 'a kext2_scheme \<Rightarrow> (int \<times> (u64 \<Rightarrow> u32) \<times> 'a kext2_scheme) outcome" where
  "drawTexture rd fb texture = (\<lambda>(fbuf, s).
     andthen (EXT2_GET_INODE_FROM_PATH rd zero_inode texture s) (\<lambda>(inode, image, s).
     if inode = 0 then Inr (0, fbuf, s)
     else let (img, s) = malloc (ucast (inode_size image)) s
          in andthen (EXT2_READFILE rd image img (ucast (inode_size image)) s) (\<lambda>(_, s).
             let m = kmem s; w = unat (tga_w m img); h = unat (tga_h m img)
             in Inr (1, if tga_bpp m img = 24 then draw_samples (sample24 m img) fb w h fbuf
                        else if tga_bpp m img = 32 then draw_samples (sample32 m img) fb w h fbuf
                        else fbuf, s))))"

text \<open>\<open>TGA_DRAW\<close> ignores its argument: \<open>path\<close> is the address of its own literal. It gives up unless the file has inode number 1.\<close>

definition TGA_DRAW ::
    "reader \<Rightarrow> u64 \<Rightarrow> screen \<times> 'a kext2_scheme \<Rightarrow> (int \<times> screen \<times> 'a kext2_scheme) outcome" where
  "TGA_DRAW rd path = (\<lambda>(g, s).
     andthen (EXT2_GET_INODE_FROM_PATH rd zero_inode path s) (\<lambda>(inode, image, s).
     if inode \<noteq> 1 then Inr (0, g, s)
     else let (file, s) = malloc (ucast (inode_size image)) s
          in andthen (EXT2_READFILE rd image file (ucast (inode_size image)) s) (\<lambda>(_, s).
             let m = kmem s;
                 at = (\<lambda>i. of_int (int32 ((int i * int (unat (tga_w m file)) + int (unat (tga_h m file))) * int (unat (tga_bpp m file)))) :: u64)
             in Inr (1, fold (\<lambda>(i, j). SetPixel (int i) (int j) (U32 m (file + 18 + at i))) (List.product [0..<1024] [0..<768]) g, s))))"

section \<open>Painting\<close>

definition on_screen :: "screen \<Rightarrow> int \<Rightarrow> int \<Rightarrow> bool" where
  "on_screen g x y \<longleftrightarrow> 0 \<le> x \<and> x < int (unat (width g)) \<and> 0 \<le> y \<and> y < int (unat (height g))"

definition screen_ok :: "screen \<Rightarrow> bool" where
  "screen_ok g \<longleftrightarrow> unat (width g) * unat (height g) \<le> 2 ^ 62"

text \<open>
  The abstract picture: \<open>g'\<close> is \<open>g\<close> with the pixels for which \<open>pic\<close> gives a value painted over; every other pixel and every
  cell outside the screen is as before.
\<close>

definition painted :: "screen \<Rightarrow> (int \<Rightarrow> int \<Rightarrow> u32 option) \<Rightarrow> screen \<Rightarrow> bool" where
  "painted g pic g' \<longleftrightarrow> g' = g\<lparr>cells := cells g'\<rparr> \<and>
     (\<forall>x y. on_screen g x y \<longrightarrow>
        cells g' (GET_PIXEL g x y) = (case pic x y of Some v \<Rightarrow> v | None \<Rightarrow> cells g (GET_PIXEL g x y))) \<and>
     (\<forall>a. (\<forall>x y. on_screen g x y \<longrightarrow> a \<noteq> GET_PIXEL g x y) \<longrightarrow> cells g' a = cells g a)"

lemma on_screen_nat: "on_screen g x y \<Longrightarrow> nat x < unat (width g) \<and> nat y < unat (height g)"
  by (simp add: on_screen_def nat_less_iff)

lemma GET_PIXEL_nat:
  assumes "on_screen g x y"
  shows "GET_PIXEL g x y = video g + of_nat (4 * (nat y * unat (width g) + nat x))"
proof -
  have "of_int y = (of_nat (nat y) :: u64)" "of_int x = (of_nat (nat x) :: u64)" using assms by (simp_all add: on_screen_def)
  then show ?thesis by (simp add: GET_PIXEL_def algebra_simps)
qed

lemma pixel_bound:
  assumes "screen_ok g" and "on_screen g x y"
  shows "4 * (nat y * unat (width g) + nat x) < 2 ^ 64"
proof -
  have "nat y * unat (width g) + nat x < (nat y + 1) * unat (width g)" using on_screen_nat [OF assms(2)] by simp
  also have "\<dots> \<le> unat (height g) * unat (width g)"
    using on_screen_nat [OF assms(2)] by (intro mult_right_mono) simp_all
  finally show ?thesis using assms(1) by (simp add: screen_ok_def mult.commute)
qed

lemma GET_PIXEL_inj:
  assumes "screen_ok g" and "on_screen g x y" and "on_screen g x' y'"
  shows "GET_PIXEL g x y = GET_PIXEL g x' y' \<longleftrightarrow> x = x' \<and> y = y'"
proof
  let ?w = "unat (width g)"
  assume "GET_PIXEL g x y = GET_PIXEL g x' y'"
  then have "unat (of_nat (4 * (nat y * ?w + nat x)) :: u64) = unat (of_nat (4 * (nat y' * ?w + nat x')) :: u64)"
    using GET_PIXEL_nat [OF assms(2)] GET_PIXEL_nat [OF assms(3)] by (metis add_left_cancel)
  then have n: "nat y * ?w + nat x = nat y' * ?w + nat x'"
    using pixel_bound [OF assms(1,2)] pixel_bound [OF assms(1,3)] by (simp add: unat_of_nat64 del: of_nat_mult of_nat_add)
  have w: "nat x < ?w" "nat x' < ?w" using on_screen_nat [OF assms(2)] on_screen_nat [OF assms(3)] by simp_all
  have "nat y = (nat y * ?w + nat x) div ?w" "nat x = (nat y * ?w + nat x) mod ?w" using w(1) by simp_all
  moreover have "nat y' = (nat y' * ?w + nat x') div ?w" "nat x' = (nat y' * ?w + nat x') mod ?w" using w(2) by simp_all
  ultimately have "nat y = nat y'" "nat x = nat x'" using n by metis+
  then show "x = x' \<and> y = y'" using assms(2,3) by (auto simp: on_screen_def)
qed simp

lemma painted_SetPixel:
  assumes "screen_ok g" and "on_screen g x y"
  shows "painted g (\<lambda>i j. if i = x \<and> j = y then Some v else None) (SetPixel x y v g)"
  using GET_PIXEL_inj [OF assms(1) _ assms(2)] assms(2) by (auto simp: painted_def SetPixel_def)

lemma painted_frame:
  assumes "painted g pic g'"
  shows "GET_PIXEL g' = GET_PIXEL g" "on_screen g' = on_screen g" "color g' = color g" "screen_ok g' = screen_ok g"
proof -
  have g': "g' = g\<lparr>cells := cells g'\<rparr>" using assms by (simp add: painted_def)
  show "GET_PIXEL g' = GET_PIXEL g" "on_screen g' = on_screen g" "color g' = color g" "screen_ok g' = screen_ok g"
    by (subst g', simp add: GET_PIXEL_def on_screen_def screen_ok_def fun_eq_iff)+
qed

lemma painted_trans:
  assumes "painted g p g'" and "painted g' q g''"
  shows "painted g (\<lambda>x y. case q x y of Some v \<Rightarrow> Some v | None \<Rightarrow> p x y) g''"
proof -
  have "g'' = g\<lparr>cells := cells g''\<rparr>" using assms by (cases g; cases g'; cases g'') (simp add: painted_def)
  then show ?thesis
    using assms painted_frame(1,2) [OF assms(1)] unfolding painted_def by (auto split: option.splits)
qed

lemma painted_refl: "painted g (\<lambda>x y. None) g"
  by (simp add: painted_def)

lemma painted_fold:
  assumes "screen_ok g" and "\<forall>p \<in> set ps. on_screen g (fst p) (snd p)"
  shows "painted g (\<lambda>x y. if (x, y) \<in> set ps then Some (v x y) else None)
    (fold (\<lambda>(x, y). SetPixel x y (v x y)) ps g)"
  using assms(2)
proof (induction ps rule: rev_induct)
  case Nil
  then show ?case by (simp add: painted_refl)
next
  case (snoc p ps)
  obtain x y where p: "p = (x, y)" by (cases p)
  let ?g = "fold (\<lambda>(x, y). SetPixel x y (v x y)) ps g"
  have i: "painted g (\<lambda>x y. if (x, y) \<in> set ps then Some (v x y) else None) ?g" using snoc by simp
  note f = painted_frame [OF i]
  have "painted ?g (\<lambda>i j. if i = x \<and> j = y then Some (v x y) else None) (SetPixel x y (v x y) ?g)"
    using assms(1) snoc.prems p f by (intro painted_SetPixel) simp_all
  from painted_trans [OF i this] have "painted g (\<lambda>i j. case if i = x \<and> j = y then Some (v x y) else None of
      Some v \<Rightarrow> Some v | None \<Rightarrow> if (i, j) \<in> set ps then Some (v i j) else None) (SetPixel x y (v x y) ?g)" .
  moreover have "(\<lambda>i j. case if i = x \<and> j = y then Some (v x y) else None of
      Some v \<Rightarrow> Some v | None \<Rightarrow> if (i, j) \<in> set ps then Some (v i j) else None) =
      (\<lambda>i j. if (i, j) \<in> set (ps @ [p]) then Some (v i j) else None)"
    by (auto simp: fun_eq_iff p)
  ultimately show ?case by (simp add: p)
qed

section \<open>Glyphs, rectangles and text\<close>

definition glyph :: "u8 \<Rightarrow> nat \<Rightarrow> nat \<Rightarrow> bool" where
  "glyph c i j = bit (font8x8_basic ! unat c ! j) i"

definition char_pic :: "u32 \<Rightarrow> int \<Rightarrow> int \<Rightarrow> u8 \<Rightarrow> int \<Rightarrow> int \<Rightarrow> u32 option" where
  "char_pic col x y c i j =
     (if x \<le> i \<and> i < x + 8 \<and> y \<le> j \<and> j < y + 8
      then Some (if glyph c (nat (i - x)) (nat (j - y)) then col else 0) else None)"

lemma length_font: "length font8x8_basic = 128"
  by (simp add: font8x8_basic_def)

lemma fold_SetPixel_map:
  "fold (\<lambda>p g. SetPixel (fx p) (fy p) (v p (color g)) g) ps g =
   fold (\<lambda>p. SetPixel (fx p) (fy p) (v p (color g))) ps g"
  by (induction ps arbitrary: g) (simp_all add: SetPixel_def)

lemma WriteChar_paints:
  assumes "screen_ok g" and "on_screen g x y" and "on_screen g (x + 7) (y + 7)" and "unat c < 128"
  shows "\<exists>g'. WriteChar x y c g = Inr g' \<and> painted g (char_pic (color g) x y c) g'"
proof -
  let ?ps = "List.product [0..<8] [0..<8]" and ?chars = "font8x8_basic ! unat c"
  let ?qs = "map (\<lambda>(i, j). (x + int i, y + int j)) ?ps"
  let ?v = "\<lambda>a b. if glyph c (nat (a - x)) (nat (b - y)) then color g else 0"
  let ?g = "fold (\<lambda>(a, b). SetPixel a b (?v a b)) ?qs g"
  have "fold (\<lambda>(i, j) g. SetPixel (x + int i) (y + int j) (color g * (if bit (?chars ! j) i then 1 else 0)) g) ?ps g = ?g"
    using fold_SetPixel_map [of "\<lambda>p. x + int (fst p)" "\<lambda>p. y + int (snd p)" "\<lambda>p col. col * (if bit (?chars ! snd p) (fst p) then 1 else 0)" ?ps g]
    by (simp only: fold_map comp_def case_prod_unfold fst_conv snd_conv glyph_def) (intro fold_cong; simp)
  then have w: "WriteChar x y c g = Inr ?g" using assms(4) by (simp add: WriteChar_def array_get_def length_font)
  have "painted g (\<lambda>a b. if (a, b) \<in> set ?qs then Some (?v a b) else None) ?g"
    using assms(1-3) by (intro painted_fold) (auto simp: on_screen_def)
  moreover have "(a, b) \<in> set ?qs \<longleftrightarrow> x \<le> a \<and> a < x + 8 \<and> y \<le> b \<and> b < y + 8" for a b
  proof
    assume "x \<le> a \<and> a < x + 8 \<and> y \<le> b \<and> b < y + 8"
    then have "(a, b) = (\<lambda>(i, j). (x + int i, y + int j)) (nat (a - x), nat (b - y))" "(nat (a - x), nat (b - y)) \<in> set ?ps"
      by (simp_all add: nat_less_iff)
    then show "(a, b) \<in> set ?qs" unfolding set_map by (rule image_eqI)
  qed auto
  ultimately show ?thesis unfolding w char_pic_def by auto
qed

text \<open>
  \<open>WriteChar\<close> with all of its 8 by 8 pixels on the screen paints the glyph of the font in the current colour on black and touches nothing
  else; the table has no glyph for the characters from 128 on, and the access to it is out of bounds.
\<close>

theorem WriteChar_glyph:
  assumes "screen_ok g" and "on_screen g x y" and "on_screen g (x + 7) (y + 7)"
  shows "if unat c < 128 then \<exists>g'. WriteChar x y c g = Inr g' \<and> painted g (char_pic (color g) x y c) g'
    else WriteChar x y c g = Inl OutOfBounds"
  using WriteChar_paints [OF assms, of c] by (simp add: WriteChar_def array_get_def length_font)

lemma FillRect_pixels:
  assumes "screen_ok g" and "0 \<le> x" and "0 \<le> y" and "x + w \<le> int (unat (width g))" and "y + h \<le> int (unat (height g))"
    and "x + w < 2 ^ 31" and "y + h < 2 ^ 31" and "- (2 ^ 31) \<le> x + w" and "- (2 ^ 31) \<le> y + h"
  shows "painted g (\<lambda>i j. if x \<le> i \<and> i < x + w \<and> y \<le> j \<and> j < y + h then Some (color g) else None) (FillRect x y w h g)"
proof -
  let ?ps = "List.product [x..x + w - 1] [y..y + h - 1]"
  have "FillRect x y w h g = fold (\<lambda>(a, b). SetPixel a b (color g)) ?ps g"
    using fold_SetPixel_map [of fst snd "\<lambda>p col. col" ?ps g] assms by (simp add: FillRect_def case_prod_unfold)
  moreover have "painted g (\<lambda>a b. if (a, b) \<in> set ?ps then Some (color g) else None) (fold (\<lambda>(a, b). SetPixel a b (color g)) ?ps g)"
    using assms by (intro painted_fold) (auto simp: on_screen_def)
  moreover have "(a, b) \<in> set ?ps \<longleftrightarrow> x \<le> a \<and> a < x + w \<and> y \<le> b \<and> b < y + h" for a b by auto
  ultimately show ?thesis by simp
qed

text \<open>\<open>FillRect\<close> on the screen paints exactly the rectangle.\<close>

theorem FillRect_paints:
  assumes "screen_ok g" and "0 \<le> x" and "0 \<le> y" and "x + w \<le> int (unat (width g))" and "y + h \<le> int (unat (height g))"
    and "x + w < 2 ^ 31" and "y + h < 2 ^ 31" and "0 \<le> w" and "0 \<le> h"
  shows "painted g (\<lambda>i j. if x \<le> i \<and> i < x + w \<and> y \<le> j \<and> j < y + h then Some (color g) else None) (FillRect x y w h g)"
  using assms by (intro FillRect_pixels) simp_all

text \<open>\<open>ClearScreen\<close> blanks every pixel.\<close>

lemma ClearScreen_paints:
  assumes "unat (width g) * unat (height g) < 2 ^ 32"
  shows "\<exists>g'. ClearScreen g = Inr g' \<and> painted g (\<lambda>x y. Some 0) g'"
proof -
  let ?n = "unat (width g) * unat (height g)"
  let ?f = "\<lambda>i g. g\<lparr>cells := (cells g)(video g + of_nat (4 * i) := 0)\<rparr>"
  have n: "unat (width g * height g) = ?n" using assms by (simp add: unat_word_ariths)
  have step: "fold ?f [0..<k] g = g\<lparr>cells := (\<lambda>a. if \<exists>i<k. a = video g + of_nat (4 * i) then 0 else cells g a)\<rparr>" for k
  proof (induction k)
    case (Suc k)
    have "fold ?f [0..<Suc k] g = ?f k (fold ?f [0..<k] g)" by simp
    also have "\<dots> = g\<lparr>cells := (\<lambda>a. if \<exists>i<Suc k. a = video g + of_nat (4 * i) then 0 else cells g a)\<rparr>"
      unfolding Suc by (simp del: of_nat_mult) (rule arg_cong [where f = "\<lambda>c. g\<lparr>cells := c\<rparr>"], auto simp: less_Suc_eq fun_eq_iff)
    finally show ?case .
  qed simp
  have "\<exists>i<?n. GET_PIXEL g x y = video g + of_nat (4 * i)" if "on_screen g x y" for x y
  proof (intro exI conjI)
    have "nat y * unat (width g) + nat x < (nat y + 1) * unat (width g)" using on_screen_nat [OF that] by simp
    also have "\<dots> \<le> unat (height g) * unat (width g)" using on_screen_nat [OF that] by (intro mult_right_mono) simp_all
    finally show "nat y * unat (width g) + nat x < ?n" by (simp add: mult.commute)
  qed (rule GET_PIXEL_nat [OF that])
  moreover have "\<exists>x y. on_screen g x y \<and> GET_PIXEL g x y = video g + of_nat (4 * i)" if "i < ?n" for i
  proof -
    let ?w = "unat (width g)"
    have w: "0 < ?w" using that by (cases "?w = 0") simp_all
    have "i div ?w < unat (height g)" using that w by (simp add: less_mult_imp_div_less mult.commute)
    then have "on_screen g (int (i mod ?w)) (int (i div ?w))" using w unfolding on_screen_def by (simp only: of_nat_less_iff of_nat_0_le_iff mod_less_divisor simp_thms)
    moreover from GET_PIXEL_nat [OF this] have "GET_PIXEL g (int (i mod ?w)) (int (i div ?w)) = video g + of_nat (4 * i)"
      by (simp only: nat_int div_mult_mod_eq)
    ultimately show ?thesis by blast
  qed
  ultimately have "painted g (\<lambda>x y. Some 0) (fold ?f [0..<?n] g)" unfolding step painted_def by auto metis
  moreover have "ClearScreen g = Inr (fold ?f [0..<?n] g)" using assms by (simp add: ClearScreen_def n)
  ultimately show ?thesis by blast
qed

fun line_pic :: "u32 \<Rightarrow> int \<Rightarrow> int \<Rightarrow> u8 list \<Rightarrow> int \<Rightarrow> int \<Rightarrow> u32 option" where
  "line_pic col x y [] = (\<lambda>i j. None)"
| "line_pic col x y (c # cs) =
     (\<lambda>i j. case line_pic col (x + 8) y cs i j of Some v \<Rightarrow> Some v | None \<Rightarrow> char_pic col x y c i j)"

lemma line_pic_outside:
  "\<not> (x \<le> a \<and> a < x + 8 * int (length cs) \<and> y \<le> b \<and> b < y + 8) \<Longrightarrow> line_pic col x y cs a b = None"
  by (induction cs arbitrary: x) (auto simp: char_pic_def)

lemma line_pic_at:
  "k < length cs \<Longrightarrow> i < 8 \<Longrightarrow> j < 8 \<Longrightarrow>
   line_pic col x y cs (x + 8 * int k + int i) (y + int j) = Some (if glyph (cs ! k) i j then col else 0)"
proof (induction cs arbitrary: x k)
  case Nil
  then show ?case by simp
next
  case (Cons c cs)
  show ?case
  proof (cases k)
    case 0
    have "line_pic col (x + 8) y cs (x + int i) (y + int j) = None"
      using Cons.prems by (intro line_pic_outside) simp
    then show ?thesis using 0 Cons.prems by (simp add: char_pic_def)
  next
    case (Suc k')
    then show ?thesis using Cons.IH [of k' "x + 8"] Cons.prems by (simp add: algebra_simps)
  qed
qed

lemma putchars_paints:
  assumes "\<forall>c \<in> set cs. 32 \<le> unat c \<and> unat c < 128" and "screen_ok (tg t)" and "0 \<le> tx t" and "0 \<le> ty t"
    and "10 + 8 * (tx t + int (length cs)) \<le> int (unat (width (tg t)))" and "12 * ty t + 18 \<le> int (unat (height (tg t)))"
  shows "\<exists>t'. putchars cs t = Inr t' \<and> tx t' = tx t + int (length cs) \<and> ty t' = ty t \<and>
    painted (tg t) (line_pic (color (tg t)) (tx t * 8 + 10) (ty t * 12 + 10) cs) (tg t')"
  using assms
proof (induction cs arbitrary: t)
  case Nil
  then show ?case by (simp add: painted_refl)
next
  case (Cons c cs)
  let ?x = "tx t * 8 + 10" and ?y = "ty t * 12 + 10"
  have "on_screen (tg t) ?x ?y" "on_screen (tg t) (?x + 7) (?y + 7)" using Cons.prems(3-6) by (auto simp: on_screen_def)
  with WriteChar_paints [OF Cons.prems(2), of ?x ?y c] Cons.prems(1) obtain g where
    g: "WriteChar ?x ?y c (tg t) = Inr g" "painted (tg t) (char_pic (color (tg t)) ?x ?y c) g" by auto
  have "c \<noteq> 10" "c \<noteq> 9" "c \<noteq> 8" using Cons.prems(1) by auto
  then have put: "putchar c t = Inr (t\<lparr>tg := g, tx := tx t + 1\<rparr>)" by (simp add: putchar_def write_at_cursor_def g(1))
  note f = painted_frame [OF g(2)]
  have "width g = width (tg t)" "height g = height (tg t)"
    using g(2) by (simp_all add: painted_def) (metis screen.select_convs screen.surjective screen.update_convs(6))+
  with Cons.IH [of "t\<lparr>tg := g, tx := tx t + 1\<rparr>"] Cons.prems f obtain t' where
    t': "putchars cs (t\<lparr>tg := g, tx := tx t + 1\<rparr>) = Inr t'" "tx t' = tx t + 1 + int (length cs)" "ty t' = ty t"
      "painted g (line_pic (color (tg t)) (?x + 8) ?y cs) (tg t')"
    by (auto simp: algebra_simps)
  from painted_trans [OF g(2) t'(4)] put t'(1-3) show ?case by simp
qed

text \<open>
  C31: A run of printable characters that fits on the screen shows each character's glyph in its cell, eight pixels apart, moves
  the cursor behind it and leaves every other pixel as it was.
\<close>

theorem putchars_shows:
  assumes "\<forall>c \<in> set cs. 32 \<le> unat c \<and> unat c < 128" and "screen_ok (tg t)" and "0 \<le> tx t" and "0 \<le> ty t"
    and "10 + 8 * (tx t + int (length cs)) \<le> int (unat (width (tg t)))" and "12 * ty t + 18 \<le> int (unat (height (tg t)))"
  shows "\<exists>t'. putchars cs t = Inr t' \<and> tx t' = tx t + int (length cs) \<and> ty t' = ty t \<and>
    (\<forall>k < length cs. \<forall>i < 8. \<forall>j < 8.
      cells (tg t') (GET_PIXEL (tg t) (tx t * 8 + 10 + 8 * int k + int i) (ty t * 12 + 10 + int j)) =
        (if glyph (cs ! k) i j then color (tg t) else 0)) \<and>
    (\<forall>a b. on_screen (tg t) a b \<and>
        \<not> (tx t * 8 + 10 \<le> a \<and> a < tx t * 8 + 10 + 8 * int (length cs) \<and> ty t * 12 + 10 \<le> b \<and> b < ty t * 12 + 18) \<longrightarrow>
      cells (tg t') (GET_PIXEL (tg t) a b) = cells (tg t) (GET_PIXEL (tg t) a b))"
proof -
  let ?x = "tx t * 8 + 10" and ?y = "ty t * 12 + 10"
  obtain t' where t': "putchars cs t = Inr t'" "tx t' = tx t + int (length cs)" "ty t' = ty t"
    "painted (tg t) (line_pic (color (tg t)) ?x ?y cs) (tg t')"
    using putchars_paints [OF assms] by blast
  have "cells (tg t') (GET_PIXEL (tg t) (?x + 8 * int k + int i) (?y + int j)) = (if glyph (cs ! k) i j then color (tg t) else 0)"
    if "k < length cs" "i < 8" "j < 8" for k i j
  proof -
    have "on_screen (tg t) (?x + 8 * int k + int i) (?y + int j)" using assms(3-6) that by (auto simp: on_screen_def)
    with t'(4) line_pic_at [OF that] show ?thesis by (simp add: painted_def)
  qed
  moreover have "cells (tg t') (GET_PIXEL (tg t) a b) = cells (tg t) (GET_PIXEL (tg t) a b)"
    if "on_screen (tg t) a b" "\<not> (?x \<le> a \<and> a < ?x + 8 * int (length cs) \<and> ?y \<le> b \<and> b < ?y + 8)" for a b
    using t'(4) that line_pic_outside [OF that(2)] by (simp add: painted_def)
  ultimately show ?thesis using t'(1-3) by auto
qed

section \<open>Examples\<close>

definition example_screen :: screen where
  "example_screen = \<lparr>width = 64, height = 48, bpp = 32, video = 0x1000, color = 0xFFFFFF, cells = (\<lambda>_. 0)\<rparr>"

lemma example_screen_fields:
  "width example_screen = 64" "height example_screen = 48" "video example_screen = 0x1000" "color example_screen = 0xFFFFFF"
  "cells example_screen = (\<lambda>_. 0)"
  by (simp_all add: example_screen_def)

lemma glyph_A: "glyph 65 2 0"
  by (simp add: glyph_def font8x8_basic_def)

theorem WriteChar_glyph_witness:
  "\<exists>g'. WriteChar 0 0 65 example_screen = Inr g' \<and> cells g' 0x1008 = 0xFFFFFF"
proof -
  have "\<exists>g'. WriteChar 0 0 65 example_screen = Inr g' \<and> painted example_screen (char_pic 0xFFFFFF 0 0 65) g'"
    using WriteChar_glyph [of example_screen 0 0 65] by (simp add: example_screen_def screen_ok_def on_screen_def)
  then obtain g' where g': "WriteChar 0 0 65 example_screen = Inr g'" "painted example_screen (char_pic 0xFFFFFF 0 0 65) g'" by blast
  have "on_screen example_screen 2 0" "GET_PIXEL example_screen 2 0 = 0x1008"
    by (simp_all add: on_screen_def example_screen_def GET_PIXEL_def)
  moreover have "char_pic 0xFFFFFF 0 0 65 2 0 = Some 0xFFFFFF" by (simp add: char_pic_def glyph_A)
  ultimately have "cells g' 0x1008 = 0xFFFFFF" using g'(2) unfolding painted_def by (metis option.simps(5))
  with g'(1) show ?thesis by blast
qed

theorem FillRect_paints_witness:
  "cells (FillRect 1 1 2 2 example_screen) 0x120C = 0 \<and> cells (FillRect 1 1 2 2 example_screen) 0x1208 = 0xFFFFFF"
proof -
  let ?g = "FillRect 1 1 2 2 example_screen"
  have p: "painted example_screen (\<lambda>i j. if 1 \<le> i \<and> i < 1 + 2 \<and> 1 \<le> j \<and> j < 1 + 2 then Some 0xFFFFFF else None) ?g"
    using FillRect_paints [of example_screen 1 1 2 2] by (simp add: example_screen_fields screen_ok_def cong: if_cong)
  have s: "on_screen example_screen 3 2" "GET_PIXEL example_screen 3 2 = 0x120C" "on_screen example_screen 2 2"
    "GET_PIXEL example_screen 2 2 = 0x1208" "cells example_screen a = 0" for a
    by (simp_all add: on_screen_def example_screen_def GET_PIXEL_def)
  from p have "cells ?g (GET_PIXEL example_screen 3 2) = 0" "cells ?g (GET_PIXEL example_screen 2 2) = 0xFFFFFF"
    unfolding painted_def using s(1,3,5) by simp_all
  then show ?thesis by (simp add: s)
qed

theorem putchars_shows_witness:
  "\<exists>t'. putchars [66, 65] \<lparr>tx = 0, ty = 1, tg = example_screen\<rparr> = Inr t' \<and> tx t' = 2 \<and> cells (tg t') 0x2650 = 0xFFFFFF"
proof -
  let ?t = "\<lparr>tx = 0, ty = 1, tg = example_screen\<rparr>"
  obtain t' where t': "putchars [66, 65] ?t = Inr t'" "tx t' = 2"
    "\<forall>k < length [66, 65 :: u8]. \<forall>i < 8. \<forall>j < 8.
      cells (tg t') (GET_PIXEL example_screen (10 + 8 * int k + int i) (22 + int j)) = (if glyph ([66, 65] ! k) i j then 0xFFFFFF else 0)"
    using putchars_shows [of "[66, 65]" ?t] by (auto simp: example_screen_def screen_ok_def)
  from t'(3) [rule_format, of 1 2 0] have "cells (tg t') (GET_PIXEL example_screen 20 22) = 0xFFFFFF" by (simp add: glyph_A)
  moreover have "GET_PIXEL example_screen 20 22 = 0x2650" by (simp add: example_screen_def GET_PIXEL_def)
  ultimately show ?thesis using t'(1,2) by auto
qed

end
