(* ===== verification/Fat.thy ===== *)
theory Fat
  imports Gpt KList
begin

text \<open>
  The FAT reader of \<open>src/src/drivers/fat/fat.c\<close> and \<open>src/src/stdlib/file.c\<close>: the boot sector, long names, directory listings and
  the sector buffer. Structures on disk are read into heap blocks and accessed there. The listing loop looks for an
  entry that starts with 0 and does not know the size of its block, so it is a partial function.
\<close>

section \<open>The volume\<close>

record FAT32_FILESYSTEM =
  fs_config :: u64
  lba_fat :: u64
  lba_data :: u64

text \<open>\<open>FORI(n) ptr[i+off] = name[i]\<close>: the low bytes of 16-bit characters\<close>

definition copy_wide :: "u64 \<Rightarrow> u64 \<Rightarrow> nat \<Rightarrow> mem \<Rightarrow> mem" where
  "copy_wide from to n m = fold (\<lambda>i m. m(to + of_nat i := m (from + of_nat (2 * i)))) [0..<n] m"

definition FAT_READ_LONG_NAME :: "u64 \<Rightarrow> u64 \<Rightarrow> mem \<Rightarrow> mem" where
  "FAT_READ_LONG_NAME name ptr m =
     copy_wide (name + 28) (ptr + 11) 2 (copy_wide (name + 14) (ptr + 5) 6 (copy_wide (name + 1) ptr 5 m))"

definition FAT_SECTOR_FROM_CLUSTER :: "mem \<Rightarrow> FAT32_FILESYSTEM \<Rightarrow> u64 \<Rightarrow> u64" where
  "FAT_SECTOR_FROM_CLUSTER m fs cluster = ucast (m (fs_config fs + 13)) * cluster"

text \<open>The cluster number is put together in an \<open>int\<close>, which is sign-extended.\<close>

definition FAT_DIR_SECTOR :: "mem \<Rightarrow> FAT32_FILESYSTEM \<Rightarrow> u64 \<Rightarrow> u64" where
  "FAT_DIR_SECTOR m fs dir =
     (let c = scast (ucast (U16 m (dir + 26)) OR push_bit 16 (ucast (U16 m (dir + 20))) :: u32);
          c = c - 2
      in FAT_SECTOR_FROM_CLUSTER m fs c + lba_data fs)"

definition div_trunc :: "int \<Rightarrow> int \<Rightarrow> int" where
  "div_trunc a b = sgn a * (\<bar>a\<bar> div b)"

definition cluster_count :: "mem \<Rightarrow> u64 \<Rightarrow> u32 outcome" where
  "cluster_count m data =
     (let bps = int (unat (U16 m (data + 11)));
          rootEnt = int (unat (U16 m (data + 17)))
      in if bps = 0 then Inl DivByZero
         else let root = (rootEnt * 32 + bps - 1) div bps;
                  total = (if U16 m (data + 19) \<noteq> 0 then ucast (U16 m (data + 19)) else U32 m (data + 32));
                  used = int (unat (U16 m (data + 14))) + int (unat (m (data + 16))) * int (unat (U16 m (data + 22))) + root;
                  dataSec = total - of_int used
              in if m (data + 13) = 0 then Inl DivByZero else Inr (dataSec div ucast (m (data + 13))))"

definition boot_jump :: "mem \<Rightarrow> u64 \<Rightarrow> bool" where
  "boot_jump m data \<longleftrightarrow> m data = 0xEB \<and> m (data + 2) = 0x90 \<or> m data = 0xE9"

text \<open>The sector of the table that holds the entry of the root directory, from the start of the volume\<close>

definition fat_start :: "mem \<Rightarrow> u64 \<Rightarrow> u64" where
  "fat_start m data =
     (let FATOffset = div_trunc (int32 (32 * sint (U32 m (data + 44)))) 8;
          bps = int (unat (U16 m (data + 11)))
      in of_int (int (unat (U16 m (data + 14))) + div_trunc FATOffset bps))"

definition FAT_READPART ::
    "reader \<Rightarrow> u64 \<Rightarrow> FAT32_FILESYSTEM \<times> 'a kext2_scheme \<Rightarrow> (int \<times> FAT32_FILESYSTEM \<times> 'a kext2_scheme) outcome" where
  "FAT_READPART rd ent = (\<lambda>(fs, s).
     let lba = long_to_int (U64 (kmem s) (ent + 32));
         (data, s) = malloc 0x200 s;
         s = read_heap rd (of_int lba) 1 data s;
         m = kmem s
     in if \<not> boot_jump m data then Inr (- 1, fs, s)
        else andthen (cluster_count m data) (\<lambda>clusters.
          if clusters < 65525 then Inr (- 1, fs, s)
          else let fatSec = fat_start m data;
                   datalba = long_to_int (of_int lba + fatSec + ucast (U32 m (data + 36) * ucast (m (data + 16))))
               in Inr (1, \<lparr>fs_config = data, lba_fat = of_int lba + fatSec, lba_data = of_int datalba\<rparr>, s)))"

section \<open>The sector buffer\<close>

record AHCI_BUFFER =
  currentLBA :: int
  ab_buffer :: u64
  n_sectors :: int

definition BUFFER_REFRESH :: "reader \<Rightarrow> u64 \<Rightarrow> AHCI_BUFFER \<times> 'a kext2_scheme \<Rightarrow> AHCI_BUFFER \<times> 'a kext2_scheme" where
  "BUFFER_REFRESH rd address = (\<lambda>(b, s).
     let lba = address div 0x200;
         b = b\<lparr>currentLBA := long_to_int lba\<rparr>
     in (b, read_heap rd lba (of_int (n_sectors b)) (ab_buffer b) s))"

definition BUFFER_READ ::
    "reader \<Rightarrow> u64 \<Rightarrow> AHCI_BUFFER \<times> 'a kext2_scheme \<Rightarrow> (u32 \<times> AHCI_BUFFER \<times> 'a kext2_scheme) outcome" where
  "BUFFER_READ rd address = (\<lambda>(b, s).
     let lba = address div 0x200;
         len = of_int (int32 (0x200 * n_sectors b)) :: u64
     in if len = 0 then Inl DivByZero
        else let (b, s) = (if \<not> (of_int (currentLBA b) \<le> lba \<and> lba \<le> of_int (int32 (currentLBA b + n_sectors b - 1)))
                           then BUFFER_REFRESH rd address (b, s) else (b, s));
                 off = long_to_int (address mod len)
             in Inr (U32 (kmem s) (ab_buffer b + of_int (4 * off)), b, s))"

definition BUFFER_READ_U32 ::
    "reader \<Rightarrow> u64 \<Rightarrow> AHCI_BUFFER \<times> 'a kext2_scheme \<Rightarrow> (u32 \<times> AHCI_BUFFER \<times> 'a kext2_scheme) outcome" where
  "BUFFER_READ_U32 rd address x = BUFFER_READ rd address x"

definition BUFFER_INIT :: "reader \<Rightarrow> int \<Rightarrow> u64 \<Rightarrow> 'a kext2_scheme \<Rightarrow> AHCI_BUFFER \<times> 'a kext2_scheme" where
  "BUFFER_INIT rd n address s =
     (let lba = address div 0x200;
          (p, s) = malloc (of_int (int32 (0x200 * n))) s;
          s = read_heap rd lba (of_int n) p s
      in (\<lparr>currentLBA = long_to_int lba, ab_buffer = p, n_sectors = n\<rparr>, s))"

section \<open>Directories\<close>

text \<open>A \<open>DIRECTORY\<close> is a heap block: \<open>longname\<close> at 0, \<open>dir\<close> at 8, \<open>name\<close> at 16.\<close>

definition new_directory :: "u64 \<Rightarrow> u64 \<Rightarrow> u64 \<Rightarrow> u64 \<Rightarrow> mem \<Rightarrow> mem" where
  "new_directory d longname dir name m = set_U64 (set_U64 (set_U64 m (d + 8) dir) d longname) (d + 16) name"

definition add_long :: "u64 \<Rightarrow> u64 \<Rightarrow> 'a kext2_scheme \<Rightarrow> (nat \<times> u64 \<times> 'a kext2_scheme) outcome" where
  "add_long f res s =
     (let n = unat (kmem s f AND 0x3F);
          (d, s) = malloc 24 s;
          (fullname, s) = malloc (of_nat (n * 13)) s;
          m = fold (\<lambda>i. FAT_READ_LONG_NAME (f + of_nat (32 * i)) (fullname + of_nat (13 * (n - i - 1)))) [0..<n] (kmem s);
          s = s\<lparr>kmem := new_directory d f (f + of_nat (32 * n)) fullname m\<rparr>
      in andthen (ListAdd res d s) (\<lambda>(res, s). Inr (n + 1, res, s)))"

definition add_short :: "u64 \<Rightarrow> u64 \<Rightarrow> 'a kext2_scheme \<Rightarrow> (nat \<times> u64 \<times> 'a kext2_scheme) outcome" where
  "add_short f res s =
     (let (d, s) = malloc 24 s;
          (name, s) = malloc 12 s;
          m = (memcpy (kmem s) name f 11)(name + 12 := 0);
          s = s\<lparr>kmem := new_directory d 0 f name m\<rparr>
      in andthen (ListAdd res d s) (\<lambda>(res, s). Inr (1, res, s)))"

partial_function (option) dir_loop :: "u64 \<Rightarrow> u64 \<Rightarrow> 'a kext2_scheme \<Rightarrow> (u64 \<times> 'a kext2_scheme) outcome option" where
  "dir_loop f res s =
     (if kmem s f = 0 then Some (Inr (res, s))
      else if kmem s f = 0xE5 then dir_loop (f + 32) res s
      else case (if kmem s (f + 11) = 0xF then add_long f res s else add_short f res s) of
             Inl e \<Rightarrow> Some (Inl e)
           | Inr (n, res, s) \<Rightarrow> dir_loop (f + of_nat (32 * n)) res s)"

definition dirLBA :: "reader \<Rightarrow> FAT32_FILESYSTEM \<Rightarrow> u64 \<Rightarrow> 'a kext2_scheme \<Rightarrow> (u64 \<times> 'a kext2_scheme) outcome" where
  "dirLBA rd fs lba s =
     (let (files, s) = malloc 0x400 s;
          s = read_heap rd (lba_data fs + lba) 2 files s
      in case dir_loop files 0 s of None \<Rightarrow> Inl Hangs | Some r \<Rightarrow> r)"

definition isDir :: "mem \<Rightarrow> u64 \<Rightarrow> int" where
  "isDir m dir =
     (let name = U64 m (dir + 16)
      in if load_bytes m name 2 = [0x2E, 0x2E] then 0
         else if load_bytes m name 1 = [0x2E] then 0
         else int (unat (m (U64 m (dir + 8) + 11) AND 0x10)))"

definition dir :: "reader \<Rightarrow> FAT32_FILESYSTEM \<Rightarrow> u64 \<Rightarrow> 'a kext2_scheme \<Rightarrow> (u64 \<times> 'a kext2_scheme) outcome" where
  "dir rd fs d s = (if d = 0 then dirLBA rd fs 0 s else dirLBA rd fs (FAT_DIR_SECTOR (kmem s) fs d - lba_data fs) s)"

section \<open>Long names\<close>

lemma copy_wide_apply:
  assumes "n < 2 ^ 64" and "\<forall>i < n. \<not> in_block to n (from + of_nat (2 * i))"
  shows "copy_wide from to n m x = (if in_block to n x then m (from + 2 * (x - to)) else m x)"
  using assms
proof (induction n arbitrary: x)
  case 0
  then show ?case by (simp add: copy_wide_def in_block_def)
next
  case (Suc n)
  have step: "copy_wide from to (Suc n) m = (copy_wide from to n m)(to + of_nat n := copy_wide from to n m (from + of_nat (2 * n)))"
    by (simp add: copy_wide_def)
  have le: "in_block to n y \<Longrightarrow> in_block to (Suc n) y" for y by (simp add: in_block_def)
  have ih: "copy_wide from to n m x = (if in_block to n x then m (from + 2 * (x - to)) else m x)" for x
    by (rule Suc.IH) (use Suc.prems le in \<open>auto simp: less_Suc_eq\<close>)
  have "\<not> in_block to n (from + of_nat (2 * n))" using Suc.prems(2) le by blast
  then show ?case using Suc.prems(1) by (auto simp: step ih in_block_Suc)
qed

lemma in_block_shift: "in_block (p + of_nat k) n x \<Longrightarrow> k + n \<le> l \<Longrightarrow> l \<le> 2 ^ 64 \<Longrightarrow> in_block p l x"
proof -
  assume "in_block (p + of_nat k) n x" and l: "k + n \<le> l" "l \<le> 2 ^ 64"
  then have u: "unat (x - (p + of_nat k)) < n" by (simp add: in_block_def)
  have "x - p = (x - (p + of_nat k)) + of_nat k" by simp
  also have "unat \<dots> = unat (x - (p + of_nat k)) + k" using u l by (intro unat_add_of_nat) simp
  finally show ?thesis using u l by (simp add: in_block_def)
qed

lemma in_block_offset:
  assumes "a < 2 ^ 32" and "k < 2 ^ 32" and "n < 2 ^ 32"
  shows "in_block (p + of_nat a) n (p + of_nat k) \<longleftrightarrow> a \<le> k \<and> k < a + n"
proof (cases "a \<le> k")
  case True
  then have "unat (of_nat k - of_nat a :: u64) = k - a" using assms by (simp flip: of_nat_diff)
  then show ?thesis using True by (auto simp: in_block_def)
next
  case False
  have "\<not> unat (of_nat k - of_nat a :: u64) < n"
  proof
    assume n: "unat (of_nat k - of_nat a :: u64) < n"
    have "unat (of_nat k - of_nat a + of_nat a :: u64) = unat (of_nat k - of_nat a :: u64) + a"
      using n assms by (intro unat_add_of_nat) simp
    then show False using False assms(2) by simp
  qed
  then show ?thesis using False by (simp add: in_block_def)
qed

text \<open>One of the three fields of a name entry, at offset \<open>a\<close>, goes to position \<open>k\<close> of the 13 characters.\<close>

lemma copy_field:
  assumes "disjoint_blocks ptr 13 name 32" and "k + n \<le> 13" and "a + 2 * n \<le> 32"
  shows "copy_wide (name + of_nat a) (ptr + of_nat k) n m x =
    (if in_block (ptr + of_nat k) n x then m (name + of_nat a + 2 * (x - (ptr + of_nat k))) else m x)"
proof (rule copy_wide_apply)
  show "\<forall>i < n. \<not> in_block (ptr + of_nat k) n (name + of_nat a + of_nat (2 * i))"
  proof (intro allI impI notI)
    fix i assume "i < n" and "in_block (ptr + of_nat k) n (name + of_nat a + of_nat (2 * i))"
    then have "in_block ptr 13 (name + of_nat (a + 2 * i))" "a + 2 * i < 32"
      using in_block_shift [of ptr k n _ 13] assms(2,3) by (simp_all add: add.assoc)
    then show False using not_in_block_disjoint [OF assms(1)] by blast
  qed
qed (use assms(2) in simp)

text \<open>
  \<open>FAT_READ_LONG_NAME\<close> collects the 13 characters of a name entry, which are spread over three fields, into 13
  consecutive bytes and changes nothing else.
\<close>

theorem FAT_READ_LONG_NAME_collects:
  assumes "disjoint_blocks ptr 13 name 32"
  shows "load_bytes (FAT_READ_LONG_NAME name ptr m) ptr 13 =
      map (\<lambda>k. m (name + k)) [1, 3, 5, 7, 9, 14, 16, 18, 20, 22, 24, 28, 30] \<and>
    (\<forall>x. \<not> in_block ptr 13 x \<longrightarrow> FAT_READ_LONG_NAME name ptr m x = m x)"
proof -
  have out: "\<not> in_block ptr 13 (name + of_nat i)" if "i < 32" for i
    using not_in_block_disjoint [OF assms that] .
  have c1: "copy_wide (name + 1) ptr 5 m x = (if in_block ptr 5 x then m (name + 1 + 2 * (x - ptr)) else m x)" for m x
    using copy_field [OF assms, of 0 5 1] by simp
  have c2: "copy_wide (name + 14) (ptr + 5) 6 m x = (if in_block (ptr + 5) 6 x then m (name + 14 + 2 * (x - (ptr + 5))) else m x)" for m x
    using copy_field [OF assms, of 5 6 14] by simp
  have c3: "copy_wide (name + 28) (ptr + 11) 2 m x = (if in_block (ptr + 11) 2 x then m (name + 28 + 2 * (x - (ptr + 11))) else m x)" for m x
    using copy_field [OF assms, of 11 2 28] by simp
  have frame: "FAT_READ_LONG_NAME name ptr m x = m x" if "\<not> in_block ptr 13 x" for x
    using that in_block_shift [of ptr 0 5 x 13] in_block_shift [of ptr 5 6 x 13] in_block_shift [of ptr 11 2 x 13]
    by (auto simp: FAT_READ_LONG_NAME_def c1 c2 c3)
  have within: "in_block ptr 5 x \<Longrightarrow> in_block ptr 13 x" "in_block (ptr + 5) 6 x \<Longrightarrow> in_block ptr 13 x" for x
    using in_block_shift [of ptr 0 5 x 13] in_block_shift [of ptr 5 6 x 13] by simp_all
  have field: "FAT_READ_LONG_NAME name ptr m (ptr + of_nat k) =
      (if k < 5 then m (name + of_nat (1 + 2 * k)) else if k < 11 then m (name + of_nat (14 + 2 * (k - 5)))
       else m (name + of_nat (28 + 2 * (k - 11))))" if "k < 13" for k
  proof -
    have b: "in_block (ptr + 5) 6 (ptr + of_nat k) \<longleftrightarrow> 5 \<le> k \<and> k < 11" "in_block (ptr + 11) 2 (ptr + of_nat k) \<longleftrightarrow> 11 \<le> k \<and> k < 13"
      "in_block ptr 5 (ptr + of_nat k) \<longleftrightarrow> k < 5"
      using in_block_offset [of 5 k 6 ptr] in_block_offset [of 11 k 2 ptr] in_block_offset [of 0 k 5 ptr] that by simp_all
    consider "k < 5" | "5 \<le> k" "k < 11" | "11 \<le> k" by linarith
    then show ?thesis
    proof cases
      case 1
      then show ?thesis by (simp add: FAT_READ_LONG_NAME_def c1 c2 c3 b add.assoc)
    next
      case 2
      then have a: "name + 14 + 2 * (ptr + of_nat k - (ptr + 5)) = name + of_nat (14 + 2 * (k - 5))"
        by (simp add: of_nat_diff algebra_simps)
      have lt: "14 + 2 * (k - 5) < 32" using 2 by linarith
      have "\<not> in_block ptr 5 (name + of_nat (14 + 2 * (k - 5)))"
        using within(1) out [OF lt] by blast
      then show ?thesis using 2 unfolding FAT_READ_LONG_NAME_def c3 c2 b a by (simp add: c1)
    next
      case 3
      then have a: "name + 28 + 2 * (ptr + of_nat k - (ptr + 11)) = name + of_nat (28 + 2 * (k - 11))"
        by (simp add: of_nat_diff algebra_simps)
      have lt: "28 + 2 * (k - 11) < 32" using that by linarith
      have "\<not> in_block ptr 5 (name + of_nat (28 + 2 * (k - 11)))" "\<not> in_block (ptr + 5) 6 (name + of_nat (28 + 2 * (k - 11)))"
        using within out [OF lt] by blast+
      then show ?thesis using 3 that unfolding FAT_READ_LONG_NAME_def c3 b a by (simp add: c1 c2)
    qed
  qed
  show ?thesis using frame field [of 0] field [of 1] field [of 2] field [of 3] field [of 4] field [of 5] field [of 6] field [of 7]
      field [of 8] field [of 9] field [of 10] field [of 11] field [of 12]
    by (simp add: load_bytes_conv upt_rec)
qed

theorem FAT_READ_LONG_NAME_collects_witness:
  "load_bytes (FAT_READ_LONG_NAME 64 128 (store_bytes (\<lambda>_. 0) 65 [104, 0, 105, 0])) 128 13 =
   [104, 105, 0, 0, 0, 0, 0, 0, 0, 0, 0, 0, 0]"
proof -
  have "disjoint_blocks 128 13 64 32" by (simp add: disjoint_blocks_def)
  from FAT_READ_LONG_NAME_collects [OF this, of "store_bytes (\<lambda>_. 0) 65 [104, 0, 105, 0]"] show ?thesis by simp
qed

section \<open>The layout of a volume\<close>

lemma long_to_int_of_nat: "n < 2 ^ 31 \<Longrightarrow> long_to_int (of_nat n) = int n"
  by (subst long_to_int_small) simp_all

lemma div_trunc_table:
  "n < 2 ^ 26 \<Longrightarrow> div_trunc (int32 (32 * int n)) 8 = int (4 * n)"
  "div_trunc (int k) (int d) = int (k div d)"
  by (simp_all add: div_trunc_def sgn_if zdiv_int)

text \<open>
  On a volume that is accepted as FAT32 the data area starts behind the reserved sectors and the copies of the table, plus one
  more sector for every sector of table entries before the root directory's cluster; with the usual root cluster 2 this
  last part is 0.
\<close>

theorem FAT_READPART_layout:
  assumes "long_to_int (U64 (kmem s) (ent + 32)) = int lba" and "rd (of_nat lba) 1 = Some bs"
    and "m = store_bytes (kmem s) data bs" and "data = malloc_start s"
    and "boot_jump m data" and "cluster_count m data = Inr c" and "65525 \<le> c"
    and "first = lba + unat (U16 m (data + 14)) + 4 * unat (U32 m (data + 44)) div unat (U16 m (data + 11))"
    and "unat (U32 m (data + 44)) < 2 ^ 26"
    and "first + unat (m (data + 16)) * unat (U32 m (data + 36)) < 2 ^ 31"
  shows "FAT_READPART rd ent (fs, s) =
    Inr (1, \<lparr>fs_config = data, lba_fat = of_nat first, lba_data = of_nat (first + unat (m (data + 16)) * unat (U32 m (data + 36)))\<rparr>,
         s\<lparr>malloc_start := data + 0x200, kmem := m\<rparr>)"
proof -
  let ?N = "unat (U32 m (data + 44))"
  define f where "f = unat (m (data + 16)) * unat (U32 m (data + 36))"
  have "sint (U32 m (data + 44)) = int ?N"
    using assms(9) by (intro sint_small_u32) simp
  then have off: "div_trunc (int32 (32 * sint (U32 m (data + 44)))) 8 = int (4 * ?N)"
    using div_trunc_table(1) [OF assms(9)] by (simp only:)
  note quot = div_trunc_table(2) [of "4 * ?N" "unat (U16 m (data + 11))"]
  have "fat_start m data = of_nat (unat (U16 m (data + 14)) + 4 * ?N div unat (U16 m (data + 11)))"
    unfolding fat_start_def Let_def off quot by (simp only: of_int_of_nat_eq flip: of_nat_add)
  then have fat: "of_nat lba + fat_start m data = (of_nat first :: u64)" unfolding assms(8) by (simp add: add.assoc)
  have prod: "ucast (U32 m (data + 36) * ucast (m (data + 16))) = (of_nat f :: u64)"
  proof -
    have "unat (ucast (m (data + 16)) :: u32) = unat (m (data + 16))"
      using unsigned_less [of "m (data + 16)", where ?'a = nat] by (simp add: unsigned_ucast_eq take_bit_nat_eq_self)
    then have "unat (U32 m (data + 36) * ucast (m (data + 16))) = f"
      unfolding f_def using assms(10) by (subst unat_mult_lem [THEN iffD1]) (simp_all add: mult.commute)
    then show ?thesis by (metis of_nat_unat)
  qed
  have lim: "first + f < 2 ^ 31" using assms(10) by (simp add: f_def)
  have "long_to_int (of_nat first + of_nat f) = int (first + f)"
    using long_to_int_of_nat [OF lim] by simp
  then show ?thesis
    using assms(1,2,5,6) not_less [THEN iffD2, OF assms(7)]
    by (simp add: FAT_READPART_def malloc_def read_heap_def Let_def fat prod flip: assms(3,4) f_def)
qed

definition example_boot :: "u8 list" where
  "example_boot = [0xEB, 0x58, 0x90, 0, 0, 0, 0, 0, 0, 0, 0, 0, 2, 1, 32, 0, 2, 0, 0, 0, 0, 0xF8, 0, 0, 0, 0, 0, 0, 0, 0, 0, 0,
     0x70, 0x11, 1, 0, 0x58, 2, 0, 0, 0, 0, 0, 0, 2, 0, 0, 0]"

definition example_fat :: kext2 where
  "example_fat = \<lparr>kmem = (\<lambda>_. 0)(49 := 8), malloc_start = 0x1000, malloc_end = 0x100000, ms = 0, me = 0, p3_table = 0, p2_table = 0,
     page_allocator = [], ext2_part = 0, ext2_superblock = 0, ext2_blockgroups = 0, ext2_root = decode_inode []\<rparr>"

theorem FAT_READPART_layout_witness:
  "\<exists>s'. FAT_READPART (\<lambda>lba n. if lba = 2048 then Some example_boot else None) 16 (\<lparr>fs_config = 0, lba_fat = 0, lba_data = 0\<rparr>, example_fat) =
    Inr (1, \<lparr>fs_config = 0x1000, lba_fat = 2080, lba_data = 3280\<rparr>, s')"
proof -
  let ?m = "store_bytes (kmem example_fat) 0x1000 example_boot"
  have u: "U16 ?m (0x1000 + 14) = 32" "U32 ?m (0x1000 + 44) = 2" "U16 ?m (0x1000 + 11) = 512" "U32 ?m (0x1000 + 36) = 600" "?m (0x1000 + 16) = 2"
    "U16 ?m (0x1000 + 17) = 0" "U16 ?m (0x1000 + 19) = 0" "U16 ?m (0x1000 + 22) = 0" "U32 ?m (0x1000 + 32) = 70000" "?m (0x1000 + 13) = 1"
    by (simp_all add: example_fat_def example_boot_def U16_def U32_def bytes_numeral)
  have l: "long_to_int (U64 (kmem example_fat) (16 + 32)) = int 2048"
    by (simp add: example_fat_def U64_def bytes_numeral long_to_int_def)
  have c: "cluster_count ?m 0x1000 = Inr 69968"
    using u by (simp add: cluster_count_def Let_def)
  have "boot_jump ?m 0x1000" by (simp add: boot_jump_def example_fat_def example_boot_def)
  from FAT_READPART_layout [OF l _ refl _ this c, of "\<lambda>lba n. if lba = 2048 then Some example_boot else None" 2080] u
  show ?thesis by (simp add: example_fat_def)
qed

section \<open>The sector buffer reads the wrong place\<close>

text \<open>
  \<open>BUFFER_READ\<close> uses the byte offset of the address as an index of 32-bit words: within the buffer it returns the word at four times
  the offset, and from the second quarter of the buffer on it reads behind its end.
\<close>

theorem BUFFER_READ_index:
  assumes "n_sectors b = int n" and "0 < n" and "n < 2 ^ 20" and "currentLBA b = int lba" and "lba + n < 2 ^ 31"
    and "lba \<le> unat address div 512" and "unat address div 512 < lba + n"
  shows "BUFFER_READ rd address (b, s) =
      Inr (U32 (kmem s) (ab_buffer b + of_nat (4 * (unat address mod (512 * n)))), b, s) \<and>
    (512 * n \<le> 4 * (unat address mod (512 * n)) \<longrightarrow>
       \<not> in_block (ab_buffer b) (512 * n) (ab_buffer b + of_nat (4 * (unat address mod (512 * n)))))"
proof -
  let ?off = "unat address mod (512 * n)"
  have len: "of_int (int32 (0x200 * n_sectors b)) = (of_nat (512 * n) :: u64)" using assms(1,3) by simp
  have nz: "(of_nat (512 * n) :: u64) \<noteq> 0" "unat (of_nat (512 * n) :: u64) = 512 * n"
    using assms(2,3) by (simp_all add: unat_gt_0 [symmetric] word_neq_0_conv del: of_nat_mult)
  have "unat (address mod of_nat (512 * n)) = ?off" using nz(2) by (simp add: unat_mod del: of_nat_mult)
  moreover have lt: "?off < 512 * n" using assms(2) by simp
  ultimately have off: "long_to_int (address mod of_nat (512 * n)) = int ?off"
    using assms(3) by (subst long_to_int_small) simp_all
  have hit: "of_int (currentLBA b) \<le> address div 0x200 \<and> address div 0x200 \<le> of_int (int32 (currentLBA b + n_sectors b - 1))"
  proof -
    have "int32 (currentLBA b + n_sectors b - 1) = int (lba + n - 1)"
      using assms(1,2,4,5) by (simp add: of_nat_diff)
    then have "of_int (int32 (currentLBA b + n_sectors b - 1)) = (of_nat (lba + n - 1) :: u64)" by (simp only: of_int_of_nat_eq)
    moreover have "unat (of_nat (lba + n - 1) :: u64) = lba + n - 1" using assms(5) by (intro unat_of_nat64) simp
    moreover have "unat (address div 0x200) = unat address div 512" by (simp add: unat_div)
    ultimately show ?thesis using assms(4-7) by (simp add: word_le_nat_alt del: of_nat_add of_nat_diff)
  qed
  show ?thesis
    using lt assms(3) in_block_offset [of 0 "4 * ?off" "512 * n" "ab_buffer b"] hit off nz(1)
    by (simp add: BUFFER_READ_def Let_def len)
qed

theorem BUFFER_READ_index_witness:
  "BUFFER_READ (\<lambda>_ _. None) 5124 (\<lparr>currentLBA = 10, ab_buffer = 0x2000, n_sectors = 1\<rparr>, example_fat\<lparr>kmem := (\<lambda>_. 0)(0x2010 := 7)\<rparr>) =
    Inr (7, \<lparr>currentLBA = 10, ab_buffer = 0x2000, n_sectors = 1\<rparr>, example_fat\<lparr>kmem := (\<lambda>_. 0)(0x2010 := 7)\<rparr>)"
  using BUFFER_READ_index [of "\<lparr>currentLBA = 10, ab_buffer = 0x2000, n_sectors = 1\<rparr>" 1 10 5124 "\<lambda>_ _. None"
      "example_fat\<lparr>kmem := (\<lambda>_. 0)(0x2010 := 7)\<rparr>"]
  by (simp add: example_fat_def U32_def bytes_numeral)

end
