(* ===== verification/Boot.thy ===== *)
theory Boot
  imports Task Graphics Firmware Fat
begin

text \<open>
  The parts of \<open>kernel_main\<close> in \<open>src/src/kernel.c\<close> that put components together: bringing up memory from the boot loader's
  information, mounting the disks, and loading the first programs. Device setup between these parts is covered by the
  theories of the devices. The memory map, the framebuffer tag and the program files are data in memory and on disk.
\<close>

section \<open>Memory\<close>

text \<open>A run of \<open>AllocatePage(p,address,0b111)\<close> calls\<close>

fun AllocatePages :: "(int \<times> u64) list \<Rightarrow> 'a kpaging_scheme \<Rightarrow> 'a kpaging_scheme outcome" where
  "AllocatePages [] s = Inr s"
| "AllocatePages ((p, address) # ps) s = andthen (AllocatePage p address 7 s) (AllocatePages ps)"

definition fb_addr :: "mem \<Rightarrow> u64 \<Rightarrow> u64" where "fb_addr m fb = U64 m (fb + 8)"
definition fb_width :: "mem \<Rightarrow> u64 \<Rightarrow> u32" where "fb_width m fb = U32 m (fb + 20)"
definition fb_height :: "mem \<Rightarrow> u64 \<Rightarrow> u32" where "fb_height m fb = U32 m (fb + 24)"
definition fb_bpp :: "mem \<Rightarrow> u64 \<Rightarrow> u8" where "fb_bpp m fb = m (fb + 28)"

text \<open>The pages of \<open>graphicsStuff\<close>: the gigabyte of the framebuffer, 1 to 4, and 1 to 3 once more.\<close>

definition boot_pages :: "u64 \<Rightarrow> (int \<times> u64) list" where
  "boot_pages page =
     [(long_to_int page, page * PAGE_WIDTH), (1, PAGE_WIDTH), (2, 2 * PAGE_WIDTH), (3, 3 * PAGE_WIDTH), (4, 4 * PAGE_WIDTH),
      (1, 0x40000000), (2, 0x40000000 + PAGE_WIDTH), (3, 0x40000000 + 2 * PAGE_WIDTH)]"

definition graphicsStuff ::
    "MULTIBOOT_HEADERS \<Rightarrow> 'a kpaging_scheme \<times> screen \<Rightarrow> (u64 \<times> 'a kpaging_scheme \<times> screen) outcome" where
  "graphicsStuff headers = (\<lambda>(s, g).
     let fb = mb_fb headers;
         addr = fb_addr (kmem s) fb
     in andthen (AllocatePages (boot_pages (addr div PAGE_WIDTH)) s) (\<lambda>s.
        let m = kmem s;
            (_, g) = GraphicsInit addr (sint (fb_width m fb)) (sint (fb_height m fb)) (int (unat (fb_bpp m fb))) g
        in Inr (addr, s, g)))"

definition memory_setup ::
    "u64 \<Rightarrow> 'a kpaging_scheme \<times> screen \<Rightarrow> (MULTIBOOT_HEADERS \<times> u64 \<times> 'a kpaging_scheme \<times> screen) outcome" where
  "memory_setup multiboot_address = (\<lambda>(s, g).
     andthen (AllocatePage 8 0 7 s) (\<lambda>s.
     case MultibootProcessHeaders (kmem s) (multiboot_address + 8 * PAGE_WIDTH) of
       None \<Rightarrow> Inl Hangs
     | Some headers \<Rightarrow>
         andthen (AssignMallocMemoryMap (mb_mmap headers) 0x170000 s) (\<lambda>s.
         andthen (graphicsStuff headers (s, g)) (\<lambda>(fb, s, g).
         andthen (AllocatePage 7 0 7 (InitAllocator s)) (\<lambda>s.
           Inr (headers, fb, updateMallocPtr s, g))))))"

text \<open>The pages added once the heap has moved\<close>

definition late_pages :: "(int \<times> u64) list" where
  "late_pages = [(10, 0x40000000), (11, 0x40000000 + PAGE_P2_SIZE), (12, 0x40000000 + 2 * PAGE_P2_SIZE),
     (13, 0x40000000 + 3 * PAGE_P2_SIZE), (14, 0x40000000 + 4 * PAGE_P2_SIZE)]"

section \<open>Disks and programs\<close>

text \<open>The body of the loop over the disks: the first partition is tried as FAT32 and then as ext2.\<close>

definition mount_disk :: "FAT32_FILESYSTEM \<Rightarrow> reader \<Rightarrow> GPT_DATA \<times> 'a kext2_scheme \<Rightarrow> (GPT_DATA \<times> 'a kext2_scheme) outcome" where
  "mount_disk fs rd = (\<lambda>(gpt, s).
     let (val, gpt, s) = GPT_READ rd gpt s
     in if val \<noteq> 0
        then andthen (FAT_READPART rd (gpt_entries gpt) (fs, s)) (\<lambda>(val, fs, s).
          if val = 1 then Inr (gpt, s)
          else let (status_ext2, s) = EXT2_READPART rd (gpt_entries gpt) s in Inr (gpt, s))
        else Inr (gpt, s))"

fun mount_disks :: "FAT32_FILESYSTEM \<Rightarrow> reader list \<Rightarrow> GPT_DATA \<times> 'a kext2_scheme \<Rightarrow> (GPT_DATA \<times> 'a kext2_scheme) outcome" where
  "mount_disks fs [] st = Inr st"
| "mount_disks fs (rd # rds) st = andthen (mount_disk fs rd st) (mount_disks fs rds)"

text \<open>
  The block that loads a program and submits it. \<open>elf\<close>, \<open>file\<close> and \<open>proc\<close> are the contents of the uninitialised local
  variables.
\<close>

definition load_program ::
    "reader \<Rightarrow> EXT2_INODE \<Rightarrow> ELF_FILE \<Rightarrow> Process \<Rightarrow> u64 \<Rightarrow> 'a ksched_scheme \<Rightarrow> 'a ksched_scheme outcome" where
  "load_program rd elf file proc path s =
     andthen (EXT2_GET_INODE_FROM_PATH rd elf path s) (\<lambda>(r, elf, s).
     if r \<noteq> 0 then
       let (hex, s) = malloc (ucast (inode_size elf)) s
       in andthen (EXT2_READFILE rd elf hex (ucast (inode_size elf)) s) (\<lambda>(_, s).
          let (st, file) = ELF_PARSE (kmem s) file hex (sint (inode_size elf))
          in if st = 1 then
               andthen (ProcessFromELF file proc s) (\<lambda>(val, proc, s).
               if val = 0 then Inr s
               else andthen (ProcessInitialise proc 0 0) (\<lambda>proc.
                    andthen (SchedulerSubmit proc s) (\<lambda>(_, s). Inr s)))
             else Inr s)
     else Inr s)"

definition start_programs ::
    "reader \<Rightarrow> EXT2_INODE \<Rightarrow> ELF_FILE \<Rightarrow> Process \<Rightarrow> u64 \<Rightarrow> u64 \<Rightarrow> 'a ksched_scheme \<times> interrupts \<Rightarrow> ('a ksched_scheme \<times> interrupts) outcome" where
  "start_programs rd elf file proc bash loop = (\<lambda>(s, t).
     andthen (load_program rd elf file proc bash s) (\<lambda>s.
     andthen (load_program rd elf file proc loop s) (\<lambda>s.
     andthen (SchedulerStart t) (\<lambda>t. Inr (s, t)))))"

section \<open>Runs of page allocations\<close>

definition slot_free :: "'a kpaging_scheme \<Rightarrow> nat \<Rightarrow> bool" where
  "slot_free s q \<longleftrightarrow> p3_entry s q AND 3 = 0"

lemma heap_clear_mono: "heap_clear n s \<Longrightarrow> k \<le> n \<Longrightarrow> heap_clear k s"
  by (auto simp: heap_clear_def disjoint_blocks_def)

lemma table_entry_used: "(t OR 7) AND 3 \<noteq> (0 :: u64)"
proof
  assume "(t OR 7) AND 3 = (0 :: u64)"
  then have "bit ((t OR 7) AND 3) 0 = bit (0 :: u64) 0" by (rule arg_cong)
  then show False by (simp add: bit_simps)
qed

lemma AllocatePage_taken:
  "paging_inv s \<Longrightarrow> 0 \<le> p \<Longrightarrow> \<not> slot_free s (nat p) \<Longrightarrow> AllocatePage p address flags s = Inr s"
  using paging_invD(1) [of s] by (simp add: AllocatePage_def slot_free_def p3_entry_def)

lemma AllocatePage_frame:
  "AllocatePage p a f s = Inr s' \<Longrightarrow> p3_table s' = p3_table s \<and> page_allocator s' = page_allocator s"
  by (auto simp: AllocatePage_def mallocA_def Let_def split: if_splits)

lemma AllocatePage_slot:
  assumes "paging_inv s" and "0 \<le> p" and "p < 512" and "slot_free s (nat p)" and "heap_clear (0x2000 + n) s"
    and "a mod PAGE_P2_SIZE = 0"
  shows "\<exists>s'. AllocatePage p a 7 s = Inr s' \<and> paging_inv s' \<and> heap_clear n s' \<and>
    (\<forall>q < 512. slot_free s' q \<longleftrightarrow> slot_free s q \<and> q \<noteq> nat p) \<and>
    (\<forall>va. unat va < 2 ^ 39 \<longrightarrow> MemoryPhysical va s' =
       (if unat (va div PAGE_WIDTH) = nat p then a + va mod PAGE_WIDTH else MemoryPhysical va s))"
proof -
  have free: "p3_entry s (nat p) AND 3 = 0" using assms(4) by (simp add: slot_free_def)
  have fl: "unat (7 :: u32) < 2 ^ 21" by simp
  obtain t s' where e: "AllocatePage p a 7 s = Inr s'" "paging_inv s'" "heap_clear n s'"
    "\<forall>q < 512. p3_entry s' q = (if q = nat p then t OR 7 else p3_entry s q)"
    "\<forall>va. unat va < 2 ^ 39 \<longrightarrow> MemoryPhysical va s' =
       (if unat (va div PAGE_WIDTH) = nat p then a + va mod PAGE_WIDTH else MemoryPhysical va s)"
    using AllocatePage_translation [OF assms(1-3) free assms(5,6) fl] by (elim exE conjE) (rule that)
  have "\<forall>q < 512. slot_free s' q \<longleftrightarrow> slot_free s q \<and> q \<noteq> nat p"
    using e(4) table_entry_used [of t] by (simp add: slot_free_def)
  with e show ?thesis by (intro exI [of _ s']) simp
qed

text \<open>
  A run of allocations on a clear heap: each free slot is mapped by the first call for it, calls for taken slots do nothing,
  and everything else keeps its translation.
\<close>

lemma AllocatePages_maps:
  assumes "paging_inv s" and "heap_clear (0x2000 * length ps + n) s"
    and "\<forall>(p, a) \<in> set ps. 0 \<le> p \<and> p < 512 \<and> a mod PAGE_P2_SIZE = 0"
  shows "\<exists>s'. AllocatePages ps s = Inr s' \<and> paging_inv s' \<and> heap_clear n s' \<and>
    (\<forall>q < 512. slot_free s' q \<longleftrightarrow> slot_free s q \<and> int q \<notin> fst ` set ps) \<and>
    (\<forall>va. unat va < 2 ^ 39 \<longrightarrow> MemoryPhysical va s' =
       (let q = unat (va div PAGE_WIDTH)
        in case if slot_free s q then map_of ps (int q) else None of
             Some a \<Rightarrow> a + va mod PAGE_WIDTH | None \<Rightarrow> MemoryPhysical va s))"
  using assms
proof (induction ps arbitrary: s)
  case Nil
  then show ?case by (simp add: Let_def)
next
  case (Cons pa ps)
  obtain p a where pa: "pa = (p, a)" by (cases pa)
  have p: "0 \<le> p" "p < 512" "a mod PAGE_P2_SIZE = 0" using Cons.prems(3) pa by auto
  show ?case
  proof (cases "slot_free s (nat p)")
    case True
    have room: "heap_clear (0x2000 + (0x2000 * length ps + n)) s" using Cons.prems(2) by (simp add: add.assoc)
    obtain s1 where e: "AllocatePage p a 7 s = Inr s1" "paging_inv s1" "heap_clear (0x2000 * length ps + n) s1"
      "\<forall>q < 512. slot_free s1 q \<longleftrightarrow> slot_free s q \<and> q \<noteq> nat p"
      "\<forall>va. unat va < 2 ^ 39 \<longrightarrow> MemoryPhysical va s1 =
         (if unat (va div PAGE_WIDTH) = nat p then a + va mod PAGE_WIDTH else MemoryPhysical va s)"
      using AllocatePage_slot [OF Cons.prems(1) p(1,2) True room p(3)] by blast
    note f = e(4) [rule_format]
    obtain s' where s': "AllocatePages ps s1 = Inr s'" "paging_inv s'" "heap_clear n s'"
      "\<forall>q < 512. slot_free s' q \<longleftrightarrow> slot_free s1 q \<and> int q \<notin> fst ` set ps"
      "\<forall>va. unat va < 2 ^ 39 \<longrightarrow> MemoryPhysical va s' = (let q = unat (va div PAGE_WIDTH)
        in case if slot_free s1 q then map_of ps (int q) else None of Some a \<Rightarrow> a + va mod PAGE_WIDTH | None \<Rightarrow> MemoryPhysical va s1)"
      using Cons.IH [OF e(2,3)] Cons.prems(3) by auto
    have "MemoryPhysical va s' = (let q = unat (va div PAGE_WIDTH) in case if slot_free s q then map_of (pa # ps) (int q) else None of
        Some a \<Rightarrow> a + va mod PAGE_WIDTH | None \<Rightarrow> MemoryPhysical va s)" if va: "unat va < 2 ^ 39" for va
    proof -
      define q where "q = unat (va div PAGE_WIDTH)"
      show ?thesis
        using s'(5) [rule_format, OF va] e(5) [rule_format, OF va] f [OF p3_index [OF va]] True p(1)
        unfolding Let_def q_def [symmetric] pa by (auto split: option.splits)
    qed
    moreover have "slot_free s' q \<longleftrightarrow> slot_free s q \<and> int q \<notin> fst ` set (pa # ps)" if "q < 512" for q
      using s'(4) [rule_format, OF that] f [OF that] p(1) by (auto simp: pa)
    ultimately show ?thesis using e(1) s'(1-3) by (auto simp: pa)
  next
    case False
    have clear: "heap_clear (0x2000 * length ps + n) s" using Cons.prems(2) by (rule heap_clear_mono) simp
    obtain s' where s': "AllocatePages ps s = Inr s'" "paging_inv s'" "heap_clear n s'"
      "\<forall>q < 512. slot_free s' q \<longleftrightarrow> slot_free s q \<and> int q \<notin> fst ` set ps"
      "\<forall>va. unat va < 2 ^ 39 \<longrightarrow> MemoryPhysical va s' = (let q = unat (va div PAGE_WIDTH)
        in case if slot_free s q then map_of ps (int q) else None of Some a \<Rightarrow> a + va mod PAGE_WIDTH | None \<Rightarrow> MemoryPhysical va s)"
      using Cons.IH [OF Cons.prems(1) clear] Cons.prems(3) by auto
    have ne: "slot_free s q \<Longrightarrow> int q \<noteq> p" for q using False by auto
    have "MemoryPhysical va s' = (let q = unat (va div PAGE_WIDTH) in case if slot_free s q then map_of (pa # ps) (int q) else None of
        Some a \<Rightarrow> a + va mod PAGE_WIDTH | None \<Rightarrow> MemoryPhysical va s)" if va: "unat va < 2 ^ 39" for va
      using s'(5) [rule_format, OF va] ne [of "unat (va div PAGE_WIDTH)"] by (simp add: pa Let_def)
    moreover have "slot_free s' q \<longleftrightarrow> slot_free s q \<and> int q \<notin> fst ` set (pa # ps)" if "q < 512" for q
      using s'(4) [rule_format, OF that] ne [of q] by (auto simp: pa)
    ultimately show ?thesis using AllocatePage_taken [OF Cons.prems(1) p(1) False] s'(1-3) by (auto simp: pa)
  qed
qed

section \<open>The heap and the tables\<close>

definition heap_moved :: "'a kheap_scheme \<Rightarrow> 'a kheap_scheme \<Rightarrow> bool" where
  "heap_moved s s' \<longleftrightarrow> s' = s\<lparr>malloc_start := malloc_start s', malloc_end := malloc_end s', ms := ms s', me := me s'\<rparr>"

lemma heap_moved_refl: "heap_moved s s"
  by (simp add: heap_moved_def)

lemma heap_moved_trans: "heap_moved s t \<Longrightarrow> heap_moved t u \<Longrightarrow> heap_moved s u"
  unfolding heap_moved_def by (cases s; cases t; cases u) simp

lemma heap_moved_visit: "heap_moved s (snd (mmap_visit e (l, s)))"
  by (simp add: heap_moved_def mmap_visit_def)

lemma heap_moved_start: "heap_moved s (s\<lparr>malloc_start := p\<rparr>)"
  by (simp add: heap_moved_def)

lemma mmap_walk_frame:
  assumes "mmap_walk m tag a acc = Some r"
  shows "heap_moved (snd acc) (snd r)"
  using assms
proof (rule mmap_walk.raw_induct [where P = "\<lambda>m tag a acc r. heap_moved (snd acc) (snd r)", rotated])
  fix g and m :: mem and tag a acc and r :: "u64 \<times> 'a kheap_scheme"
  assume ih: "\<And>m tag a acc r. g m tag a acc = Some r \<Longrightarrow> heap_moved (snd acc) (snd r)"
    and eq: "(if a < tag + ucast (U32 m (tag + 4))
      then g m tag (a + ucast (U32 m (tag + 8))) (mmap_visit (read_mmap_entry m a) acc) else Some acc) = Some r"
  show "heap_moved (snd acc) (snd r)"
    using eq ih heap_moved_trans [OF heap_moved_visit [of "snd acc" "read_mmap_entry m a" "fst acc"]] heap_moved_refl
    by (auto split: if_splits)
qed

lemma AssignMallocMemoryMap_frame: "AssignMallocMemoryMap tag off s = Inr s' \<Longrightarrow> heap_moved s s'"
  using mmap_walk_frame [of "kmem s" tag "tag + 16" "(0, s)"] heap_moved_trans [OF _ heap_moved_start]
  by (auto simp: AssignMallocMemoryMap_def split: option.splits)

text \<open>The tables do not depend on the heap pointers and the page counters.\<close>

lemma tables_cong:
  assumes "kmem s' = kmem s" and "p3_table s' = p3_table s"
  shows "p3_entry s' = p3_entry s" "slot_free s' = slot_free s" "paging_inv s' = paging_inv s"
    "MemoryPhysical va s' = MemoryPhysical va s"
proof -
  show e: "p3_entry s' = p3_entry s" by (simp add: fun_eq_iff p3_entry_def assms)
  show "slot_free s' = slot_free s" by (simp add: fun_eq_iff slot_free_def e)
  have "present s' = present s" by (simp add: fun_eq_iff present_def e)
  then show "paging_inv s' = paging_inv s" by (simp add: paging_inv_def e assms)
  show "MemoryPhysical va s' = MemoryPhysical va s" unfolding MemoryPhysical_def assms ..
qed

lemma heap_moved_tables:
  assumes "heap_moved s s'"
  shows "kmem s' = kmem s" "p3_table s' = p3_table s" "page_allocator s' = page_allocator s"
  using assms by (cases s; cases s'; simp add: heap_moved_def)+

lemma gigabyte_aligned: "page * PAGE_WIDTH mod PAGE_P2_SIZE = (0 :: u64)"
  using leaf_word_aligned [of 0 "512 * page"] by (simp add: mult.commute)

lemma gigabyte_identity: "unat (va div PAGE_WIDTH) = q \<Longrightarrow> of_nat q * PAGE_WIDTH + va mod PAGE_WIDTH = va"
  using div_mult_mod_eq [of va PAGE_WIDTH] by auto

lemma page_index: "k < 512 \<Longrightarrow> long_to_int (of_nat k) = int k"
  by (subst long_to_int_small) simp_all

lemma boot_pages_ok: "k < 512 \<Longrightarrow> \<forall>(p, a) \<in> set (boot_pages (of_nat k)). 0 \<le> p \<and> p < 512 \<and> a mod PAGE_P2_SIZE = 0"
  using gigabyte_aligned [of "of_nat k"] by (simp add: boot_pages_def page_index)

lemma boot_pages_of:
  "k < 512 \<Longrightarrow> map_of (boot_pages (of_nat k)) (int q) = (if q = k \<or> q \<in> {1, 2, 3, 4} then Some (of_nat q * PAGE_WIDTH) else None)"
  by (auto simp: boot_pages_def page_index)

lemma boot_pages_slots: "k < 512 \<Longrightarrow> int q \<in> fst ` set (boot_pages (of_nat k)) \<longleftrightarrow> q = k \<or> q \<in> {1, 2, 3, 4}"
  using boot_pages_of [of k q] map_of_eq_None_iff [of "boot_pages (of_nat k)" "int q"] by (auto split: if_splits)

text \<open>
  C10: Bringing up memory maps gigabyte 8 to the low gigabyte, through which the boot information is read, then the gigabyte of
  the framebuffer and 1 to 4 to themselves, and gigabyte 7, into which the heap moves, again to the low gigabyte; all other
  addresses keep their translation. This holds when the heap that the memory map gives is clear of the page tables, the one
  that the first call has just put there included (\<open>heap_clear 0x12000 s2\<close>). It is on a machine whose largest region starts above
  the first heap; it is not on one whose largest region starts at 1 MB, where gigabyte 8 does not stay mapped as stated:
  see the theorem on the heap at 0x270000 below.
\<close>

theorem memory_setup_maps:
  assumes inv: "paging_inv s" and clear: "heap_clear 0x2000 s"
    and s1: "AllocatePage 8 0 7 s = Inr s1"
    and mb: "MultibootProcessHeaders (kmem s1) (multiboot_address + 8 * PAGE_WIDTH) = Some headers"
    and s2: "AssignMallocMemoryMap (mb_mmap headers) 0x170000 s1 = Inr s2" and clear2: "heap_clear 0x12000 s2"
    and page: "page = unat (fb_addr (kmem s1) (mb_fb headers) div PAGE_WIDTH)" "page < 512" "page \<noteq> 7" "page \<noteq> 8"
    and free: "\<forall>q \<in> {1, 2, 3, 4, 7, 8, page}. slot_free s q"
  shows "\<exists>s' g'. memory_setup multiboot_address (s, g) = Inr (headers, fb_addr (kmem s1) (mb_fb headers), s', g') \<and>
    paging_inv s' \<and> page_allocator s' = replicate 512 0 \<and>
    (\<forall>va. unat va < 2 ^ 39 \<longrightarrow> MemoryPhysical va s' =
       (let q = unat (va div PAGE_WIDTH)
        in if q = 7 \<or> q = 8 then va mod PAGE_WIDTH
           else if q = page \<or> q \<in> {1, 2, 3, 4} then va else MemoryPhysical va s))"
proof -
  let ?ps = "boot_pages (of_nat page)"
  have w: "fb_addr (kmem s1) (mb_fb headers) div PAGE_WIDTH = of_nat page" using page(1) by simp
  have e1: "paging_inv s1" "\<forall>q < 512. slot_free s1 q \<longleftrightarrow> slot_free s q \<and> q \<noteq> 8"
    "\<forall>va. unat va < 2 ^ 39 \<longrightarrow> MemoryPhysical va s1 = (if unat (va div PAGE_WIDTH) = 8 then va mod PAGE_WIDTH else MemoryPhysical va s)"
    using AllocatePage_slot [OF inv, of 8 0 0] clear s1 free by simp_all
  note mv = heap_moved_tables [OF AssignMallocMemoryMap_frame [OF s2]]
  note t2 = tables_cong [OF mv(1,2)]
  have "heap_clear (0x2000 * length ?ps + 0x2000) s2" using clear2 by (simp add: boot_pages_def)
  from AllocatePages_maps [OF t2(3) [THEN iffD2, OF e1(1)] this boot_pages_ok [OF page(2)]] obtain s3 where
    s3: "AllocatePages ?ps s2 = Inr s3" "paging_inv s3" "heap_clear 0x2000 s3"
      "\<forall>q < 512. slot_free s3 q \<longleftrightarrow> slot_free s1 q \<and> int q \<notin> fst ` set ?ps"
      "\<forall>va. unat va < 2 ^ 39 \<longrightarrow> MemoryPhysical va s3 = (let q = unat (va div PAGE_WIDTH)
        in case if slot_free s1 q then map_of ?ps (int q) else None of
             Some a \<Rightarrow> a + va mod PAGE_WIDTH | None \<Rightarrow> MemoryPhysical va s1)"
    unfolding t2(2,4) by blast
  note t4 = tables_cong [of "InitAllocator s3" s3]
  have free7: "slot_free s3 7" using s3(4) e1(2) free page(3) boot_pages_slots [OF page(2), of 7] by simp
  have "heap_clear 0x2000 (InitAllocator s3)" using s3(3) t4(1) by (simp add: heap_clear_def present_def InitAllocator_def)
  then obtain s4 where s4: "AllocatePage 7 0 7 (InitAllocator s3) = Inr s4" "paging_inv s4"
      "\<forall>va. unat va < 2 ^ 39 \<longrightarrow> MemoryPhysical va s4 = (if unat (va div PAGE_WIDTH) = 7 then va mod PAGE_WIDTH else MemoryPhysical va s3)"
    using AllocatePage_slot [of "InitAllocator s3" 7 0 0] t4(2-4) s3(2) free7 by (auto simp: InitAllocator_def)
  define s' where "s' = updateMallocPtr s4"
  have t5: "paging_inv s' = paging_inv s4" "MemoryPhysical va s' = MemoryPhysical va s4" for va
    using tables_cong [of s' s4] by (simp_all add: s'_def updateMallocPtr_def)
  have "MemoryPhysical va s' = (let q = unat (va div PAGE_WIDTH) in if q = 7 \<or> q = 8 then va mod PAGE_WIDTH
      else if q = page \<or> q \<in> {1, 2, 3, 4} then va else MemoryPhysical va s)" if va: "unat va < 2 ^ 39" for va
  proof -
    define q where "q = unat (va div PAGE_WIDTH)"
    have q: "q < 512" unfolding q_def by (rule p3_index [OF va])
    show ?thesis
      using s4(3) [rule_format, OF va] s3(5) [rule_format, OF va] e1(3) [rule_format, OF va] e1(2) [rule_format, OF q]
        boot_pages_of [OF page(2), of q] gigabyte_identity [OF q_def [symmetric]] free page(3,4)
      unfolding t5(2) Let_def q_def [symmetric] by auto
  qed
  moreover have "page_allocator s' = replicate 512 0"
    using AllocatePage_frame [OF s4(1)] by (simp add: s'_def updateMallocPtr_def InitAllocator_def)
  moreover have "\<exists>g'. memory_setup multiboot_address (s, g) = Inr (headers, fb_addr (kmem s1) (mb_fb headers), s', g')"
    using s1 mb s2 s3(1) s4(1) by (simp add: memory_setup_def graphicsStuff_def mv(1) w s'_def Let_def split: prod.splits)
  ultimately show ?thesis using s4(2) t5(1) by blast
qed

lemma near_multiples:
  assumes "x mod k = 0" and "y mod k = 0" and "y < x + k" and "x < y + (k :: nat)"
  shows "x = y"
proof -
  obtain a b where ab: "x = k * a" "y = k * b" using assms(1,2) by (metis mod_0_imp_dvd dvdE)
  have "k * b < k * Suc a" "k * a < k * Suc b" using assms(3,4) ab by simp_all
  then have "b < Suc a" "a < Suc b" unfolding mult_less_cancel1 by simp_all
  then show ?thesis using ab by simp
qed

text \<open>
  C30: On the usual memory map the largest region starts at 1 MB, so the heap it gives starts at 0x270000, where the heap was before: the
  table that the first call has allocated is handed out again. The next page then shares its table, and gigabyte 8,
  through which the boot information is still read, shows the memory of that page instead of the low gigabyte.
\<close>

theorem memory_setup_reuses_table:
  assumes inv: "paging_inv s" and clear: "heap_clear 0x2000 s" and free: "slot_free s 8" "slot_free s p"
    and p: "p < 512" "p \<noteq> 8" and al: "a mod PAGE_P2_SIZE = 0"
    and s1: "AllocatePage 8 0 7 s = Inr s1"
    and s2: "AssignMallocMemoryMap tag 0x170000 s1 = Inr s2" and again: "malloc_start s2 = malloc_start s"
  shows "\<exists>s3. AllocatePage (int p) a 7 s2 = Inr s3 \<and> p3_entry s3 8 = p3_entry s3 p \<and>
    (\<forall>x. unat x < 0x40000000 \<longrightarrow> MemoryPhysical (8 * PAGE_WIDTH + x) s3 = a + x)"
proof -
  have cl: "0 < unat (malloc_start s)" "disjoint_blocks (malloc_start s) 0x2000 (p3_table s) 4096"
      "unat (malloc_start s) + 0x2000 < 2 ^ 64"
    using clear by (simp_all add: heap_clear_def)
  have f8: "p3_entry s (nat 8) AND 3 = 0" using free(1) by (simp add: slot_free_def)
  have i8: "0 \<le> (8 :: int)" "(8 :: int) < 512" by simp_all
  obtain t s1' where t: "unat (malloc_start s) \<le> unat t" "unat t < unat (malloc_start s) + 0x1000" "t mod 0x1000 = 0"
    "\<forall>q < 512. p3_entry s1' q = (if q = nat 8 then t OR 7 else p3_entry s q)" "AllocatePage 8 0 7 s = Inr s1'"
    using AllocatePage_effect [OF inv i8 f8 cl, of 0 7] by (elim exE conjE) (rule that)
  then have t: "unat (malloc_start s) \<le> unat t" "unat t < unat (malloc_start s) + 0x1000" "t mod 0x1000 = 0"
    "\<forall>q < 512. p3_entry s1 q = (if q = nat 8 then t OR 7 else p3_entry s q)" using s1 by simp_all
  have inv1: "paging_inv s1" using AllocatePage_slot [OF inv, of 8 0 0] clear free(1) s1 by simp
  note mv = heap_moved_tables [OF AssignMallocMemoryMap_frame [OF s2]]
  note t2 = tables_cong [OF mv(1,2)]
  have inv2: "paging_inv s2" using inv1 t2(3) by simp
  have fp: "p3_entry s2 (nat (int p)) AND 3 = 0" using t(4) p free(2) t2(1) by (simp add: slot_free_def)
  have cl2: "0 < unat (malloc_start s2)" "disjoint_blocks (malloc_start s2) 0x2000 (p3_table s2) 4096"
      "unat (malloc_start s2) + 0x2000 < 2 ^ 64"
    using cl again mv(2) AllocatePage_frame [OF s1] by simp_all
  have ip: "0 \<le> int p" "int p < 512" using p by simp_all
  obtain u s3 where u: "AllocatePage (int p) a 7 s2 = Inr s3" "unat (malloc_start s2) \<le> unat u"
    "unat u < unat (malloc_start s2) + 0x1000" "u mod 0x1000 = 0"
    "\<forall>q < 512. p3_entry s3 q = (if q = nat (int p) then u OR 7 else p3_entry s2 q)"
    "\<forall>i < 512. U64 (kmem s3) (entry u (of_nat i)) = (PAGE_P2_SIZE * of_nat i + a) OR 0x87 OR ucast (7 :: u32)"
    using AllocatePage_effect [OF inv2 ip fp cl2, of a 7] by (elim exE conjE) (rule that)
  have "unat u mod 0x1000 = 0" "unat t mod 0x1000 = 0" using u(4) t(3) by (simp_all add: word_unat_eq_iff unat_mod)
  moreover have "unat t < unat u + 0x1000" "unat u < unat t + 0x1000" using t(1,2) u(2,3) unfolding again by linarith+
  ultimately have "unat u = unat t" by (rule near_multiples)
  then have ut: "u = t" by (rule word_unat_eq_iff [THEN iffD2])
  have same: "p3_entry s3 8 = t OR 7" "p3_entry s3 p = t OR 7" using u(5) t(4) p t2(1) ut by simp_all
  have "\<forall>i < 512. leaf s3 8 i = (PAGE_P2_SIZE * of_nat i + a) OR 0x87 OR ucast (7 :: u32)"
    using u(6) TABLE_entry [OF u(4)] same(1) ut by (simp add: leaf_def)
  then have "MemoryPhysical va s3 = a + va mod PAGE_WIDTH" if "unat (va div PAGE_WIDTH) = 8" for va
    using linear_slot [of s3 8 a 7 va] al that same(1) table_entry_present [of t] by (simp add: present_def)
  moreover have "unat ((8 * PAGE_WIDTH + x) div PAGE_WIDTH) = 8" "(8 * PAGE_WIDTH + x) mod PAGE_WIDTH = x"
    if "unat x < 0x40000000" for x
  proof -
    have "(8589934592 + unat x) mod 0x40000000 = unat x" using that by (intro mod_nat_eqI) simp_all
    then show "unat ((8 * PAGE_WIDTH + x) div PAGE_WIDTH) = 8" "(8 * PAGE_WIDTH + x) mod PAGE_WIDTH = x"
      using that by (simp_all add: word_unat_eq_iff unat_div unat_mod unat_word_ariths)
  qed
  ultimately show ?thesis using u(1) same by auto
qed

text \<open>
  Once the heap lies in gigabyte 7, a new table is entered under the address at which the kernel writes it, while the processor
  takes table addresses as physical: the table is seven gigabytes below the address that its entry holds.
\<close>

theorem late_table_address:
  assumes inv: "paging_inv s" and clear: "heap_clear 0x2000 s" and free: "slot_free s p" and p: "p < 512" "p \<noteq> 7"
    and al: "a mod PAGE_P2_SIZE = 0"
    and moved: "7 * 0x40000000 \<le> unat (malloc_start s)" "unat (malloc_start s) + 0x1000 \<le> 8 * 0x40000000"
    and seven: "\<forall>va. unat (va div PAGE_WIDTH) = 7 \<longrightarrow> MemoryPhysical va s = va mod PAGE_WIDTH"
  shows "\<exists>s'. AllocatePage (int p) a 7 s = Inr s' \<and>
    unat (malloc_start s) \<le> unat (TABLE (p3_entry s' p)) \<and>
    MemoryPhysical (TABLE (p3_entry s' p)) s' = TABLE (p3_entry s' p) - 7 * PAGE_WIDTH"
proof -
  have f: "p3_entry s (nat (int p)) AND 3 = 0" using free by (simp add: slot_free_def)
  have fl: "unat (7 :: u32) < 2 ^ 21" by simp
  have ip: "0 \<le> int p" "int p < 512" "heap_clear (0x2000 + 0) s" using p clear by simp_all
  obtain t s' where e: "AllocatePage (int p) a 7 s = Inr s'" "TABLE (p3_entry s' (nat (int p))) = t"
    "unat (malloc_start s) \<le> unat t" "unat t < unat (malloc_start s) + 0x1000"
    "\<forall>va. unat va < 2 ^ 39 \<longrightarrow> MemoryPhysical va s' =
       (if unat (va div PAGE_WIDTH) = nat (int p) then a + va mod PAGE_WIDTH else MemoryPhysical va s)"
    using AllocatePage_translation [OF inv ip(1,2) f ip(3) al fl] by (elim exE conjE) (rule that)
  have t: "unat (t div PAGE_WIDTH) = 7" "unat t < 2 ^ 39"
    using e(3,4) moved by (simp_all add: unat_div)
  have "MemoryPhysical t s' = t mod PAGE_WIDTH" using e(5) [rule_format, OF t(2)] t(1) p(2) seven by simp
  moreover have "t mod PAGE_WIDTH = t - 7 * PAGE_WIDTH"
  proof -
    have "t div PAGE_WIDTH = 7" using t(1) by (simp add: word_unat_eq_iff)
    then show ?thesis using div_mult_mod_eq [of t PAGE_WIDTH] by (simp add: algebra_simps)
  qed
  ultimately show ?thesis using e(1-3) by simp
qed

section \<open>Loading programs\<close>

text \<open>What reading the disk and building a process leave of the process table\<close>

definition table_kept :: "'a ksched_scheme \<Rightarrow> 'a ksched_scheme \<Rightarrow> bool" where
  "table_kept s s' \<longleftrightarrow> s' = s\<lparr>kmem := kmem s', malloc_start := malloc_start s', page_allocator := page_allocator s',
     procs_id := procs_id s'\<rparr>"

lemma table_kept_refl: "table_kept s s"
  by (simp add: table_kept_def)

lemma table_kept_trans: "table_kept s t \<Longrightarrow> table_kept t u \<Longrightarrow> table_kept s u"
  unfolding table_kept_def by (cases s; cases t; cases u) simp

lemma table_kept_list:
  assumes "table_kept s s'"
  shows "proc_list s' = proc_list s" "procs_capacity s' = procs_capacity s" "procs_count s' = procs_count s"
    "procs_items s' = procs_items s" "procs_i s' = procs_i s"
proof -
  have f: "proc_heap s' = proc_heap s" "procs_items s' = procs_items s" "procs_count s' = procs_count s"
    "procs_capacity s' = procs_capacity s" "procs_i s' = procs_i s"
    using assms by (cases s; cases s'; simp add: table_kept_def)+
  then show "proc_list s' = proc_list s" "procs_capacity s' = procs_capacity s" "procs_count s' = procs_count s"
    "procs_items s' = procs_items s" "procs_i s' = procs_i s"
    by (simp_all add: proc_list_def item_at_def)
qed

definition memory_kept :: "'a kext2_scheme \<Rightarrow> 'a kext2_scheme \<Rightarrow> bool" where
  "memory_kept s s' \<longleftrightarrow> s' = s\<lparr>kmem := kmem s'\<rparr>"

lemma path_loop_frame:
  assumes "path_loop rd path f parent child s = Some (Inr (v, c, s'))"
  shows "memory_kept s s'"
proof -
  have "\<forall>v c s'. r = Inr (v, c, s') \<longrightarrow> memory_kept s s'" if "path_loop rd path f parent child s = Some r" for r
    using that
  proof (rule path_loop.raw_induct [where P = "\<lambda>rd path f parent child s r. \<forall>v c s'. r = Inr (v, c, s') \<longrightarrow> memory_kept s s'", rotated])
    fix g rd path f parent child and s :: "'a kext2_scheme" and r
    assume ih: "\<And>rd path f parent child s r. g rd path f parent child s = Some r \<Longrightarrow> \<forall>v c s'. r = Inr (v, c, s') \<longrightarrow> memory_kept s s'"
      and eq: "(if path = 0 then Some (Inr (f, child, s))
        else let (m, path') = strntokch (kmem s) path 1000 0x2f; s = s\<lparr>kmem := m\<rparr>
           in case EXT2_FIND_INODE_IN_DIR rd parent child path s of
                Inl e \<Rightarrow> Some (Inl e)
              | Inr (f, child) \<Rightarrow> if f = 0 then Some (Inr (0, zero_inode, s)) else g rd path' f child child s) = Some r"
    obtain m path' where tok: "strntokch (kmem s) path 1000 0x2f = (m, path')" by (cases "strntokch (kmem s) path 1000 0x2f")
    have step: "memory_kept (s\<lparr>kmem := m\<rparr>) s' \<Longrightarrow> memory_kept s s'" for s' by (cases s; cases s') (simp add: memory_kept_def)
    have self: "memory_kept t t" "memory_kept (s\<lparr>kmem := m\<rparr>) s" for t :: "'a kext2_scheme" by (simp_all add: memory_kept_def)
    from eq show "\<forall>v c s'. r = Inr (v, c, s') \<longrightarrow> memory_kept s s'"
      by (auto simp: tok Let_def self split: if_splits sum.splits prod.splits dest!: ih intro!: step)
  qed
  with assms show ?thesis by blast
qed

lemma lookup_frame:
  assumes "EXT2_GET_INODE_FROM_PATH rd child path s = Inr (r, c, s')" and "cstring (kmem s) path name" and "length name < 2 ^ 31"
    and "unat (malloc_start s) + 2 ^ 32 < 2 ^ 64"
  shows "table_kept s s'" "unat (malloc_start s') = unat (malloc_start s) + length name + 1" "procs_id s' = procs_id s"
proof -
  let ?s = "\<lambda>m. s\<lparr>malloc_start := malloc_start s + (of_nat (length name) + 1), kmem := m\<rparr>"
  define m where "m = (memcpy (kmem s) (malloc_start s) path (int (length name)))(malloc_start s + of_nat (length name) := 0)"
  have dup: "strdup path s = Inr (malloc_start s, ?s m)"
    using strlen_cstring [OF assms(2)] by (simp add: strdup_def malloc_def m_def)
  have "memory_kept (?s m) s'"
    using assms(1) path_loop_frame [of rd "malloc_start s + 1" 0 "ext2_root (?s m)" child "?s m"]
    by (auto simp: EXT2_GET_INODE_FROM_PATH_def dup memory_kept_def andthen_Inr_iff split: if_splits option.splits)
  then have e: "s' = s\<lparr>malloc_start := malloc_start s + (of_nat (length name) + 1), kmem := kmem s'\<rparr>"
    by (cases s; cases s') (simp add: memory_kept_def)
  then have "malloc_start s' = malloc_start s + of_nat (length name + 1)" by (cases s; cases s') (simp add: add.commute)
  then show "unat (malloc_start s') = unat (malloc_start s) + length name + 1"
    using unat_add_of_nat [of "malloc_start s" "length name + 1"] assms(3,4) by simp
  show "table_kept s s'" "procs_id s' = procs_id s" using e by (cases s; cases s'; simp add: table_kept_def)+
qed

lemma READFILE_frame: "EXT2_READFILE rd inode p n s = Inr (r, s') \<Longrightarrow> s' = s\<lparr>kmem := kmem s'\<rparr>"
  by (auto simp: EXT2_READFILE_def Let_def andthen_Inr_iff split: prod.splits bool.splits if_splits)

lemma ProcessFromELF_frame:
  assumes "ProcessFromELF file proc s = Inr (v, p, s')"
  shows "table_kept s s'" "malloc_start s' = malloc_start s" "fd p = replicate 256 zero_desc" "pid p = sint (procs_id s)"
  using assms
  by (auto simp: ProcessFromELF_def ProcessSetHollow_def ProcessSetUpPages_def Let_def andthen_Inr_iff table_kept_def
      dest!: PageAllocateN_frame split: if_splits)

text \<open>The heap may still grow by \<open>k\<close> bytes before the table's own limit.\<close>

definition table_room :: "nat \<Rightarrow> 'a ksched_scheme \<Rightarrow> bool" where
  "table_room k s \<longleftrightarrow> procs_inv s \<and>
     unat (malloc_start s) + k + (65536 - 2 * unat (procs_capacity s)) * 39144 \<le> 2 ^ 63"

lemma table_room_kept:
  assumes "table_room (k + j) s" and "table_kept s s'" and "unat (malloc_start s) \<le> unat (malloc_start s')"
    and "unat (malloc_start s') \<le> unat (malloc_start s) + j"
  shows "table_room k s'"
proof -
  define c where "c = (65536 - 2 * unat (procs_capacity s)) * 39144"
  have "unat (malloc_start s) + (k + j) + c \<le> 2 ^ 63" using assms(1) by (simp add: table_room_def c_def)
  then have "unat (malloc_start s') + k + c \<le> 2 ^ 63" using assms(3,4) by linarith
  then show ?thesis
    using assms(1,3) table_kept_list(2-4) [OF assms(2)] unfolding table_room_def procs_inv_def c_def by auto
qed

definition initialised :: "Process \<Rightarrow> Process" where
  "initialised p = p\<lparr>regs := (regs p)\<lparr>rip := m_entry (memory p), rsp := 0x800000, rbp := 0x800000, rdi := 0, rsi := 0\<rparr>\<rparr>"

lemma ProcessInitialise_null: "ProcessInitialise p 0 0 = Inr (initialised p)"
  by (simp add: ProcessInitialise_def initialised_def argc_loop.simps [of 0])

lemma malloc_room: "malloc n s = (p, s') \<Longrightarrow> unat (malloc_start s) + unat n < 2 ^ 64 \<Longrightarrow>
   s' = s\<lparr>malloc_start := malloc_start s + n\<rparr> \<and> unat (malloc_start s') = unat (malloc_start s) + unat n"
  by (auto simp: malloc_def unat_word_ariths)

lemma load_program_cases:
  assumes load: "load_program rd elf file proc path s = Inr s'" and room: "table_room 0x200000000 s"
    and path: "cstring (kmem s) path name" "length name < 2 ^ 31"
  shows "\<exists>s1. table_kept s s1 \<and> table_room 0x80000000 s1 \<and> procs_id s1 = procs_id s \<and>
    (s' = s1 \<or> (\<exists>file v p s2. ProcessFromELF file proc s1 = Inr (v, p, s2) \<and>
       (if v = 0 then s' = s2 else nob_da_append (initialised p) s2 = Inr s')))"
proof -
  have lim: "unat (malloc_start s) + 0x200000000 \<le> 2 ^ 63" using room by (simp add: table_room_def)
  obtain r c s1 where l: "EXT2_GET_INODE_FROM_PATH rd elf path s = Inr (r, c, s1)"
    using load by (auto simp: load_program_def andthen_Inr_iff)
  have k1: "table_kept s s1" "unat (malloc_start s1) = unat (malloc_start s) + length name + 1" "procs_id s1 = procs_id s"
    using lookup_frame [OF l path] lim by simp_all
  have room1: "table_room 0x180000000 s1"
    by (rule table_room_kept [of _ "0x80000000", OF _ k1(1)]) (use room k1(2) path(2) in simp_all)
  show ?thesis
  proof (cases "r = 0")
    case True
    then have "s' = s1" using load by (simp add: load_program_def l)
    moreover have "table_room 0x80000000 s1" using room1 by (simp add: table_room_def)
    ultimately show ?thesis using k1 by blast
  next
    case False
    let ?n = "ucast (inode_size c) :: u64"
    obtain hex s2 where m: "malloc ?n s1 = (hex, s2)" by (cases "malloc ?n s1")
    have n: "unat ?n < 2 ^ 32" using unsigned_less [of "inode_size c", where ?'a = nat] by simp
    have s2: "s2 = s1\<lparr>malloc_start := malloc_start s1 + ?n\<rparr>" "unat (malloc_start s2) = unat (malloc_start s1) + unat ?n"
      using malloc_room [OF m] k1(2) lim n path(2) by auto
    obtain v s3 where rf: "EXT2_READFILE rd c hex ?n s2 = Inr (v, s3)"
      using load False by (auto simp: load_program_def l m andthen_Inr_iff)
    have k3: "table_kept s1 s3" "malloc_start s3 = malloc_start s2" "procs_id s3 = procs_id s1"
      using READFILE_frame [OF rf] s2(1) by (cases s1; cases s3; simp add: table_kept_def)+
    have room3: "table_room 0x80000000 s3"
      by (rule table_room_kept [of _ "0x100000000", OF _ k3(1)]) (use room1 k3(2) s2(2) n in simp_all)
    have "s' = s3 \<or> (\<exists>file v p s2. ProcessFromELF file proc s3 = Inr (v, p, s2) \<and>
        (if v = 0 then s' = s2 else nob_da_append (initialised p) s2 = Inr s'))"
      using load False
      by (auto simp: load_program_def l m rf andthen_Inr_iff ProcessInitialise_null SchedulerSubmit_def split: prod.splits if_splits)
    moreover have "procs_id s3 = procs_id s" using k1(3) k3(3) by simp
    ultimately show ?thesis using table_kept_trans [OF k1(1) k3(1)] room3 by blast
  qed
qed

text \<open>
  C24: Loading a program, whatever the disk holds, either leaves the table of processes as it was or appends one process: it has the
  next id, no open files, starts at the entry point of its image and has no arguments.
\<close>

theorem load_program_table:
  assumes load: "load_program rd elf file proc path s = Inr s'" and room: "table_room 0x200000000 s"
    and len: "length (proc_list s) < 32768" and path: "cstring (kmem s) path name" "length name < 2 ^ 31"
  shows "procs_inv s' \<and> (proc_list s' = proc_list s \<or>
    (\<exists>p. proc_list s' = proc_list s @ [initialised p] \<and> pid p = sint (procs_id s) \<and> fd p = replicate 256 zero_desc))"
proof -
  obtain s1 where s1: "table_kept s s1" "table_room 0x80000000 s1" "procs_id s1 = procs_id s"
    "s' = s1 \<or> (\<exists>file v p s2. ProcessFromELF file proc s1 = Inr (v, p, s2) \<and>
       (if v = 0 then s' = s2 else nob_da_append (initialised p) s2 = Inr s'))"
    using load_program_cases [OF load room path] by blast
  from s1(4) show ?thesis
  proof (elim disjE exE conjE)
    assume "s' = s1"
    then show ?thesis using s1(2) table_kept_list(1) [OF s1(1)] by (simp add: table_room_def)
  next
    fix ef v p s2
    assume pe: "ProcessFromELF ef proc s1 = Inr (v, p, s2)"
      and r: "if v = 0 then s' = s2 else nob_da_append (initialised p) s2 = Inr s'"
    note f = ProcessFromELF_frame [OF pe]
    have room2: "table_room 0x80000000 s2"
      by (rule table_room_kept [of _ 0, OF _ f(1)]) (use s1(2) f(2) in simp_all)
    have l2: "proc_list s2 = proc_list s" using table_kept_list(1) [OF table_kept_trans [OF s1(1) f(1)]] .
    show ?thesis
    proof (cases "v = 0")
      case True
      then show ?thesis using r room2 l2 by (simp add: table_room_def)
    next
      case False
      then show ?thesis using nob_da_append_ok [of s2 "initialised p"] room2 len l2 r f(3,4) s1(3)
        by (auto simp: table_room_def)
    qed
  qed
qed

section \<open>Examples\<close>

text \<open>
  A machine as the boot loader leaves it, with the boot information at gigabyte 8: a framebuffer at 0xFD000000 and one region of memory at
  \<open>r3\<close> times 16 MB plus \<open>r2\<close> times 64 KB.
\<close>

definition boot_info :: "u8 \<Rightarrow> u8 \<Rightarrow> mem" where
  "boot_info r2 r3 = (\<lambda>_. 0)(0x200000008 := 8, 0x20000000C := 32, 0x200000013 := 0xFD, 0x20000001D := 4, 0x200000021 := 3, 0x200000024 := 32,
     0x200000028 := 6, 0x20000002C := 40, 0x200000030 := 24, 0x20000003A := r2, 0x20000003B := r3, 0x200000043 := 16, 0x200000048 := 1)"

definition boot_state :: "mem \<Rightarrow> kpaging" where
  "boot_state m = \<lparr>kmem = m, malloc_start = 0x270000, malloc_end = 0, ms = 0, me = 0, p3_table = 0xA01000, p2_table = 0xA02000, page_allocator = []\<rparr>"

lemma boot_state_sel [simp]:
  "kmem (boot_state m) = m" "malloc_start (boot_state m) = 0x270000" "p3_table (boot_state m) = 0xA01000" "me (boot_state m) = 0"
  by (simp_all add: boot_state_def)

lemma boot_info_empty: "unat x < 0x200000000 \<Longrightarrow> boot_info r2 r3 x = 0"
  by (auto simp: boot_info_def)

lemma boot_entries: "q < 512 \<Longrightarrow> p3_entry (boot_state (boot_info r2 r3)) q = 0"
proof -
  assume "q < 512"
  then have a: "unat (entry 0xA01000 (of_nat q) + of_nat i) < 0x200000000" if "i < 8" for i
    using unat_entry [of "0xA01000" q] unat_add_of_nat [of "entry 0xA01000 (of_nat q)" i] that by simp
  have "load_bytes (boot_info r2 r3) (entry 0xA01000 (of_nat q)) 8 = map (\<lambda>i. 0) [0..<8]"
    unfolding load_bytes_conv by (rule map_cong) (use boot_info_empty [OF a] in simp_all)
  then show ?thesis by (simp add: p3_entry_def U64_def upt_rec)
qed

lemma boot_state_ok:
  "paging_inv (boot_state (boot_info r2 r3))" "heap_clear 0x2000 (boot_state (boot_info r2 r3))"
  "q < 512 \<Longrightarrow> slot_free (boot_state (boot_info r2 r3)) q"
  using boot_entries
  by (simp_all add: paging_inv_def heap_clear_def present_def slot_free_def TABLE_def disjoint_blocks_def)

text \<open>The state after the first page\<close>

lemma boot_first:
  obtains s1 where "AllocatePage 8 0 7 (boot_state (boot_info r2 r3)) = Inr s1"
    "malloc_start s1 = 0x271000" "p3_table s1 = 0xA01000" "me s1 = 0"
    "\<And>q. q < 512 \<Longrightarrow> p3_entry s1 q = (if q = 8 then 0x270007 else 0)"
    "\<And>a. 0x200000000 \<le> unat a \<Longrightarrow> unat a < 0x300000000 \<Longrightarrow> U32 (kmem s1) a = U32 (boot_info r2 r3) a"
    "\<And>a. 0x200000000 \<le> unat a \<Longrightarrow> unat a < 0x300000000 \<Longrightarrow> U64 (kmem s1) a = U64 (boot_info r2 r3) a"
proof -
  let ?s = "boot_state (boot_info r2 r3)"
  have fl: "unat (7 :: u32) < 2 ^ 21" by simp
  have pre: "0 \<le> (8 :: int)" "(8 :: int) < 512" "p3_entry ?s (nat 8) AND 3 = 0" "heap_clear (0x2000 + 0) ?s" "(0 :: u64) mod PAGE_P2_SIZE = 0"
    using boot_entries [of 8 r2 r3] boot_state_ok(2) by simp_all
  obtain t s1 where e: "AllocatePage 8 0 7 ?s = Inr s1" "s1 = ?s\<lparr>malloc_start := t + 0x1000, kmem := kmem s1\<rparr>"
    "unat (malloc_start ?s) \<le> unat t" "unat t < unat (malloc_start ?s) + 0x1000"
    "TABLE (p3_entry s1 (nat 8)) = t"
    "\<forall>q < 512. p3_entry s1 q = (if q = nat 8 then t OR 7 else p3_entry ?s q)"
    "\<forall>b k. disjoint_blocks t 4096 b k \<and> disjoint_blocks (p3_table ?s) 4096 b k \<longrightarrow>
       load_bytes (kmem s1) b k = load_bytes (kmem ?s) b k"
    using AllocatePage_translation [OF boot_state_ok(1) pre fl] by (elim exE conjE) (rule that)
  have "malloc_start s1 = 0x271000"
    using e(1) pre(3) by (auto simp: AllocatePage_def mallocA_def align_up_def TABLE_def p3_entry_def Let_def split: if_splits)
  moreover have f: "malloc_start s1 = t + 0x1000" "p3_table s1 = 0xA01000" "me s1 = 0"
    using e(2) by (cases s1; simp add: boot_state_def)+
  ultimately have t: "t = 0x270000" by simp
  have fr: "load_bytes (kmem s1) a k = load_bytes (boot_info r2 r3) a k"
    if "0x200000000 \<le> unat a" "unat a < 0x300000000" "k \<le> 8" for a k
    using e(7) [rule_format, of a k] that by (simp add: t disjoint_blocks_def)
  show thesis
    using that [OF e(1)] f t e(6) boot_entries fr by (simp add: U32_def U64_def)
qed

lemma boot_info_words:
  "U32 (boot_info r2 r3) 0x200000008 = 8" "U32 (boot_info r2 r3) 0x20000000C = 32" "U64 (boot_info r2 r3) 0x200000010 = 0xFD000000"
  "U32 (boot_info r2 r3) 0x200000028 = 6" "U32 (boot_info r2 r3) 0x20000002C = 40" "U32 (boot_info r2 r3) 0x200000030 = 24"
  "U32 (boot_info r2 r3) 0x200000050 = 0" "U64 (boot_info r2 r3) 0x200000040 = 0x10000000" "U32 (boot_info r2 r3) 0x200000048 = 1"
  "U64 (boot_info 16 0) 0x200000038 = 0x100000" "U64 (boot_info 0 1) 0x200000038 = 0x1000000"
  by (simp_all add: boot_info_def U32_def U64_def bytes_numeral)

lemma boot_map:
  assumes "AllocatePage 8 0 7 (boot_state (boot_info r2 r3)) = Inr s1" and "U64 (boot_info r2 r3) 0x200000038 = region"
    and "region < 0x10000000"
  shows "MultibootProcessHeaders (kmem s1) 0x200000000 = Some \<lparr>mb_fb = 0x200000008, mb_mmap = 0x200000028, mb_acpi = 0\<rparr>"
    "\<exists>s2. AssignMallocMemoryMap 0x200000028 0x170000 s1 = Inr s2 \<and> malloc_start s2 = region + 0x170000"
    "fb_addr (kmem s1) 0x200000008 = 0xFD000000"
proof -
  obtain t1 where t: "AllocatePage 8 0 7 (boot_state (boot_info r2 r3)) = Inr t1" "me t1 = 0"
    "\<And>a. 0x200000000 \<le> unat a \<Longrightarrow> unat a < 0x300000000 \<Longrightarrow> U32 (kmem t1) a = U32 (boot_info r2 r3) a"
    "\<And>a. 0x200000000 \<le> unat a \<Longrightarrow> unat a < 0x300000000 \<Longrightarrow> U64 (kmem t1) a = U64 (boot_info r2 r3) a"
    by (rule boot_first) blast
  with assms(1) have r: "\<And>a. 0x200000000 \<le> unat a \<Longrightarrow> unat a < 0x300000000 \<Longrightarrow> U32 (kmem s1) a = U32 (boot_info r2 r3) a"
    "\<And>a. 0x200000000 \<le> unat a \<Longrightarrow> unat a < 0x300000000 \<Longrightarrow> U64 (kmem s1) a = U64 (boot_info r2 r3) a" by simp_all
  show "MultibootProcessHeaders (kmem s1) 0x200000000 = Some \<lparr>mb_fb = 0x200000008, mb_mmap = 0x200000028, mb_acpi = 0\<rparr>"
    by (simp add: MultibootProcessHeaders_def walk.simps [of _ _ _ "0x200000008"] walk.simps [of _ _ _ "0x200000028"]
        walk.simps [of _ _ _ "0x200000050"] tag_type_def next_tag_def note_tag_def r boot_info_words)
  show "fb_addr (kmem s1) 0x200000008 = 0xFD000000" by (simp add: fb_addr_def r boot_info_words)
  show "\<exists>s2. AssignMallocMemoryMap 0x200000028 0x170000 s1 = Inr s2 \<and> malloc_start s2 = region + 0x170000"
    using assms(2,3)
    by (simp add: AssignMallocMemoryMap_def mmap_walk.simps [of _ _ "0x200000038"] mmap_walk.simps [of _ _ "0x200000050"]
        read_mmap_entry_def mmap_visit_def r boot_info_words)
qed

theorem memory_setup_reuses_table_witness:
  "\<exists>s1 s2 s3. AllocatePage 8 0 7 (boot_state (boot_info 16 0)) = Inr s1 \<and> AssignMallocMemoryMap 0x200000028 0x170000 s1 = Inr s2 \<and>
     AllocatePage 3 0xC0000000 7 s2 = Inr s3 \<and> MemoryPhysical 0x200000008 s3 = 0xC0000008"
proof -
  obtain s1 where s1: "AllocatePage 8 0 7 (boot_state (boot_info 16 0)) = Inr s1" by (rule boot_first)
  obtain s2 where s2: "AssignMallocMemoryMap 0x200000028 0x170000 s1 = Inr s2" "malloc_start s2 = 0x100000 + 0x170000"
    using boot_map(2) [OF s1 boot_info_words(10)] by auto
  from memory_setup_reuses_table [OF boot_state_ok(1,2) boot_state_ok(3) boot_state_ok(3) _ _ _ s1 s2(1), of 3 "0xC0000000"] s2(2)
  obtain s3 where s3: "AllocatePage 3 0xC0000000 7 s2 = Inr s3"
    "\<forall>x. unat x < 0x40000000 \<longrightarrow> MemoryPhysical (8 * PAGE_WIDTH + x) s3 = 0xC0000000 + x"
    by auto
  have "MemoryPhysical 0x200000008 s3 = 0xC0000008" using s3(2) [rule_format, of 8] by simp
  then show ?thesis using s1 s2(1) s3(1) by blast
qed

theorem memory_setup_maps_witness:
  "\<exists>h fb s' g'. memory_setup 0 (boot_state (boot_info 0 1), example_screen) = Inr (h, fb, s', g') \<and>
     MemoryPhysical 0x1C0000123 s' = 0x123 \<and> MemoryPhysical 0xFD000010 s' = 0xFD000010"
proof -
  let ?s = "boot_state (boot_info 0 1)"
  obtain s1 where s1: "AllocatePage 8 0 7 ?s = Inr s1" "p3_table s1 = 0xA01000"
    "\<And>q. q < 512 \<Longrightarrow> p3_entry s1 q = (if q = 8 then 0x270007 else 0)" by (rule boot_first) blast
  note bm = boot_map [OF s1(1) boot_info_words(11), simplified]
  obtain s2 where s2: "AssignMallocMemoryMap 0x200000028 0x170000 s1 = Inr s2" "malloc_start s2 = 0x1170000"
    using bm(2) by auto
  note mv = heap_moved_tables [OF AssignMallocMemoryMap_frame [OF s2(1)]]
  have clear2: "heap_clear 0x12000 s2"
    using s1(2,3) s2(2) mv(2) tables_cong(1) [OF mv(1,2)]
    by (auto simp: heap_clear_def present_def TABLE_def disjoint_blocks_def)
  have "\<exists>s' g'. memory_setup 0 (?s, example_screen) =
      Inr (\<lparr>mb_fb = 0x200000008, mb_mmap = 0x200000028, mb_acpi = 0\<rparr>, fb_addr (kmem s1) 0x200000008, s', g') \<and>
    paging_inv s' \<and> page_allocator s' = replicate 512 0 \<and>
    (\<forall>va. unat va < 2 ^ 39 \<longrightarrow> MemoryPhysical va s' =
       (let q = unat (va div PAGE_WIDTH)
        in if q = 7 \<or> q = 8 then va mod PAGE_WIDTH
           else if q = 3 \<or> q \<in> {1, 2, 3, 4} then va else MemoryPhysical va ?s))"
    using memory_setup_maps [OF boot_state_ok(1,2) s1(1), of 0 "\<lparr>mb_fb = 0x200000008, mb_mmap = 0x200000028, mb_acpi = 0\<rparr>" s2 3 example_screen]
      bm s2(1) clear2 boot_state_ok(3) by simp
  then obtain s' g' where r: "memory_setup 0 (?s, example_screen) =
      Inr (\<lparr>mb_fb = 0x200000008, mb_mmap = 0x200000028, mb_acpi = 0\<rparr>, fb_addr (kmem s1) 0x200000008, s', g')"
    "\<forall>va. unat va < 2 ^ 39 \<longrightarrow> MemoryPhysical va s' = (let q = unat (va div PAGE_WIDTH)
        in if q = 7 \<or> q = 8 then va mod PAGE_WIDTH
           else if q = 3 \<or> q \<in> {1, 2, 3, 4} then va else MemoryPhysical va ?s)" by blast
  have "MemoryPhysical 0x1C0000123 s' = 0x123" "MemoryPhysical 0xFD000010 s' = 0xFD000010"
    using r(2) [rule_format, of "0x1C0000123"] r(2) [rule_format, of "0xFD000010"] by simp_all
  with r(1) show ?thesis by blast
qed

theorem late_table_address_witness:
  "\<exists>s1 s2. AllocatePage 7 0 7 (boot_state (boot_info 0 1)) = Inr s1 \<and> AllocatePage 10 0x40000000 7 (updateMallocPtr s1) = Inr s2 \<and>
     MemoryPhysical (TABLE (p3_entry s2 10)) s2 = TABLE (p3_entry s2 10) - 0x1C0000000"
proof -
  let ?s = "boot_state (boot_info 0 1)"
  have fl: "unat (7 :: u32) < 2 ^ 21" by simp
  have pre: "0 \<le> (7 :: int)" "(7 :: int) < 512" "p3_entry ?s (nat 7) AND 3 = 0" "heap_clear (0x2000 + 0) ?s" "(0 :: u64) mod PAGE_P2_SIZE = 0"
    using boot_entries [of 7 0 1] boot_state_ok(2) by simp_all
  obtain t s1 where e: "AllocatePage 7 0 7 ?s = Inr s1" "s1 = ?s\<lparr>malloc_start := t + 0x1000, kmem := kmem s1\<rparr>"
    "paging_inv s1" "TABLE (p3_entry s1 (nat 7)) = t"
    "unat (malloc_start ?s) \<le> unat t" "unat t < unat (malloc_start ?s) + 0x1000"
    "\<forall>q < 512. p3_entry s1 q = (if q = nat 7 then t OR 7 else p3_entry ?s q)"
    "\<forall>va. unat va < 2 ^ 39 \<longrightarrow> MemoryPhysical va s1 =
       (if unat (va div PAGE_WIDTH) = nat 7 then 0 + va mod PAGE_WIDTH else MemoryPhysical va ?s)"
    using AllocatePage_translation [OF boot_state_ok(1) pre fl] by (elim exE conjE) (rule that)
  define s1' where "s1' = updateMallocPtr s1"
  have f: "malloc_start s1 = t + 0x1000" "p3_table s1 = 0xA01000" using e(2) by (cases s1; simp add: boot_state_def)+
  have "unat (t + (0x1000 + 7 * 0x40000000)) = unat t + 0x1C0001000" using e(6) by (simp add: unat_word_ariths)
  then have m: "unat (malloc_start s1') = unat t + 0x1C0001000" by (simp add: s1'_def updateMallocPtr_def f add.assoc)
  have k: "kmem s1' = kmem s1" "p3_table s1' = p3_table s1" by (simp_all add: s1'_def updateMallocPtr_def)
  note tc = tables_cong [OF k]
  have clear: "heap_clear 0x2000 s1'"
    using e(4-7) m f(2) k(2) boot_entries by (auto simp: heap_clear_def present_def tc(1) disjoint_blocks_def)
  have free: "slot_free s1' 10" using e(7) boot_entries [of 10 0 1] by (simp add: slot_free_def tc(1))
  have seven: "MemoryPhysical va s1' = va mod PAGE_WIDTH" if "unat (va div PAGE_WIDTH) = 7" for va
  proof -
    have "unat va div 0x40000000 = 7" using that by (simp add: unat_div)
    then have "unat va < 2 ^ 39" by simp
    then show ?thesis using e(8) that by (simp add: tc(4))
  qed
  have "\<exists>s'. AllocatePage (int 10) 0x40000000 7 s1' = Inr s' \<and> unat (malloc_start s1') \<le> unat (TABLE (p3_entry s' 10)) \<and>
    MemoryPhysical (TABLE (p3_entry s' 10)) s' = TABLE (p3_entry s' 10) - 7 * PAGE_WIDTH"
    by (rule late_table_address [OF tc(3) [THEN iffD2, OF e(3)] clear free]) (use e(5,6) m seven in simp_all)
  then show ?thesis using e(1) by (auto simp: s1'_def)
qed

theorem load_program_table_witness:
  "\<exists>s'. load_program (\<lambda>_ _. None) zero_inode elf_blank (demo_process 0 0) 0x1000 (demo_sched 3\<lparr>kmem := (\<lambda>_. 0)(0x1000 := 97)\<rparr>) = Inr s' \<and>
     procs_inv s' \<and> length (proc_list s') \<in> {3, 4}"
proof -
  let ?s = "demo_sched 3\<lparr>kmem := (\<lambda>_. 0)(0x1000 := 97)\<rparr>"
  have "cstring (kmem ?s) 0x1000 [97]" by simp
  then have len: "strlen (kmem ?s) 0x1000 = Some (int (length [97 :: u8]))" by (rule strlen_cstring)
  obtain s' where s': "load_program (\<lambda>_ _. None) zero_inode elf_blank (demo_process 0 0) 0x1000 ?s = Inr s'"
    using len by (simp add: load_program_def EXT2_GET_INODE_FROM_PATH_def strdup_def malloc_def demo_sched_def memcpy_def)
  have l: "length (proc_list ?s) = 3" by (simp add: demo_sched_def)
  have "table_room 0x200000000 ?s" using demo_sched_inv [of 3] by (simp add: table_room_def procs_inv_def demo_sched_def)
  with load_program_table [OF s' this, of "[97]"] show ?thesis using s' l by fastforce
qed

end
