(* ===== verification/Shell.thy ===== *)
theory Shell
  imports Task Graphics
begin

text \<open>
  The kernel shell of \<open>src/src/programs/kshell.c\<close>: splitting a line into words, the line buffer that the keyboard fills, and the
  commands. Buffers on the stack are addresses of the environment. What is printed is left out.
\<close>

section \<open>Words\<close>

text \<open>A loop that need not end is an option, \<open>None\<close> if it does not.\<close>

definition or_hang :: "'a option \<Rightarrow> 'a outcome" where
  "or_hang x = (case x of None \<Rightarrow> Inl Hangs | Some a \<Rightarrow> Inr a)"

partial_function (option) trim :: "mem \<Rightarrow> u64 \<Rightarrow> u64 option" where
  "trim m str = (if m str = 0x20 \<or> m str = 9 then (if m str = 0 then Some str else trim m (str + 1)) else Some str)"

partial_function (option) findfirst_loop :: "mem \<Rightarrow> u64 \<Rightarrow> u8 \<Rightarrow> int \<Rightarrow> int option" where
  "findfirst_loop m str c i =
     (if m (str + of_int i) \<noteq> 0
      then if m (str + of_int i) = c \<or> m (str + of_int i) = 0 then Some i else findfirst_loop m str c (i + 1)
      else Some i)"

definition findfirstch :: "mem \<Rightarrow> u64 \<Rightarrow> u8 \<Rightarrow> int option" where
  "findfirstch m str c = findfirst_loop m str c 0"

definition KSHELL_NEXT_ARG :: "mem \<Rightarrow> u64 \<Rightarrow> u64 \<Rightarrow> (u64 \<times> mem) outcome" where
  "KSHELL_NEXT_ARG m str dest =
     andthen (or_hang (trim m str)) (\<lambda>str.
     if m str = 0 then Inr (0, m)
     else andthen (or_hang (findfirstch m str 0x20)) (\<lambda>len.
          let m = memcpy m dest str len
          in Inr (str + of_int len, m(dest + of_int len := 0))))"

section \<open>Commands\<close>

record kshell = ktask +
  kshell_buffer :: "u8 list"
  kshell_ptr :: int
  kshell_init :: int
  shell_term :: terminal

text \<open>The local variables: the addresses of the arrays and what the uninitialised structures hold\<close>

record shell_locals =
  l_inst :: u64
  l_file :: u64
  l_line :: u64
  l_elf :: EXT2_INODE
  l_elffile :: ELF_FILE

definition set_color :: "u32 \<Rightarrow> 'a kshell_scheme \<Rightarrow> 'a kshell_scheme" where
  "set_color c s = s\<lparr>shell_term := (shell_term s)\<lparr>tg := SetColor c (tg (shell_term s))\<rparr>\<rparr>"

definition prompt :: "'a kshell_scheme \<Rightarrow> 'a kshell_scheme" where
  "prompt s = set_color 0xFFFFFF (set_color 0x00FF00 s)"

definition clear_term :: "'a kshell_scheme \<Rightarrow> 'a kshell_scheme outcome" where
  "clear_term s =
     (let t = TERM_SET_POS 0 0 (shell_term s)
      in andthen (ClearScreen (tg t)) (\<lambda>g. Inr (s\<lparr>shell_term := t\<lparr>tg := g\<rparr>\<rparr>)))"

definition INIT :: "'a kshell_scheme \<Rightarrow> 'a kshell_scheme outcome" where
  "INIT s = (if kshell_init s = 0 then andthen (clear_term s) (\<lambda>s. Inr ((prompt s)\<lparr>kshell_init := 1\<rparr>)) else Inr s)"

text \<open>
  Reading and parsing an executable; the file counts as found only when the lookup returns 1. The first component is the parsed file, if
  there is one.
\<close>

definition read_elf ::
    "reader \<Rightarrow> shell_locals \<Rightarrow> u64 \<Rightarrow> 'a kshell_scheme \<Rightarrow> (ELF_FILE option \<times> 'a kshell_scheme) outcome" where
  "read_elf rd loc path s =
     andthen (EXT2_GET_INODE_FROM_PATH rd (l_elf loc) path s) (\<lambda>(r, elf, s).
     if r = 1
     then let (hex, s) = malloc (ucast (inode_size elf)) s
          in andthen (EXT2_READFILE rd elf hex (ucast (inode_size elf)) s) (\<lambda>(_, s).
             let (st, file) = ELF_PARSE (kmem s) (l_elffile loc) hex (sint (inode_size elf))
             in Inr (if st = 1 then Some file else None, s))
     else Inr (None, s))"

definition set_arg :: "u64 \<Rightarrow> nat \<Rightarrow> u64 \<Rightarrow> 'a kshell_scheme \<Rightarrow> 'a kshell_scheme" where
  "set_arg args i v s = s\<lparr>kmem := set_U64 (kmem s) (args + of_nat (8 * i)) v\<rparr>"

text \<open>The loop over the arguments, \<open>n\<close> rounds left; \<open>trim(NULL)\<close> is a fault.\<close>

fun arg_loop ::
    "shell_locals \<Rightarrow> u64 \<Rightarrow> nat \<Rightarrow> nat \<Rightarrow> u64 \<Rightarrow> 'a kshell_scheme \<Rightarrow> (nat \<times> 'a kshell_scheme) outcome" where
  "arg_loop loc args i 0 buf s = Inr (i, s)"
| "arg_loop loc args i (Suc n) buf s =
     (if kmem s buf = 0 then Inr (i, s)
      else andthen (KSHELL_NEXT_ARG (kmem s) buf (l_file loc)) (\<lambda>(p, m).
           if p = 0 then Inl NullDeref
           else andthen (or_hang (trim m p)) (\<lambda>buf.
                andthen (strdup (l_file loc) (s\<lparr>kmem := m\<rparr>)) (\<lambda>(d, s).
                arg_loop loc args (Suc i) n buf (set_arg args i d s)))))"

definition exec_command :: "reader \<Rightarrow> shell_locals \<Rightarrow> u64 \<Rightarrow> 'a kshell_scheme \<Rightarrow> 'a kshell_scheme outcome" where
  "exec_command rd loc buf s =
     andthen (KSHELL_NEXT_ARG (kmem s) buf (l_file loc)) (\<lambda>(buf, m).
     andthen (read_elf rd loc (l_file loc) (s\<lparr>kmem := m\<rparr>)) (\<lambda>(file, s).
     case file of
       None \<Rightarrow> Inr s
     | Some file \<Rightarrow>
         let (args, s) = malloc 80 s
         in andthen (strdup (l_file loc) s) (\<lambda>(d, s).
            andthen (USERMODE_EXEC_ELF file args 0 (set_arg args 0 d s)) (\<lambda>(_, s). Inr s))))"

definition cat_command :: "reader \<Rightarrow> shell_locals \<Rightarrow> u64 \<Rightarrow> 'a kshell_scheme \<Rightarrow> 'a kshell_scheme outcome" where
  "cat_command rd loc buf s =
     andthen (KSHELL_NEXT_ARG (kmem s) buf (l_file loc)) (\<lambda>(_, m).
     andthen (EXT2_GET_INODE_FROM_PATH rd (l_elf loc) (l_file loc) (s\<lparr>kmem := m\<rparr>)) (\<lambda>(inode, elf, s).
     if inode = 1
     then let (hex, s) = malloc (ucast (inode_size elf)) s
          in andthen (EXT2_READFILE rd elf hex (ucast (inode_size elf)) s) (\<lambda>(_, s). Inr s)
     else Inr s))"

definition run_command :: "reader \<Rightarrow> shell_locals \<Rightarrow> u64 \<Rightarrow> 'a kshell_scheme \<Rightarrow> 'a kshell_scheme outcome" where
  "run_command rd loc buf s =
     andthen (read_elf rd loc (l_inst loc) s) (\<lambda>(file, s).
     case file of
       None \<Rightarrow> Inr s
     | Some file \<Rightarrow>
         let (args, s) = malloc 80 s;
             s = s\<lparr>kmem := memset (kmem s) args 0 80\<rparr>
         in andthen (strdup (l_inst loc) s) (\<lambda>(d, s).
            andthen (arg_loop loc args 1 8 buf (set_arg args 0 d s)) (\<lambda>(i, s).
            andthen (USERMODE_EXEC_ELF file args 0 (set_arg args i 0 s)) (\<lambda>(_, s). Inr s))))"

definition evaluate :: "reader \<Rightarrow> shell_locals \<Rightarrow> u64 \<Rightarrow> 'a kshell_scheme \<Rightarrow> 'a kshell_scheme outcome" where
  "evaluate rd loc buf s =
     andthen (or_hang (trim (kmem s) buf)) (\<lambda>str.
     if kmem s str = 0 then Inr s
     else andthen (KSHELL_NEXT_ARG (kmem s) buf (l_inst loc)) (\<lambda>(buf, m).
          let s = s\<lparr>kmem := m\<rparr>
          in if has_prefix m (l_inst loc) [0x63, 0x6C, 0x72] then clear_term s
             else if has_prefix m (l_inst loc) [0x65, 0x78, 0x65, 0x63] then exec_command rd loc buf s
             else if has_prefix m (l_inst loc) [0x63, 0x61, 0x74] then cat_command rd loc buf s
             else run_command rd loc buf s))"

text \<open>
  \<open>__getch\<close>. On return the line is copied to an array of \<open>kshell_ptr+1\<close> bytes and the byte behind that array is cleared, not its last
  one.
\<close>

definition getch :: "reader \<Rightarrow> shell_locals \<Rightarrow> u8 \<Rightarrow> 'a kshell_scheme \<Rightarrow> 'a kshell_scheme outcome" where
  "getch rd loc x s =
     andthen (INIT s) (\<lambda>s.
     if x = 8 then Inr (if kshell_ptr s > 0 then s\<lparr>kshell_ptr := kshell_ptr s - 1\<rparr> else s)
     else if x = 0 then Inr s
     else if x = 10 then
       let m = store_bytes (kmem s) (l_line loc) (take (nat (kshell_ptr s)) (kshell_buffer s));
           m = m(l_line loc + of_int (kshell_ptr s + 1) := 0)
       in andthen (evaluate rd loc (l_line loc) (s\<lparr>kmem := m\<rparr>)) (\<lambda>s. Inr (prompt (s\<lparr>kshell_ptr := 0\<rparr>)))
     else andthen (array_set (kshell_buffer s) (nat (kshell_ptr s)) x) (\<lambda>b.
          Inr (s\<lparr>kshell_buffer := b, kshell_ptr := min (kshell_ptr s + 1) 1024\<rparr>)))"

section \<open>Splitting a line\<close>

definition blank :: "u8 \<Rightarrow> bool" where
  "blank c \<longleftrightarrow> c = 0x20 \<or> c = 9"

lemma trim_cstring: "cstring m a xs \<Longrightarrow> trim m a = Some (a + of_nat (length (takeWhile blank xs)))"
proof (induction xs arbitrary: a)
  case Nil
  then show ?case by (simp add: trim.simps [of m a])
next
  case (Cons x xs)
  then show ?case by (auto simp: trim.simps [of m a] blank_def add.assoc)
qed

lemma findfirst_loop_cstring:
  "cstring m (a + of_nat k) xs \<Longrightarrow> findfirst_loop m a c (int k) = Some (int (k + length (takeWhile (\<lambda>x. x \<noteq> c) xs)))"
proof (induction xs arbitrary: k)
  case Nil
  then show ?case by (simp add: findfirst_loop.simps [of m a c])
next
  case (Cons x xs)
  have "findfirst_loop m a c (int (Suc k)) = Some (int (Suc k + length (takeWhile (\<lambda>x. x \<noteq> c) xs)))"
    using Cons.prems by (intro Cons.IH) (simp add: ac_simps)
  then show ?case using Cons.prems by (simp add: findfirst_loop.simps [of m a c "int k"] add.commute)
qed

lemma cstring_drop: "cstring m a (us @ vs) \<Longrightarrow> cstring m (a + of_nat (length us)) vs"
  by (induction us arbitrary: a) (simp_all add: add.assoc [symmetric])

lemma cstring_frame:
  "cstring m a xs \<Longrightarrow> (\<And>i. i < Suc (length xs) \<Longrightarrow> m' (a + of_nat i) = m (a + of_nat i)) \<Longrightarrow> cstring m' a xs"
  unfolding cstring_def using load_bytes_cong [of "Suc (length xs)" m' a m] by simp

text \<open>The next word of a line: blanks in front are skipped, only a space ends the word.\<close>

definition next_word :: "u8 list \<Rightarrow> u8 list \<times> u8 list" where
  "next_word xs = (let ys = dropWhile blank xs in (takeWhile (\<lambda>c. c \<noteq> 0x20) ys, dropWhile (\<lambda>c. c \<noteq> 0x20) ys))"

lemma copy_word:
  assumes str: "cstring m a (w @ rest)" and apart: "disjoint_blocks dest (Suc (length w)) a (Suc (length (w @ rest)))"
  defines "m' \<equiv> (memcpy m dest a (int (length w)))(dest + of_nat (length w) := 0)"
  shows "cstring m' dest w" "cstring m' (a + of_nat (length w)) rest" "\<not> in_block dest (Suc (length w)) x \<Longrightarrow> m' x = m x"
proof -
  let ?n = "length w"
  have "disjoint_blocks dest ?n a ?n" using apart by (auto simp: disjoint_blocks_def)
  then have safe: "copy_safe dest a ?n" by (rule disjoint_copy_safe)
  have lim: "?n < 2 ^ 64" using cstring_length [OF str] by simp
  show out: "m' x = m x" if "\<not> in_block dest (Suc ?n) x" for x
    using that lim memcpy_nat [OF safe, of m x] in_block_Suc [OF lim] by (simp add: m'_def)
  show "cstring m' dest w"
  proof (rule cstringI)
    fix i assume i: "i < ?n"
    then have "(of_nat i :: u64) \<noteq> of_nat ?n" using lim by (simp add: word_unat_eq_iff unat_of_nat64)
    then have "m' (dest + of_nat i) = m (a + of_nat i)"
      using i lim memcpy_nat [OF safe, of m "dest + of_nat i"] by (simp add: m'_def in_block_def)
    then show "m' (dest + of_nat i) = w ! i \<and> w ! i \<noteq> 0"
      using cstring_nth [OF str, of i] i by (simp add: nth_append)
  qed (simp add: m'_def)
  show "cstring m' (a + of_nat ?n) rest"
  proof (rule cstring_frame)
    show "cstring m (a + of_nat ?n) rest" using cstring_drop [OF str] .
    fix i assume "i < Suc (length rest)"
    then have "\<not> in_block dest (Suc ?n) (a + of_nat (?n + i))" by (intro not_in_block_disjoint [OF apart]) simp
    then show "m' (a + of_nat ?n + of_nat i) = m (a + of_nat ?n + of_nat i)" using out by (simp add: add.assoc)
  qed
qed

text \<open>
  \<open>KSHELL_NEXT_ARG\<close> copies the next word of a line to \<open>dest\<close>, terminated, and returns the rest of the line; it writes exactly the
  word's length plus one bytes, so a word of 100 characters or more runs over the array that \<open>evaluate\<close> passes.
  Without a word it returns NULL and writes nothing.
\<close>

theorem KSHELL_NEXT_ARG_word:
  assumes line: "cstring m str xs" and word: "next_word xs = (w, rest)"
    and apart: "disjoint_blocks dest (Suc (length w)) str (Suc (length xs))"
  shows "\<exists>p m'. KSHELL_NEXT_ARG m str dest = Inr (p, m') \<and>
    (if w = [] then p = 0 \<and> m' = m
     else cstring m' dest w \<and> cstring m' p rest \<and> (\<forall>x. \<not> in_block dest (Suc (length w)) x \<longrightarrow> m' x = m x))"
proof -
  define us where "us = takeWhile blank xs"
  define ys where "ys = dropWhile blank xs"
  have xs: "xs = us @ ys" by (simp add: us_def ys_def)
  have w: "w = takeWhile (\<lambda>c. c \<noteq> 0x20) ys" "rest = dropWhile (\<lambda>c. c \<noteq> 0x20) ys" using word by (simp_all add: next_word_def ys_def Let_def)
  let ?a = "str + of_nat (length us)"
  have t: "trim m str = Some ?a" using trim_cstring [OF line] by (simp add: us_def)
  have ca: "cstring m ?a ys" using cstring_drop [of m str us ys] line xs by simp
  show ?thesis
  proof (cases "ys = []")
    case True
    then have "m ?a = 0" "w = []" using ca w by simp_all
    then show ?thesis by (simp add: KSHELL_NEXT_ARG_def or_hang_def t)
  next
    case False
    then have "\<not> blank (hd ys)" unfolding ys_def by (rule hd_dropWhile)
    then have ne: "w \<noteq> []" using False w(1) by (cases ys) (auto simp: blank_def)
    have ay: "m ?a \<noteq> 0" using False ca by (cases ys) auto
    have yw: "ys = w @ rest" using w by simp
    have "unat ?a = unat str + length us"
      using apart xs by (intro unat_add_of_nat) (auto simp: disjoint_blocks_def)
    then have "disjoint_blocks dest (Suc (length w)) ?a (Suc (length (w @ rest)))"
      using apart xs yw by (auto simp: disjoint_blocks_def)
    note copied = copy_word [OF ca [unfolded yw] this]
    have "KSHELL_NEXT_ARG m str dest = Inr (?a + of_nat (length w), (memcpy m dest ?a (int (length w)))(dest + of_nat (length w) := 0))"
      using findfirst_loop_cstring [of m ?a 0 ys "0x20"] ca ay w(1)
      by (simp add: KSHELL_NEXT_ARG_def or_hang_def t findfirstch_def)
    then show ?thesis using copied ne by auto
  qed
qed

theorem KSHELL_NEXT_ARG_word_witness:
  "\<exists>p m'. KSHELL_NEXT_ARG ((\<lambda>_. 0)(0x1000 := 0x20, 0x1001 := 0x61, 0x1002 := 0x62, 0x1003 := 0x20, 0x1004 := 0x63)) 0x1000 0x2000 = Inr (p, m') \<and>
     load_bytes m' 0x2000 3 = [0x61, 0x62, 0]"
proof -
  let ?m = "(\<lambda>_. 0)(0x1000 := 0x20, 0x1001 := 0x61, 0x1002 := 0x62, 0x1003 := 0x20, 0x1004 := 0x63) :: mem"
  have "cstring ?m 0x1000 [0x20, 0x61, 0x62, 0x20, 0x63]" by simp
  moreover have "next_word [0x20, 0x61, 0x62, 0x20, 0x63] = ([0x61, 0x62], [0x20, 0x63])"
    by (simp add: next_word_def blank_def)
  ultimately have "\<exists>p m'. KSHELL_NEXT_ARG ?m 0x1000 0x2000 = Inr (p, m') \<and> cstring m' 0x2000 [0x61, 0x62]"
    using KSHELL_NEXT_ARG_word [of ?m "0x1000" "[0x20, 0x61, 0x62, 0x20, 0x63]" "[0x61, 0x62]" "[0x20, 0x63]" "0x2000"]
    by (auto simp: disjoint_blocks_def)
  then show ?thesis by (auto simp: bytes_numeral)
qed

section \<open>Editing a line\<close>

definition edit :: "u8 \<Rightarrow> u8 list \<Rightarrow> u8 list" where
  "edit x line = (if x = 8 then butlast line else if x = 0 then line else line @ [x])"

definition shell_line :: "'a kshell_scheme \<Rightarrow> u8 list \<Rightarrow> bool" where
  "shell_line s line \<longleftrightarrow> length (kshell_buffer s) = 1024 \<and> length line \<le> 1024 \<and> kshell_ptr s = int (length line) \<and>
     take (length line) (kshell_buffer s) = line \<and> kshell_init s \<noteq> 0"

text \<open>
  C32: Every key but return edits the line: backspace takes off the last character if there is one, other keys append. The line
  buffer holds 1024 characters; one more is stored behind it.
\<close>

theorem getch_edits:
  assumes "shell_line s line" and "x \<noteq> 10"
  shows "if length line = 1024 \<and> x \<noteq> 8 \<and> x \<noteq> 0 then getch rd loc x s = Inl OutOfBounds
    else \<exists>s'. getch rd loc x s = Inr s' \<and> shell_line s' (edit x line) \<and> kmem s' = kmem s"
proof -
  have i: "INIT s = Inr s" using assms(1) by (simp add: INIT_def shell_line_def)
  have l: "length (kshell_buffer s) = 1024" "length line \<le> 1024" "kshell_ptr s = int (length line)"
    "take (length line) (kshell_buffer s) = line" "kshell_init s \<noteq> 0"
    using assms(1) by (simp_all add: shell_line_def)
  consider "x = 8" | "x = 0" | "x \<noteq> 8" "x \<noteq> 0" by blast
  then show ?thesis
  proof cases
    case 1
    have "take (length line - 1) (kshell_buffer s) = butlast line"
      using l(4) by (metis butlast_conv_take min.absorb1 diff_le_self take_take)
    then show ?thesis using l 1 by (cases line) (auto simp: getch_def i edit_def shell_line_def of_nat_diff)
  next
    case 2
    then show ?thesis using assms(1) by (simp add: getch_def i edit_def)
  next
    case 3
    have "take (Suc (length line)) ((kshell_buffer s)[length line := x]) = line @ [x]" if "length line < 1024"
      using l(1,4) that by (simp add: take_Suc_conv_app_nth take_update_cancel)
    then show ?thesis using l 3 assms(2)
      by (auto simp: getch_def i edit_def shell_line_def array_set_def)
  qed
qed

text \<open>
  Return passes the line to \<open>evaluate\<close> without terminating it: what \<open>evaluate\<close> sees is the line that was typed exactly when the byte behind
  it on the stack happened to be 0.
\<close>

theorem getch_return:
  assumes "shell_line s line" and "0 \<notin> set line"
  shows "\<exists>m. getch rd loc 10 s =
      andthen (evaluate rd loc (l_line loc) (s\<lparr>kmem := m\<rparr>)) (\<lambda>s. Inr (prompt (s\<lparr>kshell_ptr := 0\<rparr>))) \<and>
    (cstring m (l_line loc) line \<longleftrightarrow> kmem s (l_line loc + of_nat (length line)) = 0)"
proof -
  let ?m = "store_bytes (kmem s) (l_line loc) line" and ?n = "length line"
  define m' where "m' = ?m(l_line loc + of_nat (Suc ?n) := 0)"
  have l: "?n \<le> 1024" "kshell_ptr s = int ?n" "take ?n (kshell_buffer s) = line" using assms(1) by (simp_all add: shell_line_def)
  have ten: "(10 :: u8) \<noteq> 0" "(10 :: u8) \<noteq> 8" by simp_all
  have "getch rd loc 10 s = andthen (evaluate rd loc (l_line loc) (s\<lparr>kmem := m'\<rparr>)) (\<lambda>s. Inr (prompt (s\<lparr>kshell_ptr := 0\<rparr>)))"
    using assms(1) l ten by (simp add: m'_def getch_def INIT_def shell_line_def add.commute)
  moreover have at: "m' (l_line loc + of_nat i) = (if i < ?n then line ! i else kmem s (l_line loc + of_nat i))" if "i \<le> ?n" for i
  proof -
    have "(of_nat i :: u64) \<noteq> of_nat (Suc ?n)" using that l(1) by (simp add: word_unat_eq_iff unat_of_nat64 del: of_nat_Suc)
    then show ?thesis using that l(1) by (simp add: m'_def store_bytes_apply in_block_def del: of_nat_Suc)
  qed
  have "cstring m' (l_line loc) line \<longleftrightarrow> kmem s (l_line loc + of_nat ?n) = 0"
  proof
    assume "cstring m' (l_line loc) line"
    from cstring_end [OF this] at [of ?n] show "kmem s (l_line loc + of_nat ?n) = 0" by simp
  next
    assume z: "kmem s (l_line loc + of_nat ?n) = 0"
    show "cstring m' (l_line loc) line"
      by (rule cstringI) (use at z assms(2) in \<open>auto dest: nth_mem\<close>)
  qed
  ultimately show ?thesis by blast
qed

section \<open>Finding the program\<close>

text \<open>An inode taken from a sector of the disk; the sector number has gone through an \<open>int\<close>.\<close>

definition from_sector :: "reader \<Rightarrow> u64 \<Rightarrow> EXT2_INODE \<Rightarrow> bool" where
  "from_sector rd v c \<longleftrightarrow> (\<exists>val bs k. v = of_int (int32 val) \<and> rd v 1 = Some bs \<and> c = decode_inode (take 128 (drop k bs)))"

lemma int32_idem: "int32 (int32 x) = int32 x"
  unfolding int32_def by (simp add: mod_simps)

lemma FIND_INODE_sector:
  assumes "EXT2_FIND_INODE_IN_DIR rd parent out name s = Inr (v, c)" and "v \<noteq> 0"
  shows "from_sector rd v c"
  using assms
  by (auto simp: EXT2_FIND_INODE_IN_DIR_def EXT2_INODE_FROM_ID_def inode_place_def andthen_Inr_iff from_sector_def Let_def
      split: if_splits option.splits)

lemma path_loop_sector:
  assumes "path_loop rd path f parent child s = Some (Inr (v, c, s'))"
  shows "v = 0 \<or> from_sector rd v c \<or> v = f \<and> c = child"
proof -
  let ?P = "\<lambda>rd path f parent child s r. \<forall>v c s'. r = Inr (v, c, s') \<longrightarrow> v = 0 \<or> from_sector rd v c \<or> v = f \<and> c = child"
  have "\<forall>v c s'. r = Inr (v, c, s') \<longrightarrow> v = 0 \<or> from_sector rd v c \<or> v = f \<and> c = child"
    if "path_loop rd path f parent child s = Some r" for r
    using that
  proof (rule path_loop.raw_induct [where P = ?P, rotated])
    fix g rd path f parent child and s :: "'a kext2_scheme" and r
    assume ih: "\<And>rd path f parent child s r. g rd path f parent child s = Some r \<Longrightarrow> ?P rd path f parent child s r"
      and eq: "(if path = 0 then Some (Inr (f, child, s))
        else let (m, path') = strntokch (kmem s) path 1000 0x2f; s = s\<lparr>kmem := m\<rparr>
           in case EXT2_FIND_INODE_IN_DIR rd parent child path s of
                Inl e \<Rightarrow> Some (Inl e)
              | Inr (f, child) \<Rightarrow> if f = 0 then Some (Inr (0, zero_inode, s)) else g rd path' f child child s) = Some r"
    obtain m path' where tok: "strntokch (kmem s) path 1000 0x2f = (m, path')" by (cases "strntokch (kmem s) path 1000 0x2f")
    from eq show "?P rd path f parent child s r"
      by (auto simp: tok Let_def split: if_splits sum.splits prod.splits dest!: ih dest: FIND_INODE_sector)
  qed
  with assms show ?thesis by blast
qed

lemma long_to_int_of_int: "long_to_int (of_int (int32 x)) = int32 x"
proof -
  define y where "y = int32 x"
  have y: "- (2 ^ 31) \<le> y" "y < 2 ^ 31" by (simp_all add: y_def int32_def)
  have "ucast (of_int y :: u64) = (of_int y :: u32)" by (rule bit_word_eqI) (simp add: bit_simps)
  then have "long_to_int (of_int y) = signed_take_bit 31 y" by (simp add: long_to_int_def signed_of_int)
  also have "\<dots> = y" using y by (intro signed_take_bit_int_eq_self) simp_all
  finally show ?thesis by (simp add: y_def)
qed

lemma lookup_sector:
  assumes "EXT2_GET_INODE_FROM_PATH rd child path s = Inr (r, c, s')" and "r \<noteq> 0"
  shows "\<exists>bs k. rd (of_int r) 1 = Some bs \<and> c = decode_inode (take 128 (drop k bs))"
proof -
  obtain t p v where pl: "path_loop rd p 0 (ext2_root t) child t = Some (Inr (v, c, s'))" "r = long_to_int v"
    using assms by (auto simp: EXT2_GET_INODE_FROM_PATH_def andthen_Inr_iff split: if_splits option.splits)
  have "long_to_int 0 = 0" by (simp add: long_to_int_def)
  then have "from_sector rd v c" using path_loop_sector [OF pl(1)] pl(2) assms(2) by auto
  then obtain val bs k where "v = of_int (int32 val)" "rd v 1 = Some bs" "c = decode_inode (take 128 (drop k bs))"
    by (auto simp: from_sector_def)
  then show ?thesis using pl(2) by (auto simp: long_to_int_of_int)
qed

text \<open>
  A successful lookup returns the number of the sector that holds the inode, not 1. So the shell, which tests for 1, only ever accepts
  a file whose inode is in sector 1 of the disk, where the partition table has its header.
\<close>

theorem read_elf_sector_one:
  assumes "read_elf rd loc path s = Inr (f, s')"
  shows "f = None \<or> (\<exists>bs k c s1 v hex n. rd 1 1 = Some bs \<and> c = decode_inode (take 128 (drop k bs)) \<and>
    EXT2_READFILE rd c hex n s1 = Inr (v, s') \<and> ELF_PARSE (kmem s') (l_elffile loc) hex (sint (inode_size c)) = (1, the f))"
proof (cases f)
  case (Some e)
  obtain r c s1 where l: "EXT2_GET_INODE_FROM_PATH rd (l_elf loc) path s = Inr (r, c, s1)" "r = 1"
    using assms Some by (auto simp: read_elf_def andthen_Inr_iff split: if_splits)
  obtain bs k where "rd 1 1 = Some bs" "c = decode_inode (take 128 (drop k bs))" using lookup_sector [OF l(1)] l(2) by auto
  moreover obtain hex s2 where m: "malloc (ucast (inode_size c)) s1 = (hex, s2)" by (cases "malloc (ucast (inode_size c)) s1")
  moreover obtain v s3 where rf: "EXT2_READFILE rd c hex (ucast (inode_size c)) s2 = Inr (v, s3)"
    using assms l m by (auto simp: read_elf_def andthen_Inr_iff)
  moreover obtain st ef where ep: "ELF_PARSE (kmem s3) (l_elffile loc) hex (sint (inode_size c)) = (st, ef)" by fastforce
  moreover have "s3 = s'" "st = 1" "ef = e" using assms Some l m rf ep by (auto simp: read_elf_def split: if_splits)
  ultimately show ?thesis unfolding Some option.sel by blast
qed simp

section \<open>Examples\<close>

definition demo_shell :: "mem \<Rightarrow> u8 list \<Rightarrow> kshell" where
  "demo_shell m line = ktask.extend (demo_tasks\<lparr>kmem := m\<rparr>)
     (kshell.fields (line @ replicate (1024 - length line) 0) (int (length line)) 1 \<lparr>tx = 0, ty = 0, tg = example_screen\<rparr>)"

definition demo_locals :: shell_locals where
  "demo_locals = \<lparr>l_inst = 0x5000, l_file = 0x6000, l_line = 0x7000, l_elf = zero_inode, l_elffile = elf_blank\<rparr>"

lemma demo_shell_sel [simp]:
  "kmem (demo_shell m line) = m" "kshell_buffer (demo_shell m line) = line @ replicate (1024 - length line) 0"
  "kshell_ptr (demo_shell m line) = int (length line)" "kshell_init (demo_shell m line) = 1"
  by (simp_all add: demo_shell_def demo_tasks_def demo_sched_def ksched.defs ktask.defs kshell.defs)

lemma demo_shell_line: "length line \<le> 1024 \<Longrightarrow> shell_line (demo_shell m line) line"
  by (simp add: shell_line_def)

theorem getch_edits_witness:
  "(\<exists>s'. getch (\<lambda>_ _. None) demo_locals 8 (demo_shell (\<lambda>_. 0) [0x6C, 0x73]) = Inr s' \<and> shell_line s' [0x6C]) \<and>
   getch (\<lambda>_ _. None) demo_locals 0x61 (demo_shell (\<lambda>_. 0) (replicate 1024 0x61)) = Inl OutOfBounds"
proof
  show "\<exists>s'. getch (\<lambda>_ _. None) demo_locals 8 (demo_shell (\<lambda>_. 0) [0x6C, 0x73]) = Inr s' \<and> shell_line s' [0x6C]"
    using getch_edits [OF demo_shell_line, of "[0x6C, 0x73]" 8 "\<lambda>_ _. None" demo_locals "\<lambda>_. 0"] by (auto simp: edit_def)
  show "getch (\<lambda>_ _. None) demo_locals 0x61 (demo_shell (\<lambda>_. 0) (replicate 1024 0x61)) = Inl OutOfBounds"
    using getch_edits [OF demo_shell_line, of "replicate 1024 0x61" "0x61" "\<lambda>_ _. None" demo_locals "\<lambda>_. 0"]
    by (simp split: if_splits)
qed

theorem getch_return_witness:
  "\<exists>m. getch (\<lambda>_ _. None) demo_locals 10 (demo_shell ((\<lambda>_. 0)(0x7001 := 0x21)) [0x61]) =
      andthen (evaluate (\<lambda>_ _. None) demo_locals 0x7000 (demo_shell m [0x61])) (\<lambda>s. Inr (prompt (s\<lparr>kshell_ptr := 0\<rparr>))) \<and>
    \<not> cstring m 0x7000 [0x61]"
proof -
  have "demo_shell m0 line\<lparr>kmem := m\<rparr> = demo_shell m line" for m m0 line by (simp add: demo_shell_def demo_tasks_def demo_sched_def ksched.defs ktask.defs kshell.defs)
  then show ?thesis
    using getch_return [OF demo_shell_line, of "[0x61]" "\<lambda>_ _. None" demo_locals "(\<lambda>_. 0)(0x7001 := 0x21)"]
    by (auto simp: demo_locals_def)
qed

theorem read_elf_sector_one_witness:
  "\<exists>f s'. read_elf (\<lambda>_ _. None) demo_locals 0x1000 (demo_shell ((\<lambda>_. 0)(0x1000 := 97)) []) = Inr (f, s') \<and> f = None"
proof -
  let ?s = "demo_shell ((\<lambda>_. 0)(0x1000 := 97)) []"
  have "cstring (kmem ?s) 0x1000 [97]" by simp
  then have len: "strlen (kmem ?s) 0x1000 = Some (int (length [97 :: u8]))" by (rule strlen_cstring)
  obtain f s' where r: "read_elf (\<lambda>_ _. None) demo_locals 0x1000 ?s = Inr (f, s')"
    using len by (simp add: read_elf_def EXT2_GET_INODE_FROM_PATH_def strdup_def malloc_def memcpy_def demo_shell_def demo_tasks_def demo_sched_def ksched.defs ktask.defs kshell.defs)
  from read_elf_sector_one [OF r] have "f = None" by auto
  with r show ?thesis by blast
qed

end
