(* ===== verification/AhciInit.thy ===== *)
theory AhciInit
  imports Ahci Pci Paging
begin

text \<open>
  Bringing up the SATA controller (\<open>AHCI_INIT\<close> and \<open>AHCI_REBASE\<close> of \<open>src/src/drivers/ahci/ahci.c\<close>): the memory
  for the command lists, the scan of the ports and what each port's registers and command structures are set to. The registers
  of the controller are device registers in the sense of theory \<open>Io\<close>, the command structures are bytes in memory.
\<close>

section \<open>Registers\<close>

text \<open>Offsets in \<open>AHCI_HBA_PORT\<close>, which has 0x80 bytes, and the address of port \<open>i\<close> in \<open>AHCI_HBA_MEM\<close>.\<close>

abbreviation (input) "PORT_CLB \<equiv> 0x00 :: u64"
abbreviation (input) "PORT_FB \<equiv> 0x08 :: u64"
abbreviation (input) "PORT_CMD \<equiv> 0x18 :: u64"
abbreviation (input) "PORT_SIG \<equiv> 0x24 :: u64"
abbreviation (input) "PORT_SSTS \<equiv> 0x28 :: u64"

definition hba_port :: "u64 \<Rightarrow> nat \<Rightarrow> u64" where
  "hba_port hba i = hba + 0x100 + of_nat (0x80 * i)"

text \<open>\<open>polls hw a k h\<close> is the history after \<open>k\<close> reads of one register.\<close>

fun polls :: "hardware \<Rightarrow> u64 \<Rightarrow> nat \<Rightarrow> history \<Rightarrow> history" where
  "polls hw a 0 h = h"
| "polls hw a (Suc k) h = snd (mmio_read hw a (polls hw a k h))"

definition poll_value :: "hardware \<Rightarrow> u64 \<Rightarrow> history \<Rightarrow> nat \<Rightarrow> u32" where
  "poll_value hw a h k = mmio_l hw (polls hw a k h) a"

definition mmio_modify :: "hardware \<Rightarrow> u64 \<Rightarrow> (u32 \<Rightarrow> u32) \<Rightarrow> history \<Rightarrow> history" where
  "mmio_modify hw a f h = (let (v, h) = mmio_read hw a h in mmio_write a (f v) h)"

text \<open>Starting and stopping a port on its registers; the loops are those of theory \<open>Ahci\<close>.\<close>

definition start_port :: "hardware \<Rightarrow> u64 \<Rightarrow> history \<Rightarrow> history outcome" where
  "start_port hw port h =
     (let a = port + PORT_CMD
      in case wait_clear (poll_value hw a h) AHCI_HBA_PxCMD_CR 0 of
           None \<Rightarrow> Inl Hangs
         | Some k \<Rightarrow> Inr (mmio_modify hw a (\<lambda>v. v OR AHCI_HBA_PxCMD_ST)
             (mmio_modify hw a (\<lambda>v. v OR AHCI_HBA_PxCMD_FRE) (polls hw a (k + 1) h))))"

definition stop_port :: "hardware \<Rightarrow> u64 \<Rightarrow> history \<Rightarrow> history outcome" where
  "stop_port hw port h =
     (let a = port + PORT_CMD;
          h = mmio_modify hw a (\<lambda>v. v AND NOT AHCI_HBA_PxCMD_ST) h;
          h = mmio_modify hw a (\<lambda>v. v AND NOT AHCI_HBA_PxCMD_FRE) h
      in case stop_wait (poll_value hw a h) 0 of None \<Rightarrow> Inl Hangs | Some k \<Rightarrow> Inr (polls hw a (k + 2) h))"

section \<open>Command structures\<close>

record kahci = kpaging +
  commandlist :: u64
  recv :: u64
  commandTable :: u64
  portSATA :: u64
  ahci_io :: history

definition set_U16 :: "mem \<Rightarrow> u64 \<Rightarrow> u16 \<Rightarrow> mem" where
  "set_U16 m a v = store_bytes m a (le_bytes 2 (unat v))"

text \<open>
  One round of the loop over the command headers. The code takes the address of table \<open>i\<close> (0x90 bytes each) for an array of
  headers (0x20 bytes each) and indexes it with \<open>i\<close> again; \<open>prdtl\<close>, \<open>ctba\<close> and \<open>ctbau\<close> are at offsets 2, 8 and 12.
\<close>

definition set_header :: "u64 \<Rightarrow> nat \<Rightarrow> nat \<Rightarrow> mem \<Rightarrow> mem" where
  "set_header cmdtable portNumber i m =
     (let hdr = cmdtable + of_nat (0x90 * i) + of_nat (0x20 * i);
          m = set_U16 m (hdr + 2) 8;
          m = set_U32 m (hdr + 8) (ucast cmdtable + push_bit 13 (of_nat portNumber) + push_bit 8 (of_nat i));
          m = set_U32 m (hdr + 12) 0
      in memset m (ucast (U32 m (hdr + 8))) 0 256)"

text \<open>\<open>commandlist\<close> and \<open>recv\<close> are typed pointers, with elements of 0x20 and 250 bytes.\<close>

definition list_base :: "nat \<Rightarrow> 'a kahci_scheme \<Rightarrow> u32" where
  "list_base portNumber s = ucast (commandlist s + of_nat (0x20 * (portNumber * 1024)))"

definition fis_base :: "nat \<Rightarrow> 'a kahci_scheme \<Rightarrow> u32" where
  "fis_base portNumber s = ucast (recv s + of_nat (250 * (portNumber * 256)))"

text \<open>A base register is written, its upper half cleared, and the memory it then names is set to 0.\<close>

definition set_base :: "hardware \<Rightarrow> u64 \<Rightarrow> u32 \<Rightarrow> nat \<Rightarrow> 'a kahci_scheme \<Rightarrow> 'a kahci_scheme" where
  "set_base hw a v n s =
     (let h = mmio_write (a + 4) 0 (mmio_write a v (ahci_io s));
          (b, h) = mmio_read hw a h
      in s\<lparr>ahci_io := h, kmem := memset (kmem s) (ucast b) 0 (int n)\<rparr>)"

definition AHCI_REBASE :: "hardware \<Rightarrow> u64 \<Rightarrow> nat \<Rightarrow> 'a kahci_scheme \<Rightarrow> 'a kahci_scheme outcome" where
  "AHCI_REBASE hw port portNumber s =
     andthen (stop_port hw port (ahci_io s)) (\<lambda>h.
     let s = set_base hw (port + PORT_CLB) (list_base portNumber s) 1024 (s\<lparr>ahci_io := h\<rparr>);
         s = set_base hw (port + PORT_FB) (fis_base portNumber s) 256 s;
         s = s\<lparr>kmem := fold (set_header (commandTable s) portNumber) [0..<32] (kmem s)\<rparr>
     in andthen (start_port hw port (ahci_io s)) (\<lambda>h. Inr (s\<lparr>ahci_io := h\<rparr>)))"

section \<open>The scan of the ports\<close>

record AHCI_DATA =
  ata :: "u64 list"
  n_ata :: nat

definition init_port ::
    "hardware \<Rightarrow> u64 \<Rightarrow> nat \<Rightarrow> AHCI_DATA \<times> 'a kahci_scheme \<Rightarrow> (AHCI_DATA \<times> 'a kahci_scheme) outcome" where
  "init_port hw hba i = (\<lambda>(data, s).
     let (pi, h) = mmio_read hw (hba + 0x0C) (ahci_io s)
     in if drop_bit i pi AND 1 = 0 then Inr (data, s\<lparr>ahci_io := h\<rparr>)
        else let (ssts, h) = mmio_read hw (hba_port hba i + PORT_SSTS) h;
                 ipm = (ucast (drop_bit 8 ssts AND 0x0F) :: u8);
                 det = (ucast (ssts AND 0x0F) :: u8)
             in if det = 0x3 \<and> ipm = 0x1
                then andthen (AHCI_REBASE hw (hba_port hba i) i (s\<lparr>ahci_io := h\<rparr>)) (\<lambda>s.
                     let (sig, h) = mmio_read hw (hba_port hba i + PORT_SIG) (ahci_io s);
                         s = s\<lparr>ahci_io := h\<rparr>
                     in if sig = 0x101
                        then andthen (array_set (ata data) (n_ata data) (hba_port hba i)) (\<lambda>l.
                             Inr (\<lparr>ata = l, n_ata = n_ata data + 1\<rparr>, s\<lparr>portSATA := hba_port hba i\<rparr>))
                        else Inr (data, s))
                else Inr (data, s\<lparr>ahci_io := h\<rparr>))"

definition ahci_blocks :: "'a kahci_scheme \<Rightarrow> 'a kahci_scheme outcome" where
  "ahci_blocks s =
     andthen (mallocA (0x20 * 32) 4096 s) (\<lambda>(cl, s).
     andthen (mallocA 250 4096 s) (\<lambda>(rc, s).
     andthen (mallocA (0x2000 * 32) 4096 s) (\<lambda>(ct, s).
     Inr (s\<lparr>commandlist := MemoryPhysical cl s, recv := MemoryPhysical rc s, commandTable := MemoryPhysical ct s\<rparr>))))"

definition AHCI_INIT :: "hardware \<Rightarrow> PCI_device \<Rightarrow> 'a kahci_scheme \<Rightarrow> (AHCI_DATA \<times> 'a kahci_scheme) outcome" where
  "AHCI_INIT hw device s =
     andthen (ahci_blocks s) (\<lambda>s.
     let (ahci, h) = PCI_GetGeneralDevice hw device (ahci_io s)
     in andthen (array_get (BAR ahci) 5) (\<lambda>bar.
        for_each (init_port hw (ucast (bar AND 0xFFFFF000))) [0..<32]
          (\<lparr>ata = replicate 8 0, n_ata = 0\<rparr>, s\<lparr>ahci_io := h\<rparr>)))"

section \<open>What the controller promises\<close>

text \<open>
  The command register of a port as the AHCI specification describes it (section 3.3.7): the start bit ST (bit 0) reads as
  written. After ST was cleared, CR reads 0 from some read on. After the enable bit FRE (bit 4) was cleared as well, so does FR; as long
  as FRE is set nothing is assumed of FR.
\<close>

definition engine_stops :: "hardware \<Rightarrow> u64 \<Rightarrow> bool" where
  "engine_stops hw a \<longleftrightarrow>
     (\<forall>h c. last_write a h = Some c \<longrightarrow> bit (mmio_l hw h a) 0 = bit c 0 \<and>
        (\<not> bit c 0 \<longrightarrow> (\<exists>k. \<forall>j\<ge>k. poll_value hw a h j AND AHCI_HBA_PxCMD_CR = 0)) \<and>
        (\<not> bit c 0 \<longrightarrow> \<not> bit c 4 \<longrightarrow> (\<exists>k. \<forall>j\<ge>k. poll_value hw a h j AND AHCI_HBA_PxCMD_FR = 0)))"

section \<open>Starting and stopping\<close>

lemma last_write_polls [simp]: "last_write b (polls hw a k h) = last_write b h"
  by (induction k) simp_all

lemma last_write_modify:
  "last_write b (mmio_modify hw a f h) = (if b = a then Some (f (mmio_l hw h a)) else last_write b h)"
  by (simp add: mmio_modify_def split_beta mmio_read_def Let_def)
    (simp add: last_write_def mmio_write_def)

lemma wait_clear_returns:
  assumes "\<forall>j\<ge>k. reads j AND msk = 0"
  shows "\<exists>r. wait_clear reads msk i = Some r"
proof (induction "k - i" arbitrary: i)
  case 0
  then show ?case using assms by (simp add: wait_clear.simps [of reads msk i])
next
  case (Suc d)
  then show ?case using Suc.hyps(1) [of "Suc i"] by (simp add: wait_clear.simps [of reads msk i])
qed

lemma stop_wait_returns:
  assumes "\<forall>j\<ge>k. reads j AND AHCI_HBA_PxCMD_FR = 0 \<and> reads j AND AHCI_HBA_PxCMD_CR = 0"
  shows "\<exists>r. stop_wait reads i = Some r"
proof (induction "k - i" arbitrary: i rule: less_induct)
  case less
  show ?case
  proof (cases "k \<le> i")
    case True
    then show ?thesis using assms by (simp add: stop_wait.simps [of reads i])
  next
    case False
    then have "\<exists>r. stop_wait reads (Suc i) = Some r" "\<exists>r. stop_wait reads (Suc (Suc i)) = Some r"
      by (simp_all add: less)
    then show ?thesis by (simp add: stop_wait.simps [of reads i])
  qed
qed

text \<open>A port is stopped and started again, with the engine's run bit first cleared and then set.\<close>

lemma stop_port_stops:
  assumes "engine_stops hw (port + PORT_CMD)"
  shows "\<exists>h' c. stop_port hw port h = Inr h' \<and> last_write (port + PORT_CMD) h' = Some c \<and> \<not> bit c 0 \<and> \<not> bit c 4 \<and>
    (\<forall>b. b \<noteq> port + PORT_CMD \<longrightarrow> last_write b h' = last_write b h)"
proof -
  let ?a = "port + PORT_CMD"
  define h1 where "h1 = mmio_modify hw ?a (\<lambda>v. v AND NOT AHCI_HBA_PxCMD_ST) h"
  define h2 where "h2 = mmio_modify hw ?a (\<lambda>v. v AND NOT AHCI_HBA_PxCMD_FRE) h1"
  have "last_write ?a h1 = Some (mmio_l hw h ?a AND NOT AHCI_HBA_PxCMD_ST)" by (simp add: h1_def last_write_modify)
  moreover have "\<not> bit (mmio_l hw h ?a AND NOT AHCI_HBA_PxCMD_ST) 0" by (simp add: bit_simps)
  ultimately have b1: "\<not> bit (mmio_l hw h1 ?a) 0" using assms by (auto simp: engine_stops_def)
  define c where "c = mmio_l hw h1 ?a AND NOT AHCI_HBA_PxCMD_FRE"
  have fre: "bit (AHCI_HBA_PxCMD_FRE :: u32) 4" by code_simp
  have c: "last_write ?a h2 = Some c" "\<not> bit c 0" "\<not> bit c 4"
    using b1 fre by (simp_all add: h2_def last_write_modify c_def bit_and_iff bit_not_iff)
  then obtain k l where "\<forall>j\<ge>k. poll_value hw ?a h2 j AND AHCI_HBA_PxCMD_CR = 0" "\<forall>j\<ge>l. poll_value hw ?a h2 j AND AHCI_HBA_PxCMD_FR = 0"
    using assms unfolding engine_stops_def by blast
  then have "\<forall>j\<ge>max k l. poll_value hw ?a h2 j AND AHCI_HBA_PxCMD_FR = 0 \<and> poll_value hw ?a h2 j AND AHCI_HBA_PxCMD_CR = 0" by simp
  then obtain r where r: "stop_wait (poll_value hw ?a h2) 0 = Some r" using stop_wait_returns by blast
  have "stop_port hw port h = Inr (polls hw ?a (r + 2) h2)" using r by (simp add: stop_port_def h1_def h2_def Let_def)
  moreover have "last_write b h2 = last_write b h" if "b \<noteq> ?a" for b
    using that by (simp add: h1_def h2_def last_write_modify)
  ultimately show ?thesis using c by auto
qed

lemma start_port_starts:
  assumes "engine_stops hw (port + PORT_CMD)" "last_write (port + PORT_CMD) h = Some c" "\<not> bit c 0"
  shows "\<exists>h' c'. start_port hw port h = Inr h' \<and> last_write (port + PORT_CMD) h' = Some c' \<and> bit c' 0 \<and>
    (\<forall>b. b \<noteq> port + PORT_CMD \<longrightarrow> last_write b h' = last_write b h)"
proof -
  let ?a = "port + PORT_CMD"
  obtain k where "\<forall>j\<ge>k. poll_value hw ?a h j AND AHCI_HBA_PxCMD_CR = 0" using assms unfolding engine_stops_def by blast
  then obtain r where r: "wait_clear (poll_value hw ?a h) AHCI_HBA_PxCMD_CR 0 = Some r" using wait_clear_returns by blast
  define h1 where "h1 = polls hw ?a (r + 1) h"
  define h2 where "h2 = mmio_modify hw ?a (\<lambda>v. v OR AHCI_HBA_PxCMD_FRE) h1"
  have "start_port hw port h = Inr (mmio_modify hw ?a (\<lambda>v. v OR AHCI_HBA_PxCMD_ST) h2)"
    by (simp add: start_port_def r h1_def h2_def Let_def)
  moreover have "last_write b h2 = last_write b h" if "b \<noteq> ?a" for b
    using that by (simp add: h2_def h1_def last_write_modify del: polls.simps)
  ultimately show ?thesis by (auto simp: last_write_modify bit_simps)
qed

text \<open>The command structures do not matter for whether a port comes up.\<close>

lemma set_base_last_write:
  "b \<noteq> a \<Longrightarrow> b \<noteq> a + 4 \<Longrightarrow> last_write b (ahci_io (set_base hw a v n s)) = last_write b (ahci_io s)"
  by (simp add: set_base_def split_beta Let_def)

lemma set_base_kept [simp]:
  "portSATA (set_base hw a v n s) = portSATA s" "commandTable (set_base hw a v n s) = commandTable s"
  "commandlist (set_base hw a v n s) = commandlist s" "recv (set_base hw a v n s) = recv s"
  by (simp_all add: set_base_def split_beta Let_def)

lemma base_kept [simp]:
  "fis_base n (set_base hw a v k s) = fis_base n s" "fis_base n (s\<lparr>ahci_io := h\<rparr>) = fis_base n s"
  "list_base n (s\<lparr>ahci_io := h\<rparr>) = list_base n s"
  by (simp_all add: fis_base_def list_base_def)

lemma AHCI_REBASE_returns:
  assumes "engine_stops hw (port + PORT_CMD)"
  shows "\<exists>h h'. stop_port hw port (ahci_io s) = Inr h \<and>
    (let s1 = set_base hw (port + PORT_CLB) (list_base n s) 1024 (s\<lparr>ahci_io := h\<rparr>);
         s2 = set_base hw (port + PORT_FB) (fis_base n s) 256 s1
     in AHCI_REBASE hw port n s = Inr (s2\<lparr>kmem := fold (set_header (commandTable s) n) [0..<32] (kmem s2), ahci_io := h'\<rparr>) \<and>
        (\<forall>b. b \<noteq> port + PORT_CMD \<longrightarrow> last_write b h' = last_write b (ahci_io s2)))"
proof -
  obtain h c where h: "stop_port hw port (ahci_io s) = Inr h" "last_write (port + PORT_CMD) h = Some c" "\<not> bit c 0"
    using stop_port_stops [OF assms] by blast
  define s1 where "s1 = set_base hw (port + PORT_CLB) (list_base n s) 1024 (s\<lparr>ahci_io := h\<rparr>)"
  define s2 where "s2 = set_base hw (port + PORT_FB) (fis_base n s) 256 s1"
  have "last_write (port + PORT_CMD) (ahci_io s2) = Some c"
    using h(2) by (simp add: s2_def s1_def set_base_last_write)
  then obtain h' where h': "start_port hw port (ahci_io s2) = Inr h'"
      "\<forall>b. b \<noteq> port + PORT_CMD \<longrightarrow> last_write b h' = last_write b (ahci_io s2)"
    using start_port_starts [OF assms _ h(3)] by blast
  have "AHCI_REBASE hw port n s = Inr (s2\<lparr>kmem := fold (set_header (commandTable s) n) [0..<32] (kmem s2), ahci_io := h'\<rparr>)"
    using h' by (simp add: AHCI_REBASE_def h s1_def s2_def Let_def)
  then show ?thesis using h(1) h'(2) by (auto simp: Let_def s1_def s2_def)
qed

section \<open>The ports found\<close>

text \<open>The controller's description of itself: the ports it has, their link states and the signatures of their devices.\<close>

definition adapter :: "hardware \<Rightarrow> u64 \<Rightarrow> u32 \<Rightarrow> (nat \<Rightarrow> u32) \<Rightarrow> (nat \<Rightarrow> u32) \<Rightarrow> bool" where
  "adapter hw hba pi ssts sig \<longleftrightarrow>
     (\<forall>h. mmio_l hw h (hba + 0x0C) = pi) \<and>
     (\<forall>i<32. engine_stops hw (hba_port hba i + PORT_CMD) \<and>
        (\<forall>h. mmio_l hw h (hba_port hba i + PORT_SSTS) = ssts i \<and> mmio_l hw h (hba_port hba i + PORT_SIG) = sig i))"

definition drive_at :: "u32 \<Rightarrow> (nat \<Rightarrow> u32) \<Rightarrow> (nat \<Rightarrow> u32) \<Rightarrow> nat \<Rightarrow> bool" where
  "drive_at pi ssts sig i \<longleftrightarrow> bit pi i \<and> ssts i AND 0x0F = 3 \<and> drop_bit 8 (ssts i) AND 0x0F = 1 \<and> sig i = 0x101"

definition drive_ports :: "u64 \<Rightarrow> u32 \<Rightarrow> (nat \<Rightarrow> u32) \<Rightarrow> (nat \<Rightarrow> u32) \<Rightarrow> nat \<Rightarrow> u64 list" where
  "drive_ports hba pi ssts sig n = map (hba_port hba) (filter (drive_at pi ssts sig) [0..<n])"

lemma nibble_u8: "(ucast (w AND 0x0F) :: u8) = ucast (v AND 0x0F) \<longleftrightarrow> w AND 0x0F = v AND 0x0F" for w v :: u32
proof
  assume "(ucast (w AND 0x0F) :: u8) = ucast (v AND 0x0F)"
  then have "bit (w AND 0x0F) k = bit (v AND 0x0F) k" for k
    unfolding byte_masks by (auto simp: bit_simps dest!: arg_cong [where f = "\<lambda>x. bit x k"])
  then show "w AND 0x0F = v AND 0x0F" by (rule bit_eqI)
qed simp

lemma init_port_step:
  assumes ad: "adapter hw hba pi ssts sig" and i: "i < 32"
  shows "\<exists>s'. init_port hw hba i (d, s) =
    (if drive_at pi ssts sig i
     then andthen (array_set (ata d) (n_ata d) (hba_port hba i)) (\<lambda>l. Inr (\<lparr>ata = l, n_ata = n_ata d + 1\<rparr>, s'))
     else Inr (d, s')) \<and> portSATA s' = (if drive_at pi ssts sig i then hba_port hba i else portSATA s)"
proof -
  have v: "mmio_l hw h (hba + 0x0C) = pi" "mmio_l hw h (hba_port hba i + PORT_SSTS) = ssts i"
    "mmio_l hw h (hba_port hba i + PORT_SIG) = sig i" for h using ad i by (auto simp: adapter_def)
  have en: "engine_stops hw (hba_port hba i + PORT_CMD)" using ad i by (simp add: adapter_def)
  have b: "(drop_bit i pi AND 1 = 0) = (\<not> bit pi i)"
    by (simp add: and_one_eq bit_iff_odd_drop_bit odd_iff_mod_2_eq_one even_iff_mod_2_eq_zero)
  have n: "(ucast (w AND 0x0F) :: u8) = 3 \<longleftrightarrow> w AND 0x0F = 3" "(ucast (w AND 0x0F) :: u8) = 1 \<longleftrightarrow> w AND 0x0F = 1" for w :: u32
    using nibble_u8 [of w 3] nibble_u8 [of w 1] by simp_all
  show ?thesis
  proof (cases "bit pi i \<and> ssts i AND 0x0F = 3 \<and> drop_bit 8 (ssts i) AND 0x0F = 1")
    case True
    define h where "h = snd (mmio_read hw (hba_port hba i + PORT_SSTS) (snd (mmio_read hw (hba + 0x0C) (ahci_io s))))"
    obtain s1 where s1: "AHCI_REBASE hw (hba_port hba i) i (s\<lparr>ahci_io := h\<rparr>) = Inr s1" "portSATA s1 = portSATA s"
      using AHCI_REBASE_returns [OF en, of "s\<lparr>ahci_io := h\<rparr>" i] by (auto simp: Let_def)
    show ?thesis using True s1
      by (auto simp: init_port_def b n v split_beta Let_def mmio_read_def h_def drive_at_def andthen_def split: sum.splits)
        (rule exI [of _ "s\<lparr>portSATA := hba_port hba i\<rparr>"], simp)
  next
    case False
    then show ?thesis
      by (auto simp: init_port_def b n v split_beta Let_def mmio_read_def drive_at_def)
  qed
qed

lemma drive_ports_Suc: "drive_ports hba pi ssts sig (Suc n) =
    drive_ports hba pi ssts sig n @ (if drive_at pi ssts sig n then [hba_port hba n] else [])"
  by (simp add: drive_ports_def)

lemma init_ports_found:
  assumes ad: "adapter hw hba pi ssts sig" and "n \<le> 32"
  defines "ps \<equiv> drive_ports hba pi ssts sig"
  shows "\<exists>s'. for_each (init_port hw hba) [0..<n] (\<lparr>ata = replicate 8 0, n_ata = 0\<rparr>, s) =
    (if length (ps n) \<le> 8 then Inr (\<lparr>ata = ps n @ replicate (8 - length (ps n)) 0, n_ata = length (ps n)\<rparr>, s') else Inl OutOfBounds) \<and>
    portSATA s' = last (portSATA s # ps n)"
  using assms(2)
proof (induction n)
  case 0
  then show ?case by (auto simp: ps_def drive_ports_def)
next
  case (Suc n)
  let ?d = "\<lparr>ata = ps n @ replicate (8 - length (ps n)) 0, n_ata = length (ps n)\<rparr>"
  obtain s1 where s1: "for_each (init_port hw hba) [0..<n] (\<lparr>ata = replicate 8 0, n_ata = 0\<rparr>, s) =
      (if length (ps n) \<le> 8 then Inr (?d, s1) else Inl OutOfBounds)" "portSATA s1 = last (portSATA s # ps n)"
    using Suc by auto
  obtain s2 where s2: "init_port hw hba n (?d, s1) =
      (if drive_at pi ssts sig n
       then andthen (array_set (ata ?d) (n_ata ?d) (hba_port hba n)) (\<lambda>l. Inr (\<lparr>ata = l, n_ata = n_ata ?d + 1\<rparr>, s2))
       else Inr (?d, s2))" "portSATA s2 = (if drive_at pi ssts sig n then hba_port hba n else portSATA s1)"
    using init_port_step [OF ad, of n ?d s1] Suc.prems by auto
  have rep: "k < 8 \<Longrightarrow> (replicate (8 - k) (0 :: u64))[0 := x] = x # replicate (8 - Suc k) 0" for k x
    by (metis Suc_diff_Suc list_update_code(2) replicate_Suc)
  have step: "for_each (init_port hw hba) [0..<Suc n] (\<lparr>ata = replicate 8 0, n_ata = 0\<rparr>, s) =
      (if length (ps n) \<le> 8 then init_port hw hba n (?d, s1) else Inl OutOfBounds)"
    by (simp add: for_each_append s1) (simp add: andthen_def split: sum.split)
  show ?case
    unfolding step using s1 s2 rep
    by (intro exI [of _ s2]) (auto simp: ps_def drive_ports_Suc array_set_def list_update_append)
qed

text \<open>
  C27: Bringing up the controller finds exactly the ports that the controller implements, whose link is active and whose device is
  a disk, in order of their number, and restarts each port that has a link. The array has room for eight; a controller with
  more disks makes it write past the array.
\<close>

theorem AHCI_INIT_ports:
  assumes "config_space hw cfg" and hba: "hba = ucast (cfg_header cfg (device_location d) 0x24 AND 0xFFFFF000)"
    and ad: "adapter hw hba pi ssts sig" and ps: "ps = drive_ports hba pi ssts sig 32"
  shows "\<exists>s'. AHCI_INIT hw d s =
    (if length ps \<le> 8 then Inr (\<lparr>ata = ps @ replicate (8 - length ps) 0, n_ata = length ps\<rparr>, s') else Inl OutOfBounds) \<and>
    portSATA s' = last (portSATA s # ps)"
proof -
  obtain s1 where s1: "ahci_blocks s = Inr s1" "portSATA s1 = portSATA s" by (simp add: ahci_blocks_def mallocA_def Let_def)
  have bars: "BAR (fst (PCI_GetGeneralDevice hw d h)) = map (\<lambda>i. cfg_header cfg (device_location d) (of_nat (0x10 + 4 * i))) [0..<6]" for h
    using read_bars_values [OF assms(1), of "[0..<6]"]
    by (simp add: PCI_GetGeneralDevice_def split_beta Let_def device_location_def)
  obtain s2 where s2: "for_each (init_port hw hba) [0..<32]
        (\<lparr>ata = replicate 8 0, n_ata = 0\<rparr>, s1\<lparr>ahci_io := snd (PCI_GetGeneralDevice hw d (ahci_io s1))\<rparr>) =
      (if length ps \<le> 8 then Inr (\<lparr>ata = ps @ replicate (8 - length ps) 0, n_ata = length ps\<rparr>, s2) else Inl OutOfBounds)"
      "portSATA s2 = last (portSATA s # ps)"
    using init_ports_found [OF ad, of 32 "s1\<lparr>ahci_io := snd (PCI_GetGeneralDevice hw d (ahci_io s1))\<rparr>"] s1(2) ps by auto
  have "AHCI_INIT hw d s = for_each (init_port hw hba) [0..<32]
        (\<lparr>ata = replicate 8 0, n_ata = 0\<rparr>, s1\<lparr>ahci_io := snd (PCI_GetGeneralDevice hw d (ahci_io s1))\<rparr>)"
    by (simp add: AHCI_INIT_def s1 split_beta Let_def bars array_get_def hba)
  then show ?thesis using s2 by auto
qed

section \<open>The command list\<close>

definition zeros :: "mem \<Rightarrow> u64 \<Rightarrow> nat \<Rightarrow> bool" where
  "zeros m a n \<longleftrightarrow> (\<forall>i<n. m (a + of_nat i) = 0)"

lemma zeros_store: "zeros m a n \<Longrightarrow> disjoint_blocks b (length bs) a n \<Longrightarrow> zeros (store_bytes m b bs) a n"
  by (auto simp: zeros_def store_bytes_apply disjoint_blocks_def not_in_block_disjoint [of b "length bs" a n])

lemma zeros_memset: "zeros m a n \<Longrightarrow> k < 2 ^ 64 \<Longrightarrow> zeros (memset m b 0 (int k)) a n"
  by (simp add: zeros_def memset_nat)

lemma zeros_cleared: "n < 2 ^ 64 \<Longrightarrow> zeros (memset m a 0 (int n)) a n"
  by (auto simp: zeros_def memset_nat in_block_def)

lemma zeros_U32: "zeros m a n \<Longrightarrow> i + 4 \<le> n \<Longrightarrow> U32 m (a + of_nat i) = 0"
proof -
  assume z: "zeros m a n" and i: "i + 4 \<le> n"
  have "load_bytes m (a + of_nat i) 4 = map (\<lambda>j. m (a + of_nat (i + j))) [0..<4]" by (simp add: load_bytes_conv add.assoc)
  also have "\<dots> = replicate 4 0" using z i by (intro nth_equalityI) (auto simp: zeros_def simp del: of_nat_add)
  finally show ?thesis by (simp add: U32_def)
qed

lemma zeros_header:
  assumes z: "zeros m a n" and apart: "disjoint_blocks ct 5488 a n" and i: "i < 32"
  shows "zeros (set_header ct p i m) a n"
proof -
  let ?h = "ct + of_nat (0x90 * i) + of_nat (0x20 * i)"
  have h: "?h = ct + of_nat (176 * i)" by (simp add: add.assoc flip: of_nat_add)
  have d: "disjoint_blocks (?h + of_nat k) l a n" if "k + l \<le> 16" "0 < l" for k l
  proof -
    have "?h + of_nat k = ct + of_nat (176 * i + k)" unfolding h by (simp add: add.assoc)
    moreover have "unat (ct + of_nat (176 * i + k)) = unat ct + (176 * i + k)"
      using apart i that by (intro unat_add_of_nat) (auto simp: disjoint_blocks_def)
    ultimately have u: "unat (?h + of_nat k) = unat ct + (176 * i + k)" by (simp only:)
    show ?thesis by (rule disjoint_blocks_within [OF apart]; unfold u) (use i that in linarith)+
  qed
  have "zeros (set_U32 (set_U32 (set_U16 m (?h + 2) 8) (?h + 8) v) (?h + 12) 0) a n" for v
    using z d [of 2 2] d [of 8 4] d [of 12 4]
    unfolding set_U16_def set_U32_def by (intro zeros_store) (simp_all only: length_le_bytes of_nat_numeral)
  then show ?thesis using zeros_memset [of _ a n 256] by (simp add: set_header_def Let_def)
qed

text \<open>
  Restarting a port leaves every header of its command list zero: what the loop writes goes into the command tables, because it casts the
  table's address to the header type. \<open>AHCI_READ\<close> takes the command table of a slot from offset 8 of the header, so it
  builds every command at address 0.
\<close>

theorem AHCI_REBASE_blank:
  assumes "engine_stops hw (port + 0x18)" and "reads_back hw port"
    and apart: "disjoint_blocks (commandTable s) 5488 (ucast (list_base n s)) 1024"
  shows "\<exists>s'. AHCI_REBASE hw port n s = Inr s' \<and>
    last_write port (ahci_io s') = Some (list_base n s) \<and> last_write (port + 4) (ahci_io s') = Some 0 \<and>
    (\<forall>slot<32. U32 (kmem s') (ucast (list_base n s) + of_nat (32 * slot) + 8) = 0)"
proof -
  let ?l = "ucast (list_base n s) :: u64"
  obtain h h' where r: "AHCI_REBASE hw port n s = Inr (set_base hw (port + PORT_FB) (fis_base n s) 256
        (set_base hw (port + PORT_CLB) (list_base n s) 1024 (s\<lparr>ahci_io := h\<rparr>))
          \<lparr>kmem := fold (set_header (commandTable s) n) [0..<32] (kmem (set_base hw (port + PORT_FB) (fis_base n s) 256
             (set_base hw (port + PORT_CLB) (list_base n s) 1024 (s\<lparr>ahci_io := h\<rparr>)))), ahci_io := h'\<rparr>)"
      "\<forall>b. b \<noteq> port + PORT_CMD \<longrightarrow> last_write b h' = last_write b (ahci_io (set_base hw (port + PORT_FB) (fis_base n s) 256
             (set_base hw (port + PORT_CLB) (list_base n s) 1024 (s\<lparr>ahci_io := h\<rparr>))))"
    using AHCI_REBASE_returns [OF assms(1), of s n] by (auto simp: Let_def)
  define s1 where "s1 = set_base hw (port + PORT_CLB) (list_base n s) 1024 (s\<lparr>ahci_io := h\<rparr>)"
  define s2 where "s2 = set_base hw (port + PORT_FB) (fis_base n s) 256 s1"
  have "last_write port (mmio_write (port + 4) 0 (mmio_write port (list_base n s) h)) = Some (list_base n s)" by simp
  then have "fst (mmio_read hw port (mmio_write (port + 4) 0 (mmio_write port (list_base n s) h))) = list_base n s"
    using assms(2) by (simp add: reads_back_def mmio_read_def Let_def)
  then have "kmem s1 = memset (kmem s) ?l 0 (int 1024)" by (simp add: s1_def set_base_def split_beta Let_def)
  then have "zeros (kmem s1) ?l 1024" using zeros_cleared [of 1024] by simp
  moreover have "kmem s2 = memset (kmem s1) a 0 (int 256)" if "a = ucast (fst (mmio_read hw (port + PORT_FB)
      (mmio_write (port + PORT_FB + 4) 0 (mmio_write (port + PORT_FB) (fis_base n s) (ahci_io s1)))))" for a
    using that by (simp add: s2_def set_base_def split_beta Let_def)
  ultimately have "zeros (kmem s2) ?l 1024" using zeros_memset [of "kmem s1" ?l 1024 256] by simp
  then have "zeros (fold (set_header (commandTable s) n) [0..<32] (kmem s2)) ?l 1024"
    by (rule fold_upt_invariant [where P = "\<lambda>_ m. zeros m ?l 1024"]) (rule zeros_header [OF _ apart])
  then have "U32 (fold (set_header (commandTable s) n) [0..<32] (kmem s2)) (?l + of_nat (32 * slot) + 8) = 0" if "slot < 32" for slot
    using zeros_U32 [of _ ?l 1024 "32 * slot + 8"] that by (simp add: add.assoc)
  moreover have "last_write port (ahci_io s2) = Some (list_base n s)" "last_write (port + 4) (ahci_io s2) = Some 0"
    by (simp_all add: s2_def s1_def set_base_last_write) (simp_all add: set_base_def split_beta Let_def)
  ultimately show ?thesis using r by (simp add: s1_def s2_def)
qed

section \<open>Example\<close>

text \<open>
  A controller at 0xFEBD1000 with one port and a disk on it; its registers read as written, its engines follow their enable
  bits at once: the list engine runs (CR) while ST is set and the receive engine (FR) while FRE is.
\<close>

definition engine_status :: "u32 \<Rightarrow> u32" where
  "engine_status v = (if bit v 0 then set_bit 15 else unset_bit 15) ((if bit v 4 then set_bit 14 else unset_bit 14) v)"

definition example_hba :: hardware where
  "example_hba = \<lparr>port_b = (\<lambda>h p. 0), port_w = (\<lambda>h p. 0), port_l = (\<lambda>h p. 0xFEBD1000),
     mmio_l = (\<lambda>h a. let r = unat a mod 128 in
       if r = 0x0C then 1 else if r = 0x28 then 0x103 else if r = 0x24 then 0x101
       else case last_write a h of None \<Rightarrow> 0 | Some v \<Rightarrow> if r = 0x18 then engine_status v else v),
     msr_q = (\<lambda>h r. 0)\<rparr>"

definition example_ahci :: kahci where
  "example_ahci = kpaging.extend (demo_pool []) (kahci.fields 0x10000 0x11000 0x12000 0 [])"

lemma example_registers:
  "mmio_l example_hba h 0xFEBD100C = 1"
  "i < 32 \<Longrightarrow> mmio_l example_hba h (hba_port 0xFEBD1000 i + PORT_SSTS) = 0x103"
  "i < 32 \<Longrightarrow> mmio_l example_hba h (hba_port 0xFEBD1000 i + PORT_SIG) = 0x101"
  "i < 32 \<Longrightarrow> mmio_l example_hba h (hba_port 0xFEBD1000 i + PORT_CMD) =
    (case last_write (hba_port 0xFEBD1000 i + PORT_CMD) h of None \<Rightarrow> 0 | Some v \<Rightarrow> engine_status v)"
proof -
  show "mmio_l example_hba h 0xFEBD100C = 1" by (simp add: example_hba_def)
  have r: "unat (hba_port 0xFEBD1000 i + of_nat k) mod 128 = k" if "i < 32" "k < 128" for i k
  proof -
    have "hba_port 0xFEBD1000 i + of_nat k = of_nat (0xFEBD1100 + 128 * i + k)" by (simp add: hba_port_def)
    moreover have "unat (of_nat (0xFEBD1100 + 128 * i + k) :: u64) = 0xFEBD1100 + 128 * i + k"
      using that by (intro unat_of_nat64) simp
    moreover have "0xFEBD1100 + 128 * i + k = k + 128 * (33389090 + i)" by simp
    then have "(0xFEBD1100 + 128 * i + k) mod 128 = k" using that by (simp only: mod_mult_self2 mod_less)
    ultimately show ?thesis by simp
  qed
  assume "i < 32"
  then show "mmio_l example_hba h (hba_port 0xFEBD1000 i + PORT_SSTS) = 0x103"
    "mmio_l example_hba h (hba_port 0xFEBD1000 i + PORT_SIG) = 0x101"
    "mmio_l example_hba h (hba_port 0xFEBD1000 i + PORT_CMD) =
      (case last_write (hba_port 0xFEBD1000 i + PORT_CMD) h of None \<Rightarrow> 0 | Some v \<Rightarrow> engine_status v)"
    using r [of i "0x28"] r [of i "0x24"] r [of i "0x18"] by (simp_all add: example_hba_def Let_def split: option.split)
qed

lemma engine_status_bits:
  "bit (engine_status v) 0 = bit v 0" "\<not> bit v 0 \<Longrightarrow> engine_status v AND 0x8000 = 0" "\<not> bit v 4 \<Longrightarrow> engine_status v AND 0x4000 = 0"
proof -
  have m: "(0x8000 :: u32) = 2 ^ 15" "(0x4000 :: u32) = 2 ^ 14" by simp_all
  show "bit (engine_status v) 0 = bit v 0"
    by (simp add: engine_status_def bit_set_bit_iff bit_unset_bit_iff)
  have "\<not> bit v 0 \<Longrightarrow> \<not> bit (engine_status v) 15" "\<not> bit v 4 \<Longrightarrow> \<not> bit (engine_status v) 14"
    by (simp_all add: engine_status_def bit_set_bit_iff bit_unset_bit_iff)
  then show "\<not> bit v 0 \<Longrightarrow> engine_status v AND 0x8000 = 0" "\<not> bit v 4 \<Longrightarrow> engine_status v AND 0x4000 = 0"
    unfolding m and_exp_eq_0_iff_not_bit by blast+
qed

lemma example_stops: "i < 32 \<Longrightarrow> engine_stops example_hba (hba_port 0xFEBD1000 i + PORT_CMD)"
  by (simp add: engine_stops_def poll_value_def example_registers engine_status_bits)

lemma example_adapter: "adapter example_hba 0xFEBD1000 1 (\<lambda>_. 0x103) (\<lambda>_. 0x101)"
  by (simp add: adapter_def example_registers example_stops)

lemma example_drives: "drive_ports 0xFEBD1000 1 (\<lambda>_. 0x103) (\<lambda>_. 0x101) 32 = [0xFEBD1100]"
proof -
  have "filter (\<lambda>i. bit (1 :: u32) i) [0..<32] = [0]" by code_simp
  moreover have "drive_at 1 (\<lambda>_. 0x103) (\<lambda>_. 0x101) = bit (1 :: u32)" by (rule ext) (simp add: drive_at_def)
  ultimately show ?thesis by (simp add: drive_ports_def hba_port_def)
qed

theorem AHCI_INIT_ports_witness:
  "\<exists>s'. AHCI_INIT example_hba zero_device example_ahci = Inr (\<lparr>ata = [0xFEBD1100, 0, 0, 0, 0, 0, 0, 0], n_ata = 1\<rparr>, s') \<and>
    portSATA s' = 0xFEBD1100"
proof -
  have "config_space example_hba (\<lambda>_. 0xFEBD1000)" by (simp add: config_space_def example_hba_def)
  moreover have "0xFEBD1000 = (ucast (cfg_header (\<lambda>_. 0xFEBD1000) (device_location zero_device) 0x24 AND 0xFFFFF000) :: u64)"
    by (simp add: cfg_header_def split: prod.split)
  ultimately show ?thesis
    using AHCI_INIT_ports [OF _ _ example_adapter refl, of "\<lambda>_. 0xFEBD1000" zero_device example_ahci]
    unfolding example_drives by (simp add: numeral_eq_Suc)
qed

theorem AHCI_REBASE_blank_witness:
  "\<exists>s'. AHCI_REBASE example_hba 0xFEBD1100 0 example_ahci = Inr s' \<and> U32 (kmem s') 0x10028 = 0"
proof -
  have "engine_stops example_hba (0xFEBD1100 + 0x18)" using example_stops [of 0] by (simp add: hba_port_def)
  moreover have "reads_back example_hba 0xFEBD1100" by (simp add: reads_back_def example_hba_def)
  moreover have l: "list_base 0 example_ahci = 0x10000" "commandTable example_ahci = 0x12000"
    by (simp_all add: list_base_def example_ahci_def demo_pool_def kpaging.defs kahci.defs)
  moreover have "disjoint_blocks (commandTable example_ahci) 5488 (ucast (list_base 0 example_ahci)) 1024"
    unfolding l by (simp add: disjoint_blocks_def)
  ultimately obtain s' where s': "AHCI_REBASE example_hba 0xFEBD1100 0 example_ahci = Inr s'"
      "\<forall>slot<32. U32 (kmem s') (ucast (list_base 0 example_ahci) + of_nat (32 * slot) + 8) = 0"
    using AHCI_REBASE_blank by blast
  then have "U32 (kmem s') (ucast (list_base 0 example_ahci) + of_nat (32 * 1) + 8) = 0" by (elim allE [of _ 1] impE) simp_all
  with s'(1) show ?thesis by (simp add: l)
qed

end
