(* ===== verification/Devices.thy ===== *)
theory Devices
  imports Apic Pci
begin

text \<open>
  The remaining device drivers: the USB 2 controller (\<open>src/src/drivers/ehci/ehci.c\<close>), the network card
  (\<open>drivers/networking/rtl8139/rtl8139.c\<close>), the mask of the non-maskable interrupt (\<open>arch/nmi.c\<close>) and the reader of the instruction
  that trapped (\<open>utils/inst.c\<close>). Register reads that only feed a message are left out with the message.
\<close>

section \<open>The USB 2 controller\<close>

text \<open>\<open>regs\<close> and \<open>capabilities\<close> are addresses. The offsets follow the packed structure \<open>USB_REGS\<close>, whose padding has 0x28 bytes.\<close>

record kehci = kapic +
  usb_regs :: u64
  usb_capabilities :: u64

abbreviation (input) "USB_CMD \<equiv> 0x00 :: u64"
abbreviation (input) "USB_INTR \<equiv> 0x08 :: u64"
abbreviation (input) "FRINDEX \<equiv> 0x0C :: u64"
abbreviation (input) "CTRLDSSEGMENT \<equiv> 0x10 :: u64"
abbreviation (input) "PERIODICLISTBASE \<equiv> 0x14 :: u64"
abbreviation (input) "CONFIGFLAG \<equiv> 0x1C + 0x28 :: u64"
abbreviation (input) "PORTSC \<equiv> 0x1C + 0x28 + 4 :: u64"

definition USBIrqImpl :: "hardware \<Rightarrow> 'a kehci_scheme \<Rightarrow> 'a kehci_scheme" where
  "USBIrqImpl hw s = APIC_SEND_EOI (apic_modify hw (usb_regs s + PORTSC) (\<lambda>v. v OR push_bit 8 1) s)"

text \<open>The bit fields of \<open>USB_CMD_REG\<close> start at the low end: \<open>interrupt_threshold\<close> is bits 8 to 15, \<open>prog_frame_list_size\<close> 28 and 29, \<open>run\<close> 31.\<close>

definition set_cmd_fields :: "u32 \<Rightarrow> u32" where
  "set_cmd_fields v =
     (let v = (v AND NOT 0x0000FF00) OR push_bit 8 0x8;
          v = v AND NOT 0x30000000
      in v OR push_bit 31 1)"

definition empty_frames :: "u64 \<Rightarrow> mem \<Rightarrow> mem" where
  "empty_frames periodic_list m =
     fold (\<lambda>i m. set_U32 m (periodic_list + of_nat (4 * i)) (U32 m (periodic_list + of_nat (4 * i)) OR 1)) [0..<1024]
       (memset m periodic_list 0 4096)"

definition start_ehci :: "hardware \<Rightarrow> u64 \<Rightarrow> 'a kehci_scheme \<Rightarrow> 'a kehci_scheme" where
  "start_ehci hw periodic_list s =
     (let r = usb_regs s;
          s = apic_modify hw (r + USB_CMD) (\<lambda>v. v OR 1) s;
          s = apic_write (r + CTRLDSSEGMENT) 0 s;
          s = apic_modify hw (r + USB_INTR) (\<lambda>v. v OR 0x3F) s;
          s = apic_write (r + FRINDEX) 0 s;
          s = apic_write (r + PERIODICLISTBASE) (ucast periodic_list) s;
          s = apic_modify hw (r + USB_CMD) set_cmd_fields s
      in apic_write (r + CONFIGFLAG) 1 s)"

definition EHCI_INIT ::
    "byte_device \<Rightarrow> PCI_device \<Rightarrow> interrupts \<times> 'a kehci_scheme \<Rightarrow> (interrupts \<times> 'a kehci_scheme) outcome" where
  "EHCI_INIT hw c = (\<lambda>(irqs, s).
     andthen (IRQ_RegisterHandler 11 USBIrqImpl_ptr irqs) (\<lambda>irqs.
     andthen (mallocA 4096 4096 s) (\<lambda>(periodic_list, s).
     let s = s\<lparr>kmem := empty_frames periodic_list (kmem s)\<rparr>;
         (controller, h) = PCI_GetGeneralDevice (hardware.truncate hw) c (aio s)
     in andthen (array_get (BAR controller) 0) (\<lambda>bar.
        let ptr = ucast bar;
            (len, h) = mmio_read8 hw ptr h;
            s = s\<lparr>usb_capabilities := ptr, usb_regs := ptr + ucast len, aio := h\<rparr>
        in Inr (irqs, start_ehci (hardware.truncate hw) periodic_list s)))))"

section \<open>The network card\<close>

partial_function (option) reset_wait :: "byte_device \<Rightarrow> u64 \<Rightarrow> history \<Rightarrow> history option" where
  "reset_wait hw a h =
     (let (v, h) = mmio_read8 hw a h in if v AND 0x10 \<noteq> 0 then reset_wait hw a h else Some h)"

definition RTL8139_INIT :: "byte_device \<Rightarrow> PCI_device \<Rightarrow> 'a kapic_scheme \<Rightarrow> 'a kapic_scheme outcome" where
  "RTL8139_INIT hw device s =
     (let (nic, h) = PCI_GetGeneralDevice (hardware.truncate hw) device (aio s)
      in andthen (array_get (BAR nic) 1) (\<lambda>bar.
         let d = ucast bar;
             h = mmio_write8 (d + 0x52) 0 h;
             h = mmio_write8 (d + 0x37) 0x10 h
         in case reset_wait hw (d + 0x37) h of
              None \<Rightarrow> Inl Hangs
            | Some h \<Rightarrow>
                andthen (mallocA (8192 + 16) 8192 (s\<lparr>aio := h\<rparr>)) (\<lambda>(rx, s).
                let h = mmio_write (d + 0x30) (ucast rx) (aio s);
                    h = mmio_write16 (d + 0x3C) 0x0005 h;
                    h = mmio_write (d + 0x44) (0xF OR push_bit 7 1) h;
                    h = mmio_write8 (d + 0x37) 0x0C h
                in Inr (s\<lparr>aio := h\<rparr>))))"

section \<open>Small helpers\<close>

definition NMI_Enable :: "hardware \<Rightarrow> history \<Rightarrow> history" where
  "NMI_Enable hw h = (let (v, h) = inb hw 0x70 h in snd (inb hw 0x71 (outb 0x70 (v AND 0x7F) h)))"

definition NMI_Disable :: "hardware \<Rightarrow> history \<Rightarrow> history" where
  "NMI_Disable hw h = (let (v, h) = inb hw 0x70 h in snd (inb hw 0x71 (outb 0x70 (v OR 0x80) h)))"

text \<open>\<open>INST_READ\<close>: the length it returns and what it takes the instruction for.\<close>

datatype instruction = INST_INT u8 | INST_HALT | INST_SYSCALL | INST_IRETQ | INST_BYTES u8 u8 u8 u8

definition INST_READ :: "mem \<Rightarrow> u64 \<Rightarrow> int \<times> instruction" where
  "INST_READ m p =
     (if m p = 0xCD then (2, INST_INT (m (p + 1)))
      else if m p = 0xF4 then (1, INST_HALT)
      else if m p = 0xF \<or> m (p + 1) = 0x5 then (0, INST_SYSCALL)
      else if m p = 0x48 \<or> m (p + 1) = 0xCF then (0, INST_IRETQ)
      else (0, INST_BYTES (m p) (m (p + 1)) (m (p + 2)) (m (p + 3))))"

section \<open>Frame list and registers\<close>

lemma memset_U32: "i < 1024 \<Longrightarrow> U32 (memset m a 0 4096) (a + of_nat (4 * i)) = 0"
proof -
  assume i: "i < 1024"
  have "memset m a 0 4096 (a + of_nat (4 * i) + of_nat j) = 0" if "j < 4" for j
  proof -
    have "a + of_nat (4 * i) + of_nat j = a + of_nat (4 * i + j)" by (simp add: add.assoc)
    moreover have "unat (of_nat (4 * i + j) :: u64) < 4096" using i that by (subst unat_of_nat64) simp_all
    ultimately have "in_block a 4096 (a + of_nat (4 * i) + of_nat j)" by (simp only: in_block_def add_diff_cancel_left')
    then show ?thesis using memset_nat [of 4096 m a 0] by simp
  qed
  then have "load_bytes (memset m a 0 4096) (a + of_nat (4 * i)) 4 = replicate 4 0"
    by (intro nth_equalityI) (simp_all add: load_bytes_nth)
  then show ?thesis by (simp add: U32_def)
qed

lemma U32_set_U32: "U32 (set_U32 m a v) a = v"
proof -
  have "load_bytes (store_bytes m a (le_bytes 4 (unat v))) a (length (le_bytes 4 (unat v))) = le_bytes 4 (unat v)"
    by (rule load_store_bytes) simp
  moreover have "unat v < 256 ^ 4" using unat_u32_less [of v] by simp
  ultimately show ?thesis by (simp add: U32_def set_U32_def le_nat_le_bytes)
qed

lemma U32_set_U32_other: "disjoint_blocks a 4 b 4 \<Longrightarrow> U32 (set_U32 m a v) b = U32 m b"
  by (simp add: U32_def set_U32_def load_store_disjoint)

lemma dword_blocks:
  assumes "unat (a :: u64) + 4096 \<le> 2 ^ 64" "i < 1024" "j < 1024" "i \<noteq> j"
  shows "disjoint_blocks (a + of_nat (4 * i)) 4 (a + of_nat (4 * j)) 4"
proof -
  have "unat (a + of_nat (4 * i)) = unat a + 4 * i" "unat (a + of_nat (4 * j)) = unat a + 4 * j"
    using assms by (intro unat_add_of_nat; linarith)+
  then show ?thesis using assms unfolding disjoint_blocks_def by linarith
qed

lemma empty_frames_entry:
  assumes "unat a + 4096 \<le> 2 ^ 64" and "j < 1024"
  shows "U32 (empty_frames a m) (a + of_nat (4 * j)) = 1"
proof -
  let ?f = "\<lambda>i m. set_U32 m (a + of_nat (4 * i)) (U32 m (a + of_nat (4 * i)) OR 1)"
  have "\<forall>j<1024. U32 (fold ?f [0..<1024] (memset m a 0 4096)) (a + of_nat (4 * j)) = (if j < 1024 then 1 else 0)"
  proof (rule fold_upt_invariant [where P = "\<lambda>k m. \<forall>j<1024. U32 m (a + of_nat (4 * j)) = (if j < k then 1 else 0)"])
    show "\<forall>j<1024. U32 (memset m a 0 4096) (a + of_nat (4 * j)) = (if j < 0 then 1 else 0)" using memset_U32 by simp
  next
    fix i m assume i: "i < 1024" and ih: "\<forall>j<1024. U32 m (a + of_nat (4 * j)) = (if j < i then 1 else 0)"
    show "\<forall>j<1024. U32 (?f i m) (a + of_nat (4 * j)) = (if j < Suc i then 1 else 0)"
    proof (intro allI impI)
      fix j :: nat assume j: "j < 1024"
      show "U32 (?f i m) (a + of_nat (4 * j)) = (if j < Suc i then 1 else 0)"
      proof (cases "j = i")
        case True
        have "U32 m (a + of_nat (4 * i)) = 0" using ih i by (metis less_irrefl)
        then show ?thesis unfolding True by (simp only: U32_set_U32) simp
      next
        case False
        then have "disjoint_blocks (a + of_nat (4 * i)) 4 (a + of_nat (4 * j)) 4"
          using dword_blocks [OF assms(1) i j] by blast
        then have "U32 (?f i m) (a + of_nat (4 * j)) = U32 m (a + of_nat (4 * j))" by (rule U32_set_U32_other)
        then show ?thesis using ih j False by auto
      qed
    qed
  qed
  then show ?thesis using assms(2) by (simp add: empty_frames_def)
qed

lemma last_write_apic [simp]:
  "last_write b (aio (apic_write a v s)) = (if b = a then Some v else last_write b (aio s))"
  "last_write b (aio (snd (apic_read hw a s))) = last_write b (aio s)"
  "last_write b (aio (apic_modify hw a f s)) = (if b = a then Some (f (mmio_l hw (aio s) a)) else last_write b (aio s))"
  by (simp_all add: apic_write_def apic_read_def apic_modify_def split_beta)
    (simp add: mmio_read_def mmio_write_def last_write_def Let_def)

lemma apic_kept [simp]:
  "kmem (apic_write a v s) = kmem s" "kmem (apic_modify hw a f s) = kmem s"
  "usb_regs (apic_write a v s') = usb_regs s'" "usb_regs (apic_modify hw a f s') = usb_regs s'"
  by (simp_all add: apic_write_def apic_read_def apic_modify_def split_beta Let_def)

text \<open>The last value of the command register, in terms of what the controller answers when it is read back.\<close>

lemma cmd_field_bits:
  assumes "k < 32"
  shows "bit (set_cmd_fields v) k \<longleftrightarrow> k = 11 \<or> k = 31 \<or> bit v k \<and> (k < 8 \<or> 16 \<le> k) \<and> k \<noteq> 28 \<and> k \<noteq> 29"
proof -
  have m: "(0x0000FF00 :: u32) = push_bit 8 (mask 8)" "(0x30000000 :: u32) = push_bit 28 (mask 2)"
      "push_bit 8 0x8 = (2 ^ 11 :: u32)" "push_bit 31 1 = (2 ^ 31 :: u32)"
    by (simp_all add: mask_eq_exp_minus_1 push_bit_eq_mult)
  show ?thesis
    unfolding set_cmd_fields_def m Let_def bit_or_iff bit_and_iff bit_not_iff_eq bit_exp_iff bit_push_bit_iff bit_mask_iff
    using assms by auto
qed

lemma start_ehci_writes:
  assumes "r = usb_regs s" and "s' = start_ehci hw l s" and "reads_back hw r"
  shows "last_write (r + 0x14) (aio s') = Some (ucast l)" "last_write (r + 0x44) (aio s') = Some 1"
    "last_write (r + 0x40) (aio s') = last_write (r + 0x40) (aio s)"
    "last_write r (aio s') = Some (set_cmd_fields (mmio_l hw (aio s) r OR 1))" "kmem s' = kmem s" "usb_regs s' = r"
proof -
  have "mmio_l hw h r = c" if "last_write r h = Some c" for h c using that assms(3) by (simp add: reads_back_def)
  then show "last_write r (aio s') = Some (set_cmd_fields (mmio_l hw (aio s) r OR 1))"
    unfolding assms(2) by (simp add: start_ehci_def Let_def assms(1) [symmetric])
qed (simp_all add: assms(1,2) start_ehci_def Let_def)

text \<open>
  After the USB 2 controller has been started the frame list is a page with 1024 empty entries, its base register holds the list's
  address and the controller runs. The interrupt threshold, bits 16 to 23, keeps the value it had, because
  the fields of \<open>USB_CMD_REG\<close> are declared from the wrong end. The flag that routes the ports to this controller is at
  offset 0x40 and is never written; the 1 meant for it goes to offset 0x44.
\<close>

theorem EHCI_INIT_effect:
  assumes cfg: "config_space (hardware.truncate hw) cfg" and "int_ok irqs"
    and heap: "0 < unat (malloc_start s)" "unat (malloc_start s) + 8192 \<le> 2 ^ 64"
    and bar: "bar = ucast (cfg_header cfg (device_location d) 0x10)" and h0: "h0 = snd (PCI_GetGeneralDevice (hardware.truncate hw) d (aio s))"
    and h: "h = snd (mmio_read8 hw bar h0)" and r: "r = bar + ucast (mmio_b hw h0 bar)"
    and rb: "reads_back (hardware.truncate hw) r"
  shows "\<exists>irqs' s' l c. EHCI_INIT hw d (irqs, s) = Inr (irqs', s') \<and> g_IRQHandlers irqs' ! 11 = Some USBIrqImpl_ptr \<and>
    usb_regs s' = r \<and> unat l mod 4096 = 0 \<and> unat (malloc_start s) \<le> unat l \<and>
    (\<forall>j<1024. U32 (kmem s') (l + of_nat (4 * j)) = 1) \<and>
    last_write (r + 0x14) (aio s') = Some (ucast l) \<and> last_write r (aio s') = Some c \<and> bit c 0 \<and>
    (\<forall>k\<in>{16..<24}. bit c k = bit (mmio_l hw h r) k) \<and>
    last_write (r + 0x40) (aio s') = last_write (r + 0x40) h \<and> last_write (r + 0x44) (aio s') = Some 1"
proof -
  let ?hw = "hardware.truncate hw" and ?l = "align_up (malloc_start s) 4096"
  define s1 where "s1 = s\<lparr>malloc_start := ?l + 4096, kmem := empty_frames ?l (kmem s)\<rparr>"
  define s2 where "s2 = s1\<lparr>usb_capabilities := bar, usb_regs := r, aio := h\<rparr>"
  define s3 where "s3 = start_ehci ?hw ?l s2"
  obtain irqs' where i: "IRQ_RegisterHandler 11 USBIrqImpl_ptr irqs = Inr irqs'" "g_IRQHandlers irqs' ! 11 = Some USBIrqImpl_ptr"
    using assms(2) by (simp add: IRQ_RegisterHandler_def array_set_def int_ok_def)
  have bars: "BAR (fst (PCI_GetGeneralDevice ?hw d h)) = map (\<lambda>i. cfg_header cfg (device_location d) (of_nat (0x10 + 4 * i))) [0..<6]" for h
    using read_bars_values [OF cfg, of "[0..<6]"] by (simp add: PCI_GetGeneralDevice_def split_beta Let_def device_location_def)
  have "mmio_read8 hw bar h0 = (mmio_b hw h0 bar, h)" by (simp add: h mmio_read8_def Let_def)
  then have "EHCI_INIT hw d (irqs, s) = Inr (irqs', s3)"
    by (simp add: EHCI_INIT_def i mallocA_def Let_def split_beta bars array_get_def bar [symmetric] h0 [symmetric])
      (simp add: s1_def s2_def s3_def r)
  moreover have r2: "r = usb_regs s2" "aio s2 = h" "kmem s2 = empty_frames ?l (kmem s)" by (simp_all add: s2_def s1_def)
  note w = start_ehci_writes [OF r2(1) s3_def rb, unfolded r2(2,3)]
  moreover have l: "unat (malloc_start s) \<le> unat ?l" "unat ?l < unat (malloc_start s) + 4096" "unat ?l mod 4096 = 0"
    using align_up_bounds [of "malloc_start s" 4096] heap by simp_all
  moreover have "\<forall>j<1024. U32 (kmem s3) (?l + of_nat (4 * j)) = 1" using w(5) l heap empty_frames_entry [of ?l _ "kmem s"] by simp
  moreover have "mmio_l ?hw = mmio_l hw" by (simp add: hardware.truncate_def)
  ultimately show ?thesis using i(2)
    by (intro exI [of _ irqs'] exI [of _ s3] exI [of _ ?l] exI [of _ "set_cmd_fields (mmio_l ?hw h r OR 1)"])
      (simp add: cmd_field_bits bit_simps)
qed

section \<open>Resetting the network card\<close>

fun polls8 :: "byte_device \<Rightarrow> u64 \<Rightarrow> nat \<Rightarrow> history \<Rightarrow> history" where
  "polls8 hw a 0 h = h"
| "polls8 hw a (Suc k) h = polls8 hw a k (snd (mmio_read8 hw a h))"

lemma reset_wait_step:
  "reset_wait hw a h = (if mmio_b hw h a AND 0x10 \<noteq> 0 then reset_wait hw a (snd (mmio_read8 hw a h)) else Some (snd (mmio_read8 hw a h)))"
  by (subst reset_wait.simps) (simp add: mmio_read8_def Let_def)

lemma reset_wait_returns:
  "mmio_b hw (polls8 hw a k h) a AND 0x10 = 0 \<Longrightarrow> \<forall>j<k. mmio_b hw (polls8 hw a j h) a AND 0x10 \<noteq> 0 \<Longrightarrow>
   reset_wait hw a h = Some (polls8 hw a (Suc k) h)"
proof (induction k arbitrary: h)
  case 0
  then show ?case by (simp add: reset_wait_step [of hw a h])
next
  case (Suc k)
  have "\<forall>j<k. mmio_b hw (polls8 hw a j (snd (mmio_read8 hw a h))) a AND 0x10 \<noteq> 0" using Suc.prems(2) by fastforce
  then show ?case using Suc by (auto simp: reset_wait_step [of hw a h])
qed

lemma reset_wait_Some: "reset_wait hw a h = Some h' \<Longrightarrow> \<exists>k. mmio_b hw (polls8 hw a k h) a AND 0x10 = 0"
proof (rule reset_wait.raw_induct [where P = "\<lambda>hw a h h'. \<exists>k. mmio_b hw (polls8 hw a k h) a AND 0x10 = 0", rotated])
  fix f hw a h h'
  assume ih: "\<And>hw a h h'. f hw a h = Some h' \<Longrightarrow> \<exists>k. mmio_b hw (polls8 hw a k h) a AND 0x10 = 0"
    and eq: "(let (v, h) = mmio_read8 hw a h in if v AND 0x10 \<noteq> 0 then f hw a h else Some h) = Some h'"
  show "\<exists>k. mmio_b hw (polls8 hw a k h) a AND 0x10 = 0"
  proof (cases "mmio_b hw h a AND 0x10 = 0")
    case True
    then show ?thesis by (intro exI [of _ 0]) simp
  next
    case False
    then have "f hw a (snd (mmio_read8 hw a h)) = Some h'" using eq by (simp add: mmio_read8_def Let_def)
    from ih [OF this] obtain k where "mmio_b hw (polls8 hw a (Suc k) h) a AND 0x10 = 0" by auto
    then show ?thesis by blast
  qed
qed

text \<open>
  Bringing up the network card ends exactly when the card clears its reset bit. The receiver is enabled last, after the
  buffer and the filter are set; the buffer is a block of 8208 bytes at a multiple of 8192. The filter has the bit that lets the card
  write past the end of the ring, for which 1500 bytes more are needed.
\<close>

theorem RTL8139_INIT_ready:
  assumes cfg: "config_space (hardware.truncate hw) cfg" and d: "d = ucast (cfg_header cfg (device_location dev) 0x14)"
    and heap: "0 < unat (malloc_start s)" "unat (malloc_start s) + 8192 \<le> 2 ^ 64"
    and h: "h = mmio_write8 (d + 0x37) 0x10 (mmio_write8 (d + 0x52) 0 (snd (PCI_GetGeneralDevice (hardware.truncate hw) dev (aio s))))"
  shows "if \<exists>k. mmio_b hw (polls8 hw (d + 0x37) k h) (d + 0x37) AND 0x10 = 0
    then \<exists>s' k rx. RTL8139_INIT hw dev s = Inr s' \<and> mmio_b hw (polls8 hw (d + 0x37) k h) (d + 0x37) AND 0x10 = 0 \<and>
      aio s' = polls8 hw (d + 0x37) (Suc k) h @
        [MmioW (d + 0x30) (ucast rx), MmioWH (d + 0x3C) 5, MmioW (d + 0x44) 0x8F, MmioWB (d + 0x37) 0x0C] \<and>
      unat rx mod 8192 = 0 \<and> unat (malloc_start s) \<le> unat rx \<and> malloc_start s' = rx + 8208
    else RTL8139_INIT hw dev s = Inl Hangs"
proof -
  let ?hw = "hardware.truncate hw" and ?rx = "align_up (malloc_start s) 8192"
  have "BAR (fst (PCI_GetGeneralDevice ?hw dev g)) = map (\<lambda>i. cfg_header cfg (device_location dev) (of_nat (0x10 + 4 * i))) [0..<6]" for g
    using read_bars_values [OF cfg, of "[0..<6]"] by (simp add: PCI_GetGeneralDevice_def split_beta Let_def device_location_def)
  then have bar: "array_get (BAR (fst (PCI_GetGeneralDevice ?hw dev g))) (Suc 0) = Inr (cfg_header cfg (device_location dev) 0x14)" for g
    by (simp add: array_get_def)
  have init: "RTL8139_INIT hw dev s = (case reset_wait hw (d + 0x37) h of None \<Rightarrow> Inl Hangs | Some h \<Rightarrow>
      Inr (s\<lparr>malloc_start := ?rx + 8208, aio := h @ [MmioW (d + 0x30) (ucast ?rx), MmioWH (d + 0x3C) 5, MmioW (d + 0x44) 0x8F, MmioWB (d + 0x37) 0x0C]\<rparr>))"
    by (simp add: RTL8139_INIT_def split_beta Let_def bar d [symmetric] h [symmetric] mallocA_def split: option.split)
      (simp add: mmio_write_def mmio_write8_def mmio_write16_def)
  have rx: "unat ?rx mod 8192 = 0" "unat (malloc_start s) \<le> unat ?rx"
    using align_up_bounds [of "malloc_start s" 8192] heap by simp_all
  show ?thesis
  proof (cases "\<exists>k. mmio_b hw (polls8 hw (d + 0x37) k h) (d + 0x37) AND 0x10 = 0")
    case True
    define k where "k = (LEAST k. mmio_b hw (polls8 hw (d + 0x37) k h) (d + 0x37) AND 0x10 = 0)"
    have k: "mmio_b hw (polls8 hw (d + 0x37) k h) (d + 0x37) AND 0x10 = 0"
      "\<forall>j<k. mmio_b hw (polls8 hw (d + 0x37) j h) (d + 0x37) AND 0x10 \<noteq> 0"
      unfolding k_def using True by (auto intro: LeastI dest: not_less_Least)
    show ?thesis using True rx k(1) by (auto simp: init reset_wait_returns [OF k] simp del: polls8.simps)
  next
    case False
    then have "reset_wait hw (d + 0x37) h = None" using reset_wait_Some [of hw "d + 0x37" h] by (cases "reset_wait hw (d + 0x37) h") auto
    then show ?thesis using False by (simp add: init)
  qed
qed

section \<open>Example\<close>

text \<open>Every double word of the configuration space is 0xFE000000; registers read as written, the byte registers are 0.\<close>

definition example_card :: byte_device where
  "example_card = \<lparr>port_b = (\<lambda>h p. 0), port_w = (\<lambda>h p. 0), port_l = (\<lambda>h p. 0xFE000000),
     mmio_l = (\<lambda>h a. case last_write a h of None \<Rightarrow> 0 | Some v \<Rightarrow> v), msr_q = (\<lambda>h r. 0), mmio_b = (\<lambda>h a. 0)\<rparr>"

lemma example_card_space: "config_space (hardware.truncate example_card) (\<lambda>_. 0xFE000000)"
  by (simp add: config_space_def example_card_def hardware.truncate_def)

lemma example_card_header: "cfg_header (\<lambda>_. v) l o' = v"
  by (simp add: cfg_header_def split: prod.split)

theorem RTL8139_INIT_ready_witness:
  "\<exists>s' rx. RTL8139_INIT example_card zero_device example_apic = Inr s' \<and> unat rx mod 8192 = 0 \<and> malloc_start s' = rx + 8208"
proof -
  have "\<exists>k. mmio_b example_card (polls8 example_card a k h) a AND 0x10 = 0" for a h by (simp add: example_card_def)
  then show ?thesis
    using RTL8139_INIT_ready [OF example_card_space refl _ _ refl, of example_apic zero_device] by (auto simp: example_apic_def)
qed

theorem EHCI_INIT_effect_witness:
  "\<exists>irqs' s' c. EHCI_INIT example_card zero_device (\<lparr>g_ISRHandlers = replicate 256 None, g_IRQHandlers = replicate 16 None\<rparr>,
      kapic.extend example_apic (kehci.fields 0 0)) = Inr (irqs', s') \<and>
    last_write 0xFE000000 (aio s') = Some c \<and> bit c 0 \<and> last_write 0xFE000044 (aio s') = Some 1"
proof -
  let ?i = "\<lparr>g_ISRHandlers = replicate 256 None, g_IRQHandlers = replicate 16 None\<rparr> :: interrupts"
  let ?s = "kapic.extend example_apic (kehci.fields 0 0)"
  have i: "int_ok ?i" unfolding int_ok_def by simp
  have m: "malloc_start ?s = 0x1000" by (simp add: example_apic_def kapic.defs kehci.defs)
  have b: "mmio_b example_card g a = 0" for g a by (simp add: example_card_def)
  have rb: "reads_back (hardware.truncate example_card) a" for a by (simp add: reads_back_def example_card_def hardware.truncate_def)
  show ?thesis
    using EHCI_INIT_effect [OF example_card_space i _ _ refl refl refl refl rb, of ?s zero_device]
    unfolding example_card_header b m by auto
qed

end
