(* ===== verification/Pong.thy ===== *)
theory Pong
  imports Graphics Keyboard
begin

text \<open>
  The game of \<open>src/src/programs/pong.c\<close>. Arithmetic on \<open>float\<close> values, which moves the ball, is a parameter; everything else is
  integer arithmetic on \<open>int\<close>. The loop of \<open>PONG_MAIN\<close> never ends; its rounds and the key events that arrive in between
  are steps.
\<close>

section \<open>Definitions\<close>

record Rect =
  rect_x :: int
  rect_y :: int
  rect_w :: int
  rect_h :: int

record 'f floats =
  f_int :: "int \<Rightarrow> 'f"
  f_add :: "'f \<Rightarrow> 'f \<Rightarrow> 'f"
  f_mul :: "'f \<Rightarrow> 'f \<Rightarrow> 'f"
  f_div :: "'f \<Rightarrow> 'f \<Rightarrow> 'f"
  f_neg :: "'f \<Rightarrow> 'f"
  f_sqrt :: "'f \<Rightarrow> 'f"
  f_less :: "'f \<Rightarrow> 'f \<Rightarrow> bool"
  f_trunc :: "'f \<Rightarrow> int"

record 'f pong =
  pong_w :: int
  pong_h :: int
  wp :: int
  sp :: int
  upp :: int
  downp :: int
  bx :: 'f
  by' :: 'f
  vx :: 'f
  vy :: 'f
  lastcol :: int
  pad1 :: Rect
  pad2 :: Rect
  ball :: Rect
  pong_screen :: screen

abbreviation (input) "speed \<equiv> 4 :: int"
abbreviation (input) "pw \<equiv> 20 :: int"
abbreviation (input) "ph \<equiv> 100 :: int"
abbreviation (input) "dx \<equiv> 100 :: int"

definition DrawRect :: "int \<Rightarrow> int \<Rightarrow> Rect \<Rightarrow> screen \<Rightarrow> screen" where
  "DrawRect w h r g =
     (let x = max 0 (min (rect_x r) w);
          y = max 0 (min (rect_y r) h);
          w' = min (max 0 (int32 (w - x))) (rect_w r);
          h' = min (max 0 (int32 (h - y))) (rect_h r)
      in FillRect x y w' h' g)"

text \<open>The heights are positive, so the division by 2 rounds down.\<close>

definition normalize :: "int \<Rightarrow> Rect \<Rightarrow> Rect" where
  "normalize h r =
     (let r = r\<lparr>rect_y := max (rect_y r) (- (rect_h r div 2))\<rparr>
      in r\<lparr>rect_y := min (rect_y r) (h - 2 * rect_h r div 2)\<rparr>)"

definition set_key :: "bool \<Rightarrow> bool \<Rightarrow> u8 \<Rightarrow> int \<Rightarrow> int" where
  "set_key typ val pressed old =
     (let v = (if typ \<and> pressed \<noteq> 0 \<and> val then 1 else old)
      in if typ \<and> pressed = 0 \<and> val then 0 else v)"

definition PongKeyboardHandler :: "KeyCode \<Rightarrow> 'f pong \<Rightarrow> 'f pong" where
  "PongKeyboardHandler code s =
     s\<lparr>wp := set_key (key_type code = 1) (key_val code OR 32 = 0x77) (key_pressed code) (wp s),
       sp := set_key (key_type code = 1) (key_val code OR 32 = 0x73) (key_pressed code) (sp s),
       upp := set_key (key_type code = 3) (key_val code = 3) (key_pressed code) (upp s),
       downp := set_key (key_type code = 3) (key_val code = 4) (key_pressed code) (downp s)\<rparr>"

definition reset :: "'f floats \<Rightarrow> 'f pong \<Rightarrow> 'f pong" where
  "reset F s =
     s\<lparr>bx := f_div F (f_int F (pong_w s)) (f_int F 2), by' := f_div F (f_int F (pong_h s)) (f_int F 2),
       vx := f_int F (- speed), vy := f_int F 0, lastcol := -1\<rparr>"

definition f_min :: "'f floats \<Rightarrow> 'f \<Rightarrow> 'f \<Rightarrow> 'f" where
  "f_min F a b = (if f_less F a b then a else b)"

definition f_max :: "'f floats \<Rightarrow> 'f \<Rightarrow> 'f \<Rightarrow> 'f" where
  "f_max F a b = (if f_less F b a then a else b)"

definition checkBounds :: "'f floats \<Rightarrow> 'f pong \<Rightarrow> 'f pong" where
  "checkBounds F s =
     (let w = f_int F (pong_w s);
          h = f_int F (pong_h s);
          s = (if f_less F (bx s) (f_int F 0) \<or> f_less F w (bx s) then reset F s else s);
          s = (if f_less F (by' s) (f_int F 0) \<or> f_less F h (by' s) then s\<lparr>vy := f_neg F (vy s)\<rparr> else s)
      in s\<lparr>bx := f_max F (f_int F 1) (f_min F w (bx s)), by' := f_max F (f_int F 1) (f_min F h (by' s))\<rparr>)"

definition collide :: "Rect \<Rightarrow> Rect \<Rightarrow> bool" where
  "collide r1 r2 \<longleftrightarrow>
     rect_x r1 < int32 (rect_x r2 + rect_w r2) \<and> int32 (rect_x r1 + rect_w r1) > rect_x r2 \<and>
     rect_y r1 < int32 (rect_y r2 + rect_h r2) \<and> int32 (rect_y r1 + rect_h r1) > rect_y r2"

text \<open>The ball bounces off a paddle; \<open>k\<close> is the factor of the horizontal speed before it is turned around.\<close>

definition bounce :: "'f floats \<Rightarrow> int \<Rightarrow> Rect \<Rightarrow> 'f pong \<Rightarrow> 'f pong" where
  "bounce F k p s =
     (let hf = f_div F (f_int F (int32 (- (rect_y p + rect_h p div 2 - rect_y (ball s))))) (f_div F (f_int F (rect_h p)) (f_int F 2));
          x = f_int F 1;
          d = f_sqrt F (f_add F (f_mul F x x) (f_mul F hf hf))
      in s\<lparr>vx := f_neg F (f_mul F x (f_div F (f_int F k) d)), vy := f_mul F hf (f_div F (f_int F speed) d)\<rparr>)"

definition bounces :: "'f floats \<Rightarrow> 'f pong \<Rightarrow> 'f pong" where
  "bounces F s =
     (let s = (if lastcol s \<noteq> 1 \<and> collide (pad1 s) (ball s) then (bounce F (- speed) (pad1 s) s)\<lparr>lastcol := 1\<rparr> else s)
      in if lastcol s \<noteq> 2 \<and> collide (pad2 s) (ball s) then (bounce F speed (pad2 s) s)\<lparr>lastcol := 2\<rparr> else s)"

definition move_pad :: "int \<Rightarrow> int \<Rightarrow> Rect \<Rightarrow> Rect" where
  "move_pad up down r = r\<lparr>rect_y := int32 (rect_y r - speed * (up - down))\<rparr>"

text \<open>One round of the loop: everything moves, then the picture is drawn.\<close>

definition pong_move :: "'f floats \<Rightarrow> 'f pong \<Rightarrow> 'f pong" where
  "pong_move F s =
     (let s = checkBounds F s;
          s = s\<lparr>bx := f_add F (bx s) (vx s), by' := f_add F (by' s) (vy s)\<rparr>;
          s = s\<lparr>pad1 := move_pad (wp s) (sp s) (pad1 s), pad2 := move_pad (upp s) (downp s) (pad2 s)\<rparr>;
          s = s\<lparr>ball := (ball s)\<lparr>rect_x := f_trunc F (bx s), rect_y := f_trunc F (by' s)\<rparr>\<rparr>
      in bounces F s)"

definition pong_round :: "'f floats \<Rightarrow> 'f pong \<Rightarrow> 'f pong outcome" where
  "pong_round F s =
     (let s = pong_move F s
      in andthen (ClearScreen (pong_screen s)) (\<lambda>g.
         let s = s\<lparr>pad1 := normalize (pong_h s) (pad1 s), pad2 := normalize (pong_h s) (pad2 s)\<rparr>;
             g = DrawRect (pong_w s) (pong_h s) (pad1 s) g;
             g = DrawRect (pong_w s) (pong_h s) (pad2 s) g;
             g = DrawRect (pong_w s) (pong_h s) (ball s) g
         in Inr (s\<lparr>pong_screen := g\<rparr>)))"

text \<open>The part of \<open>PONG_MAIN\<close> before the loop; \<open>(h-ph)/2\<close> rounds toward 0.\<close>

definition pong_start :: "'f floats \<Rightarrow> 'f pong \<Rightarrow> 'f pong outcome" where
  "pong_start F s =
     andthen (ClearScreen (SetColor 0xFFFFFF (pong_screen s))) (\<lambda>g.
     let w = GetWidth g;
         h = GetHeight g;
         y = sgn (h - ph) * (\<bar>h - ph\<bar> div 2)
     in Inr (s\<lparr>pong_screen := g, pong_w := w, pong_h := h,
          pad1 := \<lparr>rect_x = dx - pw div 2, rect_y = y, rect_w = pw, rect_h = ph\<rparr>,
          pad2 := \<lparr>rect_x = w - (dx - pw div 2), rect_y = y, rect_w = pw, rect_h = ph\<rparr>,
          ball := \<lparr>rect_x = sgn w * (\<bar>w\<bar> div 2), rect_y = sgn h * (\<bar>h\<bar> div 2), rect_w = 10, rect_h = 10\<rparr>,
          bx := f_div F (f_int F w) (f_int F 2), by' := f_div F (f_int F h) (f_int F 2),
          vx := f_int F (- speed), vy := f_int F 0\<rparr>))"

datatype pong_event = Key KeyCode | Round

fun pong_step :: "'f floats \<Rightarrow> pong_event \<Rightarrow> 'f pong \<Rightarrow> 'f pong outcome" where
  "pong_step F (Key code) s = Inr (PongKeyboardHandler code s)"
| "pong_step F Round s = pong_round F s"

fun pong_run :: "'f floats \<Rightarrow> pong_event list \<Rightarrow> 'f pong \<Rightarrow> 'f pong outcome" where
  "pong_run F [] s = Inr s"
| "pong_run F (e # es) s = andthen (pong_step F e s) (pong_run F es)"

section \<open>Drawing stays on the screen\<close>

lemma DrawRect_paints:
  assumes "screen_ok g" and w: "w = int (unat (width g))" "w < 2 ^ 31" and h: "h = int (unat (height g))" "h < 2 ^ 31"
    and "- (2 ^ 31) \<le> rect_w r" "- (2 ^ 31) \<le> rect_h r"
  defines "x \<equiv> max 0 (min (rect_x r) w)" and "y \<equiv> max 0 (min (rect_y r) h)"
  shows "painted g (\<lambda>i j. if x \<le> i \<and> i < x + min (w - x) (rect_w r) \<and> y \<le> j \<and> j < y + min (h - y) (rect_h r) then Some (color g) else None)
    (DrawRect w h r g)"
proof -
  have r: "0 \<le> x" "x \<le> w" "0 \<le> y" "y \<le> h" using w(1) h(1) by (auto simp: x_def y_def)
  then have "int32 (w - x) = w - x" "int32 (h - y) = h - y" using w(2) h(2) by simp_all
  then have d: "DrawRect w h r g = FillRect x y (min (w - x) (rect_w r)) (min (h - y) (rect_h r)) g"
    using r by (simp add: DrawRect_def x_def [symmetric] y_def [symmetric] Let_def)
  show ?thesis unfolding d
    using r w h assms(6,7) by (intro FillRect_pixels [OF assms(1)]) linarith+
qed

text \<open>
  Whatever the rectangle, \<open>DrawRect\<close> paints only pixels of the screen. A rectangle whose corner is on the screen is drawn clipped;
  one that starts left of or above the screen is drawn with its full size at the edge, not its visible part.
\<close>

theorem DrawRect_clips:
  assumes "screen_ok g" and "w = int (unat (width g))" "w < 2 ^ 31" and "h = int (unat (height g))" "h < 2 ^ 31"
    and "- (2 ^ 31) \<le> rect_w r" "- (2 ^ 31) \<le> rect_h r"
  shows "\<exists>pic. painted g pic (DrawRect w h r g) \<and>
    (\<forall>i j. on_screen g i j \<longrightarrow> 0 \<le> rect_x r \<longrightarrow> 0 \<le> rect_y r \<longrightarrow>
       (pic i j = Some (color g) \<longleftrightarrow> rect_x r \<le> i \<and> i < rect_x r + rect_w r \<and> rect_y r \<le> j \<and> j < rect_y r + rect_h r)) \<and>
    (\<forall>i j. on_screen g i j \<longrightarrow> rect_x r < 0 \<longrightarrow> rect_y r < 0 \<longrightarrow> (pic i j = Some (color g) \<longleftrightarrow> i < rect_w r \<and> j < rect_h r))"
  by (rule exI, rule conjI, rule DrawRect_paints [OF assms]) (use assms(2,4) in \<open>auto simp: on_screen_def\<close>)

section \<open>The game\<close>

definition pad_ok :: "int \<Rightarrow> Rect \<Rightarrow> bool" where
  "pad_ok h r \<longleftrightarrow> rect_h r = ph \<and> rect_w r = pw \<and> - 50 \<le> rect_y r \<and> rect_y r \<le> h - ph"

definition screen_fits :: "screen \<Rightarrow> bool" where
  "screen_fits g \<longleftrightarrow> unat (width g) < 2 ^ 31 \<and> unat (height g) < 2 ^ 31 \<and> 100 \<le> unat (height g) \<and>
     unat (width g) * unat (height g) < 2 ^ 32"

definition pong_ok :: "screen \<Rightarrow> 'f pong \<Rightarrow> bool" where
  "pong_ok g s \<longleftrightarrow> pong_w s = int (unat (width g)) \<and> pong_h s = int (unat (height g)) \<and>
     (\<exists>pic. painted g pic (pong_screen s)) \<and> pad_ok (pong_h s) (pad1 s) \<and> pad_ok (pong_h s) (pad2 s) \<and>
     rect_w (ball s) = 10 \<and> rect_h (ball s) = 10 \<and> {wp s, sp s, upp s, downp s} \<subseteq> {0, 1}"

lemma screen_fits_int:
  assumes "screen_fits g"
  shows "int (unat (width g)) < 2 ^ 31" "int (unat (height g)) < 2 ^ 31" "100 \<le> int (unat (height g))"
proof -
  have "int n < 2 ^ 31" if "n < 2 ^ 31" for n :: nat using that by simp
  then show "int (unat (width g)) < 2 ^ 31" "int (unat (height g)) < 2 ^ 31" using assms unfolding screen_fits_def by blast+
  show "100 \<le> int (unat (height g))" using assms unfolding screen_fits_def by linarith
qed

lemma painted_size: "painted g pic g' \<Longrightarrow> width g' = width g \<and> height g' = height g"
  by (cases g; cases g') (simp add: painted_def)

lemma set_key_flag: "old \<in> {0, 1} \<Longrightarrow> set_key typ val pr old \<in> {0, 1}"
  by (simp add: set_key_def)

lemma key_ok: "pong_ok g s \<Longrightarrow> pong_ok g (PongKeyboardHandler code s)"
  using set_key_flag [of "wp s"] set_key_flag [of "sp s"] set_key_flag [of "upp s"] set_key_flag [of "downp s"]
  by (auto simp: pong_ok_def PongKeyboardHandler_def)

lemma move_normalize_ok:
  assumes "pad_ok h r" "up \<in> {0, 1}" "down \<in> {0, 1}" "100 \<le> h" "h < 2 ^ 31"
  shows "pad_ok h (normalize h (move_pad up down r))"
proof -
  have "- 4 \<le> speed * (up - down)" "speed * (up - down) \<le> 4" using assms(2,3) by auto
  then have "int32 (rect_y r - speed * (up - down)) = rect_y r - speed * (up - down)"
    using assms(1,5) by (intro int32_id) (simp_all add: pad_ok_def)
  then show ?thesis using assms(1,4) by (simp add: pad_ok_def move_pad_def normalize_def Let_def)
qed

lemma draw_ok:
  assumes "screen_fits g" "painted g pic g'" "w = int (unat (width g))" "h = int (unat (height g))" "0 \<le> rect_w r" "0 \<le> rect_h r"
  shows "\<exists>pic. painted g pic (DrawRect w h r g')"
proof -
  have "screen_ok g" using assms(1) by (simp add: screen_fits_def screen_ok_def)
  then have "screen_ok g'" using painted_frame(4) [OF assms(2)] by simp
  moreover have "w = int (unat (width g'))" "h = int (unat (height g'))" using painted_size [OF assms(2)] assms(3,4) by simp_all
  moreover have "w < 2 ^ 31" "h < 2 ^ 31" unfolding assms(3,4) by (rule screen_fits_int [OF assms(1)])+
  ultimately have "\<exists>pic. painted g' pic (DrawRect w h r g')"
    using assms(5,6) DrawRect_paints [of g' w h r] by (intro exI) auto
  then show ?thesis using painted_trans [OF assms(2)] by blast
qed

lemma moved_kept:
  "pong_w (bounces F s) = pong_w s" "pong_h (bounces F s) = pong_h s" "pad1 (bounces F s) = pad1 s" "pad2 (bounces F s) = pad2 s"
  "ball (bounces F s) = ball s" "pong_screen (bounces F s) = pong_screen s"
  "wp (bounces F s) = wp s" "sp (bounces F s) = sp s" "upp (bounces F s) = upp s" "downp (bounces F s) = downp s"
  "pong_w (checkBounds F s) = pong_w s" "pong_h (checkBounds F s) = pong_h s" "pad1 (checkBounds F s) = pad1 s"
  "pad2 (checkBounds F s) = pad2 s" "ball (checkBounds F s) = ball s" "pong_screen (checkBounds F s) = pong_screen s"
  "wp (checkBounds F s) = wp s" "sp (checkBounds F s) = sp s" "upp (checkBounds F s) = upp s" "downp (checkBounds F s) = downp s"
  by (simp_all add: bounces_def bounce_def checkBounds_def reset_def Let_def)

lemma round_ok:
  assumes fits: "screen_fits g" and ok: "pong_ok g s"
  shows "\<exists>s'. pong_round F s = Inr s' \<and> pong_ok g s'"
proof -
  define t where "t = pong_move F s"
  have t: "pong_w t = pong_w s" "pong_h t = pong_h s" "pong_screen t = pong_screen s" "pad1 t = move_pad (wp s) (sp s) (pad1 s)"
    "pad2 t = move_pad (upp s) (downp s) (pad2 s)" "rect_w (ball t) = rect_w (ball s)" "rect_h (ball t) = rect_h (ball s)"
    "wp t = wp s" "sp t = sp s" "upp t = upp s" "downp t = downp s"
    by (simp_all add: t_def pong_move_def moved_kept Let_def)
  define q1 where "q1 = normalize (pong_h s) (pad1 t)"
  define q2 where "q2 = normalize (pong_h s) (pad2 t)"
  have h: "100 \<le> pong_h s" "pong_h s < 2 ^ 31" using ok screen_fits_int [OF fits] unfolding pong_ok_def by linarith+
  have q: "pad_ok (pong_h s) q1" "pad_ok (pong_h s) q2"
    unfolding q1_def q2_def t using ok h by (auto intro!: move_normalize_ok simp: pong_ok_def)
  obtain pic where p: "painted g pic (pong_screen s)" using ok by (auto simp: pong_ok_def)
  have "unat (width (pong_screen s)) * unat (height (pong_screen s)) < 2 ^ 32"
    using fits painted_size [OF p] by (simp add: screen_fits_def)
  then obtain g0 where c: "ClearScreen (pong_screen s) = Inr g0" "painted (pong_screen s) (\<lambda>x y. Some 0) g0"
    using ClearScreen_paints by blast
  note p0 = painted_trans [OF p c(2)]
  have d: "pong_w s = int (unat (width g))" "pong_h s = int (unat (height g))" using ok by (simp_all add: pong_ok_def)
  obtain pic1 where p1: "painted g pic1 (DrawRect (pong_w s) (pong_h s) q1 g0)"
    using draw_ok [OF fits p0 d, of q1] q(1) by (auto simp: pad_ok_def)
  obtain pic2 where p2: "painted g pic2 (DrawRect (pong_w s) (pong_h s) q2 (DrawRect (pong_w s) (pong_h s) q1 g0))"
    using draw_ok [OF fits p1 d, of q2] q(2) by (auto simp: pad_ok_def)
  obtain pic3 where p3: "painted g pic3 (DrawRect (pong_w s) (pong_h s) (ball t) (DrawRect (pong_w s) (pong_h s) q2 (DrawRect (pong_w s) (pong_h s) q1 g0)))"
    using draw_ok [OF fits p2 d, of "ball t"] ok t by (auto simp: pong_ok_def)
  have "pong_round F s = Inr (t\<lparr>pad1 := q1, pad2 := q2, pong_screen :=
      DrawRect (pong_w s) (pong_h s) (ball t) (DrawRect (pong_w s) (pong_h s) q2 (DrawRect (pong_w s) (pong_h s) q1 g0))\<rparr>)"
    using c(1) by (simp add: pong_round_def t_def [symmetric] t(1-3) q1_def q2_def Let_def)
  moreover have "pong_ok g (t\<lparr>pad1 := q1, pad2 := q2, pong_screen :=
      DrawRect (pong_w s) (pong_h s) (ball t) (DrawRect (pong_w s) (pong_h s) q2 (DrawRect (pong_w s) (pong_h s) q1 g0))\<rparr>)"
    using ok q p3 t by (auto simp: pong_ok_def)
  ultimately show ?thesis by blast
qed


lemma run_ok: "screen_fits g \<Longrightarrow> pong_ok g s \<Longrightarrow> \<exists>s'. pong_run F es s = Inr s' \<and> pong_ok g s'"
proof (induction es arbitrary: s)
  case (Cons e es)
  have "\<exists>t. pong_step F e s = Inr t \<and> pong_ok g t"
  proof (cases e)
    case (Key code)
    then show ?thesis using Cons.prems by (simp add: key_ok)
  next
    case Round
    then show ?thesis using Cons.prems round_ok [of g s F] by simp
  qed
  then obtain t where "pong_step F e s = Inr t" "pong_ok g t" by blast
  then show ?case using Cons.IH [of t] Cons.prems(1) by simp
qed simp

lemma start_ok:
  assumes "screen_fits g" and "pong_screen s = g" and "{wp s, sp s, upp s, downp s} \<subseteq> {0, 1}"
  shows "\<exists>s'. pong_start F s = Inr s' \<and> pong_ok (SetColor 0xFFFFFF g) s'"
proof -
  let ?g = "SetColor 0xFFFFFF g"
  have sz: "width ?g = width g" "height ?g = height g" by (simp_all add: SetColor_def)
  obtain g' where g': "ClearScreen ?g = Inr g'" "painted ?g (\<lambda>x y. Some 0) g'"
    using ClearScreen_paints [of ?g] assms(1) sz by (auto simp: screen_fits_def)
  have "width g' = width g" "height g' = height g" using painted_size [OF g'(2)] sz by simp_all
  then have d: "GetWidth g' = int (unat (width g))" "GetHeight g' = int (unat (height g))"
    using assms(1) unfolding screen_fits_def GetWidth_def GetHeight_def by (simp_all only: long_to_int_small)
  define W where "W = int (unat (width g))"
  define H where "H = int (unat (height g))"
  have h: "100 \<le> H" using screen_fits_int [OF assms(1)] by (simp only: H_def)
  then have "sgn (H - ph) * (\<bar>H - ph\<bar> div 2) = (H - ph) div 2" by (cases "H = ph") simp_all
  then have y: "- 50 \<le> sgn (H - ph) * (\<bar>H - ph\<bar> div 2)" "sgn (H - ph) * (\<bar>H - ph\<bar> div 2) \<le> H - ph" using h by linarith+
  obtain s' where st: "pong_start F s = Inr s'" by (simp add: pong_start_def assms(2) g'(1) Let_def)
  then have s': "pong_w s' = W" "pong_h s' = H" "pong_screen s' = g'"
      "rect_y (pad1 s') = sgn (H - ph) * (\<bar>H - ph\<bar> div 2)" "rect_h (pad1 s') = ph" "rect_w (pad1 s') = pw"
      "rect_y (pad2 s') = sgn (H - ph) * (\<bar>H - ph\<bar> div 2)" "rect_h (pad2 s') = ph" "rect_w (pad2 s') = pw"
      "rect_w (ball s') = 10" "rect_h (ball s') = 10" "wp s' = wp s" "sp s' = sp s" "upp s' = upp s" "downp s' = downp s"
    by (auto simp: pong_start_def assms(2) g'(1) d [folded H_def W_def] Let_def)
  have "pong_ok ?g s'"
    unfolding pong_ok_def pad_ok_def sz W_def [symmetric] H_def [symmetric] s' using y assms(3) g'(2)
    by (intro conjI) (assumption | rule refl | rule exI, assumption)+
  with st show ?thesis by blast
qed

text \<open>
  From the start of the game on, for every sequence of rounds and key events, the game goes on, the paddles stay between half their height
  above the screen and its lower edge, and no cell outside the screen is written.
\<close>

theorem pong_stays:
  assumes fits: "screen_fits (pong_screen s)" and keys: "{wp s, sp s, upp s, downp s} \<subseteq> {0, 1}" and g: "g = pong_screen s"
  shows "\<exists>s'. andthen (pong_start F s) (pong_run F es) = Inr s' \<and>
    (\<forall>r\<in>{pad1 s', pad2 s'}. - 50 \<le> rect_y r \<and> rect_y r + rect_h r \<le> int (unat (height g))) \<and>
    (\<forall>a. (\<forall>x y. on_screen g x y \<longrightarrow> a \<noteq> GET_PIXEL g x y) \<longrightarrow> cells (pong_screen s') a = cells g a)"
proof -
  let ?g = "SetColor 0xFFFFFF g"
  have c: "width ?g = width g" "height ?g = height g" "on_screen ?g = on_screen g" "GET_PIXEL ?g = GET_PIXEL g" "cells ?g = cells g"
    by (simp_all add: SetColor_def on_screen_def GET_PIXEL_def fun_eq_iff)
  obtain t where t: "pong_start F s = Inr t" "pong_ok ?g t" using start_ok [of g s F] assms by blast
  have "screen_fits ?g" using fits g c by (simp add: screen_fits_def)
  then obtain s' where s': "pong_run F es t = Inr s'" "pong_ok ?g s'" using run_ok [OF _ t(2)] by blast
  then obtain pic where p: "painted ?g pic (pong_screen s')" by (auto simp: pong_ok_def)
  have "- 50 \<le> rect_y r \<and> rect_y r + rect_h r \<le> int (unat (height g))" if "r \<in> {pad1 s', pad2 s'}" for r
    using s'(2) that unfolding pong_ok_def pad_ok_def c by auto
  moreover have "cells (pong_screen s') a = cells g a" if "\<forall>x y. on_screen g x y \<longrightarrow> a \<noteq> GET_PIXEL g x y" for a
    using p that unfolding painted_def c by simp
  ultimately show ?thesis using t(1) s'(1) by simp
qed

section \<open>Examples\<close>

definition big_screen :: screen where
  "big_screen = \<lparr>width = 640, height = 480, bpp = 32, video = 0x100000, color = 0xFFFFFF, cells = (\<lambda>_. 0)\<rparr>"

text \<open>Whole numbers in place of floating-point ones.\<close>

definition whole :: "int floats" where
  "whole = \<lparr>f_int = (\<lambda>n. n), f_add = (+), f_mul = (*), f_div = (div), f_neg = uminus, f_sqrt = (\<lambda>x. x), f_less = (<), f_trunc = (\<lambda>x. x)\<rparr>"

definition new_game :: "int pong" where
  "new_game = \<lparr>pong_w = 0, pong_h = 0, wp = 0, sp = 0, upp = 0, downp = 0, bx = 0, by' = 0, vx = 0, vy = 0, lastcol = -1,
     pad1 = \<lparr>rect_x = 0, rect_y = 0, rect_w = 0, rect_h = 0\<rparr>, pad2 = \<lparr>rect_x = 0, rect_y = 0, rect_w = 0, rect_h = 0\<rparr>,
     ball = \<lparr>rect_x = 0, rect_y = 0, rect_w = 0, rect_h = 0\<rparr>, pong_screen = big_screen\<rparr>"

theorem pong_stays_witness:
  "\<exists>s'. andthen (pong_start whole new_game) (pong_run whole
      [Key \<lparr>key_type = 1, key_val = 0x77, key_pressed = 1, key_modifiers = 0\<rparr>, Round, Round]) = Inr s' \<and>
    - 50 \<le> rect_y (pad1 s') \<and> cells (pong_screen s') 0 = 0"
proof -
  have f: "screen_fits (pong_screen new_game)" "{wp new_game, sp new_game, upp new_game, downp new_game} \<subseteq> {0, 1}"
    by (simp_all add: screen_fits_def new_game_def big_screen_def)
  have "0 \<noteq> GET_PIXEL (pong_screen new_game) x y" if "on_screen (pong_screen new_game) x y" for x y
  proof -
    have r: "nat y < 480" "nat x < 640" using on_screen_nat [OF that] by (simp_all add: new_game_def big_screen_def)
    have "GET_PIXEL (pong_screen new_game) x y = of_nat (0x100000 + 4 * (nat y * 640 + nat x))"
      unfolding GET_PIXEL_nat [OF that] by (simp add: new_game_def big_screen_def)
    moreover have "unat (of_nat (0x100000 + 4 * (nat y * 640 + nat x)) :: u64) = 0x100000 + 4 * (nat y * 640 + nat x)"
      using r by (intro unat_of_nat64) simp
    ultimately have "unat (GET_PIXEL (pong_screen new_game) x y) \<noteq> 0" by simp
    then show ?thesis by auto
  qed
  then have z: "\<forall>x y. on_screen (pong_screen new_game) x y \<longrightarrow> 0 \<noteq> GET_PIXEL (pong_screen new_game) x y" by blast
  have "cells (pong_screen new_game) 0 = 0" by (simp add: new_game_def big_screen_def)
  with z show ?thesis
    using pong_stays [OF f refl, of whole "[Key \<lparr>key_type = 1, key_val = 0x77, key_pressed = 1, key_modifiers = 0\<rparr>, Round, Round]"]
    by (metis insertI1)
qed

theorem DrawRect_clips_witness:
  "\<exists>pic. painted example_screen pic (DrawRect 64 48 \<lparr>rect_x = -5, rect_y = -5, rect_w = 10, rect_h = 10\<rparr> example_screen) \<and> pic 9 9 = Some 0xFFFFFF"
proof -
  have "on_screen example_screen 9 9" by (simp add: on_screen_def example_screen_fields)
  then show ?thesis
    using DrawRect_clips [of example_screen 64 48 "\<lparr>rect_x = -5, rect_y = -5, rect_w = 10, rect_h = 10\<rparr>"]
    by (auto simp: example_screen_fields screen_ok_def)
qed

end
