(* ===== verification/Spec2Isabelle.thy ===== *)
theory Spec2Isabelle
  imports Gpt KList Gdt Keyboard Syscalls XhciInit PrintfSpec Apic Boot Shell AhciInit Devices Pong
begin

text \<open>
  A verification development for CustomOS, a 64-bit x86 kernel written in C
  (\<open>src/src\<close>). Every definition translates the C function named in the text before it.

  \<^bold>\<open>How C is rendered.\<close> Integers keep their C width as words, so arithmetic wraps as
  the compiled code does; \<open>int\<close> values appear as HOL integers only where the code counts
  and the range is written out. Memory is a function from 64-bit addresses to bytes with
  little-endian accessors (theory \<open>Prelude\<close>); structures that other code reaches by pointer arithmetic
  (page tables, list nodes, string buffers, process pages) live in that memory, and the other globals are
  fields of records that extend each other in the order the components build on each
  other: \<open>kheap\<close>, \<open>kpaging\<close>, \<open>kext2\<close>, \<open>ksched\<close>, \<open>ktask\<close>, \<open>ksys\<close>. A fault that the C code
  can run into (a NULL call, a write past an array, a halt) is a value of the result type
  and never silently skipped. A loop that need not end is a \<open>partial_function\<close> into
  \<open>option\<close>, where \<open>None\<close> means that it does not return; theorems about such loops state
  that they return. Messages printed on the console are left out.

  \<^bold>\<open>Memory management.\<close> \<open>CString\<close> models \<open>stdlib/string.c\<close>: scanning, comparing,
  copying, token splitting. \<open>KMalloc\<close> models the bump allocators of \<open>stdlib/stdlib.c\<close> and the walk over
  the boot loader's memory map; the locale \<open>allocator\<close> states the contract (blocks lie in
  the heap and do not overlap) and is interpreted for the byte heap and for the aligned page heap.
  \<open>Paging\<close> models \<open>paging/paging.c\<close>: the four-level walk, creation of missing tables,
  remapping and the bitmap of physical pages. Its theorems show that a mapping
  translates to the requested frame and no other address changes, and that pages handed out
  by \<open>PageAllocate\<close> are distinct until freed (locale \<open>page_pool\<close>).

  \<^bold>\<open>Storage.\<close> \<open>Ahci\<close> models the SATA driver: the bytes of a command, the choice of a
  slot and the waiting loops over the device registers. The device is a parameter; the locale
  \<open>sector_reader\<close> says what the file system expects of it and is interpreted for a
  device that serves an image. \<open>AhciInit\<close> models bringing up the controller: the scan finds exactly the disks that the controller
  reports, and what a restarted port's command list holds. \<open>Ext2\<close> models the sector stream buffer and the inode,
  directory, file and path readers; \<open>Gpt\<close> the partition table; \<open>Vfs\<close> the descriptors on top.
  The theorems show that the stream delivers the sectors' bytes in order (and which requests overrun their destination), that a directory
  search finds the inode of a name that is there (and when it notices that one is not), and what a file read over
  direct blocks writes, for every length asked for.

  \<^bold>\<open>Interrupts.\<close> \<open>Idt\<close>, \<open>Isr\<close> and \<open>Gdt\<close> model the descriptor tables, the dispatch of exceptions and
  device interrupts and the segment descriptors; \<open>Keyboard\<close> the PS/2 driver, \<open>CharDev\<close> the
  ring between keyboard and reader (locale \<open>byte_queue\<close>).

  \<^bold>\<open>Processes.\<close> \<open>Elf\<close> models the ELF reader, \<open>Sched\<close> the process table with its dynamic array
  (locale \<open>growing_table\<close>), creation, duplication, start and round robin, \<open>Task\<close> the older
  task list, \<open>Syscalls\<close> the system call dispatcher with its calls and the exception
  handlers, \<open>SyscallNames\<close> the name table. The theorems follow a call from the saved frame to the
  table of processes: reads deliver the file in order, a fork appends one child with two fresh pages, unknown calls and
  user faults take the running process out of the table (\<open>killed\<close> says what that does to the others), timer ticks visit all
  processes in turn. The theorem on \<open>ELF_PARSE\<close> is stated over the bytes of the ELF64 format.

  \<^bold>\<open>Drivers.\<close> Accesses to ports and device registers extend a history, and what a device answers is a
  parameter that may depend on the history (theory \<open>Io\<close>, which also holds the interrupt controller, the serial
  line, the timers and the ATA driver). \<open>Pci\<close> models configuration space, the scan of the bus and message
  interrupts. The USB 3 controller is spread over \<open>XhciRing\<close> (blocks, command and transfer rings, requests), \<open>Usb\<close>
  (descriptors and key reports), \<open>Xhci\<close> (contexts, enumeration, interrupt handlers), \<open>XhciInit\<close> (bringing up the
  controller) and \<open>XhciEnum\<close> (the enumeration as a state machine). The theorems show that the scan lists
  exactly the functions that answer, that a transfer ring never overwrites its link block, that a transfer event moves
  its slot on by one step, and that from initialisation on every interleaving of interrupts with writes of the
  controller keeps the driver state well formed.

  \<^bold>\<open>Formatted output.\<close> \<open>Printf\<close> models \<open>printf/printf.c\<close>, the interpreter of formats with its number
  conversions; arithmetic on floating-point values is a parameter. \<open>PrintfSpec\<close> specifies the expansion of a format over lists of
  characters and shows that the interpreter implements it, that \<open>snprintf\<close> stays within its buffer for every format and that
  printed numbers read back.

  \<^bold>\<open>Firmware and local interrupts.\<close> \<open>Firmware\<close> models the scan of the boot loader's tags (\<open>grub/multibootutils.c\<close>) and of the
  ACPI root table (\<open>drivers/acpi/acpi.c\<close>), both instances of one walk over records that carry their own length; the
  theorems say what the walk finds in tables laid out as their specifications say. \<open>Apic\<close> models the local and the I/O interrupt controller and the
  local timer (\<open>drivers/apic/apic.c\<close>, \<open>devices/apic/timer.c\<close>): the redirection table reads back the fields that
  the device lets software write, the controller that the table describes is the one mapped and its lines reach the vectors of the
  dispatcher, and calibration counts one clock period.

  \<^bold>\<open>FAT.\<close> \<open>Fat\<close> models the boot sector, long names, listings and sector buffer of \<open>drivers/fat/fat.c\<close> and \<open>stdlib/file.c\<close>.

  \<^bold>\<open>Drawing.\<close> \<open>Graphics\<close> models pixels, glyphs, the text cursor, text mode and pictures. \<open>painted\<close> is the
  abstract effect of drawing on a screen, and the operations are shown to paint exactly the intended pixels.

  \<^bold>\<open>Boot.\<close> \<open>Boot\<close> models how \<open>kernel_main\<close> puts the components together: memory from the boot information, mounting the disks,
  loading the first programs. Its theorems compose those of paging, heap, file system and process table: which addresses
  the kernel reaches afterwards, in which memory layouts a page table is handed out twice, and that
  loading keeps the process table well formed.

  \<^bold>\<open>Shell.\<close> \<open>Shell\<close> models \<open>programs/kshell.c\<close>: the line buffer against an abstract line editor, splitting into words, and
  the commands, which call the file system, the ELF reader and the task list.

  \<^bold>\<open>Other devices and the game.\<close> \<open>Devices\<close> models the USB 2 controller, the reset of the network card and two helpers of the trap
  handlers, with theorems on the registers they leave behind. \<open>Pong\<close> models the game: for every sequence of
  rounds and keys the paddles stay in range and nothing outside the screen is written.

  \<^bold>\<open>Bounds.\<close> No fuel is used in the theorems' statements except where a C loop has
  a counter of its own. Sizes that appear in hypotheses (32768 processes, the
  length of the direct blocks, the heap limit) are the capacities of the code's own counters.

  \<^bold>\<open>Not modelled.\<close> The test program, which nothing calls; the ISO reader, the register and descriptor dumps and two of the network card
  routines, which only print; the host side tools; the assembly files; and the vendored headers. The manifest lists each with its
  reason.
\<close>

end
